(* ===== verification/Prelude.thy ===== *)
theory Prelude
  imports Complex_Main "HOL-Library.Multiset" "HOL-Library.Sublist"
begin

text \<open>
  Shared vocabulary of the development: the exceptions the Python code raises, results as a sum
  with the exception on the left, the dynamically typed values that reach the code from its
  callers and from JSON files, dictionaries as association lists in insertion order, decimal
  strings, and the integer arithmetic (\<open>ceil_div\<close>, \<open>round_up\<close>) that the components share.
  Generic lemmas on results, lists and permutations are collected here, in the
  \<open>result_simps\<close> and \<open>arith_simps\<close> collections or as simp rules.
\<close>

named_theorems result_simps
named_theorems arith_simps

section \<open>Exceptions and results\<close>

text \<open>
  One constructor per exception class that the modelled code raises or catches. The argument is
  the static part of the message; parts rendered from run-time values are left out, since no
  modelled code branches on them.
\<close>

datatype exn =
    ValueError string
  | TypeError string
  | KeyError string
  | IndexError
  | ZeroDivisionError
  | StopIteration
  | AttributeError string
  | OverflowError string
  | AssertionError
  | MemoryError
  | OSError string
  | TimeoutError string
  | RuntimeError string
  | NativeUnavailable string
  | NativeBackendError string
  | CapacityRejected string

type_synonym 'a result = "exn + 'a"

text \<open>\<open>CapacityRejected\<close> is declared as a subclass of \<open>ValueError\<close>, so an
  \<open>except ValueError\<close> clause catches both. The two native error classes extend
  \<open>RuntimeError\<close>.\<close>

fun is_value_error :: "exn \<Rightarrow> bool" where
  "is_value_error (ValueError _) = True"
| "is_value_error (CapacityRejected _) = True"
| "is_value_error _ = False"

fun is_runtime_error :: "exn \<Rightarrow> bool" where
  "is_runtime_error (RuntimeError _) = True"
| "is_runtime_error (NativeUnavailable _) = True"
| "is_runtime_error (NativeBackendError _) = True"
| "is_runtime_error _ = False"

fun exn_message :: "exn \<Rightarrow> string" where
  "exn_message (ValueError m) = m"
| "exn_message (TypeError m) = m"
| "exn_message (KeyError m) = m"
| "exn_message IndexError = ''index''"
| "exn_message ZeroDivisionError = ''division by zero''"
| "exn_message StopIteration = ''''"
| "exn_message (AttributeError m) = m"
| "exn_message (OverflowError m) = m"
| "exn_message AssertionError = ''''"
| "exn_message MemoryError = ''''"
| "exn_message (OSError m) = m"
| "exn_message (TimeoutError m) = m"
| "exn_message (RuntimeError m) = m"
| "exn_message (NativeUnavailable m) = m"
| "exn_message (NativeBackendError m) = m"
| "exn_message (CapacityRejected m) = m"

text \<open>Sequencing: the continuation runs only when the first computation returned.\<close>

definition ebind :: "'a result \<Rightarrow> ('a \<Rightarrow> 'b result) \<Rightarrow> 'b result" where
  "ebind m f = (case m of Inl e \<Rightarrow> Inl e | Inr x \<Rightarrow> f x)"

definition is_ok :: "'a result \<Rightarrow> bool" where
  "is_ok m = (case m of Inl _ \<Rightarrow> False | Inr _ \<Rightarrow> True)"

text \<open>A guard that raises: \<open>if bad: raise e\<close>.\<close>

definition raise_if :: "bool \<Rightarrow> exn \<Rightarrow> unit result" where
  "raise_if bad e = (if bad then Inl e else Inr ())"

text \<open>A list comprehension whose body can raise, and a loop that threads a state.\<close>

fun emap :: "('a \<Rightarrow> 'b result) \<Rightarrow> 'a list \<Rightarrow> 'b list result" where
  "emap f [] = Inr []"
| "emap f (x # xs) = ebind (f x) (\<lambda>y. ebind (emap f xs) (\<lambda>ys. Inr (y # ys)))"

fun efold :: "('s \<Rightarrow> 'a \<Rightarrow> 's result) \<Rightarrow> 's \<Rightarrow> 'a list \<Rightarrow> 's result" where
  "efold f s [] = Inr s"
| "efold f s (x # xs) = ebind (f s x) (\<lambda>s'. efold f s' xs)"

lemma ebind_simps [simp, result_simps]:
  "ebind (Inl e) f = Inl e"
  "ebind (Inr x) f = f x"
  by (simp_all add: ebind_def)

lemma ebind_Inr_iff [result_simps]:
  "ebind m f = Inr y \<longleftrightarrow> (\<exists>x. m = Inr x \<and> f x = Inr y)"
  by (cases m) auto

lemma ebind_Inl_iff [result_simps]:
  "ebind m f = Inl e \<longleftrightarrow> m = Inl e \<or> (\<exists>x. m = Inr x \<and> f x = Inl e)"
  by (cases m) auto

lemma ebind_assoc: "ebind (ebind m f) g = ebind m (\<lambda>x. ebind (f x) g)"
  by (cases m) auto

lemma raise_if_iff [simp, result_simps]:
  "raise_if b e = Inr u \<longleftrightarrow> \<not> b"
  "raise_if b e = Inl e' \<longleftrightarrow> b \<and> e' = e"
  by (auto simp: raise_if_def)

lemma is_ok_simps [simp]: "is_ok (Inr x)" "\<not> is_ok (Inl e)"
  by (simp_all add: is_ok_def)

lemma is_ok_iff: "is_ok m \<longleftrightarrow> (\<exists>x. m = Inr x)"
  by (cases m) auto

lemma emap_Inr_iff [result_simps]:
  "emap f xs = Inr ys \<longleftrightarrow> list_all2 (\<lambda>x y. f x = Inr y) xs ys"
  by (induction xs arbitrary: ys) (auto simp: ebind_Inr_iff list_all2_Cons1)

lemma emap_Inl:
  assumes "emap f xs = Inl e"
  obtains x where "x \<in> set xs" "f x = Inl e"
  using assms by (induction xs) (auto simp: ebind_Inl_iff)

lemma emap_length: "emap f xs = Inr ys \<Longrightarrow> length ys = length xs"
  by (auto simp: emap_Inr_iff dest: list_all2_lengthD)

lemma emap_member:
  assumes "emap f xs = Inr ys" "y \<in> set ys"
  obtains x where "x \<in> set xs" "f x = Inr y"
proof -
  from assms obtain i where "i < length ys" "y = ys ! i" by (auto simp: in_set_conv_nth)
  moreover have "list_all2 (\<lambda>x y. f x = Inr y) xs ys" using assms(1) by (simp add: emap_Inr_iff)
  ultimately have "xs ! i \<in> set xs" "f (xs ! i) = Inr y"
    by (simp_all add: list_all2_conv_all_nth)
  then show ?thesis by (rule that)
qed

lemma emap_each: "emap f xs = Inr ys \<Longrightarrow> x \<in> set xs \<Longrightarrow> \<exists>y. f x = Inr y"
  by (induction xs arbitrary: ys) (auto simp: ebind_Inr_iff)

lemma emap_total: "(\<And>x. x \<in> set xs \<Longrightarrow> f x = Inr (g x)) \<Longrightarrow> emap f xs = Inr (map g xs)"
  by (induction xs) auto

lemma efold_append: "efold f s (xs @ ys) = ebind (efold f s xs) (\<lambda>s'. efold f s' ys)"
  by (induction xs arbitrary: s) (auto simp: ebind_assoc)

text \<open>The loop rule: what every iteration keeps holds of the result.\<close>

lemma efold_invariant:
  assumes "efold f s xs = Inr s'" and "P s"
    and "\<And>t x t'. x \<in> set xs \<Longrightarrow> P t \<Longrightarrow> f t x = Inr t' \<Longrightarrow> P t'"
  shows "P s'"
  using assms by (induction xs arbitrary: s) (auto simp: ebind_Inr_iff)

section \<open>Dynamically typed values\<close>

text \<open>
  What a caller or a JSON file can hand to the code. A float is an exact rational or one of the
  three non-finite values; numpy scalars, numpy arrays (by \<open>dtype.kind\<close>) and torch
  tensors (by dtype name), with the nested list that \<open>tolist()\<close> returns, are kept apart from
  Python's own values because the code tells them apart.
\<close>

datatype pyfloat = Fin rat | PosInf | NegInf | NaN

datatype pyval =
    PNone
  | PBool bool
  | PInt int
  | PFloat pyfloat
  | PStr string
  | PList "pyval list"
  | PTuple "pyval list"
  | PDict "(string \<times> pyval) list"
  | PNpBool bool
  | PNpInt int
  | PNdarray char pyval
  | PTensor string pyval

text \<open>\<open>type(x) is int\<close>: a Python integer proper, neither a bool nor a numpy scalar.\<close>

fun is_int :: "pyval \<Rightarrow> bool" where
  "is_int (PInt _) = True"
| "is_int _ = False"

fun is_str :: "pyval \<Rightarrow> bool" where
  "is_str (PStr _) = True"
| "is_str _ = False"

fun is_dict :: "pyval \<Rightarrow> bool" where
  "is_dict (PDict _) = True"
| "is_dict _ = False"

fun the_int :: "pyval \<Rightarrow> int" where
  "the_int (PInt i) = i"
| "the_int _ = 0"

text \<open>\<open>isinstance(x, Integral)\<close> accepts bools and numpy integers as well.\<close>

fun is_integral :: "pyval \<Rightarrow> bool" where
  "is_integral (PInt _) = True"
| "is_integral (PNpInt _) = True"
| "is_integral (PBool _) = True"
| "is_integral _ = False"

fun is_any_bool :: "pyval \<Rightarrow> bool" where
  "is_any_bool (PBool _) = True"
| "is_any_bool (PNpBool _) = True"
| "is_any_bool _ = False"

fun sequence_items :: "pyval \<Rightarrow> pyval list option" where
  "sequence_items (PList xs) = Some xs"
| "sequence_items (PTuple xs) = Some xs"
| "sequence_items _ = None"

text \<open>\<open>tuple(x)\<close> iterates any sequence, a string by characters, a dictionary by keys.\<close>

fun iter_items :: "pyval \<Rightarrow> pyval list option" where
  "iter_items (PList xs) = Some xs"
| "iter_items (PTuple xs) = Some xs"
| "iter_items (PStr s) = Some (map (\<lambda>c. PStr [c]) s)"
| "iter_items (PDict d) = Some (map (PStr \<circ> fst) d)"
| "iter_items (PNdarray _ v) = iter_items v"
| "iter_items _ = None"

lemma is_int_iff: "is_int v \<longleftrightarrow> (\<exists>i. v = PInt i)"
  by (cases v) auto

lemma the_int_PInt: "is_int v \<Longrightarrow> PInt (the_int v) = v"
  by (cases v) auto

section \<open>Dictionaries\<close>

text \<open>
  A dictionary keeps its insertion order: \<open>d[k] = v\<close> replaces the value in place when the key is
  present and appends the pair otherwise. Subscripting a missing key raises.
\<close>

type_synonym ('k, 'v) dict = "('k \<times> 'v) list"

fun dict_set :: "'k \<Rightarrow> 'v \<Rightarrow> ('k, 'v) dict \<Rightarrow> ('k, 'v) dict" where
  "dict_set k v [] = [(k, v)]"
| "dict_set k v ((k', v') # d) = (if k' = k then (k, v) # d else (k', v') # dict_set k v d)"

definition dict_get :: "('k, 'v) dict \<Rightarrow> 'k \<Rightarrow> 'v option" where
  "dict_get d k = map_of d k"

definition dict_update :: "('k, 'v) dict \<Rightarrow> ('k, 'v) dict \<Rightarrow> ('k, 'v) dict" where
  "dict_update d e = fold (\<lambda>(k, v) acc. dict_set k v acc) e d"

definition dict_item :: "(string, 'v) dict \<Rightarrow> string \<Rightarrow> 'v result" where
  "dict_item d k = (case map_of d k of None \<Rightarrow> Inl (KeyError k) | Some v \<Rightarrow> Inr v)"

lemma map_of_dict_set [simp]: "map_of (dict_set k v d) = (map_of d)(k \<mapsto> v)"
  by (induction d) (auto simp: fun_eq_iff)

lemma keys_dict_set [simp]: "fst ` set (dict_set k v d) = insert k (fst ` set d)"
proof (induction d)
  case (Cons p d)
  then show ?case by (cases p) (simp add: insert_commute)
qed simp

lemma dict_set_mem: "(k, v) \<in> set (dict_set k' v' d) \<Longrightarrow> (k, v) \<in> set d \<or> (k, v) = (k', v')"
  by (induction k' v' d rule: dict_set.induct) (auto split: if_splits)

lemma distinct_dict_set [simp]:
  "distinct (map fst d) \<Longrightarrow> distinct (map fst (dict_set k v d))"
proof (induction d)
  case (Cons p d)
  then show ?case by (cases p) auto
qed simp

lemma map_of_dict_update: "map_of (dict_update d e) = map_of d ++ map_of (rev e)"
proof (induction e arbitrary: d)
  case (Cons p e)
  have "dict_update d (p # e) = dict_update (dict_set (fst p) (snd p) d) e"
    by (cases p) (simp add: dict_update_def)
  with Cons.IH show ?case
    by (cases p) (auto simp: fun_eq_iff map_add_def split: option.splits)
qed (simp add: dict_update_def)

lemma dict_item_Inr_iff [result_simps]: "dict_item d k = Inr v \<longleftrightarrow> map_of d k = Some v"
  by (auto simp: dict_item_def split: option.splits)

section \<open>Decimal strings\<close>

text \<open>
  \<open>str(n)\<close> of a nonnegative integer and its inverse on strings of decimal digits. Environment
  variables carry integers in this form.
\<close>

definition digit_char :: "nat \<Rightarrow> char" where
  "digit_char d = char_of (48 + d)"

definition is_digit :: "char \<Rightarrow> bool" where
  "is_digit c \<longleftrightarrow> 48 \<le> (of_char c :: nat) \<and> (of_char c :: nat) < 58"

definition digit_value :: "char \<Rightarrow> nat" where
  "digit_value c = of_char c - 48"

fun str_nat :: "nat \<Rightarrow> string" where
  "str_nat n = (if n < 10 then [digit_char n] else str_nat (n div 10) @ [digit_char (n mod 10)])"

declare str_nat.simps [simp del]

definition str_int :: "int \<Rightarrow> string" where
  "str_int i = (if i < 0 then CHR ''-'' # str_nat (nat (- i)) else str_nat (nat i))"

definition nat_of_digits :: "string \<Rightarrow> nat" where
  "nat_of_digits s = foldl (\<lambda>acc c. 10 * acc + digit_value c) 0 s"

definition parse_nat :: "string \<Rightarrow> nat option" where
  "parse_nat s = (if s \<noteq> [] \<and> list_all is_digit s then Some (nat_of_digits s) else None)"

lemma digit_char_simps [simp]:
  "d < 10 \<Longrightarrow> is_digit (digit_char d)"
  "d < 10 \<Longrightarrow> digit_value (digit_char d) = d"
  by (simp_all add: is_digit_def digit_char_def digit_value_def)

lemma str_nat_nonempty [simp]: "str_nat n \<noteq> []"
  by (subst str_nat.simps) simp

lemma str_nat_digits: "list_all is_digit (str_nat n)"
  by (induction n rule: str_nat.induct) (subst str_nat.simps, simp)

lemma nat_of_digits_str_nat: "nat_of_digits (str_nat n) = n"
proof (induction n rule: str_nat.induct)
  case (1 n)
  show ?case
  proof (cases "n < 10")
    case True
    then show ?thesis by (subst str_nat.simps) (simp add: nat_of_digits_def)
  next
    case False
    with 1 have "nat_of_digits (str_nat (n div 10)) = n div 10" by simp
    with False show ?thesis
      by (subst str_nat.simps) (simp add: nat_of_digits_def)
  qed
qed

lemma parse_str_nat [simp]: "parse_nat (str_nat n) = Some n"
  by (simp add: parse_nat_def str_nat_digits nat_of_digits_str_nat)

lemma str_nat_inject [simp]: "str_nat m = str_nat n \<longleftrightarrow> m = n"
  by (metis parse_str_nat option.inject)

section \<open>Integer arithmetic\<close>

text \<open>\<open>(a + b - 1) // b\<close> and the next multiple, on Python integers.\<close>

definition ceil_div :: "int \<Rightarrow> int \<Rightarrow> int" where
  "ceil_div a b = (a + b - 1) div b"

definition round_up :: "int \<Rightarrow> int \<Rightarrow> int" where
  "round_up a b = ceil_div a b * b"

lemma ceil_div_mult_ge [arith_simps]: "0 < b \<Longrightarrow> a \<le> ceil_div a b * b"
proof -
  assume b: "0 < b"
  have "(a + b - 1) div b * b = a + b - 1 - (a + b - 1) mod b"
    by (simp add: minus_mod_eq_div_mult [symmetric])
  moreover have "(a + b - 1) mod b \<le> b - 1"
    using pos_mod_bound [OF b, of "a + b - 1"] by linarith
  ultimately show ?thesis
    by (simp add: ceil_div_def)
qed

lemma ceil_div_mult_less [arith_simps]: "0 < b \<Longrightarrow> ceil_div a b * b < a + b"
proof -
  assume b: "0 < b"
  have "(a + b - 1) div b * b \<le> a + b - 1"
    using pos_mod_sign [OF b, of "a + b - 1"]
    by (simp add: minus_mod_eq_div_mult [symmetric])
  then show ?thesis
    by (simp add: ceil_div_def)
qed

lemma le_floor_div_iff: "0 < b \<Longrightarrow> k \<le> a div b \<longleftrightarrow> k * b \<le> a" for a b k :: int
proof
  assume b: "0 < b" and "k \<le> a div b"
  then have "k * b \<le> a div b * b" by (simp add: mult_right_mono)
  also have "\<dots> \<le> a" using b pos_mod_sign [OF b, of a] by (simp add: minus_mod_eq_div_mult [symmetric])
  finally show "k * b \<le> a" .
next
  assume b: "0 < b" and k: "k * b \<le> a"
  have "a < a div b * b + b"
    using pos_mod_bound [OF b, of a] by (simp add: minus_mod_eq_div_mult [symmetric])
  then have "k * b < (a div b + 1) * b" using k by (simp add: distrib_right)
  with b show "k \<le> a div b" by simp
qed

lemma ceil_div_le_iff: "0 < b \<Longrightarrow> ceil_div a b \<le> k \<longleftrightarrow> a \<le> k * b"
proof
  assume b: "0 < b" and "ceil_div a b \<le> k"
  then have "ceil_div a b * b \<le> k * b" by (simp add: mult_right_mono)
  with ceil_div_mult_ge [OF b, of a] show "a \<le> k * b" by linarith
next
  assume b: "0 < b" and a: "a \<le> k * b"
  with ceil_div_mult_less [OF b, of a] have "ceil_div a b * b < (k + 1) * b"
    by (simp add: algebra_simps)
  with b show "ceil_div a b \<le> k" by simp
qed

lemma less_ceil_div_iff: "0 < b \<Longrightarrow> k < ceil_div a b \<longleftrightarrow> k * b < a"
  using ceil_div_le_iff [of b a k] by linarith

lemma ceil_div_mono: "0 < b \<Longrightarrow> a \<le> a' \<Longrightarrow> ceil_div a b \<le> ceil_div a' b"
  by (simp add: ceil_div_def zdiv_mono1)

lemma ceil_div_pos: "0 < b \<Longrightarrow> 0 < a \<Longrightarrow> 0 < ceil_div a b"
  by (simp add: less_ceil_div_iff)

lemma ceil_div_nonneg: "0 < b \<Longrightarrow> 0 \<le> a \<Longrightarrow> 0 \<le> ceil_div a b"
  by (simp add: ceil_div_def pos_imp_zdiv_nonneg_iff)

lemma round_up_ge [arith_simps]: "0 < b \<Longrightarrow> a \<le> round_up a b"
  by (simp add: round_up_def ceil_div_mult_ge)

lemma round_up_less: "0 < b \<Longrightarrow> round_up a b < a + b"
  by (simp add: round_up_def ceil_div_mult_less)

lemma round_up_dvd [simp]: "b dvd round_up a b"
  by (simp add: round_up_def)

lemma round_up_mono: "0 < b \<Longrightarrow> a \<le> a' \<Longrightarrow> round_up a b \<le> round_up a' b"
  by (simp add: round_up_def ceil_div_mono mult_right_mono)

lemma round_up_least: "0 < b \<Longrightarrow> b dvd k \<Longrightarrow> a \<le> k \<Longrightarrow> round_up a b \<le> k"
proof -
  assume b: "0 < b" and "b dvd k" and a: "a \<le> k"
  then obtain q where k: "k = q * b" by (auto elim: dvdE simp: mult.commute)
  with a b have "ceil_div a b \<le> q" by (simp add: ceil_div_le_iff)
  with b show ?thesis by (simp add: round_up_def k mult_right_mono)
qed

section \<open>Lists\<close>

text \<open>\<open>dict.fromkeys(xs)\<close>: the distinct elements in order of first occurrence.\<close>

fun unique_in_order :: "'a list \<Rightarrow> 'a list" where
  "unique_in_order [] = []"
| "unique_in_order (x # xs) = x # filter (\<lambda>y. y \<noteq> x) (unique_in_order xs)"

lemma set_unique_in_order [simp]: "set (unique_in_order xs) = set xs"
  by (induction xs) auto

lemma distinct_unique_in_order [simp]: "distinct (unique_in_order xs)"
  by (induction xs) auto

text \<open>\<open>min(xs, key=f)\<close> on a nonempty list: the first element whose key is minimal.\<close>

fun min_by :: "('a \<Rightarrow> 'b::linorder) \<Rightarrow> 'a \<Rightarrow> 'a list \<Rightarrow> 'a" where
  "min_by f best [] = best"
| "min_by f best (x # xs) = min_by f (if f x < f best then x else best) xs"

definition py_min :: "('a \<Rightarrow> 'b::linorder) \<Rightarrow> 'a list \<Rightarrow> 'a option" where
  "py_min f xs = (case xs of [] \<Rightarrow> None | x # ys \<Rightarrow> Some (min_by f x ys))"

lemma min_by_mem: "min_by f b xs \<in> insert b (set xs)"
  by (induction xs arbitrary: b) (auto split: if_splits)

lemma min_by_le: "y \<in> insert b (set xs) \<Longrightarrow> f (min_by f b xs) \<le> f y"
proof (induction xs arbitrary: b y)
  case (Cons x xs)
  let ?b = "if f x < f b then x else b"
  have "f (min_by f ?b xs) \<le> f ?b" using Cons.IH [of ?b ?b] by simp
  moreover have "y \<in> set xs \<Longrightarrow> f (min_by f ?b xs) \<le> f y" using Cons.IH [of y ?b] by simp
  ultimately show ?case using Cons.prems by (auto split: if_splits)
qed simp

lemma py_min_Some:
  assumes "py_min f xs = Some m"
  shows "m \<in> set xs \<and> (\<forall>y \<in> set xs. f m \<le> f y)"
proof -
  from assms obtain x ys where "xs = x # ys" "m = min_by f x ys"
    by (auto simp: py_min_def split: list.splits)
  then show ?thesis using min_by_mem [of f x ys] min_by_le [of _ x ys f] by simp
qed

lemma py_min_None [simp]: "py_min f xs = None \<longleftrightarrow> xs = []"
  by (cases xs) (simp_all add: py_min_def)

text \<open>\<open>xs.index(x)\<close>: the first position of \<open>x\<close>, absent when \<open>x\<close> does not occur.\<close>

fun index_of :: "'a list \<Rightarrow> 'a \<Rightarrow> nat option" where
  "index_of [] x = None"
| "index_of (y # ys) x = (if y = x then Some 0 else map_option Suc (index_of ys x))"

lemma index_of_Some: "index_of xs x = Some i \<Longrightarrow> i < length xs \<and> xs ! i = x"
  by (induction xs arbitrary: i) (auto split: if_splits)

lemma index_of_None [simp]: "index_of xs x = None \<longleftrightarrow> x \<notin> set xs"
  by (induction xs) auto

lemma index_of_nth: "distinct xs \<Longrightarrow> i < length xs \<Longrightarrow> index_of xs (xs ! i) = Some i"
proof (induction xs arbitrary: i)
  case (Cons x xs)
  then show ?case by (cases i) auto
qed simp

text \<open>\<open>s.split(sep)\<close> for a one-character separator: \<open>''.split('.')\<close> is the list of one empty string.\<close>

fun split_on :: "char \<Rightarrow> string \<Rightarrow> string list" where
  "split_on c [] = [[]]"
| "split_on c (x # xs) =
     (if x = c then [] # split_on c xs
      else (case split_on c xs of [] \<Rightarrow> [[x]] | w # ws \<Rightarrow> (x # w) # ws))"

fun join_with :: "char \<Rightarrow> string list \<Rightarrow> string" where
  "join_with c [] = []"
| "join_with c [w] = w"
| "join_with c (w # ws) = w @ c # join_with c ws"

lemma split_on_nonempty [simp]: "split_on c s \<noteq> []"
  by (induction s) (auto split: list.splits)

lemma split_on_append:
  "c \<notin> set w \<Longrightarrow> split_on c (w @ c # s) = w # split_on c s"
  by (induction w) auto

lemma split_on_word: "c \<notin> set w \<Longrightarrow> split_on c w = [w]"
  by (induction w) auto

lemma split_join:
  "ws \<noteq> [] \<Longrightarrow> \<forall>w \<in> set ws. c \<notin> set w \<Longrightarrow> split_on c (join_with c ws) = ws"
  by (induction c ws rule: join_with.induct) (simp_all add: split_on_append split_on_word)

lemma split_on_no_sep: "w \<in> set (split_on c s) \<Longrightarrow> c \<notin> set w"
  by (induction s arbitrary: w) (auto split: list.splits if_splits)

lemma join_split [simp]: "join_with c (split_on c s) = s"
proof (induction s)
  case (Cons x s)
  obtain w ws where "split_on c s = w # ws"
    by (cases "split_on c s") simp_all
  with Cons show ?case by (cases ws) auto
qed simp

text \<open>A list with the entries \<open>0, ..., n - 1\<close> in some order.\<close>

definition is_perm :: "nat \<Rightarrow> nat list \<Rightarrow> bool" where
  "is_perm n g \<longleftrightarrow> sort g = [0..<n]"

lemma is_perm_iff: "is_perm n g \<longleftrightarrow> distinct g \<and> set g = {..<n}"
proof
  assume h: "is_perm n g"
  have "set g = set (sort g)" by simp
  also have "\<dots> = {..<n}" using h by (auto simp: is_perm_def)
  finally have "set g = {..<n}" .
  moreover have "distinct g"
    using h unfolding is_perm_def by (metis distinct_sort distinct_upt)
  ultimately show "distinct g \<and> set g = {..<n}" by simp
next
  assume h: "distinct g \<and> set g = {..<n}"
  have "sort g = [0..<n]"
    by (rule sorted_distinct_set_unique) (use h in \<open>auto simp: atLeast0LessThan\<close>)
  then show "is_perm n g" by (simp add: is_perm_def)
qed

lemma is_perm_length: "is_perm n g \<Longrightarrow> length g = n"
  by (metis is_perm_def length_sort length_upt diff_zero)

lemma is_perm_nth_less: "is_perm n g \<Longrightarrow> i < n \<Longrightarrow> g ! i < n"
  by (metis is_perm_iff is_perm_length lessThan_iff nth_mem)

end
