(* ===== verification/CnotDomain.thy ===== *)
theory CnotDomain
  imports Prelude "HOL-Library.Word"
begin

unbundle bit_operations_syntax

text \<open>
  The packed GF(2) domain of the CNOT search: row integers and their little-endian 64-bit lanes
  (\<open>pack_rows\<close>, \<open>replay_cnot\<close> and the input check of \<open>cnot.py\<close>) and the primitives of
  \<open>cnot_native.py\<close> on packed matrices (identity, children, routes, owners, first unseen state), along
  their CPU branches. The CUDA branches call the native operator library and are not modelled.
  A matrix is the list of its rows, a row the list of its 64-bit lanes; a batch is a list of matrices.
\<close>

type_synonym row = "64 word list"
type_synonym matrix = "row list"

definition lanes :: "nat \<Rightarrow> nat" where
  "lanes n = (n + 63) div 64"

definition alphabet :: "nat \<Rightarrow> nat" where
  "alphabet n = n * (n - 1)"

section \<open>Row integers\<close>

definition pack_row :: "nat \<Rightarrow> nat \<Rightarrow> row" where
  "pack_row words r = map (\<lambda>j. word_of_nat (r div 2 ^ (64 * j))) [0..<words]"

fun unpack_row :: "row \<Rightarrow> nat" where
  "unpack_row [] = 0"
| "unpack_row (w # ws) = unat w + 2 ^ 64 * unpack_row ws"

text \<open>\<open>isinstance(row, int)\<close> holds of a bool as well.\<close>

fun python_int :: "pyval \<Rightarrow> int option" where
  "python_int (PInt i) = Some i"
| "python_int (PBool b) = Some (of_bool b)"
| "python_int _ = None"

definition row_ok :: "nat \<Rightarrow> pyval \<Rightarrow> bool" where
  "row_ok n v = (case python_int v of None \<Rightarrow> False | Some i \<Rightarrow> 0 \<le> i \<and> i < 2 ^ n)"

definition pack_rows :: "pyval list \<Rightarrow> matrix result" where
  "pack_rows rows =
     (let n = length rows in
      if \<not> (2 \<le> n \<and> n \<le> 256) \<or> \<not> list_all (row_ok n) rows
      then Inl (ValueError ''expected 2..256 nonnegative n-bit row integers'')
      else Inr (map (\<lambda>v. pack_row (lanes n) (nat (the (python_int v)))) rows))"

section \<open>Physical moves and replay\<close>

text \<open>\<open>control, slot = divmod(move, n - 1)\<close>; the target skips the control.\<close>

definition move_control :: "nat \<Rightarrow> nat \<Rightarrow> nat" where
  "move_control n move = move div (n - 1)"

definition move_target :: "nat \<Rightarrow> nat \<Rightarrow> nat" where
  "move_target n move =
     (let slot = move mod (n - 1) in slot + (if move_control n move \<le> slot then 1 else 0))"

fun replay_gates :: "nat \<Rightarrow> nat list \<Rightarrow> int list \<Rightarrow> nat list result" where
  "replay_gates n rows [] = Inr rows"
| "replay_gates n rows (g # gs) =
     (if \<not> (0 \<le> g \<and> g < int (alphabet n))
      then Inl (ValueError ''physical CNOT ID outside alphabet'')
      else let move = nat g; control = move_control n move; target = move_target n move in
           replay_gates n (rows[target := rows ! target XOR rows ! control]) gs)"

definition replay_cnot :: "nat \<Rightarrow> int list \<Rightarrow> nat list result" where
  "replay_cnot n gates = replay_gates n (map (\<lambda>r. push_bit r 1) [0..<n]) gates"

section \<open>The input check\<close>

fun bit_length :: "nat \<Rightarrow> nat" where
  "bit_length r = (if r = 0 then 0 else Suc (bit_length (r div 2)))"

declare bit_length.simps [simp del]

text \<open>\<open>while row and row.bit_length() in pivots: row ^= pivots[row.bit_length()]\<close>. The fuel is the
  bit length of the row, which every round lowers (lemma \<open>reduce_row_enough\<close>).\<close>

fun reduce_row :: "nat \<Rightarrow> (nat \<rightharpoonup> nat) \<Rightarrow> nat \<Rightarrow> nat option" where
  "reduce_row 0 pivots r = (if r = 0 \<or> pivots (bit_length r) = None then Some r else None)"
| "reduce_row (Suc fuel) pivots r =
     (if r = 0 then Some r
      else case pivots (bit_length r) of
             None \<Rightarrow> Some r
           | Some p \<Rightarrow> reduce_row fuel pivots (r XOR p))"

fun eliminate :: "(nat \<rightharpoonup> nat) \<Rightarrow> nat list \<Rightarrow> (nat \<rightharpoonup> nat) result" where
  "eliminate pivots [] = Inr pivots"
| "eliminate pivots (r # rs) =
     (case reduce_row (bit_length r) pivots r of
        None \<Rightarrow> Inl (RuntimeError ''fuel'')
      | Some r' \<Rightarrow>
          if r' = 0 then Inl (ValueError ''CNOT matrix is singular'')
          else eliminate (pivots(bit_length r' \<mapsto> r')) rs)"

text \<open>The search settings arrive as Python values; a bool or a float is refused like a bad number.\<close>

definition bad_settings :: "nat \<Rightarrow> pyval \<Rightarrow> pyval \<Rightarrow> pyval \<Rightarrow> bool" where
  "bad_settings n width shortlist depth \<longleftrightarrow>
     \<not> list_all is_int [width, shortlist, depth]
     \<or> \<not> (1 \<le> the_int width \<and> the_int width \<le> (2 ^ 63 - 1) div int (alphabet n)
          \<and> 1 \<le> the_int shortlist \<and> 0 \<le> the_int depth)"

definition check_input :: "matrix \<Rightarrow> pyval \<Rightarrow> pyval \<Rightarrow> pyval \<Rightarrow> string \<Rightarrow> nat list result" where
  "check_input m width shortlist depth mode =
     (let n = length m in
      if \<not> (2 \<le> n \<and> n \<le> 256) \<or> \<not> list_all (\<lambda>r. length r = lanes n) m
      then Inl (ValueError ''CNOT shape requires 2..256 qubits and ceil(n/64) words per row'')
      else if bad_settings n width shortlist depth
      then Inl (ValueError ''invalid global width, shortlist, or depth'')
      else if mode \<notin> {''qhat'', ''proposal''}
      then Inl (ValueError ''mode must be qhat or proposal'')
      else let rows = map unpack_row m in
        if \<not> list_all (\<lambda>r. bit_length r \<le> n) rows
        then Inl (ValueError ''nonzero CNOT row padding'')
        else ebind (eliminate Map.empty rows) (\<lambda>_. Inr rows))"

section \<open>Primitives on packed matrices\<close>

definition tail_mask :: "nat \<Rightarrow> 64 word" where
  "tail_mask n = (if n mod 64 = 0 then -1 else mask (n mod 64))"

text \<open>\<open>children[..., -1] &= mask\<close>: only the last lane is masked.\<close>

definition mask_row :: "nat \<Rightarrow> row \<Rightarrow> row" where
  "mask_row n r = (if r = [] then [] else butlast r @ [last r AND tail_mask n])"

definition mask_matrix :: "nat \<Rightarrow> matrix \<Rightarrow> matrix" where
  "mask_matrix n m = map (mask_row n) m"

definition cnot_identity :: "nat \<Rightarrow> matrix" where
  "cnot_identity n =
     map (\<lambda>r. (replicate (lanes n) 0)[r div 64 := push_bit (r mod 64) 1]) [0..<n]"

definition check_states :: "nat \<Rightarrow> matrix list \<Rightarrow> unit result" where
  "check_states n packed =
     raise_if (\<not> (1 \<le> n \<and> n \<le> 256)
               \<or> \<not> list_all (\<lambda>m. length m = n \<and> list_all (\<lambda>r. length r = lanes n) m) packed)
       (ValueError ''packed CNOT matrices require 1..256 qubits and ceil(n/64) words per row'')"

definition cnot_is_identity :: "nat \<Rightarrow> matrix \<Rightarrow> bool result" where
  "cnot_is_identity n m =
     ebind (check_states n [m]) (\<lambda>_. Inr (mask_matrix n m = cnot_identity n))"

definition xor_row :: "row \<Rightarrow> row \<Rightarrow> row" where
  "xor_row a b = map2 (XOR) a b"

definition apply_cnot :: "nat \<Rightarrow> nat \<Rightarrow> matrix \<Rightarrow> matrix" where
  "apply_cnot n move m =
     mask_matrix n (m[move_target n move := xor_row (m ! move_target n move) (m ! move_control n move)])"

text \<open>A descriptor outside the alphabet is refused for the whole batch, as is any on one qubit.\<close>

definition cnot_children :: "nat \<Rightarrow> matrix list \<Rightarrow> (nat \<times> int) list \<Rightarrow> matrix list result" where
  "cnot_children n parents descriptors =
     ebind (check_states n parents) (\<lambda>_.
      if \<not> list_all (\<lambda>(i, _). i < length parents) descriptors then Inl IndexError
      else if descriptors = [] then Inr []
      else if n = 1 \<or> \<not> list_all (\<lambda>(_, move). 0 \<le> move \<and> move < int (alphabet n)) descriptors
      then Inl (ValueError ''CNOT move is outside the physical alphabet'')
      else Inr (map (\<lambda>(i, move). apply_cnot n (nat move) (parents ! i)) descriptors))"

text \<open>Routes: the source rank above the 16-bit move, in one nonnegative 32-bit lane.\<close>

definition pack_cnot_route :: "int \<Rightarrow> int \<Rightarrow> int result" where
  "pack_cnot_route source_rank move =
     (if \<not> (0 \<le> source_rank \<and> source_rank < 65536)
      then Inl (ValueError ''CNOT source rank must fit uint16'')
      else if \<not> (0 \<le> move \<and> move \<le> 65535)
      then Inl (RuntimeError ''CNOT move must fit uint16'')
      else Inr (move OR push_bit 16 source_rank))"

definition unpack_cnot_route :: "int \<Rightarrow> (int \<times> int) result" where
  "unpack_cnot_route route =
     (if \<not> (0 \<le> route \<and> route \<le> 0xffffffff)
      then Inl (RuntimeError ''CNOT route must fit uint32'')
      else Inr (drop_bit 16 route, route AND 0xffff))"

text \<open>The position hash that assigns a state to its owner rank; all operations wrap at 64 bits.\<close>

definition mix64 :: "64 word \<Rightarrow> 64 word" where
  "mix64 v0 =
     (let v1 = (v0 XOR drop_bit 30 v0) * 0xbf58476d1ce4e5b9;
          v2 = (v1 XOR drop_bit 27 v1) * 0x94d049bb133111eb
      in v2 XOR drop_bit 31 v2)"

definition state_hash :: "nat \<Rightarrow> matrix \<Rightarrow> 64 word" where
  "state_hash n m =
     (let ws = concat (mask_matrix n m);
          positions = map word_of_nat [1..<length ws + 1];
          lo = foldl (XOR) 0 (map2 (\<lambda>w p. mix64 (w XOR (p * 0x9e3779b97f4a7c15))) ws positions);
          hi = foldl (XOR) 0 (map2 (\<lambda>w p. mix64 (w + p * 0xd6e8feb86659fd93)) ws positions);
          lo' = lo XOR word_of_nat n;
          hi' = hi XOR push_bit 32 (word_of_nat n);
          mixed = lo' XOR (push_bit 32 hi' OR drop_bit 32 hi') XOR 0x243f6a8885a308d3;
          mixed' = mixed XOR mix64 (hi' + 0x9e3779b97f4a7c15)
      in mix64 mixed')"

definition cnot_owner :: "nat \<Rightarrow> int \<Rightarrow> matrix \<Rightarrow> nat result" where
  "cnot_owner n world_size m =
     ebind (check_states n [m]) (\<lambda>_.
      if \<not> (1 \<le> world_size \<and> world_size \<le> 65536)
      then Inl (ValueError ''CNOT world size must be in [1, 65536]'')
      else Inr (unat (state_hash n m mod word_of_int world_size)))"

text \<open>
  \<open>torch.unique\<close> groups equal states of \<open>closed\<close> followed by \<open>children\<close>, the scatter keeps each
  group's least ordinal, and a child is reported when it is that least ordinal itself.
\<close>

definition least_ordinal :: "'a list \<Rightarrow> nat \<Rightarrow> nat" where
  "least_ordinal states k = the (index_of states (states ! k))"

definition cnot_first_unseen :: "nat \<Rightarrow> matrix list \<Rightarrow> matrix list \<Rightarrow> nat list result" where
  "cnot_first_unseen n seen children =
     ebind (check_states n (seen @ children)) (\<lambda>_.
      let states = map (mask_matrix n) (seen @ children) in
      Inr (filter (\<lambda>i. least_ordinal states (length seen + i) = length seen + i)
             [0..<length children]))"

section \<open>Lanes and row integers\<close>

lemma pack_row_Suc: "pack_row (Suc w) r = word_of_nat r # pack_row w (r div 2 ^ 64)"
proof -
  have "[0..<Suc w] = 0 # map Suc [0..<w]"
    by (simp add: map_Suc_upt upt_conv_Cons del: upt_Suc)
  then show ?thesis
    by (simp add: pack_row_def power_add div_mult2_eq del: upt_Suc)
qed

lemma unpack_pack_row: "r < 2 ^ (64 * w) \<Longrightarrow> unpack_row (pack_row w r) = r"
proof (induction w arbitrary: r)
  case (Suc w)
  have "r div 2 ^ 64 < 2 ^ (64 * w)"
    using Suc.prems by (simp add: less_mult_imp_div_less power_add mult.commute)
  with Suc.IH show ?case
    by (simp add: pack_row_Suc unsigned_of_nat take_bit_eq_mod)
qed (simp add: pack_row_def)

lemma length_pack_row [simp]: "length (pack_row w r) = w"
  by (simp add: pack_row_def)

lemma lanes_bounds: "n \<le> 64 * lanes n" "0 < n \<Longrightarrow> 64 * (lanes n - 1) < n" "0 < n \<Longrightarrow> 0 < lanes n"
  unfolding lanes_def by linarith+

lemma bit_split_64:
  assumes "u < 2 ^ 64"
  shows "bit (u + 2 ^ 64 * x :: nat) k = (if k < 64 then bit u k else bit x (k - 64))"
proof (cases "k < 64")
  case True
  then have "(2::nat) ^ 64 = 2 ^ (64 - k) * 2 ^ k" by (simp flip: power_add)
  then have "u + 2 ^ 64 * x = u + 2 ^ (64 - k) * x * 2 ^ k"
    by (metis mult.assoc mult.commute)
  moreover have "(u + 2 ^ (64 - k) * x * 2 ^ k) div 2 ^ k = 2 ^ (64 - k) * x + u div 2 ^ k"
    by (rule div_mult_self1) simp
  ultimately have "(u + 2 ^ 64 * x) div 2 ^ k = 2 ^ (64 - k) * x + u div 2 ^ k" by metis
  with True show ?thesis by (simp add: bit_iff_odd)
next
  case False
  then have "(2::nat) ^ k = 2 ^ 64 * 2 ^ (k - 64)"
    by (metis le_add_diff_inverse not_less power_add)
  then have "(u + 2 ^ 64 * x) div 2 ^ k = ((u + 2 ^ 64 * x) div 2 ^ 64) div 2 ^ (k - 64)"
    by (simp only: div_mult2_eq)
  also have "(u + 2 ^ 64 * x) div 2 ^ 64 = x" using assms by simp
  finally show ?thesis using False by (simp add: bit_iff_odd)
qed

lemma unat_less_64: "unat (w :: 64 word) < 2 ^ 64"
  using unsigned_less [of w] by simp

lemma unpack_xor_row:
  "length a = length b \<Longrightarrow> unpack_row (xor_row a b) = unpack_row a XOR unpack_row b"
proof (induction a b rule: list_induct2)
  case (Cons x xs y ys)
  have "(unat x XOR unat y) + 2 ^ 64 * (unpack_row xs XOR unpack_row ys)
      = (unat x + 2 ^ 64 * unpack_row xs) XOR (unat y + 2 ^ 64 * unpack_row ys)"
  proof (rule bit_eqI)
    fix k
    have "unat x XOR unat y < 2 ^ 64"
      using unat_less_64 [of "x XOR y"] by (simp add: unsigned_xor_eq)
    then show "bit ((unat x XOR unat y) + 2 ^ 64 * (unpack_row xs XOR unpack_row ys)) k
        = bit ((unat x + 2 ^ 64 * unpack_row xs) XOR (unat y + 2 ^ 64 * unpack_row ys)) k"
      by (simp only: bit_split_64 unat_less_64 bit_xor_iff) simp
  qed
  with Cons show ?case by (simp add: xor_row_def unsigned_xor_eq)
qed (simp add: xor_row_def)

lemma length_xor_row [simp]: "length (xor_row a b) = min (length a) (length b)"
  by (simp add: xor_row_def)

lemma unpack_append: "unpack_row (a @ b) = unpack_row a + 2 ^ (64 * length a) * unpack_row b"
  by (induction a) (simp_all add: algebra_simps power_add)

lemma unpack_bound: "unpack_row r < 2 ^ (64 * length r)"
proof (induction r)
  case (Cons w ws)
  have "unat w + 2 ^ 64 * unpack_row ws < 2 ^ 64 + 2 ^ 64 * unpack_row ws"
    using unat_less_64 [of w] by simp
  also have "\<dots> = 2 ^ 64 * Suc (unpack_row ws)" by simp
  also have "\<dots> \<le> 2 ^ 64 * 2 ^ (64 * length ws)"
    using Cons by (intro mult_le_mono2) simp
  finally show ?case by (simp add: power_add)
qed simp

lemma unpack_inject:
  "length a = length b \<Longrightarrow> unpack_row a = unpack_row b \<longleftrightarrow> a = b"
proof (induction a b rule: list_induct2)
  case (Cons x xs y ys)
  have "unat x = unat y \<and> unpack_row xs = unpack_row ys"
    if h: "unat x + 2 ^ 64 * unpack_row xs = unat y + 2 ^ 64 * unpack_row ys"
  proof -
    have "(unat x + 2 ^ 64 * unpack_row xs) mod 2 ^ 64 = (unat y + 2 ^ 64 * unpack_row ys) mod 2 ^ 64"
      using h by simp
    then have "unat x = unat y" using unat_less_64 [of x] unat_less_64 [of y] by simp
    with h show ?thesis by simp
  qed
  with Cons show ?case by (auto simp: word_unat_eq_iff)
qed simp

end
