(* ===== verification/CnotGf2.thy ===== *)
theory CnotGf2
  imports CnotDomain
begin

text \<open>
  The linear algebra behind the CNOT search: the Gaussian elimination of the input check decides
  singularity exactly, a physical move is a row addition that undoes itself, the packed primitives
  compute the row-integer semantics, and routes, owners and the unseen filter meet their contracts.
\<close>

section \<open>Bit lengths\<close>

lemma bit_length_0 [simp]: "bit_length 0 = 0"
  by (simp add: bit_length.simps)

lemma bit_length_pos: "r \<noteq> 0 \<Longrightarrow> bit_length r = Suc (bit_length (r div 2))"
  by (subst bit_length.simps) simp

lemma xor_zero_iff: "(a XOR b :: nat) = 0 \<longleftrightarrow> b = a"
proof
  assume "a XOR b = 0"
  then have "a XOR (a XOR b) = a" by simp
  then show "b = a" by (simp flip: xor.assoc)
qed simp

lemma bit_length_le_iff: "bit_length r \<le> k \<longleftrightarrow> r < 2 ^ k"
proof (induction k arbitrary: r)
  case 0
  then show ?case by (cases "r = 0") (simp_all add: bit_length_pos)
next
  case (Suc k)
  show ?case
  proof (cases "r = 0")
    case False
    then have "bit_length r \<le> Suc k \<longleftrightarrow> r div 2 < 2 ^ k"
      using Suc.IH by (simp add: bit_length_pos)
    also have "\<dots> \<longleftrightarrow> r < 2 ^ Suc k" by auto
    finally show ?thesis .
  qed simp
qed

lemma bit_length_eq_iff: "bit_length r = Suc k \<longleftrightarrow> 2 ^ k \<le> r \<and> r < 2 ^ Suc k"
  using bit_length_le_iff [of r k] bit_length_le_iff [of r "Suc k"] by (auto simp: not_le)

lemma bit_length_eq_0 [simp]: "bit_length r = 0 \<longleftrightarrow> r = 0"
  using bit_length_le_iff [of r 0] by auto

lemma xor_less_power: "a < 2 ^ k \<Longrightarrow> b < 2 ^ k \<Longrightarrow> (a XOR b :: nat) < 2 ^ k"
  by (simp add: take_bit_xor flip: take_bit_nat_eq_self_iff)

lemma top_bit: "2 ^ k \<le> (a :: nat) \<Longrightarrow> a < 2 ^ Suc k \<Longrightarrow> bit a k"
proof -
  assume "2 ^ k \<le> a" "a < 2 ^ Suc k"
  then have "a div 2 ^ k = 1"
    by (simp add: div_nat_eqI)
  then show ?thesis by (simp add: bit_iff_odd)
qed

lemma no_bit_above: "(a :: nat) < 2 ^ k \<Longrightarrow> k \<le> j \<Longrightarrow> \<not> bit a j"
  by (metis bit_take_bit_iff linorder_not_le take_bit_nat_eq_self)

lemma less_power_if_top_clear: "(a :: nat) < 2 ^ Suc k \<Longrightarrow> \<not> bit a k \<Longrightarrow> a < 2 ^ k"
  using top_bit not_le by blast

text \<open>Adding rows of different lengths keeps the longer length; of the same length, shortens.\<close>

lemma bit_length_xor_less:
  assumes "bit_length a < bit_length b"
  shows "bit_length (a XOR b) = bit_length b"
proof -
  obtain k where k: "bit_length b = Suc k" using assms by (cases "bit_length b") auto
  then have b: "2 ^ k \<le> b" "b < 2 ^ Suc k" by (simp_all add: bit_length_eq_iff)
  have a: "a < 2 ^ k" using assms k by (simp flip: bit_length_le_iff)
  then have "a < 2 ^ Suc k" by simp
  then have less: "a XOR b < 2 ^ Suc k" using b(2) by (rule xor_less_power)
  have "bit (a XOR b) k" using no_bit_above [OF a] top_bit [OF b] by (simp add: bit_xor_iff)
  then have "\<not> a XOR b < 2 ^ k" using no_bit_above by blast
  with less have "bit_length (a XOR b) = Suc k" by (auto simp: bit_length_eq_iff not_less)
  with k show ?thesis by simp
qed

lemma bit_length_xor_eq:
  assumes "bit_length a = bit_length b" "a \<noteq> 0"
  shows "bit_length (a XOR b) < bit_length a"
proof -
  obtain k where k: "bit_length a = Suc k" using assms(2) by (cases "bit_length a") auto
  then have a: "2 ^ k \<le> a" "a < 2 ^ Suc k" by (simp_all add: bit_length_eq_iff)
  have "bit_length b = Suc k" using assms(1) k by simp
  then have b: "2 ^ k \<le> b" "b < 2 ^ Suc k" by (simp_all add: bit_length_eq_iff)
  have "\<not> bit (a XOR b) k" using top_bit [OF a] top_bit [OF b] by (simp add: bit_xor_iff)
  then have "a XOR b < 2 ^ k" using xor_less_power [OF a(2) b(2)] less_power_if_top_clear by blast
  then show ?thesis using k by (simp add: less_Suc_eq_le bit_length_le_iff)
qed

section \<open>Elimination decides singularity\<close>

text \<open>All sums of selections of the rows; a list is dependent when a nonempty selection sums to zero.\<close>

fun selection_sum :: "bool list \<Rightarrow> nat list \<Rightarrow> nat" where
  "selection_sum (b # bs) (r # rs) = (if b then r XOR selection_sum bs rs else selection_sum bs rs)"
| "selection_sum _ _ = 0"

definition dependent_rows :: "nat list \<Rightarrow> bool" where
  "dependent_rows rs \<longleftrightarrow>
     (\<exists>bs. length bs = length rs \<and> True \<in> set bs \<and> selection_sum bs rs = 0)"

definition row_span :: "nat list \<Rightarrow> nat set" where
  "row_span rs = {selection_sum bs rs | bs. length bs = length rs}"

lemma selection_sum_append:
  "length bs = length rs \<Longrightarrow>
     selection_sum (bs @ [b]) (rs @ [r]) = selection_sum bs rs XOR (if b then r else 0)"
  by (induction bs rs rule: list_induct2) (auto simp: ac_simps xor.assoc)

lemma selection_sum_xor:
  "length bs = length rs \<Longrightarrow> length cs = length rs \<Longrightarrow>
     selection_sum bs rs XOR selection_sum cs rs = selection_sum (map2 (\<noteq>) bs cs) rs"
proof (induction bs rs arbitrary: cs rule: list_induct2)
  case (Cons b bs r rs)
  then obtain d ds where cs: "cs = d # ds" "length ds = length rs" by (cases cs) auto
  note IH = Cons.IH [OF cs(2), symmetric]
  have r: "r XOR (r XOR x) = x" for x :: nat by (simp flip: xor.assoc)
  have r': "r XOR (x XOR (r XOR y)) = x XOR y" for x y :: nat
    by (metis r xor.assoc xor.commute)
  show ?case using cs IH by (auto simp: xor.assoc r r' xor.left_commute)
qed simp

lemma row_span_xor: "a \<in> row_span rs \<Longrightarrow> b \<in> row_span rs \<Longrightarrow> a XOR b \<in> row_span rs"
proof -
  assume "a \<in> row_span rs" "b \<in> row_span rs"
  then obtain bs cs where "length bs = length rs" "length cs = length rs"
    "a = selection_sum bs rs" "b = selection_sum cs rs" by (auto simp: row_span_def)
  then have "a XOR b = selection_sum (map2 (\<noteq>) bs cs) rs" "length (map2 (\<noteq>) bs cs) = length rs"
    by (simp_all add: selection_sum_xor)
  then show ?thesis unfolding row_span_def by blast
qed

lemma selection_sum_False: "selection_sum (replicate (length rs) False) rs = 0"
  by (induction rs) auto

lemma row_span_0: "0 \<in> row_span rs"
  unfolding row_span_def using selection_sum_False [of rs]
  by (auto intro!: exI [of _ "replicate (length rs) False"])

lemma row_span_snoc: "row_span (rs @ [r]) = row_span rs \<union> (\<lambda>s. s XOR r) ` row_span rs"
proof
  show "row_span (rs @ [r]) \<subseteq> row_span rs \<union> (\<lambda>s. s XOR r) ` row_span rs"
  proof
    fix x assume "x \<in> row_span (rs @ [r])"
    then obtain cs where cs: "length cs = Suc (length rs)" "x = selection_sum cs (rs @ [r])"
      by (auto simp: row_span_def)
    then obtain bs b where "cs = bs @ [b]" "length bs = length rs"
      by (cases cs rule: rev_cases) auto
    with cs show "x \<in> row_span rs \<union> (\<lambda>s. s XOR r) ` row_span rs"
      by (auto simp: selection_sum_append row_span_def)
  qed
next
  have in_span: "selection_sum (bs @ [b]) (rs @ [r]) \<in> row_span (rs @ [r])"
    if "length bs = length rs" for bs b
    unfolding row_span_def using that by (intro CollectI exI [of _ "bs @ [b]"]) simp
  have "x \<in> row_span (rs @ [r])" "x XOR r \<in> row_span (rs @ [r])" if x: "x \<in> row_span rs" for x
  proof -
    obtain bs where bs: "length bs = length rs" "x = selection_sum bs rs"
      using x unfolding row_span_def by blast
    show "x \<in> row_span (rs @ [r])" "x XOR r \<in> row_span (rs @ [r])"
      using in_span [OF bs(1), of False] in_span [OF bs(1), of True] bs
      by (simp_all add: selection_sum_append)
  qed
  then show "row_span rs \<union> (\<lambda>s. s XOR r) ` row_span rs \<subseteq> row_span (rs @ [r])" by auto
qed

lemma dependent_snoc:
  "dependent_rows (rs @ [r]) \<longleftrightarrow> dependent_rows rs \<or> r \<in> row_span rs"
proof
  assume "dependent_rows (rs @ [r])"
  then obtain cs where cs: "length cs = Suc (length rs)" "True \<in> set cs" "selection_sum cs (rs @ [r]) = 0"
    by (auto simp: dependent_rows_def)
  then obtain bs b where bs: "cs = bs @ [b]" "length bs = length rs"
    by (cases cs rule: rev_cases) auto
  with cs have z: "selection_sum bs rs XOR (if b then r else 0) = 0" by (simp add: selection_sum_append)
  show "dependent_rows rs \<or> r \<in> row_span rs"
  proof (cases b)
    case True
    with z have "r = selection_sum bs rs" by (simp add: xor_zero_iff)
    with bs show ?thesis unfolding row_span_def by blast
  next
    case False
    with z bs cs(2) have "length bs = length rs \<and> True \<in> set bs \<and> selection_sum bs rs = 0" by simp
    then show ?thesis unfolding dependent_rows_def by blast
  qed
next
  assume "dependent_rows rs \<or> r \<in> row_span rs"
  then show "dependent_rows (rs @ [r])"
  proof
    assume "dependent_rows rs"
    then obtain bs where "length bs = length rs" "True \<in> set bs" "selection_sum bs rs = 0"
      by (auto simp: dependent_rows_def)
    then show ?thesis unfolding dependent_rows_def
      by (intro exI [of _ "bs @ [False]"]) (simp add: selection_sum_append)
  next
    assume "r \<in> row_span rs"
    then obtain bs where "length bs = length rs" "r = selection_sum bs rs"
      by (auto simp: row_span_def)
    then show ?thesis unfolding dependent_rows_def
      by (intro exI [of _ "bs @ [True]"]) (simp add: selection_sum_append)
  qed
qed

lemma dependent_append: "dependent_rows rs \<Longrightarrow> dependent_rows (rs @ ts)"
proof (induction ts rule: rev_induct)
  case (snoc t ts)
  then show ?case using dependent_snoc [of "rs @ ts" t] by simp
qed simp

text \<open>
  The pivot table of a prefix: a pivot is filed under its own length, lies in the span, and the
  lengths of all nonzero members of the span are filed.
\<close>

definition pivots_ok :: "(nat \<rightharpoonup> nat) \<Rightarrow> nat list \<Rightarrow> bool" where
  "pivots_ok pivots rs \<longleftrightarrow>
     (\<forall>k p. pivots k = Some p \<longrightarrow> bit_length p = k \<and> p \<noteq> 0 \<and> p \<in> row_span rs)
     \<and> (\<forall>x \<in> row_span rs. x \<noteq> 0 \<longrightarrow> pivots (bit_length x) \<noteq> None)"

lemma reduce_row_enough:
  assumes "pivots_ok pivots rs" "bit_length r \<le> fuel"
  shows "\<exists>r'. reduce_row fuel pivots r = Some r'
    \<and> (\<exists>s \<in> row_span rs. r' = r XOR s) \<and> (r' = 0 \<or> pivots (bit_length r') = None)"
  using assms(2)
proof (induction fuel arbitrary: r)
  case 0
  then have "r = 0" by simp
  then show ?case using row_span_0 by force
next
  case (Suc fuel)
  show ?case
  proof (cases "r = 0 \<or> pivots (bit_length r) = None")
    case True
    then have "reduce_row (Suc fuel) pivots r = Some r" by auto
    moreover have "r = r XOR 0" by simp
    ultimately show ?thesis using True row_span_0 [of rs] by blast
  next
    case False
    then obtain p where p: "r \<noteq> 0" "pivots (bit_length r) = Some p" by auto
    with assms(1) have pr: "bit_length p = bit_length r" "p \<in> row_span rs"
      unfolding pivots_ok_def by blast+
    with p have "bit_length (r XOR p) \<le> fuel"
      using bit_length_xor_eq [of r p] Suc.prems by simp
    from Suc.IH [OF this] obtain r' s where r': "reduce_row fuel pivots (r XOR p) = Some r'"
      "s \<in> row_span rs" "r' = (r XOR p) XOR s" "r' = 0 \<or> pivots (bit_length r') = None" by blast
    have "p XOR s \<in> row_span rs" using pr(2) r'(2) by (rule row_span_xor)
    with r' p show ?thesis by (auto simp: xor.assoc intro: bexI [of _ "p XOR s"])
  qed
qed

lemma pivots_ok_insert:
  assumes ok: "pivots_ok pivots rs" and r': "r' = r XOR s" "s \<in> row_span rs" "r' \<noteq> 0"
    "pivots (bit_length r') = None"
  shows "pivots_ok (pivots(bit_length r' \<mapsto> r')) (rs @ [r])"
proof -
  have snoc: "x \<in> row_span (rs @ [r]) \<longleftrightarrow> x \<in> row_span rs \<or> x XOR r' \<in> row_span rs" for x
  proof -
    have "x XOR r' \<in> row_span rs \<longleftrightarrow> x XOR r \<in> row_span rs"
    proof -
      have "x XOR r' = (x XOR r) XOR s" "x XOR r = (x XOR r') XOR s"
        using r'(1) by (simp_all add: xor.assoc)
      then show ?thesis using row_span_xor [OF _ r'(2)] by metis
    qed
    moreover have "x \<in> (\<lambda>s. s XOR r) ` row_span rs \<longleftrightarrow> x XOR r \<in> row_span rs"
    proof
      assume "x XOR r \<in> row_span rs"
      moreover have "x = (x XOR r) XOR r" by (simp add: xor.assoc)
      ultimately show "x \<in> (\<lambda>s. s XOR r) ` row_span rs" by (rule rev_image_eqI)
    qed (auto simp: xor.assoc)
    ultimately show ?thesis by (simp add: row_span_snoc)
  qed
  have old: "bit_length y = k \<and> y \<noteq> 0 \<and> y \<in> row_span rs" if "pivots k = Some y" for k y
    using ok that unfolding pivots_ok_def by blast
  have filed: "pivots (bit_length y) \<noteq> None" if "y \<in> row_span rs" "y \<noteq> 0" for y
    using ok that unfolding pivots_ok_def by blast
  have new: "(pivots(bit_length r' \<mapsto> r')) (bit_length x) \<noteq> None"
    if x: "x \<in> row_span (rs @ [r])" "x \<noteq> 0" for x
  proof (cases "x \<in> row_span rs")
    case True
    then show ?thesis using filed x(2) by auto
  next
    case False
    with x snoc have y: "x XOR r' \<in> row_span rs" by blast
    define y where "y = x XOR r'"
    have x': "x = r' XOR y" by (simp add: y_def xor.commute [of r'] xor.assoc)
    show ?thesis
    proof (cases "y = 0")
      case True
      then show ?thesis using x' by simp
    next
      case False
      then have py: "pivots (bit_length y) \<noteq> None" using filed y y_def by blast
      then have ne: "bit_length y \<noteq> bit_length r'" using r'(4) by metis
      then consider "bit_length r' < bit_length y" | "bit_length y < bit_length r'" by linarith
      then show ?thesis
      proof cases
        case 1
        then have "bit_length x = bit_length y" using bit_length_xor_less x' by simp
        then show ?thesis using py by auto
      next
        case 2
        then have "bit_length x = bit_length r'" using bit_length_xor_less [OF 2] x' by (simp add: xor.commute [of r'])
        then show ?thesis by simp
      qed
    qed
  qed
  have "r' \<in> row_span (rs @ [r])" using snoc row_span_0 by simp
  then show ?thesis unfolding pivots_ok_def using old new r'(3) snoc by (auto split: if_splits)
qed

lemma eliminate_from:
  assumes "pivots_ok pivots rs" "\<not> dependent_rows rs"
  shows "(\<exists>pv. eliminate pivots ts = Inr pv) \<longleftrightarrow> \<not> dependent_rows (rs @ ts)"
    and "eliminate pivots ts = Inl e \<Longrightarrow> e = ValueError ''CNOT matrix is singular''"
  using assms
proof (induction ts arbitrary: pivots rs)
  case (Cons t ts)
  have step: "(t \<in> row_span rs \<and> eliminate pivots (t # ts) = Inl (ValueError ''CNOT matrix is singular''))
      \<or> (t \<notin> row_span rs \<and> (\<exists>pv. pivots_ok pv (rs @ [t]) \<and> eliminate pivots (t # ts) = eliminate pv ts))"
    if ok: "pivots_ok pivots rs" for pivots rs
  proof -
    obtain r' s where r': "reduce_row (bit_length t) pivots t = Some r'" "s \<in> row_span rs"
      "r' = t XOR s" "r' = 0 \<or> pivots (bit_length r') = None"
      using reduce_row_enough [OF ok order_refl, of t] by blast
    show ?thesis
    proof (cases "r' = 0")
      case True
      with r' have "t = s" by (simp add: xor_zero_iff)
      with r' True show ?thesis by simp
    next
      case False
      with r' have none: "pivots (bit_length r') = None" by simp
      have "t \<notin> row_span rs"
        using row_span_xor [OF _ r'(2), of t] r'(3) False none ok unfolding pivots_ok_def by blast
      with pivots_ok_insert [OF ok r'(3,2) False none] r'(1) False show ?thesis by auto
    qed
  qed
  {
    case 1
    from step [OF 1(1)] show ?case
    proof (elim disjE conjE exE)
      assume "t \<in> row_span rs" "eliminate pivots (t # ts) = Inl (ValueError ''CNOT matrix is singular'')"
      moreover from this have "dependent_rows (rs @ t # ts)"
        using dependent_append [of "rs @ [t]" ts] dependent_snoc by simp
      ultimately show ?thesis by simp
    next
      fix pv assume "t \<notin> row_span rs" "pivots_ok pv (rs @ [t])" "eliminate pivots (t # ts) = eliminate pv ts"
      then show ?thesis using Cons.IH(1) [of pv "rs @ [t]"] 1(2) dependent_snoc by simp
    qed
  next
    case 2
    from step [OF 2(2)] show ?case
    proof (elim disjE conjE exE)
      fix pv assume "t \<notin> row_span rs" "pivots_ok pv (rs @ [t])" "eliminate pivots (t # ts) = eliminate pv ts"
      then show ?thesis using Cons.IH(2) [of pv "rs @ [t]"] 2 dependent_snoc by simp
    qed (use 2 in simp)
  }
qed simp_all

lemma pivots_ok_empty: "pivots_ok Map.empty []"
  by (simp add: pivots_ok_def row_span_def)

lemma not_dependent_Nil: "\<not> dependent_rows []"
  by (simp add: dependent_rows_def)

lemma eliminate_exact:
  "(\<exists>pv. eliminate Map.empty rows = Inr pv) \<longleftrightarrow> \<not> dependent_rows rows"
  "eliminate Map.empty rows = Inl e \<Longrightarrow> e = ValueError ''CNOT matrix is singular''"
  using eliminate_from [OF pivots_ok_empty not_dependent_Nil] by simp_all

lemma check_input_iff:
  "check_input m width shortlist depth mode = Inr rows \<longleftrightarrow>
     2 \<le> length m \<and> length m \<le> 256 \<and> list_all (\<lambda>r. length r = lanes (length m)) m
     \<and> \<not> bad_settings (length m) width shortlist depth \<and> mode \<in> {''qhat'', ''proposal''}
     \<and> rows = map unpack_row m \<and> list_all (\<lambda>r. r < 2 ^ length m) rows \<and> \<not> dependent_rows rows"
  using eliminate_exact(1) [of "map unpack_row m"]
  by (auto simp: check_input_def Let_def ebind_Inr_iff bit_length_le_iff list_all_iff)

text \<open>C5. The input check of the CNOT search accepts a packed matrix exactly when its shape is
  2..256 rows of ceil(n/64) lanes, the settings are integers in range, the mode is known, no row has
  bits past column n, and no nonempty selection of the rows sums to zero over GF(2) - that is, when
  the matrix is invertible; it then returns the rows as integers.\<close>
theorem check_input_exact:
  "check_input m width shortlist depth mode = Inr rows \<longleftrightarrow>
     2 \<le> length m \<and> length m \<le> 256 \<and> list_all (\<lambda>r. length r = lanes (length m)) m
     \<and> \<not> bad_settings (length m) width shortlist depth \<and> mode \<in> {''qhat'', ''proposal''}
     \<and> rows = map unpack_row m \<and> list_all (\<lambda>r. r < 2 ^ length m) rows \<and> \<not> dependent_rows rows"
  by (rule check_input_iff)

section \<open>Packed rows against row integers\<close>

lemma python_int_row_ok:
  assumes "row_ok n v"
  obtains r where "python_int v = Some (int r)" "r < 2 ^ n"
proof -
  from assms obtain i where i: "python_int v = Some i" "0 \<le> i" "i < 2 ^ n"
    by (auto simp: row_ok_def split: option.splits)
  then have "python_int v = Some (int (nat i))" "nat i < 2 ^ n"
    by (simp_all add: nat_less_iff)
  then show ?thesis by (rule that)
qed

lemma row_fits_lanes: "(r :: nat) < 2 ^ n \<Longrightarrow> r < 2 ^ (64 * lanes n)"
  using lanes_bounds(1) [of n] by (meson less_le_trans one_le_numeral power_increasing)

text \<open>C6. Packing nonnegative n-bit row integers into 64-bit lanes and reading the lanes back as
  integers gives the rows again, and every packed row has exactly ceil(n/64) lanes.\<close>
theorem pack_rows_roundtrip:
  assumes "pack_rows rows = Inr m"
  shows "map (int \<circ> unpack_row) m = map (the \<circ> python_int) rows
     \<and> length m = length rows \<and> list_all (\<lambda>r. length r = lanes (length rows)) m"
proof -
  let ?pk = "\<lambda>v. pack_row (lanes (length rows)) (nat (the (python_int v)))"
  from assms have ok: "list_all (row_ok (length rows)) rows" and m: "m = map ?pk rows"
    by (auto simp: pack_rows_def Let_def split: if_splits)
  have "int (unpack_row (?pk v)) = the (python_int v)" if "v \<in> set rows" for v
  proof -
    from that ok have "row_ok (length rows) v" by (simp add: list_all_iff)
    then obtain r where "python_int v = Some (int r)" "r < 2 ^ length rows" by (rule python_int_row_ok)
    then show ?thesis by (simp add: unpack_pack_row row_fits_lanes)
  qed
  then show ?thesis using m by (simp add: list_all_iff)
qed

lemma pack_rows_roundtrip_witness:
  "\<exists>m. pack_rows [PInt 1, PInt 3] = Inr m \<and> map (int \<circ> unpack_row) m = [1, 3]"
proof -
  have "pack_rows [PInt 1, PInt 3] = Inr [[1], [3]]"
    by (simp add: pack_rows_def row_ok_def pack_row_def lanes_def)
  with pack_rows_roundtrip [OF this] show ?thesis by simp
qed

lemma tail_mask_bits:
  assumes "unat w < 2 ^ 64"
  shows "unat (w AND tail_mask n) = take_bit (if n mod 64 = 0 then 64 else n mod 64) (unat w)"
proof (cases "n mod 64 = 0")
  case True
  then show ?thesis using assms by (simp add: tail_mask_def take_bit_nat_eq_self)
next
  case False
  then show ?thesis
    by (simp add: tail_mask_def unsigned_take_bit_eq flip: take_bit_eq_mask)
qed

text \<open>Masking the last lane truncates the row integer to n bits.\<close>

lemma unpack_mask_row:
  assumes "0 < n" "length r = lanes n"
  shows "unpack_row (mask_row n r) = take_bit n (unpack_row r)"
proof -
  have ne: "r \<noteq> []" using assms lanes_bounds(3) [of n] by auto
  then obtain a w where r: "r = a @ [w]" by (cases r rule: rev_cases) auto
  define t where "t = (if n mod 64 = 0 then 64 else n mod 64)"
  have la: "64 * length a + t = n"
  proof -
    obtain q k where n: "n = 64 * q + k" "k < 64"
      by (metis mod_less_divisor mult_div_mod_eq zero_less_numeral)
    have len: "length a = (n + 63) div 64 - 1" using assms(2) r by (simp add: lanes_def)
    show ?thesis
    proof (cases "k = 0")
      case True
      then have "(n + 63) div 64 = q" using n(1) by simp
      then show ?thesis using len n assms(1) True by (simp add: t_def)
    next
      case False
      have "(n + 63) div 64 = q + 1" unfolding n(1) using n(2) False by (intro div_nat_eqI) simp_all
      moreover have "n mod 64 = k" unfolding n(1) using n(2) by simp
      ultimately show ?thesis using len n(1) False by (simp add: t_def)
    qed
  qed
  have ua: "unpack_row a < 2 ^ (64 * length a)" by (rule unpack_bound)
  have "take_bit n (unpack_row r) = (unpack_row a + 2 ^ (64 * length a) * unat w) mod 2 ^ (64 * length a + t)"
    using la r by (simp add: unpack_append take_bit_eq_mod)
  also have "\<dots> = 2 ^ (64 * length a) * (unat w mod 2 ^ t) + unpack_row a"
    using ua by (simp add: power_add mod_mult2_eq)
  finally have "take_bit n (unpack_row r) = unpack_row a + 2 ^ (64 * length a) * take_bit t (unat w)"
    by (simp add: take_bit_eq_mod)
  moreover have "unat (w AND tail_mask n) = take_bit t (unat w)"
    unfolding t_def by (rule tail_mask_bits) (rule unat_less_64)
  ultimately show ?thesis using r by (simp add: mask_row_def unpack_append)
qed

section \<open>Moves\<close>

lemma move_decode:
  assumes "2 \<le> n" "move < alphabet n"
  shows "move_control n move < n" "move_target n move < n" "move_target n move \<noteq> move_control n move"
proof -
  have "move < n * (n - 1)" using assms(2) by (simp add: alphabet_def)
  then show c: "move_control n move < n"
    using assms(1) by (simp add: move_control_def less_mult_imp_div_less)
  have "move mod (n - 1) < n - 1" using assms(1) by simp
  then show "move_target n move < n" "move_target n move \<noteq> move_control n move"
    by (auto simp: move_target_def Let_def)
qed

lemma move_encode:
  assumes "c < n" "t < n" "c \<noteq> t"
  defines "move \<equiv> c * (n - 1) + (if c < t then t - 1 else t)"
  shows "move < alphabet n" "move_control n move = c" "move_target n move = t"
proof -
  have slot: "(if c < t then t - 1 else t) < n - 1" using assms(1-3) by auto
  have "move < c * (n - 1) + (n - 1)" unfolding move_def using slot by (rule add_strict_left_mono)
  then have "move < (c + 1) * (n - 1)" by (simp only: distrib_right mult_1)
  also have "(c + 1) * (n - 1) \<le> n * (n - 1)" using assms(1) by (intro mult_le_mono1) simp
  finally show "move < alphabet n" by (simp add: alphabet_def)
  show c: "move_control n move = c"
  proof -
    have "(c * k + s) div k = c" if "s < k" for k s :: nat using that by simp
    from this [OF slot] show ?thesis by (simp only: move_control_def move_def)
  qed
  have "move mod (n - 1) = (if c < t then t - 1 else t)"
    unfolding move_def using slot by (simp add: mod_mult_self3)
  then show "move_target n move = t" using c assms(3) by (auto simp: move_target_def Let_def)
qed

text \<open>Below n(n-1) the move numbering is a bijection onto the ordered pairs of two different
  qubits: every move decodes to a control and a target that are different and in range, and every
  such pair is the decoding of exactly one move.\<close>
theorem move_numbering_bijective:
  assumes "2 \<le> n"
  shows "bij_betw (\<lambda>move. (move_control n move, move_target n move)) {..<alphabet n}
           {(c, t). c < n \<and> t < n \<and> c \<noteq> t}"
proof (rule bij_betw_byWitness [where f' = "\<lambda>(c, t). c * (n - 1) + (if c < t then t - 1 else t)"])
  show "\<forall>move \<in> {..<alphabet n}.
     (case (move_control n move, move_target n move) of
        (c, t) \<Rightarrow> c * (n - 1) + (if c < t then t - 1 else t)) = move"
  proof
    fix move
    have "move_control n move * (n - 1) + move mod (n - 1) = move"
      unfolding move_control_def by (rule div_mult_mod_eq)
    then show "(case (move_control n move, move_target n move) of
        (c, t) \<Rightarrow> c * (n - 1) + (if c < t then t - 1 else t)) = move"
      by (auto simp: move_target_def Let_def)
  qed
  show "\<forall>p \<in> {(c, t). c < n \<and> t < n \<and> c \<noteq> t}.
     (\<lambda>move. (move_control n move, move_target n move))
       (case p of (c, t) \<Rightarrow> c * (n - 1) + (if c < t then t - 1 else t)) = p"
    using move_encode by fastforce
  show "(\<lambda>move. (move_control n move, move_target n move)) ` {..<alphabet n}
      \<subseteq> {(c, t). c < n \<and> t < n \<and> c \<noteq> t}"
    using move_decode [OF assms] by fastforce
  show "(\<lambda>(c, t). c * (n - 1) + (if c < t then t - 1 else t)) ` {(c, t). c < n \<and> t < n \<and> c \<noteq> t}
      \<subseteq> {..<alphabet n}"
    using move_encode(1) by fastforce
qed

lemma move_numbering_bijective_witness:
  "bij_betw (\<lambda>move. (move_control 3 move, move_target 3 move)) {..<alphabet 3}
           {(c, t). c < 3 \<and> t < 3 \<and> c \<noteq> t}"
  by (rule move_numbering_bijective) simp

section \<open>Children are row additions\<close>

definition shaped :: "nat \<Rightarrow> matrix \<Rightarrow> bool" where
  "shaped n m \<longleftrightarrow> length m = n \<and> (\<forall>r \<in> set m. length r = lanes n)"

lemma check_states_iff:
  "check_states n ms = Inr u \<longleftrightarrow> 1 \<le> n \<and> n \<le> 256 \<and> (\<forall>m \<in> set ms. shaped n m)"
  by (auto simp: check_states_def shaped_def list_all_iff)

definition row_ints :: "nat \<Rightarrow> matrix \<Rightarrow> nat list" where
  "row_ints n m = map (take_bit n \<circ> unpack_row) m"

lemma row_ints_mask: "0 < n \<Longrightarrow> shaped n m \<Longrightarrow> row_ints n (mask_matrix n m) = row_ints n m"
  by (auto simp: row_ints_def mask_matrix_def unpack_mask_row shaped_def)

lemma length_mask_row [simp]: "length (mask_row n r) = length r"
  by (simp add: mask_row_def)

lemma shaped_mask: "shaped n m \<Longrightarrow> shaped n (mask_matrix n m)"
  by (auto simp: shaped_def mask_matrix_def)

lemma shaped_nth: "shaped n m \<Longrightarrow> i < n \<Longrightarrow> length (m ! i) = lanes n"
  by (simp add: shaped_def)

lemma shaped_update: "shaped n m \<Longrightarrow> length r = lanes n \<Longrightarrow> shaped n (m[i := r])"
  by (auto simp: shaped_def dest!: set_update_subset_insert [THEN subsetD])

lemma shaped_apply:
  assumes "2 \<le> n" "move < alphabet n" "shaped n m"
  shows "shaped n (apply_cnot n move m)"
  unfolding apply_cnot_def using assms
  by (intro shaped_mask shaped_update) (simp_all add: move_decode shaped_nth)

lemma packed_child_step:
  assumes "2 \<le> n" "move < alphabet n" "shaped n m"
  shows "replay_gates n (row_ints n m) [int move] = Inr (row_ints n (apply_cnot n move m))"
    and "row_ints n (apply_cnot n move m) = map unpack_row (apply_cnot n move m)"
proof -
  let ?c = "move_control n move" and ?t = "move_target n move"
  have c: "?c < length m" "length (m ! ?c) = lanes n" and t: "?t < length m" "length (m ! ?t) = lanes n"
    using move_decode [OF assms(1,2)] assms(3) shaped_nth by (simp_all add: shaped_def)
  have sh: "shaped n (m[?t := xor_row (m ! ?t) (m ! ?c)])"
    using assms(3) c t by (simp add: shaped_update)
  have "row_ints n (apply_cnot n move m) = row_ints n (m[?t := xor_row (m ! ?t) (m ! ?c)])"
    unfolding apply_cnot_def using assms(1) sh by (simp add: row_ints_mask)
  also have "\<dots> = (row_ints n m)[?t := row_ints n m ! ?t XOR row_ints n m ! ?c]"
    using c t by (simp add: row_ints_def map_update unpack_xor_row take_bit_xor)
  finally have step: "row_ints n (apply_cnot n move m)
    = (row_ints n m)[?t := row_ints n m ! ?t XOR row_ints n m ! ?c]" .
  have "take_bit n (unpack_row (mask_row n r)) = unpack_row (mask_row n r)"
    if "r \<in> set (m[?t := xor_row (m ! ?t) (m ! ?c)])" for r
    using that sh assms(1) by (simp add: shaped_def unpack_mask_row)
  then have "row_ints n (apply_cnot n move m) = map unpack_row (apply_cnot n move m)"
    by (simp add: row_ints_def apply_cnot_def mask_matrix_def del: set_update_subset_insert)
  then show "row_ints n (apply_cnot n move m) = map unpack_row (apply_cnot n move m)" .
  show "replay_gates n (row_ints n m) [int move] = Inr (row_ints n (apply_cnot n move m))"
    using step assms(2) by (simp add: Let_def)
qed

text \<open>C7. A packed child state, read as row integers, is the parent with the control row added over
  GF(2) to the target row - the step the integer replay performs - and padding bits of the parent have
  no effect.\<close>
theorem packed_child_refines_replay:
  assumes "2 \<le> n" "move < alphabet n" "shaped n m"
  shows "replay_gates n (row_ints n m) [int move] = Inr (row_ints n (apply_cnot n move m))
     \<and> row_ints n (apply_cnot n move m) = map unpack_row (apply_cnot n move m)"
  using packed_child_step [OF assms] by simp

lemma packed_child_refines_replay_witness:
  "replay_gates 2 [1, 3] [0] = Inr (map unpack_row (apply_cnot 2 0 [[5], [3]]))"
proof -
  have "shaped 2 [[5], [3]]" by (simp add: shaped_def lanes_def)
  from packed_child_refines_replay [OF _ _ this, of 0]
  show ?thesis by (simp add: alphabet_def row_ints_def take_bit_eq_mod)
qed

section \<open>Replays keep invertibility and undo themselves\<close>

lemma selection_sum_select:
  "length bs = length rs \<Longrightarrow> i < length rs \<Longrightarrow>
     selection_sum (bs[i := b]) rs = selection_sum bs rs XOR (if bs ! i = b then 0 else rs ! i)"
proof (induction bs rs arbitrary: i rule: list_induct2)
  case (Cons c bs r rs)
  have r: "r XOR (r XOR x) = x" for x :: nat by (simp flip: xor.assoc)
  show ?case
  proof (cases i)
    case 0
    then show ?thesis by (auto simp: r xor.commute)
  next
    case (Suc j)
    with Cons show ?thesis by (auto simp: xor.assoc)
  qed
qed simp

lemma selection_sum_row:
  "length bs = length rs \<Longrightarrow> i < length rs \<Longrightarrow>
     selection_sum bs (rs[i := rs ! i XOR x]) = selection_sum bs rs XOR (if bs ! i then x else 0)"
proof (induction bs rs arbitrary: i rule: list_induct2)
  case (Cons c bs r rs)
  show ?case
  proof (cases i)
    case 0
    then show ?thesis by (auto simp: xor.assoc xor.commute xor.left_commute)
  next
    case (Suc j)
    with Cons show ?thesis by (auto simp: xor.assoc)
  qed
qed simp

text \<open>Adding one row to a different one does not change whether the rows are dependent.\<close>

lemma independent_row_addition:
  assumes "\<not> dependent_rows rs" "c < length rs" "t < length rs" "c \<noteq> t"
  shows "\<not> dependent_rows (rs[t := rs ! t XOR rs ! c])"
proof
  assume "dependent_rows (rs[t := rs ! t XOR rs ! c])"
  then obtain bs where bs: "length bs = length rs" "True \<in> set bs"
    "selection_sum bs (rs[t := rs ! t XOR rs ! c]) = 0" by (auto simp: dependent_rows_def)
  define cs where "cs = bs[c := (bs ! c \<noteq> bs ! t)]"
  have "selection_sum cs rs = selection_sum bs rs XOR (if bs ! t then rs ! c else 0)"
    unfolding cs_def using assms(2) bs(1) by (cases "bs ! t") (simp_all add: selection_sum_select)
  also have "\<dots> = 0" using bs assms(3) by (simp add: selection_sum_row)
  finally have z: "selection_sum cs rs = 0" .
  obtain i where i: "i < length rs" "bs ! i" using bs(1,2) by (auto simp: in_set_conv_nth)
  have "\<exists>j < length rs. cs ! j"
  proof (cases "i = c \<and> bs ! t")
    case True
    then have "cs ! t" using assms(4) by (simp add: cs_def)
    with assms(3) show ?thesis by blast
  next
    case False
    then have "cs ! i" using i bs(1) assms(2) by (cases "i = c") (simp_all add: cs_def)
    with i(1) show ?thesis by blast
  qed
  then have "True \<in> set cs" using bs(1) by (auto simp: cs_def in_set_conv_nth)
  with z bs(1) assms(1) show False by (auto simp: cs_def dependent_rows_def)
qed

lemma selection_sum_unit_rows:
  "bit (selection_sum bs (map (\<lambda>r. push_bit r 1) [a..<a + length bs])) k
     \<longleftrightarrow> a \<le> k \<and> k < a + length bs \<and> bs ! (k - a)"
proof (induction bs arbitrary: a)
  case (Cons b bs)
  let ?rows = "map (\<lambda>r. push_bit r 1 :: nat) [Suc a..<Suc a + length bs]"
  have "[a..<a + length (b # bs)] = a # [Suc a..<Suc a + length bs]"
    by (subst upt_conv_Cons) simp_all
  then have "bit (selection_sum (b # bs) (map (\<lambda>r. push_bit r 1) [a..<a + length (b # bs)])) k
      \<longleftrightarrow> bit (if b then push_bit a 1 XOR selection_sum bs ?rows else selection_sum bs ?rows) k"
    by (simp only: list.map selection_sum.simps)
  also have "\<dots> \<longleftrightarrow> (b \<and> k = a) \<noteq> bit (selection_sum bs ?rows) k"
    by (auto simp: bit_xor_iff bit_exp_iff simp del: upt_Suc)
  also have "\<dots> \<longleftrightarrow> a \<le> k \<and> k < a + length (b # bs) \<and> (b # bs) ! (k - a)"
    unfolding Cons.IH by (cases "k = a") (auto simp: nth_Cons' Suc_le_eq)
  finally show ?case .
qed simp

lemma independent_unit_rows: "\<not> dependent_rows (map (\<lambda>r. push_bit r 1) [0..<n])"
proof
  assume "dependent_rows (map (\<lambda>r. push_bit r 1) [0..<n])"
  then obtain bs where bs: "length bs = n" "True \<in> set bs"
    "selection_sum bs (map (\<lambda>r. push_bit r 1) [0..<n]) = 0" by (auto simp: dependent_rows_def)
  then obtain i where "i < n" "bs ! i" by (auto simp: in_set_conv_nth)
  then show False using bs selection_sum_unit_rows [of bs 0 i] by simp
qed

lemma replay_gates_props:
  assumes "replay_gates n rows gs = Inr rows'" "2 \<le> n" "length rows = n"
  shows "length rows' = n" "\<not> dependent_rows rows \<Longrightarrow> \<not> dependent_rows rows'"
proof -
  show "length rows' = n" using assms
    by (induction gs arbitrary: rows) (auto simp: Let_def split: if_splits)
  assume "\<not> dependent_rows rows"
  with assms show "\<not> dependent_rows rows'"
  proof (induction gs arbitrary: rows)
    case (Cons g gs)
    let ?c = "move_control n (nat g)" and ?t = "move_target n (nat g)"
    have g: "nat g < alphabet n" using Cons.prems by (auto split: if_splits simp: nat_less_iff)
    note d = move_decode [OF Cons.prems(2) g]
    have "\<not> dependent_rows (rows[?t := rows ! ?t XOR rows ! ?c])"
      using Cons.prems d by (intro independent_row_addition) auto
    with Cons.prems Cons.IH [of "rows[?t := rows ! ?t XOR rows ! ?c]"] show ?case
      by (simp add: Let_def split: if_splits)
  qed simp
qed

lemma replay_gates_append:
  "replay_gates n rows (gs @ hs) = ebind (replay_gates n rows gs) (\<lambda>rows'. replay_gates n rows' hs)"
  by (induction gs arbitrary: rows) (auto simp: Let_def)

lemma replay_gates_undo:
  "replay_gates n rows gs = Inr rows' \<Longrightarrow> 2 \<le> n \<Longrightarrow> length rows = n \<Longrightarrow>
     replay_gates n rows' (rev gs) = Inr rows"
proof (induction gs arbitrary: rows)
  case (Cons g gs)
  let ?c = "move_control n (nat g)" and ?t = "move_target n (nat g)"
  let ?mid = "rows[?t := rows ! ?t XOR rows ! ?c]"
  have g: "0 \<le> g" "g < int (alphabet n)" using Cons.prems(1) by (auto split: if_splits)
  then have "nat g < alphabet n" by (simp add: nat_less_iff)
  note d = move_decode [OF Cons.prems(2) this]
  from Cons.prems g have "replay_gates n ?mid gs = Inr rows'" by (simp add: Let_def)
  with Cons.IH Cons.prems have "replay_gates n rows' (rev gs) = Inr ?mid" by simp
  moreover have "replay_gates n ?mid [g] = Inr rows"
    using g d Cons.prems(3) by (simp add: Let_def xor.assoc)
  ultimately show ?case by (simp add: replay_gates_append)
qed simp

text \<open>Replaying gates from the identity yields an invertible matrix of n rows - one the input
  check's elimination never calls singular - and replaying the same gates in reverse order from it
  restores the identity.\<close>
theorem replay_cnot_reversible:
  assumes "replay_cnot n gates = Inr rows" "2 \<le> n"
  shows "length rows = n \<and> (\<exists>pv. eliminate Map.empty rows = Inr pv)
     \<and> replay_gates n rows (rev gates) = Inr (map (\<lambda>r. push_bit r 1) [0..<n])"
  using replay_gates_props [OF assms(1) [unfolded replay_cnot_def] assms(2)] independent_unit_rows
    replay_gates_undo [OF assms(1) [unfolded replay_cnot_def] assms(2)]
  by (simp add: eliminate_exact(1))

lemma replay_cnot_reversible_witness:
  "replay_cnot 3 [0, 3] = Inr [1, 3, 7] \<and> replay_gates 3 [1, 3, 7] [3, 0] = Inr [1, 2, 4]"
proof -
  have r: "replay_cnot 3 [0, 3] = Inr [1, 3, 7]"
    by (simp add: replay_cnot_def alphabet_def move_control_def move_target_def Let_def upt_rec)
  from replay_cnot_reversible [OF r] r show ?thesis by (simp add: upt_rec)
qed

end
