(* ===== verification/CnotPrimitives.thy ===== *)
theory CnotPrimitives
  imports CnotGf2
begin

text \<open>
  Contracts of the remaining packed primitives of \<open>cnot_native.py\<close>: routes survive packing, the
  owner of a state is a rank of the world and does not depend on padding bits, and the unseen
  filter reports each new state once, at its first occurrence.
\<close>

section \<open>Routes\<close>

lemma or_disjoint_add:
  fixes a :: int
  assumes "0 \<le> a" "a < 2 ^ k"
  shows "a OR push_bit k b = a + 2 ^ k * b"
proof -
  have "a AND push_bit k b = 0"
  proof (rule bit_eqI)
    fix j
    have "take_bit k a = a" using assms by (simp add: take_bit_int_eq_self)
    then have "bit a j \<longleftrightarrow> j < k \<and> bit a j" by (metis bit_take_bit_iff)
    then show "bit (a AND push_bit k b) j = bit 0 j"
      by (auto simp: bit_and_iff bit_push_bit_iff)
  qed
  then have "a + push_bit k b = a OR push_bit k b" by (rule disjunctive_add_eq_or)
  then show ?thesis by (simp add: push_bit_eq_mult mult.commute)
qed

lemma pack_route_iff:
  "pack_cnot_route source_rank move = Inr route \<longleftrightarrow>
     0 \<le> source_rank \<and> source_rank < 65536 \<and> 0 \<le> move \<and> move < 65536 \<and> route = move + 65536 * source_rank"
  using or_disjoint_add [of move 16 source_rank] by (auto simp: pack_cnot_route_def)

lemma unpack_route_iff:
  "unpack_cnot_route route = Inr (source_rank, move) \<longleftrightarrow>
     0 \<le> route \<and> route < 4294967296 \<and> source_rank = route div 65536 \<and> move = route mod 65536"
proof -
  have "(route AND 0xffff) = route mod 65536"
    using take_bit_eq_mask [of 16 route] by (simp add: take_bit_eq_mod mask_eq_exp_minus_1)
  then show ?thesis by (auto simp: unpack_cnot_route_def drop_bit_eq_div)
qed

text \<open>A route packs into one nonnegative 32-bit value exactly when the source rank and the move
  both fit 16 bits, and unpacking a packed route gives the rank and the move back; conversely every
  32-bit value unpacks to a pair that packs to it.\<close>
theorem route_roundtrip:
  "pack_cnot_route source_rank move = Inr route \<longleftrightarrow> unpack_cnot_route route = Inr (source_rank, move)"
  unfolding pack_route_iff unpack_route_iff
proof
  assume "0 \<le> source_rank \<and> source_rank < 65536 \<and> 0 \<le> move \<and> move < 65536 \<and> route = move + 65536 * source_rank"
  then show "0 \<le> route \<and> route < 4294967296 \<and> source_rank = route div 65536 \<and> move = route mod 65536" by simp
next
  assume "0 \<le> route \<and> route < 4294967296 \<and> source_rank = route div 65536 \<and> move = route mod 65536"
  moreover have "route mod 65536 + 65536 * (route div 65536) = route" by (rule mod_mult_div_eq)
  ultimately show "0 \<le> source_rank \<and> source_rank < 65536 \<and> 0 \<le> move \<and> move < 65536 \<and> route = move + 65536 * source_rank"
    by (auto simp: pos_imp_zdiv_nonneg_iff)
qed

section \<open>Owners\<close>

lemma mask_row_idem [simp]: "mask_row n (mask_row n r) = mask_row n r"
  by (simp add: mask_row_def)

lemma mask_matrix_idem [simp]: "mask_matrix n (mask_matrix n m) = mask_matrix n m"
  by (simp add: mask_matrix_def)

lemma owner_of_mask: "state_hash n (mask_matrix n m) = state_hash n m"
  by (simp add: state_hash_def)

lemma mask_matrix_eq_iff:
  assumes "0 < n" "shaped n a" "shaped n b"
  shows "mask_matrix n a = mask_matrix n b \<longleftrightarrow> row_ints n a = row_ints n b"
proof -
  have "mask_row n x = mask_row n y \<longleftrightarrow> take_bit n (unpack_row x) = take_bit n (unpack_row y)"
    if "length x = lanes n" "length y = lanes n" for x y
    using that assms(1) unpack_inject [of "mask_row n x" "mask_row n y"] by (simp add: unpack_mask_row)
  moreover have "length a = length b" using assms by (simp add: shaped_def)
  ultimately show ?thesis
    using assms(2,3)
    by (auto simp: list_eq_iff_nth_eq mask_matrix_def row_ints_def shaped_def)
qed

text \<open>Every state has an owner among the ranks of the world, for each world size the routes
  support, and two packed states with the same n-bit rows have the same owner whatever their padding
  bits hold.\<close>
theorem owner_total_and_canonical:
  assumes "1 \<le> n" "n \<le> 256" "shaped n a" "1 \<le> world" "world \<le> 65536"
  shows "\<exists>o'. cnot_owner n world a = Inr o' \<and> int o' < world
           \<and> (\<forall>b. shaped n b \<and> row_ints n a = row_ints n b \<longrightarrow> cnot_owner n world b = Inr o')"
proof -
  let ?own = "\<lambda>m. unat (state_hash n m mod word_of_int world)"
  have own: "cnot_owner n world m = Inr (?own m)" if "shaped n m" for m
    using assms that check_states_iff [of n "[m]"] by (auto simp: cnot_owner_def)
  have "unat (word_of_int world :: 64 word) = nat world"
    using assms(4,5) take_bit_int_eq_self [of world 64] by (simp add: unsigned_of_int)
  moreover have "unat (state_hash n a) mod nat world < nat world" using assms(4) by simp
  ultimately have "int (?own a) < world" using assms(4) by (simp add: unat_mod del: mod_less_divisor)
  moreover have "?own b = ?own a" if "shaped n b" "row_ints n a = row_ints n b" for b
    using that mask_matrix_eq_iff [of n a b] assms owner_of_mask [of n a] owner_of_mask [of n b] by simp
  ultimately show ?thesis
  proof (intro exI [of _ "?own a"] conjI allI impI)
    show "cnot_owner n world a = Inr (?own a)" using assms(3) by (rule own)
    fix b assume "shaped n b \<and> row_ints n a = row_ints n b"
    then show "cnot_owner n world b = Inr (?own a)"
      using own [of b] \<open>\<And>b. shaped n b \<Longrightarrow> row_ints n a = row_ints n b \<Longrightarrow> ?own b = ?own a\<close> by metis
  qed
qed

lemma owner_total_and_canonical_witness:
  "\<exists>o'. cnot_owner 2 3 [[1], [2]] = Inr o' \<and> int o' < 3 \<and> cnot_owner 2 3 [[5], [2]] = Inr o'"
proof -
  have "shaped 2 [[1], [2]]" by (simp add: shaped_def lanes_def)
  from owner_total_and_canonical [OF _ _ this, of 3] obtain o' where
    o': "cnot_owner 2 3 [[1], [2]] = Inr o'" "int o' < 3"
      "\<forall>b. shaped 2 b \<and> row_ints 2 [[1], [2]] = row_ints 2 b \<longrightarrow> cnot_owner 2 3 b = Inr o'" by auto
  have "shaped 2 [[5], [2]]" by (simp add: shaped_def lanes_def)
  moreover have "row_ints 2 [[1], [2]] = row_ints 2 [[5], [2]]" by (simp add: row_ints_def take_bit_eq_mod)
  ultimately show ?thesis using o' by blast
qed

section \<open>The unseen filter\<close>

lemma image_in_upto: "x \<in> f ` (g ` {..<i}) \<longleftrightarrow> (\<exists>j. j < i \<and> f (g j) = x)" for i :: nat
  by auto

lemma index_of_is_first: "index_of xs x = Some i \<longleftrightarrow> i < length xs \<and> xs ! i = x \<and> x \<notin> set (take i xs)"
proof (induction xs arbitrary: i)
  case (Cons y ys)
  then show ?case by (cases i) auto
qed simp

text \<open>The unseen filter returns, in increasing order, exactly the indices of the children whose
  n-bit rows differ from those of every closed state and of every earlier child; so each new state is
  reported once and no child is lost.\<close>
theorem first_unseen_exact:
  assumes "cnot_first_unseen n seen children = Inr idx"
  shows "sorted idx \<and> distinct idx
    \<and> set idx = {i. i < length children
        \<and> row_ints n (children ! i) \<notin> row_ints n ` set seen
        \<and> (\<forall>j < i. row_ints n (children ! j) \<noteq> row_ints n (children ! i))}
    \<and> row_ints n ` set children \<subseteq> row_ints n ` set seen \<union> row_ints n ` ((!) children ` set idx)"
proof -
  let ?M = "mask_matrix n" and ?states = "map (mask_matrix n) (seen @ children)"
  from assms have n: "0 < n" and sh: "\<And>m. m \<in> set (seen @ children) \<Longrightarrow> shaped n m"
    and idx: "idx = filter (\<lambda>i. least_ordinal ?states (length seen + i) = length seen + i) [0..<length children]"
    by (auto simp: cnot_first_unseen_def ebind_Inr_iff check_states_iff Let_def)
  have eq: "?M a = ?M b \<longleftrightarrow> row_ints n a = row_ints n b"
    if "a \<in> set (seen @ children)" "b \<in> set (seen @ children)" for a b
    using that mask_matrix_eq_iff [OF n] sh by blast
  have mem: "set idx = {i. i < length children
        \<and> row_ints n (children ! i) \<notin> row_ints n ` set seen
        \<and> (\<forall>j < i. row_ints n (children ! j) \<noteq> row_ints n (children ! i))}" (is "_ = ?new")
  proof -
    have "least_ordinal ?states (length seen + i) = length seen + i \<longleftrightarrow> i \<in> ?new"
      if i: "i < length children" for i
    proof -
      let ?k = "length seen + i"
      have k: "?states ! ?k = ?M (children ! i)" using i by (simp add: nth_append)
      have "?M (children ! i) \<in> set ?states" using i by simp
      then obtain l where l: "index_of ?states (?M (children ! i)) = Some l"
        by (metis index_of_None option.exhaust)
      have "least_ordinal ?states ?k = ?k \<longleftrightarrow> index_of ?states (?M (children ! i)) = Some ?k"
        using l k by (simp add: least_ordinal_def)
      also have "\<dots> \<longleftrightarrow> ?M (children ! i) \<notin> set (take ?k ?states)"
        using i k by (simp add: index_of_is_first)
      also have "set (take ?k ?states) = ?M ` set seen \<union> ?M ` ((!) children ` {..<i})"
        using i by (simp add: take_map nth_image [symmetric] atLeast0LessThan)
      finally have "least_ordinal ?states ?k = ?k \<longleftrightarrow> ?M (children ! i) \<notin> ?M ` set seen
          \<and> (\<forall>j < i. ?M (children ! j) \<noteq> ?M (children ! i))"
        by (simp only: Un_iff image_in_upto not_ex de_Morgan_disj de_Morgan_conj imp_conv_disj)
      moreover have "?M (children ! i) \<in> ?M ` set seen
          \<longleftrightarrow> row_ints n (children ! i) \<in> row_ints n ` set seen"
        unfolding image_iff using eq i by (intro bex_cong) simp_all
      moreover have "?M (children ! j) = ?M (children ! i)
          \<longleftrightarrow> row_ints n (children ! j) = row_ints n (children ! i)" if "j < i" for j
        using that i by (intro eq) simp_all
      ultimately show ?thesis using i by simp
    qed
    then show ?thesis unfolding idx by auto
  qed
  have "row_ints n (children ! i) \<in> row_ints n ` set seen \<union> row_ints n ` ((!) children ` set idx)"
    if "i < length children" for i
    using that
  proof (induction i rule: less_induct)
    case (less i)
    show ?case
    proof (cases "i \<in> set idx")
      case False
      with less.prems mem consider "row_ints n (children ! i) \<in> row_ints n ` set seen"
        | j where "j < i" "row_ints n (children ! j) = row_ints n (children ! i)" by auto
      then show ?thesis
      proof cases
        case 2
        then show ?thesis using less.IH [of j] less.prems by simp
      qed simp
    qed simp
  qed
  then have "row_ints n ` set children \<subseteq> row_ints n ` set seen \<union> row_ints n ` ((!) children ` set idx)"
    unfolding image_subset_iff by (metis in_set_conv_nth)
  moreover have "sorted idx" "distinct idx" unfolding idx by (intro sorted_wrt_filter distinct_filter; simp)+
  ultimately show ?thesis using mem by blast
qed

lemma first_unseen_exact_witness:
  "cnot_first_unseen 2 [[[1], [2]]] [[[5], [2]], [[3], [2]], [[3], [2]]] = Inr [1]
   \<and> row_ints 2 [[5], [2]] \<in> row_ints 2 ` set [[[1], [2]]]"
proof -
  have e: "cnot_first_unseen 2 [[[1], [2]]] [[[5], [2]], [[3], [2]], [[3], [2]]] = Inr [1]"
    by (simp add: cnot_first_unseen_def check_states_def raise_if_def lanes_def mask_matrix_def mask_row_def
          tail_mask_def mask_eq_exp_minus_1 least_ordinal_def upt_rec)
  from first_unseen_exact [OF e]
  have "row_ints 2 ` set [[[5], [2]], [[3], [2]], [[3], [2]]]
     \<subseteq> row_ints 2 ` set [[[1], [2]]] \<union> row_ints 2 ` ((!) [[[5], [2]], [[3], [2]], [[3], [2]]] ` set [1])"
    by blast
  then have "row_ints 2 [[5], [2]] \<in> row_ints 2 ` set [[[1], [2]]] \<union> {row_ints 2 [[3], [2]]}"
    by (simp only: list.set image_insert image_empty insert_subset nth_Cons_Suc nth_Cons_0 One_nat_def)
  moreover have "row_ints 2 [[5], [2]] \<noteq> row_ints 2 [[3], [2]]"
    by (simp add: row_ints_def take_bit_eq_mod)
  ultimately show ?thesis using e by blast
qed

end
