(* ===== verification/CnotSelection.thy ===== *)
theory CnotSelection
  imports Prelude "HOL-Library.Word"
begin

unbundle bit_operations_syntax

text \<open>
  The global cutoff of the CNOT beam, \<open>global_winners\<close> of \<open>cnot_selection.py\<close>. Every rank holds its
  own candidates; a collective is modelled on the list of all ranks at once, so \<open>world.sum\<close> adds
  the ranks' counters and \<open>world.gather_rows\<close> concatenates their rows in rank order. A boolean
  tensor is a predicate on candidates, which carry their rank and index.
\<close>

section \<open>Double precision values by their bits\<close>

text \<open>
  The value of a finite double, scaled by \<open>2 ^ 1074\<close> so that it is an integer: sign bit 63, exponent
  field bits 52 to 62 (0 for subnormals), fraction bits 0 to 51.
\<close>

definition scaled_magnitude :: "nat \<Rightarrow> int" where
  "scaled_magnitude u =
     (let e = u div 2 ^ 52; m = u mod 2 ^ 52 in
      if e = 0 then int m else (2 ^ 52 + int m) * 2 ^ (e - 1))"

definition scaled_double :: "64 word \<Rightarrow> int" where
  "scaled_double w =
     (if bit w 63 then - scaled_magnitude (unat w mod 2 ^ 63) else scaled_magnitude (unat w))"

text \<open>\<open>values + 0.0\<close> turns minus zero into zero and keeps every other value.\<close>

definition plus_zero :: "64 word \<Rightarrow> 64 word" where
  "plus_zero w = (if w = 0x8000000000000000 then 0 else w)"

text \<open>\<open>torch.where(bits < 0, ~bits, bits ^ -(1 << 63))\<close>, read unsigned.\<close>

definition score_key :: "64 word \<Rightarrow> 64 word" where
  "score_key w = (if bit w 63 then NOT w else w XOR 0x8000000000000000)"

section \<open>The cutoff\<close>

record cand =
  crank :: nat
  cidx :: nat
  cbits :: "64 word"
  cword :: "64 word"

definition rank_cands :: "(nat \<times> (64 word \<times> 64 word) list) \<Rightarrow> cand list" where
  "rank_cands p = (case p of (r, rows) \<Rightarrow>
     map (\<lambda>(i, value, word). \<lparr>crank = r, cidx = i, cbits = plus_zero value, cword = word\<rparr>)
       (enumerate 0 rows))"

text \<open>\<open>(key >> shift) & 255\<close>; the mask makes the sign of the shift immaterial.\<close>

definition key_digit :: "(cand \<Rightarrow> 64 word) \<Rightarrow> nat \<Rightarrow> cand \<Rightarrow> nat" where
  "key_digit key shift c = unat (drop_bit shift (key c) AND 255)"

definition radix_digits :: "(cand \<Rightarrow> nat) list" where
  "radix_digits =
     [key_digit key shift. key \<leftarrow> [\<lambda>c. score_key (cbits c), cword], shift \<leftarrow> [56, 48, 40, 32, 24, 16, 8, 0]]"

definition world_histogram ::
  "cand list list \<Rightarrow> (cand \<Rightarrow> bool) \<Rightarrow> (cand \<Rightarrow> nat) \<Rightarrow> nat \<Rightarrow> nat" where
  "world_histogram ranks boundary digit d =
     sum_list (map (\<lambda>cs. length (filter (\<lambda>c. boundary c \<and> digit c = d) cs)) ranks)"

definition histogram_prefix :: "(nat \<Rightarrow> nat) \<Rightarrow> nat \<Rightarrow> nat" where
  "histogram_prefix hist d = sum_list (map hist [0..<d + 1])"

text \<open>\<open>torch.searchsorted(prefix, remaining)\<close>: the first index whose prefix reaches \<open>remaining\<close>.\<close>

definition find_cutoff :: "(nat \<Rightarrow> nat) \<Rightarrow> nat \<Rightarrow> nat" where
  "find_cutoff hist remaining =
     length (takeWhile (\<lambda>d. histogram_prefix hist d < remaining) [0..<256])"

fun radix_passes ::
  "cand list list \<Rightarrow> (cand \<Rightarrow> nat) list \<Rightarrow> (cand \<Rightarrow> bool) \<Rightarrow> (cand \<Rightarrow> bool) \<Rightarrow> nat \<Rightarrow> (cand \<Rightarrow> bool)" where
  "radix_passes ranks [] selected boundary remaining = selected"
| "radix_passes ranks (digit # digits) selected boundary remaining =
     (let hist = world_histogram ranks boundary digit;
          cutoff = find_cutoff hist remaining;
          below = (if cutoff = 0 then 0 else histogram_prefix hist (cutoff - 1));
          selected' = (\<lambda>c. selected c \<or> boundary c \<and> digit c < cutoff);
          boundary' = (\<lambda>c. boundary c \<and> digit c = cutoff);
          remaining' = remaining - below in
      if remaining' = hist cutoff then (\<lambda>c. selected' c \<or> boundary' c)
      else radix_passes ranks digits selected' boundary' remaining')"

definition global_winners ::
  "(64 word \<times> 64 word) list list \<Rightarrow> nat \<Rightarrow> (nat \<times> nat \<times> nat) list result" where
  "global_winners world width =
     (let ranks = map rank_cands (enumerate 0 world);
          count = sum_list (map length ranks);
          selected = (if count > width
            then radix_passes ranks radix_digits (\<lambda>_. False) (\<lambda>_. True) width else (\<lambda>_. True));
          records = concat (map (filter selected) ranks) in
      if length records \<noteq> min count width
      then Inl (RuntimeError ''global radix cutoff returned an inconsistent frontier size'')
      else
        let by_word = sort_key (\<lambda>c. sint (cword c)) records;
            in_order = sort_key (\<lambda>(_, c). scaled_double (cbits c)) (enumerate 0 by_word) in
        Inr (map (\<lambda>(k, c). (crank c, cidx c, k)) in_order))"

section \<open>The sort key orders like the values\<close>

lemma scaled_magnitude_step: "scaled_magnitude u < scaled_magnitude (Suc u)"
proof (cases "Suc (u mod 2 ^ 52) = 2 ^ 52")
  case True
  then have S: "Suc u div 2 ^ 52 = Suc (u div 2 ^ 52)" "Suc u mod 2 ^ 52 = 0"
    by (simp_all add: div_Suc mod_Suc)
  have m: "int (u mod 2 ^ 52) = 2 ^ 52 - 1" using True by simp
  show ?thesis
  proof (cases "u div 2 ^ 52")
    case 0
    then show ?thesis using S m by (simp add: scaled_magnitude_def Let_def)
  next
    case (Suc e)
    have "(2 ^ 52 + (2 ^ 52 - 1)) * 2 ^ e < (2 ^ 52 :: int) * 2 ^ Suc e" by simp
    then show ?thesis using S m Suc by (simp add: scaled_magnitude_def Let_def)
  qed
next
  case False
  then have S: "Suc u div 2 ^ 52 = u div 2 ^ 52" "Suc u mod 2 ^ 52 = Suc (u mod 2 ^ 52)"
    by (simp_all add: div_Suc mod_Suc)
  show ?thesis unfolding scaled_magnitude_def Let_def S by simp
qed

lemma scaled_magnitude_less: "u < v \<longleftrightarrow> scaled_magnitude u < scaled_magnitude v"
  using lift_Suc_mono_less_iff [of scaled_magnitude] scaled_magnitude_step by blast

lemma scaled_magnitude_0 [simp]: "scaled_magnitude 0 = 0"
  by (simp add: scaled_magnitude_def)

lemma scaled_magnitude_nonneg: "0 \<le> scaled_magnitude u"
  by (simp add: scaled_magnitude_def Let_def)

lemma bit63_iff: "bit (w :: 64 word) 63 \<longleftrightarrow> 2 ^ 63 \<le> unat w"
proof -
  have "unat w < 2 ^ 64" using unsigned_less [of w] by simp
  then have "unat w div 2 ^ 63 = (if 2 ^ 63 \<le> unat w then 1 else 0)"
    by (auto intro: div_nat_eqI)
  moreover have "bit w 63 \<longleftrightarrow> bit (unat w) 63" by (simp add: bit_unsigned_iff)
  ultimately show ?thesis by (simp add: bit_iff_odd)
qed

lemma unat_score_key:
  "unat (score_key w) = (if 2 ^ 63 \<le> unat w then 2 ^ 64 - 1 - unat w else unat w + 2 ^ 63)"
proof (cases "bit w 63")
  case True
  have "NOT w = - 1 - w" by (simp add: not_eq_complement)
  moreover have "unat (- 1 - w) = unat (- 1 :: 64 word) - unat w"
    by (rule unat_sub) simp
  moreover have "unat (- 1 :: 64 word) = 2 ^ 64 - 1" by (simp add: unsigned_minus_1_eq_mask mask_eq_exp_minus_1)
  ultimately show ?thesis using True by (simp add: score_key_def bit63_iff)
next
  case False
  have "w AND 0x8000000000000000 = 0"
  proof (rule bit_eqI)
    fix k
    have "(0x8000000000000000 :: 64 word) = push_bit 63 1" by simp
    then have "bit (w AND 0x8000000000000000) k \<longleftrightarrow> bit w k \<and> 63 \<le> k \<and> k < 64 \<and> k - 63 = 0"
      by (simp only: bit_and_iff bit_push_bit_iff bit_1_iff) auto
    moreover have "63 \<le> k \<and> k - 63 = 0 \<longleftrightarrow> k = 63" by auto
    ultimately show "bit (w AND 0x8000000000000000) k = bit 0 k" using False by auto
  qed
  then have "w XOR 0x8000000000000000 = w + 0x8000000000000000"
    by (simp only: disjunctive_add_eq_xor)
  moreover have "unat w < 2 ^ 63" using False by (simp add: bit63_iff)
  then have "unat (w + 0x8000000000000000) = unat w + 2 ^ 63"
    by (subst unat_plus_simple [THEN iffD1]) (simp_all add: word_le_nat_alt unat_plus_if')
  ultimately show ?thesis using False by (simp add: score_key_def bit63_iff)
qed

text \<open>Apart from minus zero, the radix order of the keys is the order of the values.\<close>

lemma score_key_order:
  assumes "a \<noteq> 0x8000000000000000" "b \<noteq> 0x8000000000000000"
  shows "unat (score_key a) < unat (score_key b) \<longleftrightarrow> scaled_double a < scaled_double b"
proof -
  have lt: "unat a < 2 ^ 64" "unat b < 2 ^ 64" using unsigned_less [of a] unsigned_less [of b] by simp_all
  have ne: "unat w \<noteq> 2 ^ 63" if "w \<noteq> 0x8000000000000000" for w :: "64 word"
    using that by (simp add: word_unat_eq_iff)
  have hi: "unat w mod 2 ^ 63 = unat w - 2 ^ 63" if "2 ^ 63 \<le> unat w" for w :: "64 word"
  proof -
    have "unat w < 2 ^ 64" using unsigned_less [of w] by simp
    then have "unat w - 2 ^ 63 < 2 ^ 63" using that by simp
    then show ?thesis using that by (metis le_mod_geq mod_less)
  qed
  have pos: "0 < scaled_magnitude (unat w - 2 ^ 63)" if "2 ^ 63 \<le> unat w" "unat w \<noteq> 2 ^ 63" for w :: "64 word"
    using scaled_magnitude_less [of 0 "unat w - 2 ^ 63"] that by simp
  have neg: "scaled_double w = - scaled_magnitude (unat w - 2 ^ 63)" if "2 ^ 63 \<le> unat w" for w
    using that hi by (simp add: scaled_double_def bit63_iff)
  have nonneg: "scaled_double w = scaled_magnitude (unat w)" if "\<not> 2 ^ 63 \<le> unat w" for w
    using that by (simp add: scaled_double_def bit63_iff)
  show ?thesis
  proof (cases "2 ^ 63 \<le> unat a"; cases "2 ^ 63 \<le> unat b")
    assume ab: "2 ^ 63 \<le> unat a" "2 ^ 63 \<le> unat b"
    have "unat b - 2 ^ 63 < unat a - 2 ^ 63 \<longleftrightarrow> unat b < unat a" using ab by linarith
    moreover have "unat (score_key a) < unat (score_key b) \<longleftrightarrow> unat b < unat a"
      unfolding unat_score_key using ab lt by (simp, linarith)
    moreover have "scaled_double a < scaled_double b \<longleftrightarrow> unat b - 2 ^ 63 < unat a - 2 ^ 63"
      unfolding neg [OF ab(1)] neg [OF ab(2)]
      using scaled_magnitude_less [of "unat b - 2 ^ 63" "unat a - 2 ^ 63"] by simp
    ultimately show ?thesis by simp
  next
    assume ab: "2 ^ 63 \<le> unat a" "\<not> 2 ^ 63 \<le> unat b"
    have "scaled_double a < scaled_double b"
      using pos [OF ab(1) ne [OF assms(1)]] scaled_magnitude_nonneg [of "unat b"] neg [OF ab(1)] nonneg [OF ab(2)]
      by linarith
    then show ?thesis using ab lt by (simp add: unat_score_key)
  next
    assume ab: "\<not> 2 ^ 63 \<le> unat a" "2 ^ 63 \<le> unat b"
    have "scaled_double b < scaled_double a"
      using pos [OF ab(2) ne [OF assms(2)]] scaled_magnitude_nonneg [of "unat a"] neg [OF ab(2)] nonneg [OF ab(1)]
      by linarith
    then show ?thesis using ab lt by (simp add: unat_score_key)
  next
    assume ab: "\<not> 2 ^ 63 \<le> unat a" "\<not> 2 ^ 63 \<le> unat b"
    then have "unat (score_key a) < unat (score_key b) \<longleftrightarrow> unat a < unat b" by (simp add: unat_score_key)
    then show ?thesis unfolding nonneg [OF ab(1)] nonneg [OF ab(2)]
      using scaled_magnitude_less [of "unat a" "unat b"] by simp
  qed
qed

section \<open>The radix passes\<close>

lemma world_histogram_eq:
  "world_histogram ranks bnd digit d = length (filter (\<lambda>c. bnd c \<and> digit c = d) (concat ranks))"
  unfolding world_histogram_def by (induction ranks) auto

lemma histogram_prefix_eq:
  "histogram_prefix (\<lambda>d. length (filter (\<lambda>c. P c \<and> digit c = d) cs)) k
     = length (filter (\<lambda>c. P c \<and> digit c \<le> k) cs)"
proof (induction k)
  case (Suc k)
  have "length (filter (\<lambda>c. P c \<and> digit c \<le> Suc k) cs)
      = length (filter (\<lambda>c. P c \<and> digit c \<le> k) cs) + length (filter (\<lambda>c. P c \<and> digit c = Suc k) cs)"
    by (induction cs) (auto simp: le_Suc_eq)
  with Suc show ?case by (simp add: histogram_prefix_def)
qed (simp add: histogram_prefix_def)

lemma find_cutoff_spec:
  assumes "1 \<le> remaining" "remaining \<le> histogram_prefix hist k" "k < 256"
  shows "remaining \<le> histogram_prefix hist (find_cutoff hist remaining)"
    and "j < find_cutoff hist remaining \<Longrightarrow> histogram_prefix hist j < remaining"
    and "find_cutoff hist remaining < 256"
proof -
  let ?P = "\<lambda>d. histogram_prefix hist d < remaining"
  let ?n = "length (takeWhile ?P [0..<256])"
  have "?n < length [0..<256]"
  proof (rule ccontr)
    assume "\<not> ?n < length [0..<256]"
    then have "takeWhile ?P [0..<256] = [0..<256]"
      using takeWhile_eq_take [of ?P "[0..<256]"] by simp
    then have "\<forall>d \<in> set [0..<256]. ?P d" by (metis set_takeWhileD)
    moreover have "k \<in> set [0..<256]" using assms(3) by simp
    ultimately show False using assms(2) not_less by blast
  qed
  then show "find_cutoff hist remaining < 256" by (simp add: find_cutoff_def)
  show "remaining \<le> histogram_prefix hist (find_cutoff hist remaining)"
    using nth_length_takeWhile [of ?P "[0..<256]"] \<open>?n < length [0..<256]\<close>
    by (simp add: find_cutoff_def)
  assume "j < find_cutoff hist remaining"
  then show "histogram_prefix hist j < remaining"
    using nth_mem [of j "takeWhile ?P [0..<256]"] takeWhile_nth [of j ?P "[0..<256]"]
      \<open>?n < length [0..<256]\<close>
    by (metis (no_types, lifting) find_cutoff_def add_0 length_upt minus_nat.diff_0 nth_upt order_less_trans set_takeWhileD)
qed

text \<open>Comparison by a sequence of digits, most significant first.\<close>

fun digits_less :: "('a \<Rightarrow> nat) list \<Rightarrow> 'a \<Rightarrow> 'a \<Rightarrow> bool" where
  "digits_less [] a b = False"
| "digits_less (d # ds) a b = (d a < d b \<or> d a = d b \<and> digits_less ds a b)"

lemma filter_split_length:
  "(\<And>x. x \<in> set xs \<Longrightarrow> P x \<longleftrightarrow> Q x \<or> R x) \<Longrightarrow> (\<And>x. x \<in> set xs \<Longrightarrow> \<not> (Q x \<and> R x)) \<Longrightarrow>
     length (filter P xs) = length (filter Q xs) + length (filter R xs)"
  by (induction xs) auto

text \<open>
  The invariant of the passes: the candidates of the boundary are unresolved, \<open>remaining\<close> of them are
  still to be chosen, and the remaining digits tell them apart. The passes add to the selection the
  \<open>remaining\<close> least candidates of the boundary.
\<close>

lemma radix_passes_correct:
  assumes "1 \<le> remaining" "remaining \<le> length (filter bnd (concat ranks))" "ds \<noteq> []"
    and "\<And>d c. d \<in> set ds \<Longrightarrow> d c < 256"
    and "\<And>a b. bnd a \<Longrightarrow> bnd b \<Longrightarrow> a \<in> set (concat ranks) \<Longrightarrow> b \<in> set (concat ranks) \<Longrightarrow>
           (\<forall>d \<in> set ds. d a = d b) \<Longrightarrow> a = b"
    and "distinct (concat ranks)"
  shows "\<exists>chosen. (\<forall>c. radix_passes ranks ds sel bnd remaining c \<longleftrightarrow> sel c \<or> chosen c)
    \<and> (\<forall>c. chosen c \<longrightarrow> bnd c) \<and> length (filter chosen (concat ranks)) = remaining
    \<and> (\<forall>a b. chosen a \<longrightarrow> bnd b \<longrightarrow> \<not> chosen b \<longrightarrow> digits_less ds a b)"
  using assms(1-5)
proof (induction ds arbitrary: sel bnd remaining)
  case (Cons digit ds)
  let ?cs = "concat ranks"
  define hist where "hist = world_histogram ranks bnd digit"
  define cut where "cut = find_cutoff hist remaining"
  define below where "below = (if cut = 0 then 0 else histogram_prefix hist (cut - 1))"
  define bnd' where "bnd' = (\<lambda>c. bnd c \<and> digit c = cut)"
  define under where "under = (\<lambda>c. bnd c \<and> digit c < cut)"
  have hist: "hist = (\<lambda>d. length (filter (\<lambda>c. bnd c \<and> digit c = d) ?cs))"
    by (simp add: hist_def world_histogram_eq fun_eq_iff)
  have prefix: "histogram_prefix hist k = length (filter (\<lambda>c. bnd c \<and> digit c \<le> k) ?cs)" for k
    unfolding hist by (rule histogram_prefix_eq)
  have "digit c \<le> 255" for c using Cons.prems(4) [of digit c] by simp
  then have "histogram_prefix hist 255 = length (filter bnd ?cs)" by (simp add: prefix)
  with Cons.prems(1,2) have "remaining \<le> histogram_prefix hist 255" by simp
  note cut = find_cutoff_spec [OF Cons.prems(1) this, folded cut_def]
  have below: "below = length (filter under ?cs)"
  proof (cases "cut = 0")
    case False
    then have "(\<lambda>c. bnd c \<and> digit c \<le> cut - 1) = under" by (auto simp: under_def fun_eq_iff)
    with False show ?thesis by (simp add: below_def prefix)
  qed (simp add: below_def under_def)
  have less: "below < remaining"
    using cut(2) [of "cut - 1"] Cons.prems(1) by (cases "cut = 0") (auto simp: below_def)
  have split: "length (filter (\<lambda>c. bnd c \<and> digit c \<le> cut) ?cs) = below + hist cut"
    unfolding below hist by (rule filter_split_length) (auto simp: under_def)
  have room: "remaining - below \<le> hist cut"
    using cut(1) split by (simp add: prefix)
  let ?rest = "radix_passes ranks ds (\<lambda>c. sel c \<or> under c) bnd' (remaining - below)"
  have unfold: "radix_passes ranks (digit # ds) sel bnd remaining
    = (if remaining - below = hist cut then (\<lambda>c. (sel c \<or> under c) \<or> bnd' c) else ?rest)"
    by (simp only: radix_passes.simps Let_def under_def bnd'_def hist_def cut_def below_def)
  show ?case
  proof (cases "remaining - below = hist cut")
    case True
    let ?chosen = "\<lambda>c. under c \<or> bnd' c"
    have "radix_passes ranks (digit # ds) sel bnd remaining = (\<lambda>c. sel c \<or> ?chosen c)"
      unfolding unfold by (simp only: True if_True refl disj_assoc)
    moreover have "length (filter ?chosen ?cs) = remaining"
    proof -
      have "?chosen = (\<lambda>c. bnd c \<and> digit c \<le> cut)" by (auto simp: under_def bnd'_def fun_eq_iff)
      then show ?thesis using split True less by simp
    qed
    ultimately show ?thesis
      by (intro exI [of _ ?chosen]) (auto simp: under_def bnd'_def)
  next
    case False
    have run: "radix_passes ranks (digit # ds) sel bnd remaining = ?rest"
      using False unfold by (simp only: if_False)
    have two: "1 < length (filter bnd' ?cs)"
      using False room less by (simp add: hist bnd'_def)
    have "ds \<noteq> []"
    proof
      assume "ds = []"
      then have "a = b" if "a \<in> set (filter bnd' ?cs)" "b \<in> set (filter bnd' ?cs)" for a b
        using that Cons.prems(5) [of a b] by (auto simp: bnd'_def)
      moreover have "distinct (filter bnd' ?cs)" using assms(6) by simp
      ultimately show False using two nth_eq_iff_index_eq [of "filter bnd' ?cs" 0 1]
        by (metis nth_mem less_trans zero_less_one zero_neq_one)
    qed
    moreover have "\<And>a b. bnd' a \<Longrightarrow> bnd' b \<Longrightarrow> a \<in> set ?cs \<Longrightarrow> b \<in> set ?cs \<Longrightarrow>
        (\<forall>d \<in> set ds. d a = d b) \<Longrightarrow> a = b"
      using Cons.prems(5) by (simp add: bnd'_def)
    moreover have "1 \<le> remaining - below" "remaining - below \<le> length (filter bnd' ?cs)"
      using less room by (simp_all add: hist bnd'_def)
    moreover have "\<And>d c. d \<in> set ds \<Longrightarrow> d c < 256" using Cons.prems(4) by simp
    ultimately have "\<exists>chosen. (\<forall>c. ?rest c \<longleftrightarrow> (sel c \<or> under c) \<or> chosen c)
      \<and> (\<forall>c. chosen c \<longrightarrow> bnd' c) \<and> length (filter chosen ?cs) = remaining - below
      \<and> (\<forall>a b. chosen a \<longrightarrow> bnd' b \<longrightarrow> \<not> chosen b \<longrightarrow> digits_less ds a b)"
      by (intro Cons.IH)
    then obtain chosen where chosen:
      "\<And>c. ?rest c \<longleftrightarrow> (sel c \<or> under c) \<or> chosen c" "\<And>c. chosen c \<Longrightarrow> bnd' c"
      "length (filter chosen ?cs) = remaining - below"
      "\<And>a b. chosen a \<Longrightarrow> bnd' b \<Longrightarrow> \<not> chosen b \<Longrightarrow> digits_less ds a b"
      by blast
    let ?chosen = "\<lambda>c. under c \<or> chosen c"
    have "length (filter ?chosen ?cs) = length (filter under ?cs) + length (filter chosen ?cs)"
      by (rule filter_split_length) (auto simp: under_def bnd'_def dest: chosen(2))
    then have "length (filter ?chosen ?cs) = remaining" using chosen(3) below less by simp
    moreover have "digits_less (digit # ds) a b" if "?chosen a" "bnd b" "\<not> ?chosen b" for a b
    proof -
      from that have ge: "cut \<le> digit b" by (auto simp: under_def)
      from that(1) show ?thesis
      proof
        assume "under a"
        then show ?thesis using ge by (simp add: under_def)
      next
        assume a: "chosen a"
        then have "digit a = cut" using chosen(2) [OF a] by (simp add: bnd'_def)
        then show ?thesis using ge chosen(4) [OF a, of b] that(2,3) by (auto simp: bnd'_def)
      qed
    qed
    moreover have "radix_passes ranks (digit # ds) sel bnd remaining c \<longleftrightarrow> sel c \<or> ?chosen c" for c
      unfolding run chosen(1) by blast
    moreover have "bnd c" if "?chosen c" for c
      using that chosen(2) by (auto simp: under_def bnd'_def)
    ultimately show ?thesis by (intro exI [of _ ?chosen]) blast
  qed
qed simp

section \<open>Bytes order like the keys\<close>

lemma digit_block_less:
  fixes d d' l l' m :: nat
  assumes "l < m" "l' < m"
  shows "d * m + l < d' * m + l' \<longleftrightarrow> d < d' \<or> d = d' \<and> l < l'"
proof (cases d d' rule: linorder_cases)
  case less
  then have "(d + 1) * m \<le> d' * m" by (intro mult_le_mono1) simp
  with assms less show ?thesis by (simp add: algebra_simps)
next
  case greater
  then have "(d' + 1) * m \<le> d * m" by (intro mult_le_mono1) simp
  with assms greater show ?thesis by (simp add: algebra_simps)
qed simp

lemma digit_block_eq:
  fixes d d' l l' m :: nat
  assumes "l < m" "l' < m"
  shows "d * m + l = d' * m + l' \<longleftrightarrow> d = d' \<and> l = l'"
  using digit_block_less [OF assms, of d d'] digit_block_less [OF assms(2,1), of d' d]
  by (metis less_irrefl nat_neq_iff)

definition byte_shifts :: "nat \<Rightarrow> nat list" where
  "byte_shifts k = map (\<lambda>i. 8 * i) (rev [0..<k])"

lemma unat_below_64: "unat (w :: 64 word) < 2 ^ 64"
  using unsigned_less [of w] by simp

lemma key_digit_eq: "key_digit key s c = unat (key c) div 2 ^ s mod 256"
proof -
  have "(255 :: 64 word) = mask 8" by (simp add: mask_eq_exp_minus_1)
  then have "key_digit key s c = unat (take_bit 8 (drop_bit s (key c)))"
    unfolding key_digit_def by (simp only: take_bit_eq_mask)
  then show ?thesis using unat_below_64 [of "key c"]
    by (simp only: unsigned_take_bit_eq unsigned_drop_bit_eq) (simp add: take_bit_eq_mod drop_bit_eq_div)
qed

lemma digits_less_bytes:
  "digits_less (map (key_digit key) (byte_shifts k) @ rest) a b \<longleftrightarrow>
     unat (key a) mod 2 ^ (8 * k) < unat (key b) mod 2 ^ (8 * k)
     \<or> unat (key a) mod 2 ^ (8 * k) = unat (key b) mod 2 ^ (8 * k) \<and> digits_less rest a b"
proof (induction k)
  case (Suc k)
  have shifts: "byte_shifts (Suc k) = (8 * k) # byte_shifts k" by (simp add: byte_shifts_def)
  have split: "x mod 2 ^ (8 * Suc k) = (x div 2 ^ (8 * k) mod 256) * 2 ^ (8 * k) + x mod 2 ^ (8 * k)"
    for x :: nat
  proof -
    have "(2 :: nat) ^ (8 * Suc k) = 2 ^ (8 * k) * 256" by (simp add: power_add mult.commute)
    then have "x mod 2 ^ (8 * Suc k) = 2 ^ (8 * k) * (x div 2 ^ (8 * k) mod 256) + x mod 2 ^ (8 * k)"
      by (simp only: mod_mult2_eq)
    then show ?thesis by (simp only: mult.commute)
  qed
  have low: "x mod 2 ^ (8 * k) < 2 ^ (8 * k)" for x :: nat by simp
  show ?case
    unfolding shifts list.map append_Cons digits_less.simps Suc.IH split
      digit_block_less [OF low low] digit_block_eq [OF low low]
    unfolding key_digit_eq by blast
qed (simp add: byte_shifts_def)

lemma radix_digits_eq:
  "radix_digits = map (key_digit (\<lambda>c. score_key (cbits c))) (byte_shifts 8)
     @ map (key_digit cword) (byte_shifts 8) @ []"
  by (simp add: radix_digits_def byte_shifts_def upt_rec)

lemma digits_less_radix:
  "digits_less radix_digits a b \<longleftrightarrow>
     unat (score_key (cbits a)) < unat (score_key (cbits b))
     \<or> unat (score_key (cbits a)) = unat (score_key (cbits b)) \<and> unat (cword a) < unat (cword b)"
proof -
  have "unat w mod 2 ^ (8 * 8) = unat w" for w :: "64 word"
    using unat_below_64 [of w] by simp
  then show ?thesis unfolding radix_digits_eq digits_less_bytes by simp
qed

lemma radix_digits_bound: "d \<in> set radix_digits \<Longrightarrow> d c < 256"
  unfolding radix_digits_eq by (auto simp: key_digit_eq)

lemma digits_less_irrefl: "(\<forall>d \<in> set ds. d a = d b) \<Longrightarrow> \<not> digits_less ds a b"
  by (induction ds) auto

section \<open>The stable two-key sort\<close>

lemma insort_key_sorted_wrt:
  fixes f :: "'a \<Rightarrow> 'b::linorder"
  assumes "sorted_wrt (\<lambda>a b. f a < f b \<or> f a = f b \<and> R a b) ys" "\<forall>y \<in> set ys. R x y"
  shows "sorted_wrt (\<lambda>a b. f a < f b \<or> f a = f b \<and> R a b) (insort_key f x ys)"
  using assms
proof (induction ys)
  case (Cons y ys)
  show ?case
  proof (cases "f x \<le> f y")
    case True
    then have "f x < f z \<or> f x = f z \<and> R x z" if "z \<in> set (y # ys)" for z
      using that Cons.prems by fastforce
    then show ?thesis using True Cons.prems(1) by simp
  next
    case False
    then show ?thesis using Cons by (auto simp: set_insort_key)
  qed
qed simp

lemma sort_key_sorted_wrt:
  fixes f :: "'a \<Rightarrow> 'b::linorder"
  assumes "sorted_wrt R xs"
  shows "sorted_wrt (\<lambda>a b. f a < f b \<or> f a = f b \<and> R a b) (sort_key f xs)"
  using assms by (induction xs) (simp_all add: insort_key_sorted_wrt)

section \<open>The beam\<close>

definition all_cands :: "(64 word \<times> 64 word) list list \<Rightarrow> cand list" where
  "all_cands world = concat (map rank_cands (enumerate 0 world))"

text \<open>Beam order: by value, then by the physical word.\<close>

definition beam_before :: "cand \<Rightarrow> cand \<Rightarrow> bool" where
  "beam_before a b \<longleftrightarrow> scaled_double (cbits a) < scaled_double (cbits b)
     \<or> scaled_double (cbits a) = scaled_double (cbits b) \<and> unat (cword a) < unat (cword b)"

lemma cand_bits: "c \<in> set (all_cands world) \<Longrightarrow> cbits c \<noteq> 0x8000000000000000"
  by (auto simp: all_cands_def rank_cands_def plus_zero_def split: if_splits)

lemma digits_beam:
  assumes "a \<in> set (all_cands world)" "b \<in> set (all_cands world)"
  shows "digits_less radix_digits a b \<longleftrightarrow> beam_before a b"
proof -
  note order = score_key_order [OF cand_bits [OF assms(1)] cand_bits [OF assms(2)]]
    score_key_order [OF cand_bits [OF assms(2)] cand_bits [OF assms(1)]]
  then have "unat (score_key (cbits a)) = unat (score_key (cbits b))
      \<longleftrightarrow> scaled_double (cbits a) = scaled_double (cbits b)"
    by (metis less_irrefl nat_neq_iff not_less_iff_gr_or_eq)
  with order(1) show ?thesis by (simp add: digits_less_radix beam_before_def)
qed

lemma strict_sorted_index:
  fixes f :: "'a \<Rightarrow> 'b::linorder"
  assumes "sorted_wrt (\<lambda>a b. f a < f b) xs" "i < length xs"
  shows "card {w \<in> set xs. f w < f (xs ! i)} = i"
proof -
  have "w \<in> set (take i xs) \<longleftrightarrow> w \<in> set xs \<and> f w < f (xs ! i)" for w
  proof
    assume "w \<in> set (take i xs)"
    then obtain j where "j < i" "w = xs ! j" using assms(2) by (auto simp: in_set_conv_nth)
    then show "w \<in> set xs \<and> f w < f (xs ! i)" using assms by (auto dest: sorted_wrt_nth_less)
  next
    assume w: "w \<in> set xs \<and> f w < f (xs ! i)"
    then obtain j where j: "j < length xs" "w = xs ! j" by (auto simp: in_set_conv_nth)
    then have "j < i" using w assms sorted_wrt_nth_less [OF assms(1), of i j]
      by (metis less_asym less_irrefl linorder_neqE_nat)
    then show "w \<in> set (take i xs)" using j assms(2) by (auto simp: in_set_conv_nth)
  qed
  then have "{w \<in> set xs. f w < f (xs ! i)} = set (take i xs)" by blast
  moreover have "distinct xs"
    using assms(1) by (simp add: distinct_conv_nth sorted_wrt_iff_nth_less) (metis less_irrefl linorder_neqE_nat)
  then have "card (set (take i xs)) = i" using assms(2) by (simp add: distinct_card)
  ultimately show ?thesis by simp
qed

text \<open>The selection of one call, before the final ordering.\<close>

lemma selected_cands:
  assumes words: "distinct (map cword (all_cands world))" and width: "1 \<le> width"
  defines "ranks \<equiv> map rank_cands (enumerate 0 world)"
  defines "selected \<equiv> (if sum_list (map length ranks) > width
            then radix_passes ranks radix_digits (\<lambda>_. False) (\<lambda>_. True) width else (\<lambda>_. True))"
  shows "length (filter selected (all_cands world)) = min (length (all_cands world)) width"
    and "a \<in> set (all_cands world) \<Longrightarrow> b \<in> set (all_cands world) \<Longrightarrow> selected a \<Longrightarrow> \<not> selected b \<Longrightarrow> beam_before a b"
proof -
  have all: "concat ranks = all_cands world" by (simp add: ranks_def all_cands_def)
  have count: "sum_list (map length ranks) = length (all_cands world)"
    by (simp flip: all add: length_concat)
  have dist: "distinct (all_cands world)" using words by (simp add: distinct_map)
  have sep: "a = b" if "a \<in> set (all_cands world)" "b \<in> set (all_cands world)"
    "\<forall>d \<in> set radix_digits. d a = d b" for a b
  proof -
    have "\<not> digits_less radix_digits a b" "\<not> digits_less radix_digits b a"
      by (metis digits_less_irrefl that(3))+
    then have "unat (cword a) = unat (cword b)" unfolding digits_less_radix by linarith
    then have "cword a = cword b" by (simp add: word_unat_eq_iff)
    moreover have "inj_on cword (set (all_cands world))" using words by (simp add: distinct_map)
    ultimately show ?thesis using that(1,2) by (auto dest: inj_onD)
  qed
  have "length (filter selected (all_cands world)) = min (length (all_cands world)) width
    \<and> (\<forall>a b. a \<in> set (all_cands world) \<longrightarrow> b \<in> set (all_cands world) \<longrightarrow> selected a \<longrightarrow> \<not> selected b
         \<longrightarrow> beam_before a b)"
  proof (cases "length (all_cands world) > width")
    case True
    have "\<exists>chosen. (\<forall>c. radix_passes ranks radix_digits (\<lambda>_. False) (\<lambda>_. True) width c \<longleftrightarrow> False \<or> chosen c)
      \<and> (\<forall>c. chosen c \<longrightarrow> True) \<and> length (filter chosen (concat ranks)) = width
      \<and> (\<forall>a b. chosen a \<longrightarrow> True \<longrightarrow> \<not> chosen b \<longrightarrow> digits_less radix_digits a b)"
      by (rule radix_passes_correct)
        (use True width dist sep radix_digits_bound in \<open>auto simp: all radix_digits_def simp del: set_concat\<close>)
    then obtain chosen where ch: "selected = chosen" "length (filter chosen (all_cands world)) = width"
      "\<forall>a b. chosen a \<longrightarrow> \<not> chosen b \<longrightarrow> digits_less radix_digits a b"
      using True unfolding selected_def count all by (auto simp: fun_eq_iff)
    have "beam_before a b" if "a \<in> set (all_cands world)" "b \<in> set (all_cands world)" "chosen a" "\<not> chosen b" for a b
      using that ch(3) digits_beam [OF that(1,2)] by blast
    then show ?thesis using True ch(1,2) by auto
  next
    case False
    then show ?thesis by (simp add: selected_def count)
  qed
  then show "length (filter selected (all_cands world)) = min (length (all_cands world)) width"
    and "a \<in> set (all_cands world) \<Longrightarrow> b \<in> set (all_cands world) \<Longrightarrow> selected a \<Longrightarrow> \<not> selected b \<Longrightarrow> beam_before a b"
    by blast+
qed

lemma sort_key_same_order:
  fixes f :: "'a \<Rightarrow> 'b::linorder" and g :: "'a \<Rightarrow> 'c::linorder"
  assumes "\<And>x y. x \<in> set xs \<Longrightarrow> y \<in> set xs \<Longrightarrow> f x \<le> f y \<longleftrightarrow> g x \<le> g y"
  shows "sort_key f xs = sort_key g xs"
proof -
  have insort: "insort_key f x ys = insort_key g x ys" if "\<And>y. y \<in> set ys \<Longrightarrow> f x \<le> f y \<longleftrightarrow> g x \<le> g y" for x ys
    using that by (induction ys) auto
  show ?thesis using assms
  proof (induction xs)
    case (Cons x xs)
    have "insort_key f x (sort_key g xs) = insort_key g x (sort_key g xs)"
      using Cons.prems by (intro insort) simp
    moreover have "sort_key f xs = sort_key g xs" using Cons.prems by (intro Cons.IH) simp
    ultimately show ?case by simp
  qed simp
qed

lemma sint_nonneg_word: "\<not> bit (w :: 64 word) 63 \<Longrightarrow> sint w = int (unat w)"
proof -
  assume "\<not> bit w 63"
  then have "unat w < 2 ^ 63" by (simp add: bit63_iff)
  then have "int (unat w) < int (2 ^ 63)" by (simp only: of_nat_less_iff)
  then have "int (unat w) < 2 ^ 63" by (simp only: of_nat_power of_nat_numeral)
  then have "signed_take_bit 63 (int (unat w)) = int (unat w)"
    by (intro signed_take_bit_int_eq_self order_trans [OF _ of_nat_0_le_iff]) simp_all
  then show ?thesis by (simp add: sint_uint)
qed

lemma map_snd_enumerate [simp]: "map snd (enumerate n xs) = xs"
  by (simp add: enumerate_eq_zip)

lemma beam_order_of_words:
  fixes records :: "cand list"
  defines "by_word \<equiv> sort_key (\<lambda>c. unat (cword c)) records"
  defines "in_order \<equiv> sort_key (\<lambda>(_, c). scaled_double (cbits c)) (enumerate 0 by_word)"
  assumes "distinct (map cword records)"
  shows "sorted_wrt beam_before (map snd in_order)" "mset (map snd in_order) = mset records"
    and "(k, c) \<in> set in_order \<Longrightarrow> k = card {w \<in> set records. unat (cword w) < unat (cword c)}"
proof -
  let ?u = "\<lambda>c. unat (cword c)"
  have inj: "distinct (map ?u by_word)"
  proof -
    have "distinct (map cword by_word)"
      using assms(3) unfolding by_word_def distinct_map by simp
    moreover have "inj_on unat (cword ` set by_word)" by (rule inj_onI) (simp add: word_unat_eq_iff)
    ultimately have "distinct (map unat (map cword by_word))"
      by (simp add: distinct_map del: map_map)
    then show ?thesis by (simp add: comp_def)
  qed
  have strict: "sorted_wrt (\<lambda>a b. ?u a < ?u b) by_word"
  proof -
    have "sorted (map ?u by_word)" unfolding by_word_def by simp
    then have "sorted_wrt (<) (map ?u by_word)" using inj by (simp add: strict_sorted_iff)
    then show ?thesis by (simp add: sorted_wrt_map)
  qed
  have "sorted_wrt (\<lambda>a b. ?u a < ?u b) (map snd (enumerate 0 by_word))"
    using strict by (simp only: map_snd_enumerate)
  then have "sorted_wrt (\<lambda>p q. ?u (snd p) < ?u (snd q)) (enumerate 0 by_word)"
    by (simp only: sorted_wrt_map)
  from sort_key_sorted_wrt [OF this, of "\<lambda>(_, c). scaled_double (cbits c)"]
  show "sorted_wrt beam_before (map snd in_order)"
    unfolding in_order_def sorted_wrt_map beam_before_def
    by (simp add: case_prod_beta)
  have "mset (map snd in_order) = mset (map snd (enumerate 0 by_word))"
    unfolding in_order_def mset_map by simp
  then show m: "mset (map snd in_order) = mset records"
    by (simp add: by_word_def)
  assume "(k, c) \<in> set in_order"
  then have "(k, c) \<in> set (enumerate 0 by_word)" by (simp add: in_order_def)
  then have "k < length by_word" "c = by_word ! k"
    by (auto simp: in_set_enumerate_eq)
  with strict_sorted_index [OF strict] have "card {w \<in> set by_word. ?u w < ?u c} = k" by simp
  then show "k = card {w \<in> set records. ?u w < ?u c}" by (simp add: by_word_def)
qed

text \<open>Every winner names a rank of the world and one of that rank's candidates.\<close>

lemma global_winners_valid:
  assumes "global_winners world width = Inr ws" "(r, i, k) \<in> set ws"
  shows "r < length world" "i < length (world ! r)"
proof -
  have enum: "y \<in> set xs" if "(m, y) \<in> set (enumerate 0 xs)" for m y and xs :: "cand list"
    using that by (metis map_snd_enumerate image_eqI set_map snd_conv)
  define sel where "sel = (if sum_list (map length (map rank_cands (enumerate 0 world))) > width
            then radix_passes (map rank_cands (enumerate 0 world)) radix_digits (\<lambda>_. False) (\<lambda>_. True) width
            else (\<lambda>_. True))"
  have "ws = map (\<lambda>(k, c). (crank c, cidx c, k))
      (sort_key (\<lambda>(_, c). scaled_double (cbits c))
        (enumerate 0 (sort_key (\<lambda>c. sint (cword c)) (concat (map (filter sel) (map rank_cands (enumerate 0 world)))))))"
    using assms(1) unfolding global_winners_def Let_def sel_def [symmetric]
    by (auto simp only: sum.inject split: if_split_asm)
  with assms(2) obtain c where "(k, c) \<in> set (enumerate 0 (sort_key (\<lambda>c. sint (cword c))
      (concat (map (filter sel) (map rank_cands (enumerate 0 world))))))" "r = crank c" "i = cidx c" by auto
  then have "c \<in> set (concat (map (filter sel) (map rank_cands (enumerate 0 world))))"
    using enum by (metis set_sort)
  then obtain p where "p \<in> set (enumerate 0 world)" "c \<in> set (rank_cands p)" by auto
  then show "r < length world" "i < length (world ! r)"
    using \<open>r = crank c\<close> \<open>i = cidx c\<close> by (auto simp: rank_cands_def in_set_enumerate_eq)
qed

text \<open>C8. When the physical words of all candidates are different and nonnegative, the cutoff over
  all ranks returns min(count, width) candidates without error; they are in beam order (value, then
  word), every candidate left out comes after every winner, and each winner's new rank is the
  number of winners with a smaller word.\<close>
theorem global_winners_exact:
  assumes "distinct (map cword (all_cands world))" "\<forall>c \<in> set (all_cands world). \<not> bit (cword c) 63"
    "1 \<le> width"
  shows "\<exists>winners. global_winners world width =
      Inr (map (\<lambda>c. (crank c, cidx c, card {w \<in> set winners. unat (cword w) < unat (cword c)})) winners)
    \<and> length winners = min (length (all_cands world)) width \<and> set winners \<subseteq> set (all_cands world)
    \<and> sorted_wrt beam_before winners
    \<and> (\<forall>w \<in> set winners. \<forall>c \<in> set (all_cands world) - set winners. beam_before w c)"
proof -
  define ranks where "ranks = map rank_cands (enumerate 0 world)"
  define selected where "selected = (if sum_list (map length ranks) > width
            then radix_passes ranks radix_digits (\<lambda>_. False) (\<lambda>_. True) width else (\<lambda>_. True))"
  define records where "records = concat (map (filter selected) ranks)"
  have recs: "records = filter selected (all_cands world)"
    by (simp add: records_def all_cands_def filter_concat ranks_def)
  note sel = selected_cands [OF assms(1,3), folded ranks_def, folded selected_def]
  have len: "length records = min (length (all_cands world)) width" using sel(1) by (simp add: recs)
  define by_word where "by_word = sort_key (\<lambda>c. unat (cword c)) records"
  define in_order where "in_order = sort_key (\<lambda>(_, c). scaled_double (cbits c)) (enumerate 0 by_word)"
  have "sort_key (\<lambda>c. sint (cword c)) records = by_word"
    unfolding by_word_def
  proof (rule sort_key_same_order)
    fix a b assume "a \<in> set records" "b \<in> set records"
    then have "\<not> bit (cword a) 63" "\<not> bit (cword b) 63" using assms(2) by (simp_all add: recs)
    then show "sint (cword a) \<le> sint (cword b) \<longleftrightarrow> unat (cword a) \<le> unat (cword b)"
      by (subst (1 2) sint_nonneg_word) (simp_all del: of_nat_unat)
  qed
  then have run: "global_winners world width = Inr (map (\<lambda>(k, c). (crank c, cidx c, k)) in_order)"
    using len sel(1)
    by (simp add: global_winners_def Let_def in_order_def flip: ranks_def selected_def records_def)
      (simp add: all_cands_def ranks_def length_concat)
  have drec: "distinct (map cword records)" using assms(1) by (simp add: recs distinct_map_filter)
  note order = beam_order_of_words [OF drec, folded by_word_def, folded in_order_def]
  let ?winners = "map snd in_order"
  have set_w: "set ?winners = set records" using order(2) by (metis mset_eq_setD)
  show ?thesis
  proof (intro exI [of _ ?winners] conjI ballI)
    show "global_winners world width =
      Inr (map (\<lambda>c. (crank c, cidx c, card {w \<in> set ?winners. unat (cword w) < unat (cword c)})) ?winners)"
      unfolding run set_w using order(3) by (auto simp: case_prod_beta)
    show "length ?winners = min (length (all_cands world)) width"
      using len order(2) by (metis size_mset)
    show "set ?winners \<subseteq> set (all_cands world)" unfolding set_w by (auto simp: recs)
    show "sorted_wrt beam_before ?winners" by (rule order(1))
    fix w c assume "w \<in> set ?winners" "c \<in> set (all_cands world) - set ?winners"
    then show "beam_before w c" unfolding set_w using sel(2) [of w c] by (simp add: recs)
  qed
qed

lemma global_winners_exact_witness:
  "\<exists>winners. global_winners [[(0x4000000000000000, 5)], [(0x3ff0000000000000, 9), (0x8000000000000000, 7)]] 2
       = Inr (map (\<lambda>c. (crank c, cidx c, card {w \<in> set winners. unat (cword w) < unat (cword c)})) winners)
     \<and> length winners = 2 \<and> sorted_wrt beam_before winners"
proof -
  let ?world = "[[(0x4000000000000000, 5)], [(0x3ff0000000000000, 9), (0x8000000000000000, 7)]]
    :: (64 word \<times> 64 word) list list"
  have all: "map cword (all_cands ?world) = [5, 9, 7]" by (simp add: all_cands_def rank_cands_def)
  have "distinct (map cword (all_cands ?world))" by (simp add: all)
  moreover have "\<forall>c \<in> set (all_cands ?world). \<not> bit (cword c) 63"
    by (simp add: all_cands_def rank_cands_def)
  moreover have "length (all_cands ?world) = 3" by (simp add: all_cands_def rank_cands_def)
  ultimately show ?thesis using global_winners_exact [of ?world 2] by auto
qed

end
