(* ===== verification/CnotSearch.thy ===== *)
theory CnotSearch
  imports CnotPrimitives CnotSelection "HOL-Library.Product_Lexorder"
begin

text \<open>
  The distributed beam search of \<open>cnot.py\<close> over the collectives of \<open>cnot_collectives.py\<close>. All
  ranks run the same program, so a step is modelled on the list of all ranks: what each rank
  computes is a function of its own state, and a collective maps the list of the ranks' tensors to
  the list of their results. The scorer is a parameter: for each rank the scores of the alphabet for
  a batch of parents and the values of a batch of children, as bit patterns of doubles or an
  exception. Audit records and the per-layer statistics of the wire are not modelled.
\<close>

section \<open>Collectives\<close>

text \<open>\<open>checked\<close>: on one rank the exception passes; otherwise any failing rank makes all raise.\<close>

definition world_checked :: "string \<Rightarrow> 'a result list \<Rightarrow> 'a list result" where
  "world_checked stage rs =
     (if length rs = 1 then emap (\<lambda>r. r) rs
      else if list_all is_ok rs then emap (\<lambda>r. r) rs
      else Inl (RuntimeError (stage @ '' failed'')))"

text \<open>\<open>exchange\<close>: every rank receives, source by source, the rows sent to it, in sending order.\<close>

definition world_exchange :: "('a \<times> nat) list list \<Rightarrow> 'a list list" where
  "world_exchange world =
     (if length world = 1 then map (map fst) world
      else map (\<lambda>r. concat (map (\<lambda>rows. map fst (filter (\<lambda>(_, t). t = r) rows)) world))
             [0..<length world])"

section \<open>The state of a rank\<close>

record rank_state =
  parents :: "matrix list"
  plex :: "nat list"
  pbegin :: nat
  seen :: "matrix list"

record child_meta =
  cm_parent :: nat
  cm_word :: nat
  cm_generation :: nat
  cm_route :: int

text \<open>A retained edge: its parent's slot, its packed route and the rank that owned the child.\<close>

record edge =
  e_parent :: nat
  e_route :: int
  e_owner :: nat

text \<open>A layer of the history: its width, its predecessor's width and the edges each rank keeps.\<close>

record history_layer =
  h_count :: nat
  h_previous :: nat
  h_records :: "edge list list"

record layer =
  l_depth :: nat
  l_distinct :: nat
  l_retained :: nat

record route_step =
  rs_source :: nat
  rs_owner :: nat
  rs_target :: nat
  rs_move :: nat

datatype status = Solved | Exhausted | DepthLimit

record cnot_result =
  cr_status :: status
  cr_gates :: "int list option"
  cr_layers :: "layer list"
  cr_routes :: "route_step list"

text \<open>The scorer bound to each rank.\<close>

type_synonym parent_scorer = "nat \<Rightarrow> matrix list \<Rightarrow> string \<Rightarrow> 64 word list list result"
type_synonym child_scorer = "nat \<Rightarrow> matrix list \<Rightarrow> 64 word list result"

section \<open>One-gate completions\<close>

definition zero_row :: "row \<Rightarrow> bool" where
  "zero_row r \<longleftrightarrow> list_all (\<lambda>w. w = 0) r"

definition changed_rows :: "nat \<Rightarrow> matrix \<Rightarrow> nat list" where
  "changed_rows n p = filter (\<lambda>i. \<not> zero_row (xor_row (p ! i) (cnot_identity n ! i))) [0..<n]"

text \<open>The move that completes a parent, when exactly one row differs from the identity and another
  row equals the difference.\<close>

definition completing_move :: "nat \<Rightarrow> matrix \<Rightarrow> nat option" where
  "completing_move n p =
     (case changed_rows n p of
        [target] \<Rightarrow>
          (let needed = xor_row (p ! target) (cnot_identity n ! target) in
           case filter (\<lambda>i. i \<noteq> target \<and> p ! i = needed) [0..<n] of
             control # _ \<Rightarrow> Some (control * (n - 1) + target - (if control < target then 1 else 0))
           | [] \<Rightarrow> None)
      | _ \<Rightarrow> None)"

text \<open>Each rank offers its hit of least lexical rank; the least key over all ranks wins.\<close>

definition goal_offer :: "nat \<Rightarrow> rank_state \<Rightarrow> (nat \<times> nat) option" where
  "goal_offer n st =
     (let hits = filter (\<lambda>i. completing_move n (parents st ! i) \<noteq> None) [0..<length (parents st)] in
      map_option (\<lambda>i. (plex st ! i * alphabet n + the (completing_move n (parents st ! i)), pbegin st + i))
        (py_min (\<lambda>i. plex st ! i) hits))"

definition world_goal :: "nat \<Rightarrow> rank_state list \<Rightarrow> (nat \<times> nat) option" where
  "world_goal n world =
     map_option (\<lambda>(key, slot). (slot, key mod alphabet n))
       (py_min (\<lambda>offer. offer) (List.map_filter (goal_offer n) world))"

section \<open>Expansion\<close>

definition finite_double :: "64 word \<Rightarrow> bool" where
  "finite_double w \<longleftrightarrow> drop_bit 52 w AND 0x7ff \<noteq> 0x7ff"

definition check_scores :: "nat \<Rightarrow> nat \<Rightarrow> 64 word list list \<Rightarrow> 64 word list list result" where
  "check_scores rows cols t =
     (if length t \<noteq> rows \<or> \<not> list_all (\<lambda>r. length r = cols) t
      then Inl (ValueError ''expected floating scores of the requested shape'')
      else if \<not> list_all (list_all finite_double) t
      then Inl (ValueError ''nonfinite CNOT model score'')
      else Inr t)"

text \<open>A stable argsort of the alphabet, ascending for q-values and descending for proposals.\<close>

definition ranked_moves :: "string \<Rightarrow> nat \<Rightarrow> nat \<Rightarrow> 64 word list \<Rightarrow> nat list" where
  "ranked_moves mode n k scores =
     take k (sort_key (\<lambda>m. if mode = ''proposal'' then - scaled_double (scores ! m)
                           else scaled_double (scores ! m)) [0..<alphabet n])"

definition expand_rank ::
  "parent_scorer \<Rightarrow> string \<Rightarrow> nat \<Rightarrow> nat \<Rightarrow> nat \<Rightarrow> nat \<times> rank_state \<Rightarrow> ((child_meta \<times> matrix) \<times> nat) list result" where
  "expand_rank scorer mode world n k p = (case p of (rank, st) \<Rightarrow>
     let count = length (parents st) in
     ebind (if count \<noteq> 0 \<and> k < alphabet n
            then ebind (ebind (scorer rank (parents st) mode) (check_scores count (alphabet n)))
                   (\<lambda>t. Inr (map (ranked_moves mode n k) t))
            else Inr (replicate count [0..<k])) (\<lambda>moves.
     emap (\<lambda>(i, pos, move).
        ebind (cnot_children n (parents st) [(i, int move)]) (\<lambda>children.
        ebind (pack_cnot_route (int rank) (int move)) (\<lambda>route.
        ebind (cnot_owner n (int world) (hd children)) (\<lambda>owner'.
        Inr ((\<lparr>cm_parent = pbegin st + i, cm_word = plex st ! i * alphabet n + move,
               cm_generation = (pbegin st + i) * alphabet n + pos, cm_route = route\<rparr>,
              hd children), owner')))))
       [(i, pos, moves ! i ! pos). i \<leftarrow> [0..<count], pos \<leftarrow> [0..<k]]))"

section \<open>Distinct children and their values\<close>

definition distinct_rank ::
  "child_scorer \<Rightarrow> nat \<Rightarrow> nat \<times> rank_state \<times> (child_meta \<times> matrix) list
    \<Rightarrow> ((child_meta \<times> matrix) \<times> 64 word) list result" where
  "distinct_rank values n p = (case p of (rank, st, incoming) \<Rightarrow>
     let rows = sort_key (\<lambda>(m, _). cm_generation m) incoming in
     ebind (cnot_first_unseen n (seen st) (map snd rows)) (\<lambda>first.
     let kept = map ((!) rows) first in
     if kept = [] then Inr []
     else ebind (values rank (map snd kept)) (\<lambda>vs.
       ebind (check_scores 1 (length kept) [vs]) (\<lambda>_. Inr (zip kept vs)))))"

section \<open>One layer\<close>

text \<open>\<open>global_winners\<close> sees each rank's values and physical words as 64-bit tensors.\<close>

definition layer_winners ::
  "((child_meta \<times> matrix) \<times> 64 word) list list \<Rightarrow> nat \<Rightarrow> (nat \<times> nat \<times> nat) list result" where
  "layer_winners world width =
     global_winners (map (map (\<lambda>((m, _), v). (v, word_of_nat (cm_word m)))) world) width"

definition slot_rank :: "nat \<Rightarrow> nat \<Rightarrow> nat \<Rightarrow> nat" where
  "slot_rank world kept slot = slot * world div max 1 kept"

definition first_slot :: "nat \<Rightarrow> nat \<Rightarrow> nat \<Rightarrow> nat" where
  "first_slot world kept rank = (rank * kept + world - 1) div world"

text \<open>What an owner sends: the slot, its lexical rank, the edge and the state.\<close>

definition kept_rows ::
  "nat \<Rightarrow> ((child_meta \<times> matrix) \<times> 64 word) list \<Rightarrow> (nat \<times> nat \<times> nat) list \<Rightarrow> (nat \<times> nat \<times> edge \<times> matrix) list" where
  "kept_rows rank cands winners =
     map (\<lambda>(slot, _, idx, new_lex). case fst (cands ! idx) of (m, child) \<Rightarrow>
           (slot, new_lex, \<lparr>e_parent = cm_parent m, e_route = cm_route m, e_owner = rank\<rparr>, child))
       (filter (\<lambda>(_, r, _, _). r = rank) (enumerate 0 winners))"

definition advance_world ::
  "rank_state list \<Rightarrow> ((child_meta \<times> matrix) \<times> 64 word) list list \<Rightarrow> (nat \<times> nat \<times> nat) list
    \<Rightarrow> rank_state list \<times> edge list list" where
  "advance_world world cands winners =
     (let size' = length world; count = length winners;
          kept = map (\<lambda>r. kept_rows r (cands ! r) winners) [0..<size'];
          received = map (sort_key fst)
            (world_exchange (map (map (\<lambda>row. (row, slot_rank size' count (fst row)))) kept)) in
      (map (\<lambda>r. \<lparr>parents = map (\<lambda>(_, _, _, m). m) (received ! r),
                 plex = map (\<lambda>(_, l, _, _). l) (received ! r),
                 pbegin = first_slot size' count r,
                 seen = seen (world ! r) @ map (\<lambda>(_, _, _, m). m) (kept ! r)\<rparr>) [0..<size'],
       map (map (\<lambda>(_, _, e, _). e)) received))"

section \<open>Reconstruction\<close>

text \<open>The rank that holds a slot broadcasts its edge; an index past its records raises.\<close>

definition fetch_edge :: "nat \<Rightarrow> history_layer \<Rightarrow> nat \<Rightarrow> edge result" where
  "fetch_edge world h slot =
     (let target = slot * world div h_count h;
          records = h_records h ! target;
          begin' = first_slot world (h_count h) target in
      if target < length (h_records h) \<and> begin' \<le> slot \<and> slot - begin' < length records
      then Inr (records ! (slot - begin')) else Inl IndexError)"

fun walk_history ::
  "nat \<Rightarrow> history_layer list \<Rightarrow> nat \<Rightarrow> int list \<Rightarrow> route_step list
     \<Rightarrow> (nat \<times> int list \<times> route_step list) result" where
  "walk_history world [] slot moves routes = Inr (slot, moves, routes)"
| "walk_history world (h # hs) slot moves routes =
     ebind (fetch_edge world h slot) (\<lambda>e.
     let target = slot * world div h_count h;
         source = nat (e_route e div 65536); move = nat (e_route e mod 65536) in
     if source \<noteq> e_parent e * world div h_previous h
     then Inl (RuntimeError ''CNOT history disagrees with parent world rank'')
     else walk_history world hs (e_parent e) (moves @ [int move])
            (routes @ [\<lparr>rs_source = source, rs_owner = e_owner e, rs_target = target, rs_move = move\<rparr>]))"

definition reconstruct ::
  "nat \<Rightarrow> history_layer list \<Rightarrow> nat \<times> nat \<Rightarrow> nat list \<Rightarrow> (int list \<times> route_step list) result" where
  "reconstruct world history final input_rows = (case final of (slot, last_move) \<Rightarrow>
     ebind (walk_history world (rev history) slot [int last_move] []) (\<lambda>(slot', gates, routes).
     ebind (if slot' \<noteq> 0 then Inl (RuntimeError ''CNOT construction failed bitwise replay from the identity'')
            else replay_cnot (length input_rows) gates) (\<lambda>rows.
     if rows \<noteq> input_rows
     then Inl (RuntimeError ''CNOT construction failed bitwise replay from the identity'')
     else Inr (gates, rev routes))))"

section \<open>The search\<close>

record search_state =
  ranks :: "rank_state list"
  previous_count :: nat
  history :: "history_layer list"
  layers :: "layer list"

definition search_layer ::
  "parent_scorer \<Rightarrow> child_scorer \<Rightarrow> string \<Rightarrow> nat \<Rightarrow> nat \<Rightarrow> nat \<Rightarrow> nat \<Rightarrow> search_state \<Rightarrow> search_state result" where
  "search_layer scorer values mode n k width step s =
     (let world = length (ranks s) in
      ebind (world_checked ''rank parent actions and expand''
               (map (expand_rank scorer mode world n k) (enumerate 0 (ranks s)))) (\<lambda>candidates.
      ebind (world_checked ''deduplicate and evaluate distinct children''
               (map (distinct_rank values n)
                 (enumerate 0 (zip (ranks s) (world_exchange candidates))))) (\<lambda>cands.
      ebind (layer_winners cands width) (\<lambda>winners.
      let (ranks', records) = advance_world (ranks s) cands winners;
          count = length winners in
      Inr \<lparr>ranks = ranks', previous_count = count,
           history = history s @ [\<lparr>h_count = count, h_previous = previous_count s, h_records = records\<rparr>],
           layers = layers s @ [\<lparr>l_depth = step + 1, l_distinct = sum_list (map length cands),
                                 l_retained = count\<rparr>]\<rparr>))))"

fun search_loop ::
  "parent_scorer \<Rightarrow> child_scorer \<Rightarrow> string \<Rightarrow> nat \<Rightarrow> nat \<Rightarrow> nat \<Rightarrow> nat list \<Rightarrow> nat \<Rightarrow> nat \<Rightarrow> search_state
    \<Rightarrow> cnot_result result" where
  "search_loop scorer values mode n k width rows step 0 s =
     Inr \<lparr>cr_status = DepthLimit, cr_gates = None, cr_layers = layers s, cr_routes = []\<rparr>"
| "search_loop scorer values mode n k width rows step (Suc fuel) s =
     (case world_goal n (ranks s) of
        Some final \<Rightarrow>
          ebind (reconstruct (length (ranks s)) (history s) final rows) (\<lambda>(gates, routes).
          Inr \<lparr>cr_status = Solved, cr_gates = Some gates, cr_layers = layers s, cr_routes = routes\<rparr>)
      | None \<Rightarrow>
          if fuel = 0
          then Inr \<lparr>cr_status = DepthLimit, cr_gates = None, cr_layers = layers s, cr_routes = []\<rparr>
          else ebind (search_layer scorer values mode n k width step s) (\<lambda>s'.
            if previous_count s' = 0
            then Inr \<lparr>cr_status = Exhausted, cr_gates = None, cr_layers = layers s', cr_routes = []\<rparr>
            else search_loop scorer values mode n k width rows (step + 1) fuel s'))"

definition start_state :: "nat \<Rightarrow> nat \<Rightarrow> matrix \<Rightarrow> search_state" where
  "start_state world owner' start =
     \<lparr>ranks = map (\<lambda>r. \<lparr>parents = (if r = 0 then [start] else []), plex = (if r = 0 then [0] else []),
                        pbegin = 0, seen = (if r = owner' then [start] else [])\<rparr>) [0..<world],
      previous_count = 1, history = [], layers = []\<rparr>"

text \<open>Every rank passes the same start and settings here; a differing digest raises before the search.\<close>

definition search_cnot ::
  "nat \<Rightarrow> parent_scorer \<Rightarrow> child_scorer \<Rightarrow> matrix \<Rightarrow> pyval \<Rightarrow> pyval \<Rightarrow> pyval \<Rightarrow> string \<Rightarrow> cnot_result result" where
  "search_cnot world scorer values start width shortlist max_depth mode =
     (if world > 65536 then Inl (ValueError ''CNOT physical routes support at most 65536 world ranks'')
      else
      ebind (world_checked ''validate CNOT input''
               (replicate world (check_input start width shortlist max_depth mode))) (\<lambda>checks.
      let rows = hd checks; n = length rows in
      if start = cnot_identity n
      then Inr \<lparr>cr_status = Solved, cr_gates = Some [], cr_layers = [], cr_routes = []\<rparr>
      else
        let k = min (nat (the_int shortlist)) (alphabet n) in
        ebind (world_checked ''initialize CNOT domain''
                 (replicate world (cnot_owner n (int world) start))) (\<lambda>owners.
        search_loop scorer values mode n k (nat (the_int width)) rows 0 (nat (the_int max_depth))
          (start_state world (hd owners) start))))"

section \<open>Slots and ranks\<close>

lemma nat_ceil_le_iff: "0 < w \<Longrightarrow> (a + w - 1) div w \<le> s \<longleftrightarrow> a \<le> s * w" for a s w :: nat
proof -
  assume w: "0 < w"
  have "(a + w - 1) div w \<le> s \<longleftrightarrow> (a + w - 1) div w < s + 1" by auto
  also have "\<dots> \<longleftrightarrow> a + w - 1 < (s + 1) * w" using w by (simp only: div_less_iff_less_mult)
  also have "\<dots> \<longleftrightarrow> a \<le> s * w" using w by (auto simp: algebra_simps)
  finally show ?thesis .
qed

lemma slot_rank_iff:
  assumes "0 < w" "0 < N"
  shows "s * w div N = r \<longleftrightarrow> first_slot w N r \<le> s \<and> s < first_slot w N (r + 1)"
proof -
  have "s * w div N = r \<longleftrightarrow> r * N \<le> s * w \<and> s * w < (r + 1) * N"
    using assms(2) by (metis (no_types, lifting) Suc_eq_plus1 div_nat_eqI div_less_iff_less_mult
        less_eq_div_iff_mult_less_eq less_Suc_eq_le order_antisym_conv order_refl mult.commute mult_Suc_right)
  then show ?thesis
    using nat_ceil_le_iff [OF assms(1), of "r * N" s] nat_ceil_le_iff [OF assms(1), of "(r + 1) * N" s]
    by (simp add: first_slot_def not_le [symmetric])
qed

lemma slot_rank_less: "0 < w \<Longrightarrow> s < N \<Longrightarrow> s * w div N < w" for s w N :: nat
  by (simp add: div_less_iff_less_mult)

lemma first_slot_le: "0 < w \<Longrightarrow> r \<le> w \<Longrightarrow> first_slot w N r \<le> N"
  unfolding first_slot_def by (subst nat_ceil_le_iff) (simp_all add: mult.commute)

lemma world_exchange_mem:
  assumes "r < length world" "x \<in> set (world_exchange world ! r)"
  shows "\<exists>rows \<in> set world. \<exists>t. (x, t) \<in> set rows"
proof (cases "length world = 1")
  case True
  then have "r = 0" and in0: "world ! 0 \<in> set world" using assms(1) by simp_all
  then obtain t where "(x, t) \<in> set (world ! 0)"
    using True assms(2) by (auto simp: world_exchange_def)
  with in0 show ?thesis by blast
next
  case False
  then obtain rows where "rows \<in> set world" "x \<in> fst ` {y \<in> set rows. case y of (_, t) \<Rightarrow> t = r}"
    using assms by (auto simp: world_exchange_def)
  then have "rows \<in> set world" "(x, r) \<in> set rows" by auto
  then show ?thesis by blast
qed

lemma length_world_exchange [simp]: "length (world_exchange world) = length world"
  by (simp add: world_exchange_def)

section \<open>A completing gate\<close>

definition clean :: "nat \<Rightarrow> matrix \<Rightarrow> bool" where
  "clean n m \<longleftrightarrow> shaped n m \<and> mask_matrix n m = m"

lemma clean_apply: "2 \<le> n \<Longrightarrow> move < alphabet n \<Longrightarrow> shaped n m \<Longrightarrow> clean n (apply_cnot n move m)"
  using shaped_apply by (simp add: clean_def) (simp add: apply_cnot_def)

lemma clean_eq_iff: "0 < n \<Longrightarrow> clean n a \<Longrightarrow> clean n b \<Longrightarrow> a = b \<longleftrightarrow> row_ints n a = row_ints n b"
  using mask_matrix_eq_iff [of n a b] by (simp add: clean_def)

lemma zero_row_xor: "length a = length b \<Longrightarrow> zero_row (xor_row a b) \<longleftrightarrow> a = b"
proof (induction a b rule: list_induct2)
  case (Cons x xs y ys)
  have "x XOR y = 0 \<longleftrightarrow> x = y"
  proof
    assume "x XOR y = 0"
    then have "x XOR (x XOR y) = x" by simp
    then show "x = y" by (simp flip: xor.assoc)
  qed simp
  with Cons show ?case by (simp add: zero_row_def xor_row_def)
qed (simp add: zero_row_def xor_row_def)

lemma word_xor_cancel: "x XOR (x XOR y) = (y :: 64 word)"
  by (simp flip: xor.assoc)

lemma xor_row_cancel: "length a = length b \<Longrightarrow> xor_row a (xor_row a b) = b"
proof (induction a b rule: list_induct2)
  case (Cons x xs y ys)
  then show ?case by (simp add: xor_row_def word_xor_cancel)
qed (simp add: xor_row_def)

lemma shaped_identity: "0 < n \<Longrightarrow> shaped n (cnot_identity n)"
  by (auto simp: shaped_def cnot_identity_def)

lemma unpack_identity_row:
  "r < n \<Longrightarrow> unpack_row ((replicate (lanes n) 0)[r div 64 := 2 ^ (r mod 64)]) = 2 ^ r"
proof -
  assume r: "r < n"
  have zeros: "unpack_row (replicate k 0) = 0" for k by (induction k) auto
  have gen: "q < k \<Longrightarrow> unpack_row ((replicate k 0)[q := w]) = 2 ^ (64 * q) * unat w" for q k w
  proof (induction k arbitrary: q)
    case (Suc k)
    then show ?case by (cases q) (simp_all add: zeros power_add)
  qed simp
  have "r div 64 < lanes n" using r unfolding lanes_def by (simp add: div_less_iff_less_mult)
  moreover have "unat (2 ^ (r mod 64) :: 64 word) = 2 ^ (r mod 64)"
  proof -
    have "(2 ^ (r mod 64) :: nat) < 2 ^ 64" by (intro power_strict_increasing) simp_all
    moreover have "(2 ^ (r mod 64) :: 64 word) = word_of_nat (2 ^ (r mod 64))" by simp
    ultimately show ?thesis by (simp only: unsigned_of_nat) (simp add: take_bit_nat_eq_self)
  qed
  ultimately have "unpack_row ((replicate (lanes n) 0)[r div 64 := 2 ^ (r mod 64)])
      = 2 ^ (64 * (r div 64)) * 2 ^ (r mod 64)" by (simp add: gen)
  also have "\<dots> = 2 ^ (64 * (r div 64) + r mod 64)" by (simp only: power_add)
  finally show ?thesis by simp
qed

lemma row_ints_identity: "row_ints n (cnot_identity n) = map (\<lambda>r. push_bit r 1) [0..<n]"
proof -
  have "take_bit n (2 ^ r) = (2 ^ r :: nat)" if "r < n" for r
    using that by (simp add: take_bit_nat_eq_self)
  then show ?thesis by (simp add: row_ints_def cnot_identity_def unpack_identity_row)
qed

lemma clean_identity: "0 < n \<Longrightarrow> clean n (cnot_identity n)"
proof -
  assume n: "0 < n"
  let ?row = "\<lambda>r. (replicate (lanes n) 0)[r div 64 := 2 ^ (r mod 64) :: 64 word]"
  have "mask_row n (?row r) = ?row r" if "r < n" for r
  proof -
    have "unpack_row (mask_row n (?row r)) = unpack_row (?row r)"
      using that n by (simp add: unpack_mask_row unpack_identity_row take_bit_nat_eq_self)
    then show ?thesis by (subst (asm) unpack_inject) simp_all
  qed
  then have "mask_matrix n (cnot_identity n) = cnot_identity n"
    by (simp add: mask_matrix_def cnot_identity_def)
  with n show ?thesis by (simp add: clean_def shaped_identity)
qed

lemma identity_row: "0 < n \<Longrightarrow> i < n \<Longrightarrow> length (cnot_identity n ! i) = lanes n"
  using shaped_identity shaped_nth by blast

lemma identity_masked: "0 < n \<Longrightarrow> i < n \<Longrightarrow> mask_row n (cnot_identity n ! i) = cnot_identity n ! i"
  using clean_identity [of n] shaped_identity [of n] unfolding clean_def mask_matrix_def shaped_def
  by (metis nth_map)

lemma changed_rows_mem:
  "0 < n \<Longrightarrow> shaped n p \<Longrightarrow> i \<in> set (changed_rows n p) \<longleftrightarrow> i < n \<and> p ! i \<noteq> cnot_identity n ! i"
  by (auto simp: changed_rows_def zero_row_xor shaped_nth identity_row)

lemma mask_xor_row:
  assumes "0 < n" "length a = lanes n" "length b = lanes n" "mask_row n a = a" "mask_row n b = b"
  shows "mask_row n (xor_row a b) = xor_row a b"
proof -
  have "take_bit n (unpack_row a) = unpack_row a" "take_bit n (unpack_row b) = unpack_row b"
    using assms unpack_mask_row [of n a] unpack_mask_row [of n b] by simp_all
  then have "unpack_row (mask_row n (xor_row a b)) = unpack_row (xor_row a b)"
    using assms(1-3) by (simp add: unpack_mask_row unpack_xor_row)
  then show ?thesis by (subst (asm) unpack_inject) simp_all
qed

lemma clean_row: "clean n p \<Longrightarrow> i < n \<Longrightarrow> mask_row n (p ! i) = p ! i"
  unfolding clean_def shaped_def mask_matrix_def by (metis nth_map)

lemma completing_move_sound:
  assumes "2 \<le> n" "clean n p" "completing_move n p = Some move"
  shows "move < alphabet n" "apply_cnot n move p = cnot_identity n"
proof -
  let ?I = "cnot_identity n"
  have n0: "0 < n" using assms(1) by simp
  have sh: "shaped n p" and len: "length p = n" using assms(2) by (simp_all add: clean_def shaped_def)
  from assms(3) obtain t c cs where t: "changed_rows n p = [t]"
    and cs: "filter (\<lambda>i. i \<noteq> t \<and> p ! i = xor_row (p ! t) (?I ! t)) [0..<n] = c # cs"
    and move: "move = c * (n - 1) + t - (if c < t then 1 else 0)"
    by (auto simp: completing_move_def Let_def split: list.splits)
  have "t \<in> set (changed_rows n p)" by (simp add: t)
  then have tn: "t < n" using changed_rows_mem [OF n0 sh] by blast
  have "c \<in> set (filter (\<lambda>i. i \<noteq> t \<and> p ! i = xor_row (p ! t) (?I ! t)) [0..<n])" by (simp only: cs) simp
  then have c: "c < n" "c \<noteq> t" "p ! c = xor_row (p ! t) (?I ! t)" by auto
  have "move = c * (n - 1) + (if c < t then t - 1 else t)" using move by auto
  with move_encode [OF c(1) tn c(2)] have enc:
    "move < alphabet n" "move_control n move = c" "move_target n move = t" by simp_all
  then show "move < alphabet n" by simp
  have other: "p ! i = ?I ! i" if "i < n" "i \<noteq> t" for i
    using that changed_rows_mem [OF n0 sh, of i] t by simp
  have "xor_row (p ! t) (p ! c) = ?I ! t"
    unfolding c(3) using xor_row_cancel shaped_nth [OF sh tn] identity_row [OF n0 tn] by simp
  then have "p[t := xor_row (p ! t) (p ! c)] = ?I"
    using other len tn shaped_identity [OF n0]
    by (rule_tac nth_equalityI) (auto simp: shaped_def nth_list_update)
  then show "apply_cnot n move p = ?I"
    using enc clean_identity [OF n0] by (simp add: apply_cnot_def clean_def)
qed

lemma completing_move_complete:
  assumes "2 \<le> n" "clean n p" "p \<noteq> cnot_identity n" "move < alphabet n"
    "apply_cnot n move p = cnot_identity n"
  shows "completing_move n p \<noteq> None"
proof -
  let ?I = "cnot_identity n"
  define c t where "c = move_control n move" and "t = move_target n move"
  have n0: "0 < n" using assms(1) by simp
  have sh: "shaped n p" and len: "length p = n" using assms(2) by (simp_all add: clean_def shaped_def)
  have ct: "c < n" "t < n" "t \<noteq> c" using move_decode [OF assms(1,4)] by (simp_all add: c_def t_def)
  have rows: "mask_row n (p[t := xor_row (p ! t) (p ! c)] ! i) = ?I ! i" if "i < n" for i
  proof -
    have "mask_matrix n (p[t := xor_row (p ! t) (p ! c)]) ! i = ?I ! i"
      using assms(5) by (simp add: apply_cnot_def c_def t_def)
    then show ?thesis using that len by (simp add: mask_matrix_def)
  qed
  have other: "p ! i = ?I ! i" if "i < n" "i \<noteq> t" for i
    using rows [of i] that clean_row [OF assms(2)] by simp
  have "xor_row (p ! t) (p ! c) = ?I ! t"
    using rows [of t] ct len mask_xor_row [OF n0] shaped_nth [OF sh] clean_row [OF assms(2)] by simp
  then have needed: "p ! c = xor_row (p ! t) (?I ! t)"
    using xor_row_cancel [of "p ! t" "p ! c"] shaped_nth [OF sh] ct by simp
  have "p ! t \<noteq> ?I ! t"
  proof
    assume "p ! t = ?I ! t"
    then have "p = ?I" using other len shaped_identity [OF n0]
      by (rule_tac nth_equalityI) (auto simp: shaped_def)
    with assms(3) show False by simp
  qed
  then have "set (changed_rows n p) = {t}"
    using changed_rows_mem [OF n0 sh] other ct by auto
  moreover have "distinct (changed_rows n p)" by (simp add: changed_rows_def)
  ultimately have "changed_rows n p = [t]"
    by (cases "changed_rows n p") (auto simp: subset_singleton_iff)
  moreover have "c \<in> set (filter (\<lambda>i. i \<noteq> t \<and> p ! i = xor_row (p ! t) (?I ! t)) [0..<n])"
    using needed ct by simp
  then have "filter (\<lambda>i. i \<noteq> t \<and> p ! i = xor_row (p ! t) (?I ! t)) [0..<n] \<noteq> []"
    by (metis empty_iff empty_set)
  ultimately show ?thesis by (auto simp: completing_move_def Let_def split: list.splits)
qed

text \<open>C9. The one-gate test is exact: on a packed matrix without padding that is not yet the
  identity it finds a physical gate precisely when some gate turns the matrix into the identity, and the
  gate it names is in the alphabet and does so.\<close>
theorem completing_move_exact:
  assumes "2 \<le> n" "clean n p" "p \<noteq> cnot_identity n"
  shows "case completing_move n p of
            Some move \<Rightarrow> move < alphabet n \<and> apply_cnot n move p = cnot_identity n
          | None \<Rightarrow> \<forall>move < alphabet n. apply_cnot n move p \<noteq> cnot_identity n"
  using completing_move_sound [OF assms(1,2)] completing_move_complete [OF assms]
  by (auto split: option.splits)

lemma completing_move_exact_witness:
  "clean 2 [[1], [3]] \<and> completing_move 2 [[1], [3]] = Some 0
     \<and> apply_cnot 2 0 [[1], [3]] = cnot_identity 2"
proof -
  have c: "clean 2 [[1], [3]]" by code_simp
  have m: "completing_move 2 [[1], [3]] = Some 0" by code_simp
  have "[[1], [3]] \<noteq> cnot_identity 2" by code_simp
  from completing_move_exact [OF _ c this] m c show ?thesis by simp
qed

section \<open>The history leads back to the root\<close>

text \<open>The beams of all layers: every slot of a layer is a gate away from its recorded parent, and the
  record is found where the reconstruction looks for it.\<close>

definition edge_ok :: "nat \<Rightarrow> nat \<Rightarrow> matrix list \<Rightarrow> matrix \<Rightarrow> edge \<Rightarrow> bool" where
  "edge_ok n world previous child e \<longleftrightarrow>
     e_parent e < length previous \<and> 0 \<le> e_route e
     \<and> nat (e_route e div 65536) = e_parent e * world div length previous
     \<and> nat (e_route e mod 65536) < alphabet n
     \<and> child = apply_cnot n (nat (e_route e mod 65536)) (previous ! e_parent e)"

fun chain_ok :: "nat \<Rightarrow> nat \<Rightarrow> matrix \<Rightarrow> history_layer list \<Rightarrow> matrix list list \<Rightarrow> bool" where
  "chain_ok n world start [] [b] = (b = [start])"
| "chain_ok n world start (h # hs) (b # p # bs) =
     (h_count h = length b \<and> h_previous h = length p
      \<and> (\<forall>s < length b. \<exists>e. fetch_edge world h s = Inr e \<and> edge_ok n world p (b ! s) e)
      \<and> chain_ok n world start hs (p # bs))"
| "chain_ok _ _ _ _ _ = False"

text \<open>Newest layer first: \<open>chain_ok\<close> takes the history and the beams in the order the
  reconstruction walks them.\<close>

lemma chain_shaped:
  assumes "chain_ok n world start hs bs" "2 \<le> n" "shaped n start"
  shows "\<forall>b \<in> set bs. \<forall>m \<in> set b. shaped n m"
  using assms
proof (induction n world start hs bs rule: chain_ok.induct)
  case (2 n world start h hs b p bs)
  then have IH: "\<forall>b \<in> set (p # bs). \<forall>m \<in> set b. shaped n m" by simp
  have "shaped n m" if "m \<in> set b" for m
  proof -
    from that obtain s where s: "s < length b" "m = b ! s" by (auto simp: in_set_conv_nth)
    with 2(2) obtain e where "edge_ok n world p m e" by auto
    then show ?thesis using IH 2(3) shaped_apply by (auto simp: edge_ok_def)
  qed
  with IH show ?case by auto
qed auto

lemma walk_back:
  assumes "chain_ok n world start hs (b # bs)" "2 \<le> n" "shaped n start" "slot < length b"
  shows "\<exists>gs rts. walk_history world hs slot moves routes = Inr (0, moves @ gs, routes @ rts)
     \<and> replay_gates n (row_ints n (b ! slot)) gs = Inr (row_ints n start)
     \<and> length gs = length hs \<and> length rts = length hs"
  using assms(1,4)
proof (induction hs arbitrary: b bs slot moves routes)
  case Nil
  then show ?case by (cases bs) auto
next
  case (Cons h hs)
  then obtain p ps where bs: "bs = p # ps" by (cases bs) auto
  with Cons.prems obtain e where h: "h_count h = length b" "h_previous h = length p"
    and e: "fetch_edge world h slot = Inr e" "edge_ok n world p (b ! slot) e"
    and rest: "chain_ok n world start hs (p # ps)" by auto
  define move where "move = nat (e_route e mod 65536)"
  have ep: "e_parent e < length p" "move < alphabet n" "b ! slot = apply_cnot n move (p ! e_parent e)"
    using e(2) by (simp_all add: edge_ok_def move_def)
  let ?rt = "\<lparr>rs_source = nat (e_route e div 65536), rs_owner = e_owner e,
      rs_target = slot * world div h_count h, rs_move = move\<rparr>"
  from Cons.IH [OF rest ep(1), of "moves @ [int move]" "routes @ [?rt]"] obtain gs rts where
    IH: "walk_history world hs (e_parent e) (moves @ [int move]) (routes @ [?rt])
        = Inr (0, (moves @ [int move]) @ gs, (routes @ [?rt]) @ rts)"
      "replay_gates n (row_ints n (p ! e_parent e)) gs = Inr (row_ints n start)"
      "length gs = length hs" "length rts = length hs" by blast
  have sp: "shaped n (p ! e_parent e)"
    using chain_shaped [OF rest assms(2,3)] ep(1) by simp
  have "replay_gates n (row_ints n (p ! e_parent e)) [int move] = Inr (row_ints n (b ! slot))"
    unfolding ep(3) by (rule packed_child_step(1)) (use assms(2) ep(2) sp in auto)
  then have "replay_gates n (row_ints n (b ! slot)) (rev [int move]) = Inr (row_ints n (p ! e_parent e))"
    by (rule replay_gates_undo) (use assms(2) sp in \<open>simp_all add: row_ints_def shaped_def\<close>)
  then have "replay_gates n (row_ints n (b ! slot)) (int move # gs) = Inr (row_ints n start)"
    using IH(2) replay_gates_append [of n "row_ints n (b ! slot)" "[int move]" gs] by simp
  moreover have "walk_history world (h # hs) slot moves routes
      = Inr (0, moves @ int move # gs, routes @ ?rt # rts)"
    using e h IH(1) by (simp add: Let_def edge_ok_def move_def)
  ultimately show ?case using IH(3,4) by (intro exI [of _ "int move # gs"] exI [of _ "?rt # rts"]) simp
qed

text \<open>A state of the search: each rank's parents are the slots the distribution gives it.\<close>

definition ranks_ok :: "nat \<Rightarrow> rank_state list \<Rightarrow> matrix list \<Rightarrow> bool" where
  "ranks_ok n world beam \<longleftrightarrow>
     (\<forall>r < length world. \<forall>i < length (parents (world ! r)).
        pbegin (world ! r) + i < length beam
        \<and> (pbegin (world ! r) + i) * length world div length beam = r
        \<and> parents (world ! r) ! i = beam ! (pbegin (world ! r) + i))"

definition state_ok :: "nat \<Rightarrow> nat \<Rightarrow> matrix \<Rightarrow> search_state \<Rightarrow> bool" where
  "state_ok n world start s \<longleftrightarrow> length (ranks s) = world \<and>
     (\<exists>b bs. chain_ok n world start (rev (history s)) (b # bs) \<and> ranks_ok n (ranks s) b
        \<and> previous_count s = length b \<and> (\<forall>m \<in> set b. clean n m))"

lemma start_state_ok:
  assumes "0 < world" "clean n start"
  shows "state_ok n world start (start_state world owner' start)"
proof -
  have "chain_ok n world start (rev []) ([start] # [])" by simp
  moreover have "ranks_ok n (ranks (start_state world owner' start)) [start]"
    by (auto simp: start_state_def ranks_ok_def split: if_splits)
  ultimately have "chain_ok n world start (rev (history (start_state world owner' start))) ([start] # [])
      \<and> ranks_ok n (ranks (start_state world owner' start)) [start]
      \<and> previous_count (start_state world owner' start) = length [start] \<and> (\<forall>m \<in> set [start]. clean n m)"
    using assms(2) by (simp add: start_state_def)
  moreover have "length (ranks (start_state world owner' start)) = world" by (simp add: start_state_def)
  ultimately show ?thesis unfolding state_ok_def by blast
qed

lemma world_goal_sound:
  assumes "world_goal n world = Some (slot, move)" "ranks_ok n world beam" "2 \<le> n"
    "\<forall>m \<in> set beam. clean n m"
  shows "slot < length beam" "move < alphabet n" "apply_cnot n move (beam ! slot) = cnot_identity n"
proof -
  from assms(1) obtain key where py: "py_min (\<lambda>offer. offer) (List.map_filter (goal_offer n) world) = Some (key, slot)"
    and move: "move = key mod alphabet n" by (auto simp: world_goal_def)
  from py_min_Some [OF py] obtain st where st: "st \<in> set world" "goal_offer n st = Some (key, slot)"
    by (auto simp: List.map_filter_def)
  then obtain i where py': "py_min (\<lambda>i. plex st ! i)
      (filter (\<lambda>i. completing_move n (parents st ! i) \<noteq> None) [0..<length (parents st)]) = Some i"
    and key: "key = plex st ! i * alphabet n + the (completing_move n (parents st ! i))" "slot = pbegin st + i"
    by (auto simp: goal_offer_def Let_def)
  from py_min_Some [OF py'] have i: "i < length (parents st)" "completing_move n (parents st ! i) \<noteq> None"
    by auto
  from st(1) obtain r where r: "r < length world" "st = world ! r" by (auto simp: in_set_conv_nth)
  then have b: "slot < length beam" "parents st ! i = beam ! slot"
    using assms(2) i(1) key(2) unfolding ranks_ok_def by blast+
  then show "slot < length beam" by simp
  from i(2) obtain mv where mv: "completing_move n (beam ! slot) = Some mv" using b(2) by auto
  have "clean n (beam ! slot)" using assms(4) b(1) by simp
  note sound = completing_move_sound [OF assms(3) this mv]
  have "move = mv" using sound(1) key(1) move b(2) mv by simp
  with sound show "move < alphabet n" "apply_cnot n move (beam ! slot) = cnot_identity n" by simp_all
qed

lemma row_ints_clean:
  assumes "2 \<le> n" "clean n m"
  shows "row_ints n m = map unpack_row m"
proof -
  have n0: "0 < n" and sh: "shaped n m" using assms by (simp_all add: clean_def)
  have "take_bit n (unpack_row r) = unpack_row r" if "r \<in> set m" for r
  proof -
    from that obtain i where "i < n" "r = m ! i" using sh by (auto simp: in_set_conv_nth shaped_def)
    then show ?thesis using clean_row [OF assms(2)] unpack_mask_row [OF n0] shaped_nth [OF sh] by metis
  qed
  then show ?thesis by (simp add: row_ints_def)
qed

text \<open>With such a state the reconstruction cannot fail and its gates replay to the root.\<close>

lemma reconstruct_ok:
  assumes "state_ok n world start s" "world_goal n (ranks s) = Some final" "2 \<le> n" "clean n start"
  shows "\<exists>gates routes. reconstruct world (history s) final (map unpack_row start) = Inr (gates, routes)
    \<and> replay_cnot n gates = Inr (map unpack_row start)
    \<and> length gates = length (history s) + 1 \<and> length routes = length (history s)"
proof -
  obtain slot move where f: "final = (slot, move)" by (cases final)
  from assms(1) obtain b bs where b: "chain_ok n world start (rev (history s)) (b # bs)"
    "ranks_ok n (ranks s) b" "\<forall>m \<in> set b. clean n m" by (auto simp: state_ok_def)
  have n0: "0 < n" and sh: "shaped n start" using assms(3,4) by (simp_all add: clean_def)
  note goal = world_goal_sound [OF assms(2) [unfolded f] b(2) assms(3) b(3)]
  from walk_back [OF b(1) assms(3) sh goal(1), of "[int move]" "[]"] obtain gs rts where
    w: "walk_history world (rev (history s)) slot [int move] [] = Inr (0, int move # gs, rts)"
      "replay_gates n (row_ints n (b ! slot)) gs = Inr (row_ints n start)"
      "length gs = length (history s)" "length rts = length (history s)" by auto
  have sb: "shaped n (b ! slot)" using b(3) goal(1) by (simp add: clean_def)
  have "replay_gates n (row_ints n (b ! slot)) [int move] = Inr (row_ints n (cnot_identity n))"
    using packed_child_step(1) [OF assms(3) goal(2) sb] goal(3) by simp
  then have "replay_gates n (row_ints n (cnot_identity n)) (rev [int move]) = Inr (row_ints n (b ! slot))"
    by (rule replay_gates_undo) (use assms(3) sb in \<open>simp_all add: row_ints_def shaped_def\<close>)
  then have "replay_gates n (row_ints n (cnot_identity n)) (int move # gs) = Inr (row_ints n start)"
    using w(2) replay_gates_append [of n "row_ints n (cnot_identity n)" "[int move]" gs] by simp
  moreover have "row_ints n start = map unpack_row start"
    using assms(3,4) by (rule row_ints_clean)
  ultimately have "replay_cnot n (int move # gs) = Inr (map unpack_row start)"
    by (simp add: replay_cnot_def row_ints_identity)
  moreover have "length start = n" using sh by (simp add: shaped_def)
  ultimately show ?thesis using w by (simp add: reconstruct_def f)
qed

section \<open>Every layer keeps the state well-formed\<close>

lemma world_checked_Inr:
  assumes "world_checked stage rs = Inr xs"
  shows "length xs = length rs" "r < length rs \<Longrightarrow> rs ! r = Inr (xs ! r)"
proof -
  have "emap (\<lambda>r. r) rs = Inr xs" using assms by (auto simp: world_checked_def split: if_splits)
  then have "list_all2 (\<lambda>x y. x = Inr y) rs xs" by (simp add: emap_Inr_iff)
  then show "length xs = length rs" "r < length rs \<Longrightarrow> rs ! r = Inr (xs ! r)"
    by (simp_all add: list_all2_conv_all_nth)
qed

definition cand_edge :: "child_meta \<Rightarrow> edge" where
  "cand_edge m = \<lparr>e_parent = cm_parent m, e_route = cm_route m, e_owner = 0\<rparr>"

lemma edge_ok_owner: "edge_ok n world b m (e\<lparr>e_owner := k\<rparr>) = edge_ok n world b m e"
  by (simp add: edge_ok_def)

lemma expand_ok:
  assumes "expand_rank scorer mode (length world) n k (r, world ! r) = Inr xs" "ranks_ok n world beam"
    "r < length world" "2 \<le> n" "((m, child), t) \<in> set xs"
  shows "edge_ok n (length world) beam child (cand_edge m)"
proof -
  let ?st = "world ! r"
  let ?f = "\<lambda>(i, pos, move). ebind (cnot_children n (parents ?st) [(i, int move)]) (\<lambda>children.
        ebind (pack_cnot_route (int r) (int move)) (\<lambda>route.
        ebind (cnot_owner n (int (length world)) (hd children)) (\<lambda>owner'.
        Inr ((\<lparr>cm_parent = pbegin ?st + i, cm_word = plex ?st ! i * alphabet n + move,
               cm_generation = (pbegin ?st + i) * alphabet n + pos, cm_route = route\<rparr>,
              hd children), owner'))))"
  from assms(1) obtain moves where
    "emap ?f [(i, pos, moves ! i ! pos). i \<leftarrow> [0..<length (parents ?st)], pos \<leftarrow> [0..<k]] = Inr xs"
    by (auto simp: expand_rank_def Let_def ebind_Inr_iff)
  from emap_member [OF this assms(5)] obtain q where
    q: "q \<in> set [(i, pos, moves ! i ! pos). i \<leftarrow> [0..<length (parents ?st)], pos \<leftarrow> [0..<k]]"
    and fq: "?f q = Inr ((m, child), t)" by blast
  from q obtain i pos move where ip: "i < length (parents ?st)" and "q = (i, pos, move)" by auto
  with fq have f: "?f (i, pos, move) = Inr ((m, child), t)" by simp
  from f obtain children route where ch: "cnot_children n (parents ?st) [(i, int move)] = Inr children"
    and rt: "pack_cnot_route (int r) (int move) = Inr route"
    and mc: "cm_parent m = pbegin ?st + i" "cm_route m = route" "child = hd children"
    by (auto simp: ebind_Inr_iff)
  from ch assms(4) have mv: "move < alphabet n" "children = [apply_cnot n move (parents ?st ! i)]"
    by (auto simp: cnot_children_def ebind_Inr_iff split: if_splits)
  have slot: "pbegin ?st + i < length beam" "(pbegin ?st + i) * length world div length beam = r"
    "parents ?st ! i = beam ! (pbegin ?st + i)"
    using assms(2,3) ip unfolding ranks_ok_def by blast+
  from rt have "route = int move + 65536 * int r" "int move < 65536" by (simp_all add: pack_route_iff)
  then have "route div 65536 = int r" "route mod 65536 = int move" "0 \<le> route" by simp_all
  with mv slot mc show ?thesis by (simp add: edge_ok_def cand_edge_def)
qed

lemma first_unseen_range:
  "cnot_first_unseen n closed' children = Inr idx \<Longrightarrow> i \<in> set idx \<Longrightarrow> i < length children"
  by (auto simp: cnot_first_unseen_def ebind_Inr_iff Let_def)

lemma distinct_rank_mem:
  assumes "distinct_rank values n (r, st, incoming) = Inr xs" "(c, v) \<in> set xs"
  shows "c \<in> set incoming"
proof -
  define rows where "rows = sort_key (\<lambda>(m, _). cm_generation m) incoming"
  from assms obtain first where "cnot_first_unseen n (seen st) (map snd rows) = Inr first"
    "c \<in> (!) rows ` set first"
    by (auto simp: distinct_rank_def Let_def ebind_Inr_iff rows_def split: if_splits dest!: set_zip_leftD)
  then have "c \<in> set rows" using first_unseen_range by fastforce
  then show ?thesis by (simp add: rows_def)
qed

text \<open>The winner in a slot, as its owner sends it.\<close>

definition winner_row ::
  "((child_meta \<times> matrix) \<times> 64 word) list list \<Rightarrow> (nat \<times> nat \<times> nat) list \<Rightarrow> nat
    \<Rightarrow> nat \<times> nat \<times> edge \<times> matrix" where
  "winner_row cands winners slot =
     (case winners ! slot of (r, idx, new_lex) \<Rightarrow>
      case fst (cands ! r ! idx) of (m, child) \<Rightarrow>
        (slot, new_lex, \<lparr>e_parent = cm_parent m, e_route = cm_route m, e_owner = r\<rparr>, child))"

lemma kept_rows_eq:
  "kept_rows r (cands ! r) winners
     = map (winner_row cands winners) (filter (\<lambda>s. fst (winners ! s) = r) [0..<length winners])"
proof -
  have en: "enumerate 0 winners = map (\<lambda>s. (s, winners ! s)) [0..<length winners]"
    by (rule nth_equalityI) (simp_all add: nth_enumerate_eq)
  show ?thesis
    unfolding kept_rows_def en filter_map comp_def map_map winner_row_def
    by (rule map_cong [OF filter_cong]) (auto split: prod.splits)
qed

lemma fst_winner_row [simp]: "fst (winner_row cands winners s) = s"
  by (simp add: winner_row_def split: prod.splits)

lemma concat_filter_upt:
  assumes "distinct xs"
  shows "set (concat (map (\<lambda>r. filter (\<lambda>s. f s = r \<and> Q s) xs) [0..<k])) = {s \<in> set xs. f s < k \<and> Q s}"
    and "distinct (concat (map (\<lambda>r. filter (\<lambda>s. f s = r \<and> Q s) xs) [0..<k]))"
  using assms by (induction k) auto

lemma sort_key_map_map: "sort_key f (map g xs) = map g (sort_key (\<lambda>x. f (g x)) xs)"
proof -
  have "insort_key f (g x) (map g ys) = map g (insort_key (\<lambda>x. f (g x)) x ys)" for x ys
    by (induction ys) auto
  then show ?thesis by (induction xs) auto
qed

text \<open>After the exchange and the sort every rank holds its contiguous interval of slots.\<close>

lemma received_slots:
  assumes "\<forall>w \<in> set winners. fst w < world" "t < world" "winners \<noteq> []"
  shows "sort_key fst (world_exchange (map (map (\<lambda>row. (row, slot_rank world (length winners) (fst row))))
            (map (\<lambda>r. kept_rows r (cands ! r) winners) [0..<world])) ! t)
    = map (winner_row cands winners) [first_slot world (length winners) t..<first_slot world (length winners) (t + 1)]"
proof -
  let ?N = "length winners" and ?row = "winner_row cands winners"
  let ?W = "map (map (\<lambda>row. (row, slot_rank world ?N (fst row)))) (map (\<lambda>r. kept_rows r (cands ! r) winners) [0..<world])"
  have N: "0 < ?N" and w: "0 < world" using assms by auto
  have "1 \<le> ?N" using N by linarith
  then have "max 1 ?N = ?N" by (rule max_absorb2)
  then have sr: "slot_rank world ?N s = s * world div ?N" for s by (simp only: slot_rank_def)
  define slots where "slots = concat (map (\<lambda>r. filter (\<lambda>s. fst (winners ! s) = r \<and> s * world div ?N = t) [0..<?N]) [0..<world])"
  have ex: "world_exchange ?W ! t = map ?row slots"
  proof (cases "world = 1")
    case True
    then have "t = 0" "filter (\<lambda>s. fst (winners ! s) = 0 \<and> s * world div ?N = t) [0..<?N]
        = filter (\<lambda>s. fst (winners ! s) = 0) [0..<?N]"
      using assms(2) by (auto intro: filter_cong)
    then show ?thesis using True by (simp add: world_exchange_def slots_def kept_rows_eq comp_def)
  next
    case False
    then have "world_exchange ?W ! t
        = concat (map (\<lambda>rows. map fst (filter (\<lambda>(_, u). u = t) rows)) ?W)"
      using assms(2) by (simp add: world_exchange_def)
    also have "\<dots> = map ?row slots"
      unfolding slots_def map_concat map_map comp_def kept_rows_eq filter_map sr
      by (intro arg_cong [where f = concat] map_cong) (auto simp: comp_def intro!: filter_cong)
    finally show ?thesis .
  qed
  have set_slots: "set slots = {s. s < ?N \<and> s * world div ?N = t}"
    unfolding slots_def using assms(1) by (auto simp: concat_filter_upt(1) simp del: set_concat set_map)
  have "set slots = set [first_slot world ?N t..<first_slot world ?N (t + 1)]"
  proof -
    have "first_slot world ?N (t + 1) \<le> ?N" using first_slot_le [OF w, of "t + 1"] assms(2) by simp
    then show ?thesis unfolding set_slots slot_rank_iff [OF w N] by auto
  qed
  moreover have "distinct slots" unfolding slots_def by (rule concat_filter_upt(2)) simp
  ultimately have "sort slots = [first_slot world ?N t..<first_slot world ?N (t + 1)]"
    by (intro sorted_distinct_set_unique) simp_all
  then show ?thesis unfolding ex sort_key_map_map by simp
qed

lemma advance_ranks_ok:
  assumes "\<forall>w \<in> set winners. fst w < length world" "winners \<noteq> []"
    "\<forall>r < length world. \<forall>c \<in> set (cands ! r). edge_ok n (length world) beam (snd (fst c)) (cand_edge (fst (fst c)))"
    "\<forall>w \<in> set winners. fst (snd w) < length (cands ! fst w)"
    "advance_world world cands winners = (world', records)"
  defines "beam' \<equiv> map (\<lambda>s. snd (snd (snd (winner_row cands winners s)))) [0..<length winners]"
  shows "length world' = length world" "ranks_ok n world' beam'"
    and "s < length winners \<Longrightarrow> \<exists>e. fetch_edge (length world)
           \<lparr>h_count = length winners, h_previous = p, h_records = records\<rparr> s = Inr e
           \<and> edge_ok n (length world) beam (beam' ! s) e"
proof -
  let ?w = "length world" and ?N = "length winners" and ?row = "winner_row cands winners"
  have N: "0 < ?N" using assms(2) by simp
  have w: "0 < ?w"
  proof -
    from assms(2) obtain x where "x \<in> set winners" by (cases winners) auto
    with assms(1) show ?thesis by auto
  qed
  define received where "received = map (sort_key fst) (world_exchange
      (map (map (\<lambda>row. (row, slot_rank ?w ?N (fst row)))) (map (\<lambda>r. kept_rows r (cands ! r) winners) [0..<?w])))"
  have rec: "received ! t = map ?row [first_slot ?w ?N t..<first_slot ?w ?N (t + 1)]" if "t < ?w" for t
    unfolding received_def using received_slots [OF assms(1) that assms(2)] that by simp
  have W: "world' = map (\<lambda>r. \<lparr>parents = map (\<lambda>(_, _, _, m). m) (received ! r),
                 plex = map (\<lambda>(_, l, _, _). l) (received ! r), pbegin = first_slot ?w ?N r,
                 seen = seen (world ! r) @ map (\<lambda>(_, _, _, m). m) (kept_rows r (cands ! r) winners)\<rparr>) [0..<?w]"
    and R: "records = map (map (\<lambda>(_, _, e, _). e)) received"
    using assms(5) by (auto simp: advance_world_def Let_def received_def)
  show len: "length world' = length world" by (simp add: W)
  show "ranks_ok n world' beam'"
    unfolding ranks_ok_def
  proof (intro allI impI)
    fix r i assume r: "r < length world'" and i: "i < length (parents (world' ! r))"
    have pr: "parents (world' ! r) = map (\<lambda>(_, _, _, m). m) (received ! r)" "pbegin (world' ! r) = first_slot ?w ?N r"
      using r by (simp_all add: W)
    let ?s = "first_slot ?w ?N r + i"
    have s: "first_slot ?w ?N r \<le> ?s" "?s < first_slot ?w ?N (r + 1)"
      using i pr r len by (simp_all add: rec)
    then have "?s * ?w div ?N = r" using slot_rank_iff [OF w N] by blast
    moreover have "?s < ?N" using s(2) first_slot_le [OF w, of "r + 1" ?N] r len by simp
    moreover have "parents (world' ! r) ! i = snd (snd (snd (?row ?s)))"
      using i pr r len s by (simp add: rec case_prod_beta)
    ultimately show "pbegin (world' ! r) + i < length beam'
        \<and> (pbegin (world' ! r) + i) * length world' div length beam' = r
        \<and> parents (world' ! r) ! i = beam' ! (pbegin (world' ! r) + i)"
      using pr(2) len by (simp add: beam'_def)
  qed
  assume s: "s < length winners"
  define t where "t = s * ?w div ?N"
  have t: "t < ?w" unfolding t_def using s w by (simp add: slot_rank_less)
  have st: "first_slot ?w ?N t \<le> s" "s < first_slot ?w ?N (t + 1)"
    using slot_rank_iff [OF w N, of s t] t_def by simp_all
  obtain r idx l where ws: "winners ! s = (r, idx, l)" by (cases "winners ! s") auto
  then have wm: "(r, idx, l) \<in> set winners" using s by (metis nth_mem)
  then have r: "r < ?w" "idx < length (cands ! r)" using assms(1,4) by auto
  obtain m child v where c: "cands ! r ! idx = ((m, child), v)" by (metis prod.collapse)
  then have ok: "edge_ok n ?w beam child (cand_edge m)"
    using assms(3) r by (metis fst_conv nth_mem snd_conv)
  let ?e = "\<lparr>e_parent = cm_parent m, e_route = cm_route m, e_owner = r\<rparr>"
  have row: "?row s = (s, l, ?e, child)" by (simp add: winner_row_def ws c)
  have lr: "length received = ?w" by (simp add: received_def)
  then have rt: "records ! t = map (\<lambda>(_, _, e, _). e) (map ?row [first_slot ?w ?N t..<first_slot ?w ?N (t + 1)])"
    using t rec [OF t] by (simp add: R)
  have "records ! t ! (s - first_slot ?w ?N t) = ?e"
    unfolding rt using st row by simp
  moreover have "t < length records" "s - first_slot ?w ?N t < length (records ! t)"
    unfolding rt using t st lr by (simp_all add: R)
  ultimately have "fetch_edge ?w \<lparr>h_count = ?N, h_previous = p, h_records = records\<rparr> s = Inr ?e"
    using st by (simp add: fetch_edge_def Let_def t_def [symmetric])
  moreover have "edge_ok n ?w beam (beam' ! s) ?e"
    using ok s row by (simp add: edge_ok_def cand_edge_def beam'_def)
  ultimately show "\<exists>e. fetch_edge ?w \<lparr>h_count = ?N, h_previous = p, h_records = records\<rparr> s = Inr e
      \<and> edge_ok n ?w beam (beam' ! s) e" by blast
qed

lemma search_layer_ok:
  assumes "search_layer scorer values mode n k width step s = Inr s'" "state_ok n world start s"
    "2 \<le> n" "clean n start"
  shows "state_ok n world start s'" "length (history s') = length (history s) + 1"
proof -
  let ?R = "ranks s"
  from assms(2) obtain b bs where b: "chain_ok n world start (rev (history s)) (b # bs)"
    "ranks_ok n ?R b" "previous_count s = length b" and lw: "length ?R = world"
    by (auto simp: state_ok_def)
  from assms(1) obtain candidates cands winners where
    cand: "world_checked ''rank parent actions and expand''
             (map (expand_rank scorer mode (length ?R) n k) (enumerate 0 ?R)) = Inr candidates"
    and cands: "world_checked ''deduplicate and evaluate distinct children''
             (map (distinct_rank values n) (enumerate 0 (zip ?R (world_exchange candidates)))) = Inr cands"
    and winners: "layer_winners cands width = Inr winners"
    and fin: "(case advance_world ?R cands winners of (ranks', records) \<Rightarrow>
        Inr \<lparr>ranks = ranks', previous_count = length winners,
         history = history s @ [\<lparr>h_count = length winners, h_previous = previous_count s, h_records = records\<rparr>],
         layers = layers s @ [\<lparr>l_depth = step + 1, l_distinct = sum_list (map length cands),
                               l_retained = length winners\<rparr>]\<rparr>) = (Inr s' :: search_state result)"
    unfolding search_layer_def Let_def ebind_Inr_iff by blast
  have lc: "length candidates = world" using world_checked_Inr(1) [OF cand] lw by simp
  have sent: "edge_ok n world b child (cand_edge m)" if "rows \<in> set candidates" "((m, child), t) \<in> set rows" for rows m child t
  proof -
    from that(1) obtain r where r: "r < world" "rows = candidates ! r" using lc by (auto simp: in_set_conv_nth)
    then have "expand_rank scorer mode (length ?R) n k (r, ?R ! r) = Inr rows"
      using world_checked_Inr(2) [OF cand, of r] lw by (simp add: nth_enumerate_eq)
    from expand_ok [OF this b(2) _ assms(3) that(2)] r(1) lw show ?thesis by simp
  qed
  have lcs: "length cands = world" using world_checked_Inr(1) [OF cands] lw lc by simp
  have edges: "edge_ok n world b (snd (fst c)) (cand_edge (fst (fst c)))" if "r < world" "c \<in> set (cands ! r)" for r c
  proof -
    obtain m child v where c: "c = ((m, child), v)" by (metis prod.collapse)
    have "distinct_rank values n (r, ?R ! r, world_exchange candidates ! r) = Inr (cands ! r)"
      using world_checked_Inr(2) [OF cands, of r] that(1) lw lc by (simp add: nth_enumerate_eq)
    from distinct_rank_mem [OF this that(2) [unfolded c]]
    have "(m, child) \<in> set (world_exchange candidates ! r)" .
    with that(1) lc have "\<exists>rows \<in> set candidates. \<exists>t. ((m, child), t) \<in> set rows"
      by (intro world_exchange_mem) simp_all
    then show ?thesis using sent c by auto
  qed
  have valid: "fst w < world \<and> fst (snd w) < length (cands ! fst w)" if "w \<in> set winners" for w
  proof -
    obtain r i l where w: "w = (r, i, l)" by (cases w) auto
    from global_winners_valid [OF winners [unfolded layer_winners_def] that [unfolded w]] lcs
    show ?thesis by (simp add: w)
  qed
  obtain ranks' records where adv: "advance_world ?R cands winners = (ranks', records)" by fastforce
  define h where "h = \<lparr>h_count = length winners, h_previous = previous_count s, h_records = records\<rparr>"
  have S: "ranks s' = ranks'" "previous_count s' = length winners" "history s' = history s @ [h]"
    using fin by (auto simp: adv h_def)
  then show "length (history s') = length (history s) + 1" by simp
  define b' where "b' = map (\<lambda>i. snd (snd (snd (winner_row cands winners i)))) [0..<length winners]"
  have "length ranks' = world \<and> ranks_ok n ranks' b' \<and> (\<forall>i < length b'. \<exists>e. fetch_edge world h i = Inr e
      \<and> edge_ok n world b (b' ! i) e)"
  proof (cases "winners = []")
    case True
    have "length ranks' = world" using adv lw by (auto simp: advance_world_def Let_def)
    moreover have "ranks_ok n ranks' b'"
    proof -
      have kept: "kept_rows r (cands ! r) [] = []" for r by (simp add: kept_rows_def)
      have "world_exchange (replicate w ([] :: ((nat \<times> nat \<times> edge \<times> matrix) \<times> nat) list)) ! r = []" if "r < w" for r w
        using that by (auto simp: world_exchange_def)
      then have "\<forall>r < length ranks'. parents (ranks' ! r) = []"
        using adv True by (auto simp: advance_world_def Let_def kept map_replicate_const)
      then show ?thesis by (simp add: ranks_ok_def)
    qed
    ultimately show ?thesis using True by (simp add: b'_def)
  next
    case False
    have "\<forall>w \<in> set winners. fst w < length ?R" "\<forall>w \<in> set winners. fst (snd w) < length (cands ! fst w)"
      "\<forall>r < length ?R. \<forall>c \<in> set (cands ! r). edge_ok n (length ?R) b (snd (fst c)) (cand_edge (fst (fst c)))"
      using valid edges lw by auto
    note A = advance_ranks_ok [OF this(1) False this(3,2) adv, folded b'_def]
    show ?thesis
      using A(1,2) A(3) [of _ "previous_count s"] lw by (simp add: b'_def h_def)
  qed
  moreover have "length b' = length winners" by (simp add: b'_def)
  ultimately have chain: "chain_ok n world start (rev (history s')) (b' # b # bs)"
    using b S(3) by (simp add: h_def)
  have sh: "shaped n start" using assms(4) by (simp add: clean_def)
  have "\<forall>m \<in> set b'. clean n m"
  proof
    fix m assume "m \<in> set b'"
    then obtain i where i: "i < length b'" "m = b' ! i" by (auto simp: in_set_conv_nth)
    with chain S(3) obtain e where e: "edge_ok n world b m e" by auto
    have "\<forall>m \<in> set b. shaped n m" using chain_shaped [OF b(1) assms(3) sh] by simp
    with e show "clean n m" using assms(3) clean_apply by (simp add: edge_ok_def)
  qed
  with chain S \<open>length b' = length winners\<close> \<open>length ranks' = world \<and> _\<close>
  have "chain_ok n world start (rev (history s')) (b' # b # bs) \<and> ranks_ok n (ranks s') b'
      \<and> previous_count s' = length b' \<and> (\<forall>m \<in> set b'. clean n m)" "length (ranks s') = world" by auto
  then show "state_ok n world start s'" unfolding state_ok_def by blast
qed

lemma search_loop_ok:
  assumes "state_ok n world start s" "2 \<le> n" "clean n start"
  shows "search_loop scorer values mode n k width (map unpack_row start) step fuel s = Inr res \<Longrightarrow>
      cr_status res = Solved \<Longrightarrow>
      \<exists>gates. cr_gates res = Some gates \<and> replay_cnot n gates = Inr (map unpack_row start)
        \<and> length gates \<le> length (history s) + fuel \<and> length gates = length (cr_routes res) + 1"
    and "search_loop scorer values mode n k width (map unpack_row start) step fuel s = Inl e \<Longrightarrow>
      \<exists>s' step'. state_ok n world start s' \<and> search_layer scorer values mode n k width step' s' = Inl e"
  using assms(1)
proof (induction fuel arbitrary: s step)
  case (Suc fuel)
  note rec = reconstruct_ok [OF _ _ assms(2,3)]
  have lw: "length (ranks s) = world" if "state_ok n world start s" for s using that by (simp add: state_ok_def)
  {
    case 1
    show ?case
    proof (cases "world_goal n (ranks s)")
      case (Some final)
      from rec [OF 1(3) Some] 1(1,2) Some lw [OF 1(3)] show ?thesis by auto
    next
      case None
      with 1(1,2) obtain s' where s': "search_layer scorer values mode n k width step s = Inr s'"
        "search_loop scorer values mode n k width (map unpack_row start) (step + 1) fuel s' = Inr res"
        by (auto simp: ebind_Inr_iff split: if_splits)
      from Suc.IH(1) [OF s'(2) 1(2) search_layer_ok(1) [OF s'(1) 1(3) assms(2,3)]]
        search_layer_ok(2) [OF s'(1) 1(3) assms(2,3)]
      show ?thesis by auto
    qed
  next
    case 2
    show ?case
    proof (cases "world_goal n (ranks s)")
      case (Some final)
      from rec [OF 2(2) Some] 2(1) Some lw [OF 2(2)] show ?thesis by auto
    next
      case None
      with 2(1) consider "search_layer scorer values mode n k width step s = Inl e"
        | s' where "search_layer scorer values mode n k width step s = Inr s'"
          "search_loop scorer values mode n k width (map unpack_row start) (step + 1) fuel s' = Inl e"
        by (auto simp: ebind_Inl_iff split: if_splits)
      then show ?thesis
      proof cases
        case 1
        with 2(2) show ?thesis by blast
      next
        case 2
        from Suc.IH(2) [OF this(2) search_layer_ok(1) [OF this(1) \<open>state_ok n world start s\<close> assms(2,3)]]
        show ?thesis .
      qed
    qed
  }
qed auto

section \<open>The whole search\<close>

lemma world_checked_ok:
  assumes "\<forall>r \<in> set rs. \<exists>x. r = Inr x"
  shows "\<exists>xs. world_checked stage rs = Inr xs"
proof -
  have "list_all is_ok rs" using assms by (auto simp: list_all_iff is_ok_iff)
  moreover have "\<exists>xs. emap (\<lambda>r. r) rs = Inr xs" using assms
    by (induction rs) (auto simp: ebind_def)
  ultimately show ?thesis by (auto simp: world_checked_def)
qed

lemma checked_input:
  assumes "check_input start width shortlist depth mode = Inr rows"
  shows "2 \<le> length start" "rows = map unpack_row start" "clean (length start) start" "0 \<le> the_int depth"
proof -
  let ?n = "length start"
  note c = assms [unfolded check_input_iff]
  then show "2 \<le> ?n" "rows = map unpack_row start" "0 \<le> the_int depth"
    by (simp_all add: bad_settings_def)
  have sh: "shaped ?n start" using c by (simp add: shaped_def list_all_iff)
  have "mask_row ?n r = r" if "r \<in> set start" for r
  proof -
    have "length r = lanes ?n" "unpack_row r < 2 ^ ?n" using c that by (auto simp: list_all_iff)
    moreover from this have "unpack_row (mask_row ?n r) = unpack_row r"
      using unpack_mask_row [of ?n r] \<open>2 \<le> ?n\<close> by (metis less_le_trans take_bit_nat_eq_self zero_less_numeral)
    ultimately show ?thesis by (subst (asm) unpack_inject) simp_all
  qed
  then have "mask_matrix ?n start = start" by (simp add: mask_matrix_def map_idI)
  with sh show "clean ?n start" by (simp add: clean_def)
qed

lemma owner_ok:
  assumes "1 \<le> n" "n \<le> 256" "shaped n m" "1 \<le> world" "world \<le> 65536"
  shows "\<exists>owner'. cnot_owner n (int world) m = Inr owner'"
  using assms check_states_iff [of n "[m]"] by (auto simp: cnot_owner_def)

text \<open>Past its checks the search is the identity's empty answer or the loop from a start state.\<close>

lemma search_cnot_checked:
  assumes "check_input start width shortlist depth mode = Inr rows" "0 < world" "world \<le> 65536"
  shows "\<exists>owner'. search_cnot world scorer values start width shortlist depth mode =
    (if start = cnot_identity (length start)
     then Inr \<lparr>cr_status = Solved, cr_gates = Some [], cr_layers = [], cr_routes = []\<rparr>
     else search_loop scorer values mode (length start) (min (nat (the_int shortlist)) (alphabet (length start)))
            (nat (the_int width)) (map unpack_row start) 0 (nat (the_int depth))
            (start_state world owner' start))"
proof -
  let ?n = "length start"
  note inp = checked_input [OF assms(1)]
  have n: "?n \<le> 256" using assms(1) by (simp add: check_input_iff)
  have chk: "world_checked ''validate CNOT input'' (replicate world (check_input start width shortlist depth mode))
      = Inr (replicate world rows)"
  proof -
    obtain xs where xs: "world_checked ''validate CNOT input''
        (replicate world (check_input start width shortlist depth mode)) = Inr xs"
      using world_checked_ok assms(1) by (metis in_set_replicate)
    have "xs = replicate world rows"
      using world_checked_Inr [OF xs] assms(1) by (intro nth_equalityI) simp_all
    with xs show ?thesis by simp
  qed
  have "shaped ?n start" using inp(3) by (simp add: clean_def)
  then obtain o' where o': "cnot_owner ?n (int world) start = Inr o'"
    using owner_ok [of ?n start world] inp(1) n assms(2,3) by auto
  obtain owners where own: "world_checked ''initialize CNOT domain''
      (replicate world (cnot_owner ?n (int world) start)) = Inr owners"
    using world_checked_ok o' by (metis in_set_replicate)
  have "length rows = ?n" using inp(2) by simp
  then show ?thesis
    using assms(2,3) inp(2) chk own
    by (intro exI [of _ "hd owners"]) (simp add: search_cnot_def Let_def)
qed

text \<open>C10. A solved search is right: on any number of ranks, with any scorer, the gates it returns
  rebuild the input matrix from the identity in an independent integer replay, there are at most
  \<open>max_depth\<close> of them, and the reported path has one route per gate but the last.\<close>
theorem search_solved_replays:
  assumes "search_cnot world scorer values start width shortlist depth mode = Inr res"
    "cr_status res = Solved" "0 < world"
  shows "\<exists>gates. cr_gates res = Some gates
    \<and> replay_cnot (length start) gates = Inr (map unpack_row start)
    \<and> int (length gates) \<le> the_int depth \<and> length (cr_routes res) = length gates - 1"
proof -
  let ?n = "length start"
  have w: "world \<le> 65536" using assms(1) by (auto simp: search_cnot_def split: if_splits)
  from assms(1) w obtain checks where
    "world_checked ''validate CNOT input'' (replicate world (check_input start width shortlist depth mode)) = Inr checks"
    by (auto simp: search_cnot_def ebind_Inr_iff)
  from world_checked_Inr(2) [OF this, of 0] assms(3)
  obtain rows where rows: "check_input start width shortlist depth mode = Inr rows" by auto
  note inp = checked_input [OF rows]
  obtain owner' where run: "search_cnot world scorer values start width shortlist depth mode =
    (if start = cnot_identity ?n
     then Inr \<lparr>cr_status = Solved, cr_gates = Some [], cr_layers = [], cr_routes = []\<rparr>
     else search_loop scorer values mode ?n (min (nat (the_int shortlist)) (alphabet ?n))
            (nat (the_int width)) (map unpack_row start) 0 (nat (the_int depth)) (start_state world owner' start))"
    using search_cnot_checked [OF rows assms(3) w] by blast
  show ?thesis
  proof (cases "start = cnot_identity ?n")
    case True
    have "row_ints ?n start = map unpack_row start"
      using row_ints_clean inp(1,3) by simp
    then have "replay_cnot ?n [] = Inr (map unpack_row start)"
      using row_ints_identity [of ?n] True by (simp add: replay_cnot_def)
    then show ?thesis using assms(1) run True inp(4) by auto
  next
    case False
    have st: "state_ok ?n world start (start_state world owner' start)"
      using assms(3) inp(3) by (rule start_state_ok)
    have "length (history (start_state world owner' start)) = 0" by (simp add: start_state_def)
    with search_loop_ok(1) [OF st inp(1,3) _ assms(2)] assms(1) run False inp(4) show ?thesis by fastforce
  qed
qed

lemma search_solved_replays_witness:
  "search_cnot 1 (\<lambda>_ _ _. Inr []) (\<lambda>_ _. Inr []) [[1], [3]] (PInt 4) (PInt 2) (PInt 3) ''qhat''
     = Inr \<lparr>cr_status = Solved, cr_gates = Some [0], cr_layers = [], cr_routes = []\<rparr>
   \<and> replay_cnot 2 [0] = Inr (map unpack_row [[1], [3]])"
proof -
  have inp: "check_input [[1], [3]] (PInt 4) (PInt 2) (PInt 3) ''qhat'' = Inr [1, 3]"
    by (simp add: check_input_def Let_def lanes_def bad_settings_def alphabet_def bit_length_pos)
  have ne: "[[1], [3]] \<noteq> cnot_identity 2" and m: "completing_move 2 [[1], [3]] = Some 0" by code_simp+
  have shape: "length [[1 :: 64 word], [3]] = 2" "map unpack_row [[1], [3]] = [1, 3]" by simp_all
  have goal: "world_goal 2 (ranks (start_state 1 owner' [[1], [3]])) = Some (0, 0)" for owner'
    by (simp add: start_state_def world_goal_def goal_offer_def m List.map_filter_def py_min_def alphabet_def)
  have rec: "reconstruct 1 [] (0, 0) [1, 3] = Inr ([0], [])"
    by (simp add: reconstruct_def replay_cnot_def alphabet_def move_control_def move_target_def Let_def upt_rec)
  have loop: "search_loop sc vs m' 2 k w [1, 3] 0 3 (start_state 1 owner' [[1], [3]])
      = Inr \<lparr>cr_status = Solved, cr_gates = Some [0], cr_layers = [], cr_routes = []\<rparr>"
    for sc vs m' k w owner'
    using goal [of owner'] rec by (simp add: numeral_3_eq_3) (simp add: start_state_def)
  have run: "search_cnot 1 (\<lambda>_ _ _. Inr []) (\<lambda>_ _. Inr []) [[1], [3]] (PInt 4) (PInt 2) (PInt 3) ''qhat''
     = Inr \<lparr>cr_status = Solved, cr_gates = Some [0], cr_layers = [], cr_routes = []\<rparr>"
    using search_cnot_checked [OF inp, of 1 "\<lambda>_ _ _. Inr []" "\<lambda>_ _. Inr []", unfolded shape] ne loop by auto
  from search_solved_replays [OF run] have "replay_cnot (length [[1 :: 64 word], [3]]) [0] = Inr (map unpack_row [[1], [3]])"
    by simp
  with run show ?thesis unfolding shape(1) by simp
qed

text \<open>C11. The reconstruction never fails: on a valid input, whatever makes the search raise is a
  failure while a layer is expanded, scored or cut in a well-formed state; it is never a disagreement
  between the distributed history and its replay, nor a missing record.\<close>
theorem search_failure_is_in_a_layer:
  assumes "search_cnot world scorer values start width shortlist depth mode = Inl e"
    "check_input start width shortlist depth mode = Inr rows" "0 < world" "world \<le> 65536"
  shows "\<exists>s step. state_ok (length start) world start s
     \<and> search_layer scorer values mode (length start) (min (nat (the_int shortlist)) (alphabet (length start)))
         (nat (the_int width)) step s = Inl e"
proof -
  note inp = checked_input [OF assms(2)]
  obtain owner' where "search_loop scorer values mode (length start)
      (min (nat (the_int shortlist)) (alphabet (length start))) (nat (the_int width))
      (map unpack_row start) 0 (nat (the_int depth)) (start_state world owner' start) = Inl e"
    using search_cnot_checked [OF assms(2,3,4)] assms(1) by (metis Inl_Inr_False)
  from search_loop_ok(2) [OF start_state_ok [OF assms(3) inp(3)] inp(1,3) this] show ?thesis by blast
qed

lemma search_failure_is_in_a_layer_witness:
  "\<exists>s step. state_ok 2 1 [[2], [1]] s
     \<and> search_layer (\<lambda>_ _ _. Inl MemoryError) (\<lambda>_ _. Inr []) ''qhat'' 2 1 4 step s = Inl MemoryError"
proof -
  let ?sc = "(\<lambda>_ _ _. Inl MemoryError) :: parent_scorer" and ?v = "(\<lambda>_ _. Inr []) :: child_scorer"
  have inp: "check_input [[2], [1]] (PInt 4) (PInt 1) (PInt 3) ''qhat'' = Inr [2, 1]"
    by (simp add: check_input_def Let_def lanes_def bad_settings_def alphabet_def bit_length_pos)
  have ne: "[[2], [1]] \<noteq> cnot_identity 2" and m: "completing_move 2 [[2], [1]] = None" by code_simp+
  have shape: "length [[2 :: 64 word], [1]] = 2" "map unpack_row [[2], [1]] = [2, 1]"
    "min (nat (the_int (PInt 1))) (alphabet 2) = 1" "nat (the_int (PInt 4)) = 4" "nat (the_int (PInt 3)) = 3"
    by (simp_all add: alphabet_def)
  have goal: "world_goal 2 (ranks (start_state 1 owner' [[2], [1]])) = None" for owner'
    by (simp add: start_state_def world_goal_def goal_offer_def m List.map_filter_def py_min_def)
  have layer: "search_layer ?sc ?v ''qhat'' 2 1 4 0 (start_state 1 owner' [[2], [1]]) = Inl MemoryError" for owner'
    by (simp add: search_layer_def start_state_def world_checked_def expand_rank_def alphabet_def Let_def)
  have loop: "search_loop ?sc ?v ''qhat'' 2 1 4 [2, 1] 0 3 (start_state 1 owner' [[2], [1]]) = Inl MemoryError" for owner'
    using goal [of owner'] layer [of owner'] by (simp add: numeral_3_eq_3)
  have run: "search_cnot 1 ?sc ?v [[2], [1]] (PInt 4) (PInt 1) (PInt 3) ''qhat'' = Inl MemoryError"
    using search_cnot_checked [OF inp, of 1 ?sc ?v, unfolded shape] ne loop by auto
  from search_failure_is_in_a_layer [OF run inp] show ?thesis unfolding shape by simp
qed

end
