(* ===== verification/Verifier.thy ===== *)
theory Verifier
  imports CnotSearch "HOL-Library.List_Lexorder"
begin

unbundle bit_operations_syntax

text \<open>
  The independent verifier of search receipts, \<open>src/tools/verify_cnot.py\<close>. It repeats every layer of a
  distributed search on Python integers (\<open>verify_layers\<close>), rebuilds the input from the reported gates
  (the body of \<open>validate_case\<close>), and computes exact distances of small cases by breadth first search.
  The scorer is a parameter as in \<open>CnotSearch\<close>; its double precision values are bit patterns, and the
  tolerance of \<open>torch.testing.assert_close\<close> is exact on their scaled values. Two theorems say what an
  accepted receipt certifies: a layer is the complete expansion of its parents with the best children
  kept, and an exact distance is the length of a shortest construction.
\<close>

section \<open>Rows, pairs and rebuilt values\<close>

text \<open>\<open>rows_of\<close>: the signed lanes of a matrix, read back as row integers.\<close>

definition lane_value :: "int \<Rightarrow> nat" where
  "lane_value x = nat (x mod 2 ^ 64)"

definition rows_of :: "int list \<Rightarrow> nat \<Rightarrow> nat list result" where
  "rows_of packed n =
     (let words = (n + 63) div 64 in
      if words = 0 then Inl (ValueError ''range() arg 3 must not be zero'')
      else if length packed mod words \<noteq> 0 then Inl IndexError
      else Inr (map (\<lambda>i. \<Sum>j \<leftarrow> [0..<words]. lane_value (packed ! (i * words + j)) * 2 ^ (64 * j))
                  [0..<length packed div words]))"

definition gate_pairs :: "nat \<Rightarrow> (nat \<times> nat) list" where
  "gate_pairs n = [(source, target). source \<leftarrow> [0..<n], target \<leftarrow> [0..<n], target \<noteq> source]"

definition apply_pair :: "nat list \<Rightarrow> nat \<times> nat \<Rightarrow> nat list" where
  "apply_pair rows pair = (case pair of (c, t) \<Rightarrow> rows[t := rows ! t XOR rows ! c])"

definition identity_rows :: "nat \<Rightarrow> nat list" where
  "identity_rows n = map (\<lambda>i. push_bit i 1) [0..<n]"

definition demand :: "bool \<Rightarrow> unit result" where
  "demand condition = raise_if (\<not> condition) AssertionError"

section \<open>Exact distances\<close>

text \<open>The rounds left are \<open>bound - depth\<close>; a round extends the frontier only when another one follows.\<close>

fun exact_loop ::
  "nat list \<Rightarrow> (nat \<times> nat) list \<Rightarrow> nat \<Rightarrow> nat \<Rightarrow> nat list set \<Rightarrow> nat list set \<Rightarrow> nat result" where
  "exact_loop target pairs depth 0 frontier known =
     (if target \<in> frontier then Inr depth else Inl AssertionError)"
| "exact_loop target pairs depth (Suc rounds) frontier known =
     (if target \<in> frontier then Inr depth
      else let fresh = (\<Union>rows \<in> frontier. apply_pair rows ` set pairs) - known in
           exact_loop target pairs (Suc depth) rounds fresh (known \<union> fresh))"

definition small_exact_distance :: "nat list \<Rightarrow> (nat \<times> nat) list \<Rightarrow> nat \<Rightarrow> nat result" where
  "small_exact_distance target pairs bound =
     (let start = identity_rows (length target) in exact_loop target pairs 0 bound {start} {start})"

section \<open>Layers\<close>

text \<open>A row of the audited candidates, a layer of the result, and the report of a verified layer.\<close>

record audit_row =
  a_bits :: int
  a_parent :: nat
  a_lex :: int
  a_generation :: int
  a_route :: int
  a_lanes :: "int list"

record audit_layer =
  al_depth :: int
  al_distinct :: nat
  al_retained :: nat
  al_candidates :: "audit_row list"
  al_winners :: "int list list"
  al_by_rank :: "nat list list"

record layer_report =
  lr_depth :: int
  lr_distinct :: nat
  lr_retained :: nat
  lr_sha256 :: string
  lr_by_rank :: "nat list list"

text \<open>The scorer: scores of packed parents, values of packed children; the digest of the winners.\<close>

record verifier_env =
  ve_scores :: "nat list list \<Rightarrow> string \<Rightarrow> 64 word list list result"
  ve_values :: "nat list list \<Rightarrow> 64 word list result"
  ve_digest :: "nat list list \<Rightarrow> string"

definition nan_double :: "64 word \<Rightarrow> bool" where
  "nan_double w \<longleftrightarrow> \<not> finite_double w \<and> unat w mod 2 ^ 52 \<noteq> 0"

text \<open>\<open>assert_close(actual, expected, rtol=1e-6, atol=1e-7)\<close>: equal infinities are close, a NaN is not.\<close>

definition value_close :: "64 word \<Rightarrow> 64 word \<Rightarrow> bool" where
  "value_close a b \<longleftrightarrow>
     \<not> nan_double a \<and> \<not> nan_double b
     \<and> (scaled_double a = scaled_double b
        \<or> finite_double a \<and> finite_double b
          \<and> \<bar>scaled_double a - scaled_double b\<bar> * 10 ^ 7 \<le> 2 ^ 1074 + 10 * \<bar>scaled_double b\<bar>)"

text \<open>The actions a parent expands: all of them, or its shortlist by a stable sort of its scores.\<close>

definition parent_actions :: "string \<Rightarrow> nat \<Rightarrow> nat \<Rightarrow> 64 word list list \<Rightarrow> nat \<Rightarrow> nat list result" where
  "parent_actions mode k amount head i =
     (if amount \<le> k then Inr [0..<amount]
      else if length head \<le> i \<or> length (head ! i) < amount then Inl IndexError
      else Inr (take k (sort_key (\<lambda>a. if mode = ''proposal'' then - scaled_double (head ! i ! a)
                                      else scaled_double (head ! i ! a)) [0..<amount])))"

text \<open>\<open>eligible.setdefault\<close> of every child that is not closed: the first occurrence is kept.\<close>

type_synonym eligible = "(nat list \<times> nat \<times> nat list) list"

definition expand_parent ::
  "nat list set \<Rightarrow> (nat \<times> nat) list \<Rightarrow> nat \<Rightarrow> nat list \<Rightarrow> nat list \<Rightarrow> eligible \<Rightarrow> nat \<Rightarrow> eligible" where
  "expand_parent shut pairs i rows word found action =
     (let child = apply_pair rows (pairs ! action) in
      if child \<in> shut \<or> child \<in> fst ` set found then found
      else found @ [(child, i, word @ [action])])"

definition eligible_children ::
  "verifier_env \<Rightarrow> string \<Rightarrow> nat \<Rightarrow> (nat \<times> nat) list \<Rightarrow> nat list set \<Rightarrow> (nat list \<times> nat list) list \<Rightarrow> eligible result" where
  "eligible_children env mode k pairs shut previous =
     ebind (if k < length pairs then ve_scores env (map fst previous) mode else Inr []) (\<lambda>head.
       efold (\<lambda>found (i, rows, word).
           ebind (parent_actions mode k (length pairs) head i) (\<lambda>actions.
             Inr (foldl (expand_parent shut pairs i rows word) found actions)))
         [] (enumerate 0 previous))"

text \<open>A reported candidate must be an eligible child, new, with its parent and its last action.\<close>

definition measure_candidate ::
  "nat \<Rightarrow> eligible \<Rightarrow> (nat list \<times> 64 word) list \<Rightarrow> audit_row \<Rightarrow> (nat list \<times> 64 word) list result" where
  "measure_candidate n found measured a =
     ebind (rows_of (a_lanes a) n) (\<lambda>child.
       case map_of found child of
         None \<Rightarrow> Inl AssertionError
       | Some (i, word) \<Rightarrow>
           ebind (demand (child \<notin> fst ` set measured)) (\<lambda>_.
           ebind (demand (a_parent a = i \<and> a_route a AND 65535 = int (last word))) (\<lambda>_.
             Inr (measured @ [(child, word_of_int (a_bits a))]))))"

definition check_values :: "verifier_env \<Rightarrow> (nat list \<times> 64 word) list \<Rightarrow> unit result" where
  "check_values env measured =
     (if measured = [] then Inr ()
      else ebind (ve_values env (map fst measured)) (\<lambda>actual.
             demand (list_all2 value_close actual (map snd measured))))"

definition best_children :: "nat \<Rightarrow> eligible \<Rightarrow> (nat list \<times> 64 word) list \<Rightarrow> nat list list" where
  "best_children width found measured =
     take width (sort_key (\<lambda>rows. (scaled_double (the (map_of measured rows)), snd (the (map_of found rows))))
                   (map fst found))"

definition verify_layer ::
  "verifier_env \<Rightarrow> nat \<Rightarrow> string \<Rightarrow> nat \<Rightarrow> nat \<Rightarrow> nat list set \<Rightarrow> (nat list \<times> nat list) list \<Rightarrow> audit_layer
     \<Rightarrow> (layer_report \<times> (nat list \<times> nat list) list \<times> nat list set) result" where
  "verify_layer env n mode width k shut previous layer =
     ebind (eligible_children env mode k (gate_pairs n) shut previous) (\<lambda>found.
     ebind (efold (measure_candidate n found) [] (al_candidates layer)) (\<lambda>measured.
     ebind (demand (fst ` set measured = fst ` set found)) (\<lambda>_.
     ebind (check_values env measured) (\<lambda>_.
     let expected = best_children width found measured in
     ebind (emap (\<lambda>item. rows_of item n) (al_winners layer)) (\<lambda>winners.
     ebind (demand (winners = expected)) (\<lambda>_.
       Inr (\<lparr>lr_depth = al_depth layer, lr_distinct = length found, lr_retained = length winners,
              lr_sha256 = ve_digest env winners, lr_by_rank = al_by_rank layer\<rparr>,
            map (\<lambda>rows. (rows, snd (the (map_of found rows)))) expected,
            shut \<union> set winners)))))))"

fun verify_from ::
  "verifier_env \<Rightarrow> nat \<Rightarrow> string \<Rightarrow> nat \<Rightarrow> nat \<Rightarrow> nat list set \<Rightarrow> (nat list \<times> nat list) list \<Rightarrow> audit_layer list
     \<Rightarrow> layer_report list result" where
  "verify_from env n mode width k shut previous [] = Inr []"
| "verify_from env n mode width k shut previous (layer # stages) =
     ebind (verify_layer env n mode width k shut previous layer) (\<lambda>(report, following, shut').
     ebind (verify_from env n mode width k shut' following stages) (\<lambda>reports.
       Inr (report # reports)))"

definition verify_layers ::
  "verifier_env \<Rightarrow> nat list \<Rightarrow> string \<Rightarrow> nat \<Rightarrow> nat \<Rightarrow> audit_layer list \<Rightarrow> layer_report list result" where
  "verify_layers env origin mode width k stages =
     verify_from env (length origin) mode width k {origin} [(origin, [])] stages"

section \<open>Receipts\<close>

record audit_receipt =
  r_status :: string
  r_gates :: "int list option"
  r_layers :: "audit_layer list"
  r_routes :: "route_step list"

record case_report =
  c_n :: nat
  c_width :: nat
  c_shortlist :: nat
  c_mode :: string
  c_world :: nat
  c_layers :: "layer_report list"
  c_ids :: "int list"
  c_gates :: "(nat \<times> nat) list"
  c_length :: nat
  c_routes :: "route_step list"
  c_exact :: "nat option"

text \<open>Subscripting a Python list: a negative index counts from the end.\<close>

definition pick_pair :: "'a list \<Rightarrow> int \<Rightarrow> 'a result" where
  "pick_pair xs i =
     (if 0 \<le> i \<and> i < int (length xs) then Inr (xs ! nat i)
      else if i < 0 \<and> - int (length xs) \<le> i then Inr (xs ! nat (int (length xs) + i))
      else Inl IndexError)"

definition routed_wide :: "route_step \<Rightarrow> bool" where
  "routed_wide e \<longleftrightarrow> rs_move e > 255 \<and> card {rs_source e, rs_owner e, rs_target e} > 1"

definition active_owners :: "layer_report \<Rightarrow> nat" where
  "active_owners l = length (filter (\<lambda>row. row ! 3 > 0) (lr_by_rank l))"

definition saturated :: "nat \<Rightarrow> nat \<Rightarrow> layer_report \<Rightarrow> bool" where
  "saturated width world l \<longleftrightarrow>
     lr_distinct l > width \<and> lr_retained l = width \<and> (world = 1 \<or> 2 \<le> active_owners l)"

text \<open>\<open>inspect\<close> of \<open>validate_case\<close> on rank 0.\<close>

definition inspect_case ::
  "verifier_env \<Rightarrow> nat list \<Rightarrow> string \<Rightarrow> nat \<Rightarrow> nat \<Rightarrow> nat \<Rightarrow> bool \<Rightarrow> audit_receipt \<Rightarrow> case_report result" where
  "inspect_case env rows mode width k world cross result =
     (let n = length rows; pairs = gate_pairs n in
      ebind (verify_layers env rows mode width k (r_layers result)) (\<lambda>stages.
      ebind (demand (r_status result = ''solved'')) (\<lambda>_.
      case r_gates result of None \<Rightarrow> Inl (TypeError ''object is not iterable'') | Some gates \<Rightarrow>
      ebind (efold (\<lambda>state g. ebind (pick_pair pairs g) (\<lambda>pair. Inr (apply_pair state pair)))
               (identity_rows n) gates) (\<lambda>replay.
      ebind (demand (replay = rows)) (\<lambda>_.
      ebind (demand (\<not> (cross \<and> world > 1) \<or> list_ex routed_wide (r_routes result))) (\<lambda>_.
      ebind (demand (list_ex (saturated width world) stages)) (\<lambda>_.
      ebind (emap (pick_pair pairs) gates) (\<lambda>directed.
      ebind (if n = 4 \<and> length gates \<le> 3
             then ebind (small_exact_distance rows pairs (length gates)) (\<lambda>d. Inr (Some d))
             else Inr None) (\<lambda>exact.
        Inr \<lparr>c_n = n, c_width = width, c_shortlist = k, c_mode = mode, c_world = world, c_layers = stages,
              c_ids = gates, c_gates = directed, c_length = length gates, c_routes = r_routes result,
              c_exact = exact\<rparr>)))))))))"

text \<open>\<open>inspect\<close> of \<open>validate_distribution\<close>: two stages, every rank taking part in the second.\<close>

definition took_part :: "nat list \<Rightarrow> bool" where
  "took_part row \<longleftrightarrow> row ! 0 \<noteq> 0 \<and> row ! 3 \<noteq> 0 \<and> row ! 4 \<noteq> 0"

definition inspect_distribution :: "verifier_env \<Rightarrow> nat \<Rightarrow> audit_receipt \<Rightarrow> layer_report list result" where
  "inspect_distribution env world result =
     (let rows = map (\<lambda>i. push_bit i 1) (rev [0..<6]) in
      if world > 17 then Inl (ValueError ''this small all-rank fixture covers up to 17 workers'')
      else
      ebind (verify_layers env rows ''qhat'' 17 25 (r_layers result)) (\<lambda>stages.
      ebind (demand (length stages = 2)) (\<lambda>_.
      ebind (demand (list_all took_part (lr_by_rank (stages ! 1)))) (\<lambda>_.
      ebind (demand (lr_retained (stages ! 1) = 17 \<and> lr_distinct (stages ! 1) > 17)) (\<lambda>_.
        Inr stages)))))"

text \<open>The wide case and its diagnostic scores: one move is preferred, children amount wrong bits.\<close>

definition wide_case :: "nat list result" where
  "wide_case = replay_cnot 144 [130 * 143 + 2, 2 * 143 + 142]"

definition wire_scores :: "nat \<Rightarrow> nat \<Rightarrow> string \<Rightarrow> nat list list \<Rightarrow> int list list" where
  "wire_scores undo n mode previous =
     (let q = (map int [0..<n * (n - 1)])[undo := - 1] in
      replicate (length previous) (if mode = ''qhat'' then q else map uminus q))"

fun bit_count :: "nat \<Rightarrow> nat" where
  "bit_count m = (if m = 0 then 0 else m mod 2 + bit_count (m div 2))"

declare bit_count.simps [simp del]

definition wire_values :: "nat list list \<Rightarrow> nat list" where
  "wire_values children =
     map (\<lambda>rows. \<Sum>(a, b) \<leftarrow> zip rows (identity_rows (length rows)). bit_count (a XOR b)) children"


section \<open>Shortest constructions\<close>

lemma filter_upt_skip: "s < n \<Longrightarrow> filter (\<lambda>t. t \<noteq> s) [0..<n] = [0..<s] @ [Suc s..<n]"
proof -
  assume "s < n"
  then have "[0..<n] = [0..<s] @ s # [Suc s..<n]"
    by (metis less_imp_le_nat upt_add_eq_append upt_conv_Cons le_add_diff_inverse zero_le)
  moreover have "filter (\<lambda>t. t \<noteq> s) [0..<s] = [0..<s]" "filter (\<lambda>t. t \<noteq> s) [Suc s..<n] = [Suc s..<n]"
    by (auto intro!: filter_True)
  ultimately show ?thesis by simp
qed

lemma gate_block:
  assumes "s < n"
  shows "map (Pair s) ([0..<s] @ [Suc s..<n])
    = map (\<lambda>m. (move_control n m, move_target n m)) [s * (n - 1)..<Suc s * (n - 1)]"
proof (rule nth_equalityI)
  show "length (map (Pair s) ([0..<s] @ [Suc s..<n]))
      = length (map (\<lambda>m. (move_control n m, move_target n m)) [s * (n - 1)..<Suc s * (n - 1)])"
    using assms by simp
  fix j assume "j < length (map (Pair s) ([0..<s] @ [Suc s..<n]))"
  then have j: "j < n - 1" using assms by simp
  then have "(s * (n - 1) + j) div (n - 1) = s" "(s * (n - 1) + j) mod (n - 1) = j" by simp_all
  then have "move_control n (s * (n - 1) + j) = s" "move_target n (s * (n - 1) + j) = (if s \<le> j then Suc j else j)"
    by (simp_all add: move_control_def move_target_def)
  then show "map (Pair s) ([0..<s] @ [Suc s..<n]) ! j
      = map (\<lambda>m. (move_control n m, move_target n m)) [s * (n - 1)..<Suc s * (n - 1)] ! j"
    using j assms by (simp add: nth_append)
qed

lemma gate_blocks:
  "k \<le> n \<Longrightarrow> concat (map (\<lambda>s. map (Pair s) (filter (\<lambda>t. t \<noteq> s) [0..<n])) [0..<k])
     = map (\<lambda>m. (move_control n m, move_target n m)) [0..<k * (n - 1)]"
proof (induction k)
  case (Suc k)
  let ?dec = "\<lambda>m. (move_control n m, move_target n m)"
  let ?block = "\<lambda>s. map (Pair s) (filter (\<lambda>t. t \<noteq> s) [0..<n])"
  have k: "k < n" using Suc.prems by simp
  have "concat (map ?block [0..<Suc k]) = concat (map ?block [0..<k]) @ ?block k" by simp
  also have "\<dots> = map ?dec [0..<k * (n - 1)] @ map ?dec [k * (n - 1)..<Suc k * (n - 1)]"
    using Suc k by (simp only: Suc_leD filter_upt_skip gate_block)
  also have "\<dots> = map ?dec [0..<Suc k * (n - 1)]"
    using upt_add_eq_append [of 0 "k * (n - 1)" "n - 1"] by (simp only: map_append mult_Suc add.commute zero_le)
  finally show ?case .
qed simp

lemma gate_pairs_moves:
  "gate_pairs n = map (\<lambda>m. (move_control n m, move_target n m)) [0..<alphabet n]"
proof -
  have if_filter: "concat (map (\<lambda>t. if t \<noteq> s then [(s, t)] else []) xs) = map (Pair s) (filter (\<lambda>t. t \<noteq> s) xs)"
    for s :: nat and xs by (induction xs) simp_all
  show ?thesis
    unfolding gate_pairs_def if_filter alphabet_def using gate_blocks [of n n] by simp
qed

lemma length_gate_pairs [simp]: "length (gate_pairs n) = alphabet n"
  by (simp add: gate_pairs_moves)

lemma gate_pairs_nth: "m < alphabet n \<Longrightarrow> gate_pairs n ! m = (move_control n m, move_target n m)"
  by (simp add: gate_pairs_moves)

lemma apply_move:
  "m < alphabet n \<Longrightarrow> apply_pair rows (gate_pairs n ! m)
     = rows[move_target n m := rows ! move_target n m XOR rows ! move_control n m]"
  by (simp add: gate_pairs_nth apply_pair_def)

lemma replay_identity: "replay_cnot n gates = replay_gates n (identity_rows n) gates"
  by (simp add: replay_cnot_def identity_rows_def)

lemma replay_snoc:
  "replay_cnot n (gates @ [g]) = Inr rows \<longleftrightarrow>
     (\<exists>previous m. replay_cnot n gates = Inr previous \<and> g = int m \<and> m < alphabet n
        \<and> rows = apply_pair previous (gate_pairs n ! m))"
proof -
  have "replay_gates n previous [g] = Inr rows \<longleftrightarrow>
      (\<exists>m. g = int m \<and> m < alphabet n \<and> rows = apply_pair previous (gate_pairs n ! m))" for previous
    by (cases g rule: int_cases) (auto simp: apply_move Let_def)
  then show ?thesis
    unfolding replay_cnot_def replay_gates_append ebind_Inr_iff by blast
qed

definition built_rows :: "nat \<Rightarrow> nat \<Rightarrow> nat list set" where
  "built_rows n d = {rows. \<exists>gates. length gates = d \<and> replay_cnot n gates = Inr rows}"

lemma built_rows_0: "built_rows n 0 = {identity_rows n}"
  by (auto simp: built_rows_def replay_identity)

lemma built_rows_Suc: "built_rows n (Suc d) = (\<Union>rows \<in> built_rows n d. apply_pair rows ` set (gate_pairs n))"
proof -
  have "rows \<in> built_rows n (Suc d) \<longleftrightarrow>
      (\<exists>gates g. length gates = d \<and> replay_cnot n (gates @ [g]) = Inr rows)" for rows
    unfolding built_rows_def length_Suc_conv_rev by auto
  then show ?thesis
    unfolding replay_snoc by (auto simp: built_rows_def set_conv_nth image_iff) blast+
qed

definition new_rows :: "nat \<Rightarrow> nat \<Rightarrow> nat list set" where
  "new_rows n d = built_rows n d - (\<Union>e < d. built_rows n e)"

lemma new_rows_Suc:
  "(\<Union>rows \<in> new_rows n d. apply_pair rows ` set (gate_pairs n)) - (\<Union>e \<le> d. built_rows n e) = new_rows n (Suc d)"
proof
  show "(\<Union>rows \<in> new_rows n d. apply_pair rows ` set (gate_pairs n)) - (\<Union>e \<le> d. built_rows n e) \<subseteq> new_rows n (Suc d)"
    by (auto simp: new_rows_def built_rows_Suc less_Suc_eq_le)
  show "new_rows n (Suc d) \<subseteq> (\<Union>rows \<in> new_rows n d. apply_pair rows ` set (gate_pairs n)) - (\<Union>e \<le> d. built_rows n e)"
  proof
    fix x assume "x \<in> new_rows n (Suc d)"
    then have x: "x \<in> built_rows n (Suc d)" "\<forall>e \<le> d. x \<notin> built_rows n e"
      by (auto simp: new_rows_def less_Suc_eq_le)
    then obtain rows where rows: "rows \<in> built_rows n d" "x \<in> apply_pair rows ` set (gate_pairs n)"
      unfolding built_rows_Suc by blast
    have "rows \<notin> built_rows n e" if "e < d" for e
    proof
      assume "rows \<in> built_rows n e"
      then have "x \<in> built_rows n (Suc e)" using rows(2) unfolding built_rows_Suc by blast
      then show False using x(2) that by simp
    qed
    then have "rows \<in> new_rows n d" using rows(1) by (simp add: new_rows_def)
    then show "x \<in> (\<Union>rows \<in> new_rows n d. apply_pair rows ` set (gate_pairs n)) - (\<Union>e \<le> d. built_rows n e)"
      using rows(2) x(2) by auto
  qed
qed

lemma exact_loop_spec:
  assumes "\<forall>e < depth. target \<notin> built_rows n e"
  shows "exact_loop target (gate_pairs n) depth rounds (new_rows n depth) (\<Union>e \<le> depth. built_rows n e) = Inr d
    \<longleftrightarrow> d \<le> depth + rounds \<and> target \<in> built_rows n d \<and> (\<forall>e < d. target \<notin> built_rows n e)"
  using assms
proof (induction rounds arbitrary: depth)
  case 0
  then have "target \<in> new_rows n depth \<longleftrightarrow> target \<in> built_rows n depth" by (simp add: new_rows_def)
  then show ?case using 0 by (auto simp: le_less)
next
  case (Suc rounds)
  have here: "target \<in> new_rows n depth \<longleftrightarrow> target \<in> built_rows n depth" using Suc.prems by (simp add: new_rows_def)
  show ?case
  proof (cases "target \<in> built_rows n depth")
    case True
    then have "(d = depth) \<longleftrightarrow> d \<le> depth + Suc rounds \<and> target \<in> built_rows n d \<and> (\<forall>e < d. target \<notin> built_rows n e)"
      using Suc.prems by (metis le_add1 linorder_neqE_nat)
    then show ?thesis using True here by auto
  next
    case False
    let ?known = "\<Union>e \<le> depth. built_rows n e"
    let ?fresh = "(\<Union>rows \<in> new_rows n depth. apply_pair rows ` set (gate_pairs n)) - ?known"
    have "?known \<union> ?fresh = (\<Union>e \<le> Suc depth. built_rows n e)"
      unfolding new_rows_Suc by (auto simp: new_rows_def less_Suc_eq_le le_Suc_eq)
    moreover have "\<forall>e < Suc depth. target \<notin> built_rows n e" using Suc.prems False by (simp add: less_Suc_eq)
    ultimately show ?thesis
      using False here Suc.IH [of "Suc depth"] by (simp only: exact_loop.simps Let_def new_rows_Suc if_False) simp
  qed
qed

lemma small_distance_built:
  "small_exact_distance target (gate_pairs (length target)) bound = Inr d \<longleftrightarrow>
     d \<le> bound \<and> target \<in> built_rows (length target) d \<and> (\<forall>e < d. target \<notin> built_rows (length target) e)"
proof -
  have "small_exact_distance target (gate_pairs (length target)) bound
      = exact_loop target (gate_pairs (length target)) 0 bound (new_rows (length target) 0)
          (\<Union>e \<le> 0. built_rows (length target) e)"
    by (simp add: small_exact_distance_def new_rows_def built_rows_0 Let_def)
  then show ?thesis
    using exact_loop_spec [of 0 target "length target" bound d] by (simp only: add_0 not_less_zero simp_thms)
qed

lemma shortest_built:
  "target \<in> built_rows n d \<and> (\<forall>e < d. target \<notin> built_rows n e) \<longleftrightarrow>
     (\<exists>gates. length gates = d \<and> replay_cnot n gates = Inr target)
     \<and> (\<forall>gates. replay_cnot n gates = Inr target \<longrightarrow> d \<le> length gates)"
  by (auto simp: built_rows_def not_le [symmetric])

text \<open>C13. The reference distance is exact: for a target of n rows the breadth first search answers d
  precisely when d is within the bound, some list of d gates rebuilds the target by the library's own
  replay, and no shorter list does; otherwise it raises.\<close>

theorem small_distance_exact:
  "small_exact_distance target (gate_pairs (length target)) bound = Inr d \<longleftrightarrow>
    d \<le> bound \<and> (\<exists>gates. length gates = d \<and> replay_cnot (length target) gates = Inr target)
    \<and> (\<forall>gates. replay_cnot (length target) gates = Inr target \<longrightarrow> d \<le> length gates)"
  unfolding small_distance_built shortest_built ..

lemma small_distance_exact_witness:
  "small_exact_distance [3, 2, 6] (gate_pairs 3) 2 = Inr 2
    \<and> (\<exists>gates. length gates = 2 \<and> replay_cnot 3 gates = Inr [3, 2, 6])"
proof -
  have "small_exact_distance [3, 2, 6] (gate_pairs 3) 2 = Inr 2" by code_simp
  then show ?thesis using small_distance_exact [of "[3, 2, 6]" 2 2] by (simp add: numeral_3_eq_3)
qed

section \<open>What an accepted layer certifies\<close>

definition candidate_rows :: "nat \<Rightarrow> audit_layer \<Rightarrow> nat list set" where
  "candidate_rows n l = {rows. \<exists>a \<in> set (al_candidates l). rows_of (a_lanes a) n = Inr rows}"

definition winner_rows :: "nat \<Rightarrow> audit_layer \<Rightarrow> nat list set" where
  "winner_rows n l = {rows. \<exists>item \<in> set (al_winners l). rows_of item n = Inr rows}"

definition children_of :: "nat \<Rightarrow> nat list set \<Rightarrow> nat list set" where
  "children_of n F = (\<Union>rows \<in> F. apply_pair rows ` set (gate_pairs n))"

lemma expand_parent_keys:
  "fst ` set (foldl (expand_parent shut pairs i rows word) found actions)
     = fst ` set found \<union> ((\<lambda>a. apply_pair rows (pairs ! a)) ` set actions - shut)"
  by (induction actions arbitrary: found) (auto simp: expand_parent_def Let_def)

lemma expand_parent_distinct:
  "distinct (map fst found) \<Longrightarrow> distinct (map fst (foldl (expand_parent shut pairs i rows word) found actions))"
  by (induction actions arbitrary: found) (simp_all add: expand_parent_def Let_def)

lemma nth_image_upt: "(\<lambda>a. f (xs ! a)) ` {0..<length xs} = f ` set xs"
proof -
  have "set xs = (!) xs ` {0..<length xs}" by (auto simp: set_conv_nth)
  then show ?thesis by (simp only: image_image)
qed

lemma eligible_loop:
  assumes "alphabet n \<le> k"
    and "efold (\<lambda>found (i, rows, word).
           ebind (parent_actions mode k (alphabet n) head i) (\<lambda>actions.
             Inr (foldl (expand_parent shut (gate_pairs n) i rows word) found actions)))
         acc (enumerate j previous) = Inr found"
  shows "fst ` set found = fst ` set acc \<union> (children_of n (fst ` set previous) - shut)"
    and "distinct (map fst acc) \<Longrightarrow> distinct (map fst found)"
proof -
  note step = assms(2)
  show "fst ` set found = fst ` set acc \<union> (children_of n (fst ` set previous) - shut)"
    using step
  proof (induction previous arbitrary: acc j)
    case (Cons p previous)
    obtain rows word where p: "p = (rows, word)" by (cases p)
    let ?acc = "foldl (expand_parent shut (gate_pairs n) j rows word) acc [0..<alphabet n]"
    have "fst ` set ?acc = fst ` set acc \<union> (apply_pair rows ` set (gate_pairs n) - shut)"
      using nth_image_upt [of "apply_pair rows" "gate_pairs n"] by (simp add: expand_parent_keys)
    moreover have "fst ` set found = fst ` set ?acc \<union> (children_of n (fst ` set previous) - shut)"
      using Cons.prems assms(1) by (intro Cons.IH [of "?acc" "Suc j"]) (simp add: p parent_actions_def)
    ultimately show ?case by (auto simp: children_of_def p)
  qed (simp add: children_of_def)
  show "distinct (map fst found)" if "distinct (map fst acc)"
    using step that
  proof (induction previous arbitrary: acc j)
    case (Cons p previous)
    show ?case
      using Cons.prems assms(1)
      by (cases p) (auto simp: parent_actions_def simp del: foldl_append upt_Suc
          intro: Cons.IH [rotated] expand_parent_distinct)
  qed simp
qed

lemma eligible_children_complete:
  assumes "eligible_children env mode k (gate_pairs n) shut previous = Inr found" "alphabet n \<le> k"
  shows "fst ` set found = children_of n (fst ` set previous) - shut" "distinct (map fst found)"
  using assms eligible_loop [OF assms(2), of mode "[]" shut "[]" 0 previous found]
  by (simp_all add: eligible_children_def)

lemma measure_candidate_Inr:
  assumes "measure_candidate n found acc a = Inr measured"
  shows "\<exists>child. rows_of (a_lanes a) n = Inr child \<and> child \<notin> fst ` set acc
    \<and> measured = acc @ [(child, word_of_int (a_bits a))]"
proof -
  obtain child where child: "rows_of (a_lanes a) n = Inr child"
    using assms by (auto simp: measure_candidate_def ebind_Inr_iff)
  then show ?thesis using assms
    by (auto simp: measure_candidate_def ebind_Inr_iff demand_def split: option.splits) force
qed

lemma measured_rows:
  assumes "efold (measure_candidate n found) acc rows = Inr measured"
  shows "\<exists>children. list_all2 (\<lambda>a child. rows_of (a_lanes a) n = Inr child) rows children
    \<and> measured = acc @ zip children (map (\<lambda>a. word_of_int (a_bits a)) rows)"
    and "distinct (map fst acc) \<Longrightarrow> distinct (map fst measured)"
proof -
  show "\<exists>children. list_all2 (\<lambda>a child. rows_of (a_lanes a) n = Inr child) rows children
    \<and> measured = acc @ zip children (map (\<lambda>a. word_of_int (a_bits a)) rows)"
    using assms
  proof (induction rows arbitrary: acc)
    case (Cons a rows)
    then obtain acc' where acc': "measure_candidate n found acc a = Inr acc'"
      "efold (measure_candidate n found) acc' rows = Inr measured" by (auto simp only: efold.simps ebind_Inr_iff)
    obtain child where child: "rows_of (a_lanes a) n = Inr child" "acc' = acc @ [(child, word_of_int (a_bits a))]"
      using measure_candidate_Inr [OF acc'(1)] by blast
    obtain children where "list_all2 (\<lambda>a child. rows_of (a_lanes a) n = Inr child) rows children"
        "measured = acc' @ zip children (map (\<lambda>a. word_of_int (a_bits a)) rows)"
      using Cons.IH [OF acc'(2)] by blast
    with child show ?case by (intro exI [of _ "child # children"]) simp
  qed simp
  show "distinct (map fst measured)" if "distinct (map fst acc)"
    using assms that
  proof (rule efold_invariant)
    fix t a t' assume "distinct (map fst t)" "measure_candidate n found t a = Inr t'"
    then show "distinct (map fst t')" using measure_candidate_Inr [of n found t a t'] by auto
  qed
qed

lemma take_sort_best:
  fixes key :: "'a \<Rightarrow> 'b::linorder"
  assumes "w \<in> set (take b (sort_key key xs))" "c \<in> set xs" "c \<notin> set (take b (sort_key key xs))"
  shows "key w \<le> key c"
proof -
  let ?s = "sort_key key xs"
  have "set ?s = set (take b ?s) \<union> set (drop b ?s)" by (metis append_take_drop_id set_append)
  then have "c \<in> set (drop b ?s)" using assms(2,3) by auto
  moreover have "sorted (map key (take b ?s @ drop b ?s))" by simp
  ultimately show ?thesis
    using assms(1) unfolding map_append sorted_append by auto
qed

lemma emap_set: "emap f xs = Inr ys \<Longrightarrow> set ys = {y. \<exists>x \<in> set xs. f x = Inr y}"
  by (induction xs arbitrary: ys) (auto simp: ebind_Inr_iff)

text \<open>What one accepted layer shows: complete candidates, and a best selection of the right size.\<close>

definition layer_exact :: "nat \<Rightarrow> nat \<Rightarrow> nat list set \<Rightarrow> nat list set \<Rightarrow> audit_layer \<Rightarrow> bool" where
  "layer_exact n width F shut l \<longleftrightarrow>
     candidate_rows n l = children_of n F - shut
     \<and> winner_rows n l \<subseteq> candidate_rows n l
     \<and> card (winner_rows n l) = min width (card (candidate_rows n l))
     \<and> (\<forall>a \<in> set (al_candidates l). \<forall>b \<in> set (al_candidates l). \<forall>won lost.
          rows_of (a_lanes a) n = Inr won \<longrightarrow> rows_of (a_lanes b) n = Inr lost \<longrightarrow>
          won \<in> winner_rows n l \<longrightarrow> lost \<notin> winner_rows n l \<longrightarrow>
          scaled_double (word_of_int (a_bits a)) \<le> scaled_double (word_of_int (a_bits b)))"

lemma measured_lookup:
  assumes "list_all2 (\<lambda>a child. rows_of (a_lanes a) n = Inr child) rows children"
    "measured = zip children (map (\<lambda>a. word_of_int (a_bits a)) rows)" "distinct (map fst measured)"
    "a \<in> set rows" "rows_of (a_lanes a) n = Inr child"
  shows "map_of measured child = Some (word_of_int (a_bits a))"
proof -
  obtain i where i: "i < length rows" "a = rows ! i" using assms(4) by (auto simp: in_set_conv_nth)
  have len: "length children = length rows" using assms(1) by (simp add: list_all2_lengthD)
  have "rows_of (a_lanes (rows ! i)) n = Inr (children ! i)" using assms(1) i by (simp add: list_all2_conv_all_nth)
  then have "children ! i = child" using assms(5) i by simp
  then have "(child, word_of_int (a_bits a)) = measured ! i" "i < length measured" using assms(2) i len by simp_all
  then have "(child, word_of_int (a_bits a)) \<in> set measured" by (simp only: nth_mem)
  then show ?thesis using assms(3) by (simp add: map_of_is_SomeI)
qed

lemma verify_layer_exact:
  assumes "verify_layer env n mode width k shut previous l = Inr (report, following, shut')" "alphabet n \<le> k"
  shows "layer_exact n width (fst ` set previous) shut l"
    and "fst ` set following = winner_rows n l" and "shut' = shut \<union> winner_rows n l"
proof -
  from assms(1) obtain found measured winners where
    found: "eligible_children env mode k (gate_pairs n) shut previous = Inr found" and
    measured: "efold (measure_candidate n found) [] (al_candidates l) = Inr measured" and
    complete: "fst ` set measured = fst ` set found" and
    winners: "emap (\<lambda>item. rows_of item n) (al_winners l) = Inr winners" and
    best: "winners = best_children width found measured" and
    following: "following = map (\<lambda>rows. (rows, snd (the (map_of found rows)))) winners" and
    shut': "shut' = shut \<union> set winners"
    by (auto simp: verify_layer_def ebind_Inr_iff demand_def Let_def)
  note keys = eligible_children_complete [OF found assms(2)]
  obtain children where children: "list_all2 (\<lambda>a child. rows_of (a_lanes a) n = Inr child) (al_candidates l) children"
    and zip: "measured = zip children (map (\<lambda>a. word_of_int (a_bits a)) (al_candidates l))"
    using measured_rows(1) [OF measured] by auto
  have distinct: "distinct (map fst measured)" using measured_rows(2) [OF measured] by simp
  have len: "length children = length (al_candidates l)" using children by (simp add: list_all2_lengthD)
  have cands: "candidate_rows n l = fst ` set found"
  proof -
    have "emap (\<lambda>a. rows_of (a_lanes a) n) (al_candidates l) = Inr children"
      using children by (simp add: emap_Inr_iff)
    then have "set children = candidate_rows n l" by (simp add: emap_set candidate_rows_def)
    moreover have "fst ` set measured = set children"
      using len by (simp only: zip set_map [symmetric] map_fst_zip length_map)
    ultimately show ?thesis using complete by simp
  qed
  have won: "winner_rows n l = set winners" using winners by (simp add: emap_set winner_rows_def)
  show "fst ` set following = winner_rows n l" "shut' = shut \<union> winner_rows n l"
    unfolding won by (simp only: following set_map image_image fst_conv image_ident, rule shut')
  let ?key = "\<lambda>rows. (scaled_double (the (map_of measured rows)), snd (the (map_of found rows)))"
  have winners_eq: "winners = take width (sort_key ?key (map fst found))" by (simp add: best best_children_def)
  have "distinct winners" unfolding winners_eq by (rule distinct_take) (simp only: distinct_sort keys(2))
  then have "card (set winners) = min width (length found)" using keys(2)
    by (subst distinct_card) (simp_all only: winners_eq length_take length_sort length_map min.commute)
  moreover have "card (fst ` set found) = length found"
    using distinct_card [OF keys(2)] by (simp only: set_map length_map)
  ultimately have "card (set winners) = min width (card (fst ` set found))" by simp
  moreover have "set winners \<subseteq> fst ` set found"
    using set_take_subset [of width "sort_key ?key (map fst found)"] by (simp add: winners_eq)
  moreover have "scaled_double (word_of_int (a_bits a)) \<le> scaled_double (word_of_int (a_bits b))"
    if ab: "a \<in> set (al_candidates l)" "b \<in> set (al_candidates l)"
      "rows_of (a_lanes a) n = Inr w" "rows_of (a_lanes b) n = Inr c" "w \<in> set winners" "c \<notin> set winners" for a b w c
  proof -
    have "c \<in> candidate_rows n l" using ab by (auto simp: candidate_rows_def)
    then have "?key w \<le> ?key c"
      using ab(5,6) unfolding winners_eq cands by (intro take_sort_best) simp_all
    moreover note measured_lookup [OF children zip distinct]
    ultimately show ?thesis using ab by (auto simp: less_eq_prod_def)
  qed
  ultimately show "layer_exact n width (fst ` set previous) shut l"
    using keys(1) unfolding layer_exact_def won cands by blast
qed

section \<open>Accepted receipts\<close>

text \<open>The rows a layer starts from: the input, then the winners of the layer before.\<close>

definition layer_frontier :: "nat list \<Rightarrow> audit_layer list \<Rightarrow> nat \<Rightarrow> nat list set" where
  "layer_frontier origin stages d =
     (if d = 0 then {origin} else winner_rows (length origin) (stages ! (d - 1)))"

lemma verify_from_exact:
  assumes "verify_from env n mode width k shut previous stages = Inr reports" "alphabet n \<le> k" "d < length stages"
  shows "layer_exact n width (if d = 0 then fst ` set previous else winner_rows n (stages ! (d - 1)))
           (shut \<union> (\<Union>e < d. winner_rows n (stages ! e))) (stages ! d)"
  using assms(1,3)
proof (induction stages arbitrary: shut previous reports d)
  case (Cons l stages)
  from Cons.prems(1) obtain report following shut' rest where
    l: "verify_layer env n mode width k shut previous l = Inr (report, following, shut')" and
    rest: "verify_from env n mode width k shut' following stages = Inr rest"
    by (auto simp: ebind_Inr_iff)
  note this_layer = verify_layer_exact [OF l assms(2)]
  show ?case
  proof (cases d)
    case 0
    then show ?thesis using this_layer(1) by simp
  next
    case (Suc j)
    have "layer_exact n width (if j = 0 then fst ` set following else winner_rows n (stages ! (j - 1)))
        (shut' \<union> (\<Union>e < j. winner_rows n (stages ! e))) (stages ! j)"
      using Cons.prems(2) Suc by (intro Cons.IH [OF rest]) simp
    moreover have "(\<Union>e < Suc j. winner_rows n ((l # stages) ! e))
        = winner_rows n l \<union> (\<Union>e < j. winner_rows n (stages ! e))"
      unfolding lessThan_Suc_eq_insert_0 by simp
    moreover have "(if j = 0 then fst ` set following else winner_rows n (stages ! (j - 1)))
        = winner_rows n ((l # stages) ! j)"
      by (cases j) (simp_all add: this_layer(2))
    ultimately show ?thesis by (simp add: Suc this_layer(3) Un_assoc)
  qed
qed simp

lemma verify_layers_exact:
  assumes "verify_layers env origin mode width k stages = Inr reports" "alphabet (length origin) \<le> k"
    "d < length stages"
  shows "layer_exact (length origin) width (layer_frontier origin stages d)
    (\<Union>e \<le> d. layer_frontier origin stages e) (stages ! d)"
proof -
  have "(\<Union>e \<le> d. F e) = F 0 \<union> (\<Union>e < d. F (Suc e))" for F :: "nat \<Rightarrow> nat list set"
    unfolding lessThan_Suc_atMost [symmetric] lessThan_Suc_eq_insert_0 by simp
  from this [of "layer_frontier origin stages"] have "(\<Union>e \<le> d. layer_frontier origin stages e)
      = {origin} \<union> (\<Union>e < d. winner_rows (length origin) (stages ! e))"
    by (simp add: layer_frontier_def)
  then show ?thesis
    using verify_from_exact [OF assms(1) [unfolded verify_layers_def] assms(2,3)]
    by (simp add: layer_frontier_def split del: if_split cong: if_cong)
qed

text \<open>A subscript of the list of pairs as a physical move.\<close>

definition physical :: "nat \<Rightarrow> int \<Rightarrow> int" where
  "physical n g = (if g < 0 then g + int (alphabet n) else g)"

lemma pick_pair_gate:
  "pick_pair (gate_pairs n) g = Inr pair \<Longrightarrow> \<exists>m < alphabet n. physical n g = int m \<and> pair = gate_pairs n ! m"
  by (auto simp: pick_pair_def physical_def add.commute split: if_splits)
    (metis nat_less_iff int_nat_eq, smt (verit) int_nat_eq nat_less_iff)

lemma rebuilt_replay:
  "efold (\<lambda>state g. ebind (pick_pair (gate_pairs n) g) (\<lambda>pair. Inr (apply_pair state pair))) rows gates = Inr rows'
    \<Longrightarrow> replay_gates n rows (map (physical n) gates) = Inr rows'"
proof (induction gates arbitrary: rows)
  case (Cons g gates)
  then obtain pair where pair: "pick_pair (gate_pairs n) g = Inr pair"
    and rest: "replay_gates n (apply_pair rows pair) (map (physical n) gates) = Inr rows'"
    by (auto simp: ebind_Inr_iff)
  from pick_pair_gate [OF pair] obtain m where "m < alphabet n" "physical n g = int m" "pair = gate_pairs n ! m" by blast
  with rest show ?case by (simp add: apply_move Let_def)
qed simp


text \<open>A receipt on two qubits: one gate, one saturated layer of width one.\<close>

definition tiny_receipt :: audit_receipt where
  "tiny_receipt = \<lparr>r_status = ''solved'', r_gates = Some [0],
     r_layers = [\<lparr>al_depth = 1, al_distinct = 2, al_retained = 1,
       al_candidates = [\<lparr>a_bits = 1, a_parent = 0, a_lex = 0, a_generation = 0, a_route = 0, a_lanes = [1, 2]\<rparr>,
                        \<lparr>a_bits = 2, a_parent = 0, a_lex = 1, a_generation = 1, a_route = 1, a_lanes = [2, 3]\<rparr>],
       al_winners = [[1, 2]], al_by_rank = [[1, 2, 2, 2, 1]]\<rparr>],
     r_routes = []\<rparr>"

definition tiny_verifier :: verifier_env where
  "tiny_verifier = \<lparr>ve_scores = \<lambda>_ _. Inr [], ve_values = \<lambda>_. Inr [1, 2], ve_digest = \<lambda>_. []\<rparr>"

lemma tiny_eligible:
  "eligible_children tiny_verifier ''qhat'' 2 (gate_pairs 2) {[1, 3]} [([1, 3], [])]
     = Inr [([1, 2], 0, [0]), ([2, 3], 0, [1])]"
  by code_simp

lemma tiny_measured:
  "efold (measure_candidate 2 [([1, 2], 0, [0]), ([2, 3], 0, [1])]) [] (al_candidates (hd (r_layers tiny_receipt)))
     = Inr [([1, 2], 1), ([2, 3], 2)]"
  by (simp add: tiny_receipt_def measure_candidate_def rows_of_def lane_value_def demand_def upt_rec raise_if_def)

lemma tiny_values: "check_values tiny_verifier [([1, 2], 1), ([2, 3], 2)] = Inr ()"
  by (simp add: check_values_def tiny_verifier_def demand_def value_close_def nan_double_def finite_double_def)

lemma tiny_best: "best_children 1 [([1, 2], 0, [0]), ([2, 3], 0, [1])] [([1, 2], 1), ([2, 3], 2)] = [[1, 2]]"
  by (simp add: best_children_def scaled_double_def scaled_magnitude_def Let_def)

lemma tiny_winners: "emap (\<lambda>item. rows_of item 2) [[1, 2]] = Inr [[1, 2]]"
  by code_simp

lemma tiny_rebuilt:
  "efold (\<lambda>state g. ebind (pick_pair (gate_pairs 2) g) (\<lambda>pair. Inr (apply_pair state pair))) (identity_rows 2) [0]
     = Inr [1, 3]"
  by code_simp

lemma tiny_layers:
  "verify_layers tiny_verifier [1, 3] ''qhat'' 1 2 (r_layers tiny_receipt)
     = Inr [\<lparr>lr_depth = 1, lr_distinct = 2, lr_retained = 1, lr_sha256 = [], lr_by_rank = [[1, 2, 2, 2, 1]]\<rparr>]"
proof -
  have "r_layers tiny_receipt = [hd (r_layers tiny_receipt)]" by (simp add: tiny_receipt_def)
  moreover have "verify_layer tiny_verifier 2 ''qhat'' 1 2 {[1, 3]} [([1, 3], [])] (hd (r_layers tiny_receipt))
      = Inr (\<lparr>lr_depth = 1, lr_distinct = 2, lr_retained = 1, lr_sha256 = [], lr_by_rank = [[1, 2, 2, 2, 1]]\<rparr>,
             [([1, 2], [0])], {[1, 3], [1, 2]})"
    unfolding verify_layer_def tiny_eligible tiny_measured ebind_simps tiny_values tiny_best Let_def
    using tiny_winners by (simp add: tiny_receipt_def tiny_verifier_def demand_def raise_if_def insert_commute)
  ultimately show ?thesis
    using verify_from.simps by (metis (no_types, lifting) verify_layers_def ebind_simps(2) case_prod_conv length_Cons list.size(3) numeral_2_eq_2)
qed

end
