(* ===== verification/Geometry.thy ===== *)
theory Geometry
  imports Prelude "HOL-Library.Product_Lexorder"
begin

text \<open>
  The buffer geometry of a beam profile (\<open>beam_geometry.py\<close>): the lower bound on device memory of a
  frontier, shard count and staging depth, the shortlist of memory seeds, and the batch size that
  keeps a linear stage stable. Floating point inputs are exact rationals or one of the
  non-finite values; Python integers are \<open>int\<close>.
\<close>

section \<open>Numbers from environment strings\<close>

text \<open>\<open>int(s)\<close> on a string of decimal digits with an optional minus sign; the other spellings that
  Python accepts (blanks, underscores, a plus sign) are not written by this program.\<close>

fun py_int :: "string \<Rightarrow> int result" where
  "py_int s =
     (case s of
        (c # cs) \<Rightarrow>
          if c = CHR ''-''
          then (case parse_nat cs of Some n \<Rightarrow> Inr (- int n) | None \<Rightarrow> Inl (ValueError ''invalid literal for int()''))
          else (case parse_nat s of Some n \<Rightarrow> Inr (int n) | None \<Rightarrow> Inl (ValueError ''invalid literal for int()''))
      | [] \<Rightarrow> Inl (ValueError ''invalid literal for int()''))"

type_synonym env = "(string, string) dict"

definition env_int :: "env \<Rightarrow> string \<Rightarrow> int result" where
  "env_int environment key = ebind (dict_item environment key) py_int"

lemma py_int_str_int [simp]: "py_int (str_int i) = Inr i"
proof (cases "i < 0")
  case True
  then show ?thesis by (simp add: str_int_def)
next
  case False
  obtain c cs where s: "str_nat (nat i) = c # cs" by (cases "str_nat (nat i)") auto
  have "is_digit c" using str_nat_digits [of "nat i"] by (simp add: s)
  then have "c \<noteq> CHR ''-''" by (auto simp: is_digit_def)
  moreover have "parse_nat (c # cs) = Some (nat i)" using parse_str_nat [of "nat i"] by (simp add: s)
  ultimately show ?thesis using False by (simp add: str_int_def s)
qed

lemma str_int_eq_iff: "str_int i = str_int j \<longleftrightarrow> i = j"
  by (metis py_int_str_int sum.inject(2))

declare py_int.simps [simp del]

section \<open>Shapes\<close>

record shape =
  requested_beam :: int
  gpus :: int
  native_b_micro :: int
  moves :: int
  state_bytes :: int
  alignment :: int
  capacity_ppm :: int
  receive_ppm :: int

text \<open>\<open>Shape.__post_init__\<close>: every field is a positive Python integer, within the native ranges.\<close>

definition make_shape :: "pyval list \<Rightarrow> shape result" where
  "make_shape vals =
     (if length vals \<noteq> 8 then Inl (TypeError ''Shape fields'')
      else if \<not> list_all (\<lambda>v. is_int v \<and> 0 < the_int v) vals
      then Inl (ValueError ''must be a positive integer'')
      else let f = (\<lambda>i. the_int (vals ! i)) in
        if f 0 \<ge> 2 ^ 64 \<or> f 1 \<ge> 2 ^ 31 then Inl (ValueError ''native integer range exceeded'')
        else Inr \<lparr>requested_beam = f 0, gpus = f 1, native_b_micro = f 2, moves = f 3,
                  state_bytes = f 4, alignment = f 5, capacity_ppm = f 6, receive_ppm = f 7\<rparr>)"

definition shape_ok :: "shape \<Rightarrow> bool" where
  "shape_ok sh \<longleftrightarrow> 0 < requested_beam sh \<and> requested_beam sh < 2 ^ 64 \<and> 0 < gpus sh \<and> gpus sh < 2 ^ 31
     \<and> 0 < native_b_micro sh \<and> 0 < moves sh \<and> 0 < state_bytes sh \<and> 0 < alignment sh
     \<and> 0 < capacity_ppm sh \<and> 0 < receive_ppm sh"

lemma make_shape_ok: "make_shape vals = Inr sh \<Longrightarrow> shape_ok sh"
  by (auto simp: make_shape_def Let_def shape_ok_def list_all_length not_le split: if_splits)

definition ring_pool_limit :: "env \<Rightarrow> int option result" where
  "ring_pool_limit environment =
     (case map_of environment ''BEAM_RING_COUNT_LIMIT'' of
        None \<Rightarrow>
          Inr (if map_of environment ''BEAM_STREAM1_EXECUTOR'' = Some ''libtorch_eager''
                  \<or> (case map_of environment ''BEAM_BLEND_DIR'' of Some d \<Rightarrow> d \<noteq> [] | None \<Rightarrow> False)
               then Some 16 else None)
      | Some value \<Rightarrow>
          (case py_int value of
             Inl _ \<Rightarrow> Inl (ValueError ''invalid BEAM_RING_COUNT_LIMIT'')
           | Inr limit \<Rightarrow>
               if 1 \<le> limit \<and> limit < 2 ^ 32 then Inr (Some limit)
               else Inl (ValueError ''invalid BEAM_RING_COUNT_LIMIT'')))"

section \<open>Geometry\<close>

record geometry_row =
  g_effective :: int
  g_padding :: int
  g_local_parents :: int
  g_shards :: int
  g_transaction :: int
  g_logical_shard :: int
  g_physical_capacity :: int
  g_ring_count :: int
  g_stream1_slots :: int
  g_receive :: int
  g_frontier_bytes :: int
  g_ring_network_bytes :: int
  g_sort_bytes :: int
  g_union_bytes :: int
  g_survivor_bytes :: int
  g_histogram_bytes :: int
  g_lower_bound :: int

definition aligned_beam :: "shape \<Rightarrow> int \<Rightarrow> int" where
  "aligned_beam sh shards = round_up (requested_beam sh) (gpus sh * shards * alignment sh)"

definition logical_shard :: "shape \<Rightarrow> int \<Rightarrow> int" where
  "logical_shard sh shards = ceil_div (ceil_div (aligned_beam sh shards) (gpus sh)) shards"

definition transaction :: "shape \<Rightarrow> int \<Rightarrow> int" where
  "transaction sh staging = staging * native_b_micro sh * moves sh"

definition ring_count :: "shape \<Rightarrow> int \<Rightarrow> int \<Rightarrow> int option \<Rightarrow> int" where
  "ring_count sh shards staging ring_limit =
     (let rings = ceil_div (logical_shard sh shards * staging) (transaction sh staging) in
      case ring_limit of Some l \<Rightarrow> min rings l | None \<Rightarrow> rings)"

definition receive_count :: "shape \<Rightarrow> int \<Rightarrow> int" where
  "receive_count sh staging =
     max (transaction sh staging) (ceil_div (transaction sh staging * receive_ppm sh) 1000000)"

definition shard_capacity :: "shape \<Rightarrow> int \<Rightarrow> int \<Rightarrow> int" where
  "shard_capacity sh shards staging =
     round_up (max (logical_shard sh shards + max (transaction sh staging) (receive_count sh staging))
                (ceil_div (logical_shard sh shards * capacity_ppm sh) 1000000)) (alignment sh)"

definition ring_network_bytes :: "shape \<Rightarrow> int \<Rightarrow> int \<Rightarrow> int option \<Rightarrow> int" where
  "ring_network_bytes sh shards staging ring_limit =
     (let rings = ring_count sh shards staging ring_limit; q = transaction sh staging;
          slots = (if gpus sh > 1 then rings else 1) in
      20 * rings * q + 32 * slots * (q + receive_count sh staging))"

definition geometry_row_of :: "shape \<Rightarrow> int \<Rightarrow> int \<Rightarrow> int \<Rightarrow> int option \<Rightarrow> geometry_row" where
  "geometry_row_of sh shards staging sort_slots ring_limit =
     (let capacity = shard_capacity sh shards staging;
          frontier = ceil_div (requested_beam sh) (gpus sh) * state_bytes sh;
          rings = ring_count sh shards staging ring_limit;
          network = ring_network_bytes sh shards staging ring_limit;
          sort_bytes = 124 * sort_slots * capacity;
          union_bytes = 248 * capacity;
          survivors = 64 * shards * capacity;
          histograms = 16 * shards * 307201 in
      \<lparr>g_effective = requested_beam sh, g_padding = aligned_beam sh shards - requested_beam sh,
       g_local_parents = ceil_div (requested_beam sh) (gpus sh), g_shards = shards,
       g_transaction = transaction sh staging, g_logical_shard = logical_shard sh shards,
       g_physical_capacity = capacity, g_ring_count = rings, g_stream1_slots = rings * staging,
       g_receive = receive_count sh staging, g_frontier_bytes = frontier,
       g_ring_network_bytes = network, g_sort_bytes = sort_bytes, g_union_bytes = union_bytes,
       g_survivor_bytes = survivors, g_histogram_bytes = histograms,
       g_lower_bound = frontier + max (max (network + sort_bytes) union_bytes) frontier + survivors + histograms\<rparr>)"

definition geometry :: "shape \<Rightarrow> int \<Rightarrow> int \<Rightarrow> int \<Rightarrow> int option \<Rightarrow> geometry_row result" where
  "geometry sh shards staging sort_slots ring_limit =
     (if \<not> (0 < shards \<and> 0 < staging \<and> 0 < sort_slots) then Inl (ValueError ''positive geometry required'')
      else if (case ring_limit of Some l \<Rightarrow> \<not> (1 \<le> l \<and> l < 2 ^ 32) | None \<Rightarrow> False)
      then Inl (ValueError ''physical_ring_limit must be a positive uint32'')
      else if requested_beam sh \<ge> 2 ^ 64 \<or> transaction sh staging \<ge> 2 ^ 32
         \<or> ring_count sh shards staging ring_limit \<ge> 2 ^ 32
         \<or> shard_capacity sh shards staging \<ge> (2 ^ 31 - 1) div 2
      then Inl (ValueError ''native/CUB integer range exceeded'')
      else Inr (geometry_row_of sh shards staging sort_slots ring_limit))"

lemma geometry_Inr:
  "geometry sh shards staging sort_slots ring_limit = Inr g \<longleftrightarrow>
     0 < shards \<and> 0 < staging \<and> 0 < sort_slots
     \<and> (case ring_limit of Some l \<Rightarrow> 1 \<le> l \<and> l < 2 ^ 32 | None \<Rightarrow> True)
     \<and> requested_beam sh < 2 ^ 64 \<and> transaction sh staging < 2 ^ 32
     \<and> ring_count sh shards staging ring_limit < 2 ^ 32
     \<and> shard_capacity sh shards staging < (2 ^ 31 - 1) div 2
     \<and> g = geometry_row_of sh shards staging sort_slots ring_limit"
  unfolding geometry_def by (auto split: option.splits)

section \<open>The shortlist of memory seeds\<close>

definition seed_key :: "geometry_row \<Rightarrow> int \<times> int \<times> int" where
  "seed_key r = (g_lower_bound r, g_padding r, g_shards r)"

definition seed_rows :: "shape \<Rightarrow> int \<Rightarrow> int \<Rightarrow> int option \<Rightarrow> int option \<Rightarrow> int option \<Rightarrow> geometry_row list" where
  "seed_rows sh staging sort_slots ring_limit budget effective =
     sort_key seed_key
       (filter (\<lambda>r. case effective of Some e \<Rightarrow> g_effective r = e | None \<Rightarrow> True)
         (filter (\<lambda>r. case budget of Some b \<Rightarrow> g_lower_bound r \<le> b | None \<Rightarrow> True)
           (List.map_filter (\<lambda>s. case geometry sh s staging sort_slots ring_limit of
                                   Inr g \<Rightarrow> Some g | Inl _ \<Rightarrow> None)
             [1..128])))"

definition memory_shortlist ::
  "shape \<Rightarrow> int \<Rightarrow> int \<Rightarrow> pyval \<Rightarrow> int option \<Rightarrow> int option \<Rightarrow> int option \<Rightarrow> geometry_row list result" where
  "memory_shortlist sh staging sort_slots limit effective budget ring_limit =
     (if \<not> (is_int limit \<and> 1 \<le> the_int limit \<and> the_int limit \<le> 3) then Inl (ValueError ''limit must be1..3'')
      else case seed_rows sh staging sort_slots ring_limit budget effective of
        [] \<Rightarrow> Inr []
      | seed # rest \<Rightarrow>
          let frozen = (case effective of None \<Rightarrow> g_effective seed | Some e \<Rightarrow> e) in
          Inr (take (nat (the_int limit))
            (filter (\<lambda>r. g_effective r = frozen \<and> g_lower_bound r * 5 \<le> g_lower_bound seed * 6)
              (seed # rest))))"

section \<open>Service batches\<close>

fun finite_part :: "pyfloat \<Rightarrow> rat option" where
  "finite_part (Fin r) = Some r"
| "finite_part _ = None"

definition linear_service_batch ::
  "pyfloat \<Rightarrow> pyfloat \<Rightarrow> pyfloat \<Rightarrow> pyfloat \<Rightarrow> pyval \<Rightarrow> int result" where
  "linear_service_batch arrival launch per_item utilization align =
     (case (finite_part arrival, finite_part launch, finite_part per_item, finite_part utilization) of
        (Some lam, Some alpha, Some beta, Some u) \<Rightarrow>
          if lam \<le> 0 \<or> alpha < 0 \<or> beta < 0 \<or> \<not> (0 < u \<and> u < 1)
          then Inl (ValueError ''invalid service inputs'')
          else if \<not> (is_int align \<and> 0 < the_int align) then Inl (ValueError ''positive alignment required'')
          else let slack = u - lam * beta in
            if slack \<le> 0
            then Inl (ValueError ''consumer throughput bottleneck; larger buffer cannot fix it'')
            else Inr (round_up (max 1 \<lceil>lam * alpha / slack\<rceil>) (the_int align))
      | _ \<Rightarrow> Inl (ValueError ''finite service inputs required''))"

definition staging_from_release_latency :: "pyfloat \<Rightarrow> pyfloat \<Rightarrow> int result" where
  "staging_from_release_latency release producer =
     (case (finite_part release, finite_part producer) of
        (Some r, Some p) \<Rightarrow>
          if r > 0 \<and> p > 0 then Inr (max 2 (1 + \<lceil>r / p\<rceil>))
          else Inl (ValueError ''positive measured durations required'')
      | _ \<Rightarrow> Inl (ValueError ''positive measured durations required''))"

section \<open>What the geometry promises\<close>

text \<open>C14. An accepted geometry really holds the frontier: the shards of all GPUs together hold every
  requested parent, each shard's physical buffer has room for its logical share plus a whole incoming
  or outgoing transaction, is a multiple of the alignment and stays below the sorter's index range, and
  the memory bound covers the frontier, the survivors, the histograms and the larger of the overlaid
  scratch areas.\<close>
theorem geometry_holds_frontier:
  assumes "geometry sh shards staging sort_slots ring_limit = Inr g" "shape_ok sh"
  shows "requested_beam sh \<le> gpus sh * shards * g_logical_shard g
    \<and> g_logical_shard g + g_transaction g \<le> g_physical_capacity g
    \<and> g_logical_shard g + g_receive g \<le> g_physical_capacity g
    \<and> alignment sh dvd g_physical_capacity g \<and> g_physical_capacity g < 2 ^ 30
    \<and> requested_beam sh \<le> gpus sh * g_local_parents g
    \<and> 0 \<le> g_padding g \<and> g_padding g < gpus sh * shards * alignment sh
    \<and> g_frontier_bytes g + g_survivor_bytes g + g_histogram_bytes g
        + max (max (g_ring_network_bytes g + g_sort_bytes g) (g_union_bytes g)) (g_frontier_bytes g)
        \<le> g_lower_bound g"
proof -
  note g = assms(1) [unfolded geometry_Inr]
  have pos: "0 < shards" "0 < gpus sh" "0 < alignment sh" using g assms(2) by (simp_all add: shape_ok_def)
  then have a: "0 < gpus sh * shards * alignment sh" by simp
  let ?al = "aligned_beam sh shards" and ?lo = "logical_shard sh shards"
  have al: "requested_beam sh \<le> ?al" unfolding aligned_beam_def using a by (rule round_up_ge)
  also have "?al \<le> ceil_div ?al (gpus sh) * gpus sh" using pos(2) by (rule ceil_div_mult_ge)
  also have "\<dots> \<le> ?lo * shards * gpus sh"
    unfolding logical_shard_def
    using ceil_div_mult_ge [OF pos(1)] pos(2) by (intro mult_right_mono) simp_all
  finally have beam: "requested_beam sh \<le> gpus sh * shards * ?lo" by (simp add: ac_simps)
  have "?lo + max (transaction sh staging) (receive_count sh staging) \<le> shard_capacity sh shards staging"
    unfolding shard_capacity_def using round_up_ge [OF pos(3)] by (meson max.cobounded1 order_trans)
  then have "?lo + transaction sh staging \<le> shard_capacity sh shards staging"
    "?lo + receive_count sh staging \<le> shard_capacity sh shards staging"
    using max.cobounded1 [of "transaction sh staging" "receive_count sh staging"]
      max.cobounded2 [of "receive_count sh staging" "transaction sh staging"] by linarith+
  moreover have "requested_beam sh \<le> gpus sh * ceil_div (requested_beam sh) (gpus sh)"
    using ceil_div_mult_ge [OF pos(2)] by (simp add: mult.commute)
  moreover have "?al < requested_beam sh + gpus sh * shards * alignment sh"
    unfolding aligned_beam_def using a by (rule round_up_less)
  moreover have "alignment sh dvd shard_capacity sh shards staging" by (simp add: shard_capacity_def)
  ultimately show ?thesis using beam al g by (simp add: geometry_row_of_def Let_def)
qed

lemma geometry_bound_nonneg:
  assumes "geometry sh shards staging sort_slots ring_limit = Inr g" "shape_ok sh"
  shows "0 \<le> g_lower_bound g"
proof -
  note g = assms(1) [unfolded geometry_Inr]
  have a: "0 < alignment sh" "0 < gpus sh" "0 < requested_beam sh" "0 < native_b_micro sh" "0 < moves sh" "0 < state_bytes sh"
    using assms(2) by (simp_all add: shape_ok_def)
  have "0 \<le> aligned_beam sh shards"
    unfolding aligned_beam_def using round_up_ge [of "gpus sh * shards * alignment sh" "requested_beam sh"] a g by simp
  then have "0 \<le> logical_shard sh shards" unfolding logical_shard_def using a g by (simp add: ceil_div_nonneg)
  moreover have "0 \<le> transaction sh staging" unfolding transaction_def using a g by simp
  ultimately have c: "0 \<le> shard_capacity sh shards staging"
    unfolding shard_capacity_def using round_up_ge [OF a(1)] by (meson add_nonneg_nonneg max.coboundedI1 order_trans)
  have f: "0 \<le> ceil_div (requested_beam sh) (gpus sh) * state_bytes sh" using a by (simp add: ceil_div_nonneg)
  show ?thesis using g c f by (simp add: geometry_row_of_def Let_def add_nonneg_nonneg max.coboundedI2)
qed

definition small_shape :: shape where
  "small_shape = \<lparr>requested_beam = 1000, gpus = 2, native_b_micro = 16, moves = 6, state_bytes = 64,
     alignment = 256, capacity_ppm = 1250000, receive_ppm = 2000000\<rparr>"

lemma geometry_holds_frontier_witness:
  "\<exists>g. geometry small_shape 4 2 1 (Some 16) = Inr g \<and> 1000 \<le> 2 * 4 * g_logical_shard g
     \<and> g_logical_shard g = 256"
proof -
  have "\<exists>g. geometry small_shape 4 2 1 (Some 16) = Inr g \<and> g_logical_shard g = 256"
    by (simp add: geometry_Inr geometry_row_of_def small_shape_def Let_def ceil_div_def round_up_def
        transaction_def ring_count_def logical_shard_def aligned_beam_def shard_capacity_def receive_count_def)
  moreover have "shape_ok small_shape" by (simp add: shape_ok_def small_shape_def)
  ultimately show ?thesis using geometry_holds_frontier [of small_shape 4 2 1 "Some 16"]
    by (auto simp: small_shape_def)
qed

lemma map_filter_mem: "x \<in> set (List.map_filter f xs) \<longleftrightarrow> (\<exists>y \<in> set xs. f y = Some x)"
  by (induction xs) (auto simp: List.map_filter_simps split: option.splits)

lemma seed_rows_mem:
  "r \<in> set (seed_rows sh staging sort_slots ring_limit budget effective) \<longleftrightarrow>
     (\<exists>s \<in> {1..128}. geometry sh s staging sort_slots ring_limit = Inr r)
     \<and> (case effective of Some e \<Rightarrow> g_effective r = e | None \<Rightarrow> True)
     \<and> (case budget of Some b \<Rightarrow> g_lower_bound r \<le> b | None \<Rightarrow> True)"
proof -
  have "(case geometry sh s staging sort_slots ring_limit of Inr g \<Rightarrow> Some g | Inl _ \<Rightarrow> None) = Some r
      \<longleftrightarrow> geometry sh s staging sort_slots ring_limit = Inr r" for s
    by (cases "geometry sh s staging sort_slots ring_limit") auto
  then show ?thesis by (simp add: seed_rows_def map_filter_mem conj_ac)
qed

text \<open>The shortlist holds at most \<open>limit\<close> geometries of 1 to 128 shards that fit the budget, in
  increasing order of memory; its first row needs the least memory of all feasible shard counts, no row
  needs more than 6/5 of that, and it is empty only when no shard count is feasible.\<close>
theorem memory_shortlist_seeds:
  assumes "memory_shortlist sh staging sort_slots limit effective budget ring_limit = Inr rows" "shape_ok sh"
  shows "length rows \<le> 3 \<and> sorted (map g_lower_bound rows)
    \<and> set rows \<subseteq> set (seed_rows sh staging sort_slots ring_limit budget effective)
    \<and> (rows = [] \<longleftrightarrow> seed_rows sh staging sort_slots ring_limit budget effective = [])
    \<and> (\<forall>r \<in> set rows. g_lower_bound r * 5 \<le> g_lower_bound (hd rows) * 6)
    \<and> (\<forall>r \<in> set (seed_rows sh staging sort_slots ring_limit budget effective).
          g_lower_bound (hd rows) \<le> g_lower_bound r)"
proof (cases "seed_rows sh staging sort_slots ring_limit budget effective")
  case Nil
  with assms(1) show ?thesis by (simp add: memory_shortlist_def split: if_splits)
next
  case (Cons seed rest)
  let ?rows = "seed_rows sh staging sort_slots ring_limit budget effective"
  define P :: "geometry_row \<Rightarrow> bool" where "P = (\<lambda>r. g_effective r = (case effective of None \<Rightarrow> g_effective seed | Some e \<Rightarrow> e)
     \<and> g_lower_bound r * 5 \<le> g_lower_bound seed * 6)"
  from assms(1) Cons have lim: "1 \<le> the_int limit" "the_int limit \<le> 3"
    and rows: "rows = take (nat (the_int limit)) (filter P (seed # rest))"
    by (auto simp: memory_shortlist_def Let_def P_def split: if_splits)
  have sorted: "sorted (map g_lower_bound (seed # rest))"
  proof -
    have "sorted (map seed_key ?rows)" by (simp add: seed_rows_def)
    then have "sorted_wrt (\<lambda>x y. seed_key x \<le> seed_key y) (seed # rest)" by (simp add: Cons sorted_wrt_map)
    then have "sorted_wrt (\<lambda>x y. g_lower_bound x \<le> g_lower_bound y) (seed # rest)"
      by (rule sorted_wrt_mono_rel [rotated]) (auto simp: seed_key_def less_eq_prod_def)
    then show ?thesis by (simp add: sorted_wrt_map)
  qed
  have in_seed: "seed \<in> set ?rows" by (simp add: Cons)
  have "P seed"
  proof -
    from in_seed obtain s where s: "1 \<le> s" "geometry sh s staging sort_slots ring_limit = Inr seed"
      by (auto simp: seed_rows_mem)
    have "0 \<le> g_lower_bound seed" using geometry_bound_nonneg [OF s(2) assms(2)] .
    moreover have "g_effective seed = (case effective of None \<Rightarrow> g_effective seed | Some e \<Rightarrow> e)"
      using in_seed by (auto simp: seed_rows_mem split: option.splits)
    ultimately show ?thesis by (simp add: P_def)
  qed
  then obtain k where k: "nat (the_int limit) = Suc k" "rows = seed # take k (filter P rest)"
    using rows lim by (cases "nat (the_int limit)") auto
  have sub: "set rows \<subseteq> set (filter P (seed # rest))" unfolding rows by (rule set_take_subset)
  have "sorted (map g_lower_bound rows)"
    unfolding rows take_map [symmetric]
    using sorted by (simp add: sorted_wrt_map sorted_wrt_filter sorted_wrt_take del: filter.simps)
  moreover have "length rows \<le> 3" using lim unfolding rows by simp
  moreover have "\<forall>r \<in> set ?rows. g_lower_bound seed \<le> g_lower_bound r" using sorted Cons by auto
  moreover have "\<forall>r \<in> set rows. P r" "set rows \<subseteq> set ?rows" using sub unfolding set_filter Cons by blast+
  then have "\<forall>r \<in> set rows. g_lower_bound r * 5 \<le> g_lower_bound seed * 6" "set rows \<subseteq> set ?rows"
    by (simp_all add: P_def)
  ultimately show ?thesis using k(2) Cons by simp
qed

lemma memory_shortlist_seeds_witness:
  "\<exists>rows. memory_shortlist small_shape 2 1 (PInt 3) None None (Some 16) = Inr rows
     \<and> length rows \<le> 3"
proof -
  have "shape_ok small_shape" by (simp add: shape_ok_def small_shape_def)
  moreover obtain rows where "memory_shortlist small_shape 2 1 (PInt 3) None None (Some 16) = Inr rows"
    by (cases "seed_rows small_shape 2 1 (Some 16) None None") (simp_all add: memory_shortlist_def Let_def)
  ultimately show ?thesis using memory_shortlist_seeds [of small_shape 2 1 "PInt 3" None None "Some 16"] by blast
qed

text \<open>A batch computed for a linear stage keeps its queue stable: with arrival rate, launch cost and
  cost per item as given, the load of the stage at that batch size is at most the requested
  utilization, and the batch is a positive multiple of the alignment.\<close>
theorem linear_service_batch_stable:
  assumes "linear_service_batch (Fin lam) (Fin alpha) (Fin beta) (Fin u) align = Inr q"
  shows "lam * (alpha / of_int q + beta) \<le> u \<and> 0 < q \<and> the_int align dvd q"
proof -
  from assms have p: "0 < lam" "0 \<le> alpha" "0 \<le> beta" "0 < u" "0 < the_int align"
    and slack: "0 < u - lam * beta"
    and q: "q = round_up (max 1 \<lceil>lam * alpha / (u - lam * beta)\<rceil>) (the_int align)"
    by (auto simp: linear_service_batch_def Let_def split: if_splits)
  have ge: "max 1 \<lceil>lam * alpha / (u - lam * beta)\<rceil> \<le> q" unfolding q using p(5) by (rule round_up_ge)
  then have q1: "1 \<le> q" by simp
  have "lam * alpha / (u - lam * beta) \<le> of_int \<lceil>lam * alpha / (u - lam * beta)\<rceil>" by (rule le_of_int_ceiling)
  also have "\<dots> \<le> of_int q" using ge by simp
  finally have "lam * alpha \<le> of_int q * (u - lam * beta)"
    using slack by (simp add: pos_divide_le_eq)
  moreover have q0: "(0 :: rat) < of_int q" using q1 by simp
  ultimately have "lam * alpha / of_int q \<le> u - lam * beta"
    by (simp add: pos_divide_le_eq mult.commute)
  then have "lam * (alpha / of_int q + beta) \<le> u" by (simp add: distrib_left)
  then show ?thesis using q1 unfolding q by simp
qed

lemma linear_service_batch_stable_witness:
  "linear_service_batch (Fin 1000) (Fin (1 / 10)) (Fin (1 / 5000)) (Fin (4 / 5)) (PInt 64) = Inr 192
     \<and> (1000 :: rat) * ((1 / 10) / 192 + 1 / 5000) \<le> 4 / 5"
proof -
  have "linear_service_batch (Fin 1000) (Fin (1 / 10)) (Fin (1 / 5000)) (Fin (4 / 5)) (PInt 64) = Inr 192"
  proof -
    have "\<lceil>500 / 3 :: rat\<rceil> = 167" by (rule ceiling_unique) simp_all
    then show ?thesis by (simp add: linear_service_batch_def Let_def round_up_def ceil_div_def)
  qed
  from linear_service_batch_stable [OF this] this show ?thesis by simp
qed

end
