(* ===== verification/Measurements.thy ===== *)
theory Measurements
  imports Geometry
begin

text \<open>
  Statistical selection of profiles: timing measurements and their estimates
  (\<open>calibration_stats.py\<close>), the matched report (\<open>calibration_report.py\<close>), GPU telemetry receipts
  (\<open>calibration_telemetry.py\<close>) and the admission of measured inference batches
  (\<open>inference_admission.py\<close>). Timings are exact rationals; the pseudo-random resampling of the
  bootstrap is a parameter that maps the sample and the round to a resample.
\<close>

section \<open>Medians\<close>

definition median :: "rat list \<Rightarrow> rat" where
  "median xs =
     (let ys = sort xs; n = length xs in
      if odd n then ys ! (n div 2) else (ys ! (n div 2 - 1) + ys ! (n div 2)) / 2)"

lemma median_bounds:
  assumes "xs \<noteq> []" "\<forall>x \<in> set xs. a \<le> x \<and> x \<le> b"
  shows "a \<le> median xs \<and> median xs \<le> b"
proof -
  let ?n = "length xs"
  have n: "0 < ?n" using assms(1) by simp
  have mem: "sort xs ! i \<in> set xs" if "i < ?n" for i using that by (metis length_sort nth_mem set_sort)
  then have "a \<le> sort xs ! (?n div 2)" "sort xs ! (?n div 2) \<le> b"
    "a \<le> sort xs ! (?n div 2 - 1)" "sort xs ! (?n div 2 - 1) \<le> b"
    using n assms(2) by (simp_all add: less_imp_diff_less)
  then show ?thesis by (simp add: median_def Let_def)
qed

section \<open>Measurements and estimates\<close>

record measurement =
  m_profile :: string
  m_parents :: pyval
  m_seconds :: "pyfloat list"
  m_correct :: bool
  m_admitted :: bool
  m_throttled :: bool

fun positive_part :: "pyfloat \<Rightarrow> rat option" where
  "positive_part (Fin r) = (if 0 < r then Some r else None)"
| "positive_part _ = None"

text \<open>Global parents over the slowest rank's wall time.\<close>

definition seconds_per_parent :: "measurement \<Rightarrow> rat result" where
  "seconds_per_parent m =
     (if \<not> (is_int (m_parents m) \<and> 0 < the_int (m_parents m))
      then Inl (ValueError ''parent count must be a positive integer'')
      else if m_seconds m = [] \<or> None \<in> set (map positive_part (m_seconds m))
      then Inl (ValueError ''all rank timings must be finite and positive'')
      else Inr (Max (set (map (the \<circ> positive_part) (m_seconds m))) / of_int (the_int (m_parents m))))"

record estimate_row =
  e_profile :: string
  e_median :: rat
  e_low :: rat
  e_high :: rat
  e_mad :: rat
  e_repeats :: nat

record estimate_options =
  min_repeats :: int
  bootstrap_repeats :: int
  max_relative_mad :: rat

definition default_options :: estimate_options where
  "default_options = \<lparr>min_repeats = 5, bootstrap_repeats = 2000, max_relative_mad = 1 / 10\<rparr>"

type_synonym resampler = "rat list \<Rightarrow> nat \<Rightarrow> rat list"

definition cohorts :: "measurement list \<Rightarrow> (pyval \<times> nat) list" where
  "cohorts ms = remdups (map (\<lambda>m. (m_parents m, length (m_seconds m))) ms)"

definition percentile_index :: "rat \<Rightarrow> nat \<Rightarrow> nat" where
  "percentile_index p n = nat \<lfloor>p * of_nat n\<rfloor>"

definition estimate :: "resampler \<Rightarrow> estimate_options \<Rightarrow> string \<Rightarrow> measurement list \<Rightarrow> estimate_row result" where
  "estimate resample opts profile samples =
     (if min_repeats opts < 3 \<or> bootstrap_repeats opts < 100
      then Inl (ValueError ''insufficient statistical repeats'')
      else
        let selected = filter (\<lambda>m. m_profile m = profile) samples in
        if int (length selected) < min_repeats opts then Inl (ValueError ''insufficient measured repeats'')
        else if \<not> list_all (\<lambda>m. m_correct m \<and> m_admitted m \<and> \<not> m_throttled m) selected
        then Inl (ValueError ''reject incorrect, unadmitted or throttled profile'')
        else if length (cohorts selected) \<noteq> 1 then Inl (ValueError ''mixed workload or rank cohort'')
        else ebind (emap seconds_per_parent selected) (\<lambda>values.
          let mid = median values;
              mad = median (map (\<lambda>x. \<bar>x - mid\<bar>) values) / mid in
          if mad > max_relative_mad opts then Inl (ValueError ''unstable timing samples'')
          else
            let rounds = nat (bootstrap_repeats opts);
                boot = sort (map (\<lambda>i. median (resample values i)) [0..<rounds]) in
            Inr \<lparr>e_profile = profile, e_median = mid, e_low = boot ! percentile_index (1 / 40) rounds,
                 e_high = boot ! min (rounds - 1) (percentile_index (39 / 40) rounds),
                 e_mad = mad, e_repeats = length values\<rparr>))"

text \<open>Challengers are estimated in the order of their names; one whose estimate fails is rejected with
  the reason.\<close>

fun estimate_challengers ::
  "resampler \<Rightarrow> estimate_options \<Rightarrow> measurement list \<Rightarrow> string list \<Rightarrow> estimate_row list \<times> (string, string) dict
    \<Rightarrow> (estimate_row list \<times> (string, string) dict) result" where
  "estimate_challengers resample opts samples [] acc = Inr acc"
| "estimate_challengers resample opts samples (p # ps) (valid, rejected) =
     (case estimate resample opts p samples of
        Inr e \<Rightarrow> estimate_challengers resample opts samples ps (valid @ [e], rejected)
      | Inl e \<Rightarrow>
          if is_value_error e
          then estimate_challengers resample opts samples ps (valid, dict_set p (exn_message e) rejected)
          else Inl e)"

fun first_gain ::
  "rat \<Rightarrow> estimate_row \<Rightarrow> estimate_row list \<Rightarrow> (string, string) dict \<Rightarrow> estimate_row \<times> (string, string) dict" where
  "first_gain limit chosen [] rejected = (chosen, rejected)"
| "first_gain limit chosen (c # cs) rejected =
     (if e_high c < limit then (c, rejected)
      else first_gain limit chosen cs
             (dict_set (e_profile c) ''no statistically separated material gain'' rejected))"

definition string_less_eq :: "string \<Rightarrow> string \<Rightarrow> bool" where
  "string_less_eq a b = (map (of_char :: char \<Rightarrow> nat) a = map of_char b
     \<or> (map (of_char :: char \<Rightarrow> nat) a, map of_char b) \<in> lexord {(x, y). x < y})"

text \<open>\<open>sorted\<close> on strings: insertion by code points.\<close>

fun insert_string :: "string \<Rightarrow> string list \<Rightarrow> string list" where
  "insert_string x [] = [x]"
| "insert_string x (y # ys) = (if string_less_eq x y then x # y # ys else y # insert_string x ys)"

definition sort_strings :: "string list \<Rightarrow> string list" where
  "sort_strings xs = foldr insert_string xs []"

definition select ::
  "resampler \<Rightarrow> estimate_options \<Rightarrow> rat \<Rightarrow> string \<Rightarrow> measurement list
    \<Rightarrow> (estimate_row \<times> (string, string) dict) result" where
  "select resample opts min_improvement baseline samples =
     (if \<not> (0 \<le> min_improvement \<and> min_improvement < 1) then Inl (ValueError ''invalid improvement threshold'')
      else if length (cohorts samples) \<noteq> 1
      then Inl (ValueError ''all candidates must share workload and rank cohort'')
      else ebind (estimate resample opts baseline samples) (\<lambda>chosen.
        ebind (estimate_challengers resample opts samples
                 (filter (\<lambda>p. p \<noteq> baseline) (sort_strings (remdups (map m_profile samples)))) ([], []))
          (\<lambda>(valid, rejected).
             Inr (first_gain (e_low chosen * (1 - min_improvement)) chosen (sort_key e_median valid) rejected))))"

definition pipeline_overhead :: "estimate_row \<Rightarrow> estimate_row \<Rightarrow> rat \<times> rat \<times> rat \<times> rat" where
  "pipeline_overhead inference pipeline =
     (e_median inference, e_median pipeline, e_median pipeline / e_median inference - 1,
      e_median pipeline - e_median inference)"

section \<open>Properties of the selection\<close>

lemma seconds_per_parent_pos: "seconds_per_parent m = Inr v \<Longrightarrow> 0 < v"
proof -
  assume "seconds_per_parent m = Inr v"
  then have h: "0 < the_int (m_parents m)" "m_seconds m \<noteq> []" "None \<notin> set (map positive_part (m_seconds m))"
    and v: "v = Max (set (map (the \<circ> positive_part) (m_seconds m))) / of_int (the_int (m_parents m))"
    by (auto simp: seconds_per_parent_def split: if_splits)
  let ?S = "set (map (the \<circ> positive_part) (m_seconds m))"
  have "0 < x" if "x \<in> ?S" for x
  proof -
    from that obtain s where s: "s \<in> set (m_seconds m)" "x = the (positive_part s)" by auto
    with h(3) obtain y where "positive_part s = Some y" by (metis image_eqI list.set_map option.exhaust)
    then show ?thesis using s(2) by (cases s) (auto split: if_splits)
  qed
  moreover have "Max ?S \<in> ?S" using h(2) by (intro Max_in) auto
  ultimately have "0 < Max ?S" by blast
  then show ?thesis using h(1) v by simp
qed

lemma estimate_profile: "estimate resample opts p samples = Inr e \<Longrightarrow> e_profile e = p"
  by (auto simp: estimate_def Let_def ebind_Inr_iff split: if_splits)

lemma estimate_challengers_spec:
  assumes "estimate_challengers resample opts samples ps (valid, rejected) = Inr (valid', rejected')"
  shows "set valid' = set valid \<union> {e. \<exists>p \<in> set ps. estimate resample opts p samples = Inr e}
    \<and> (\<forall>p \<in> set ps. (\<exists>e. estimate resample opts p samples = Inl e) \<longrightarrow> p \<in> fst ` set rejected')
    \<and> fst ` set rejected \<subseteq> fst ` set rejected'"
  using assms
proof (induction ps arbitrary: valid rejected)
  case (Cons p ps)
  show ?case
  proof (cases "estimate resample opts p samples")
    case (Inl e)
    with Cons.prems have r: "estimate_challengers resample opts samples ps
        (valid, dict_set p (exn_message e) rejected) = Inr (valid', rejected')" by (simp split: if_splits)
    from Cons.IH [OF this] Inl show ?thesis by auto
  next
    case (Inr e)
    with Cons.prems have "estimate_challengers resample opts samples ps (valid @ [e], rejected) = Inr (valid', rejected')"
      by simp
    from Cons.IH [OF this] Inr show ?thesis by auto
  qed
qed simp

lemma first_gain_spec:
  assumes "first_gain limit chosen cs rejected = (w, rejected')" "sorted (map e_median cs)"
  shows "(w = chosen \<and> (\<forall>c \<in> set cs. \<not> e_high c < limit)
            \<or> w \<in> set cs \<and> e_high w < limit \<and> (\<forall>c \<in> set cs. e_high c < limit \<longrightarrow> e_median w \<le> e_median c))
    \<and> fst ` set rejected \<subseteq> fst ` set rejected'"
  using assms
proof (induction cs arbitrary: rejected)
  case (Cons c cs)
  show ?case
  proof (cases "e_high c < limit")
    case True
    with Cons.prems show ?thesis by auto
  next
    case False
    then have "first_gain limit chosen cs
        (dict_set (e_profile c) ''no statistically separated material gain'' rejected) = (w, rejected')"
      using Cons.prems(1) by simp
    from Cons.IH [OF this] Cons.prems(2) False show ?thesis by auto
  qed
qed simp

lemma insert_string_set [simp]: "set (insert_string x ys) = insert x (set ys)"
  by (induction ys) auto

lemma sort_strings_set [simp]: "set (sort_strings xs) = set xs"
  by (induction xs) (simp_all add: sort_strings_def)

text \<open>The selection keeps the baseline unless a challenger is clearly better: the winner is the
  baseline's own estimate, and then no challenger was clearly better, or a measured challenger whose
  upper bound lies below the baseline's lower bound reduced by the improvement threshold, and
  then no other such challenger has a smaller median.\<close>
theorem select_sound:
  assumes "select resample opts thr baseline samples = Inr (w, rejected)"
  shows "\<exists>base. estimate resample opts baseline samples = Inr base
    \<and> (let better = (\<lambda>e. e_high e < e_low base * (1 - thr)
            \<and> (\<exists>p \<in> set (map m_profile samples) - {baseline}. estimate resample opts p samples = Inr e)) in
        if w = base then \<not> (\<exists>e. better e)
        else better w \<and> (\<forall>e. better e \<longrightarrow> e_median w \<le> e_median e))"
proof -
  let ?ps = "filter (\<lambda>p. p \<noteq> baseline) (sort_strings (remdups (map m_profile samples)))"
  from assms obtain base valid rej where base: "estimate resample opts baseline samples = Inr base"
    and ch: "estimate_challengers resample opts samples ?ps ([], []) = Inr (valid, rej)"
    and fg: "first_gain (e_low base * (1 - thr)) base (sort_key e_median valid) rej = (w, rejected)"
    by (auto simp: select_def ebind_Inr_iff split: if_splits)
  have ps: "set ?ps = set (map m_profile samples) - {baseline}" by auto
  have "set (sort_key e_median valid) = {e. \<exists>p \<in> set ?ps. estimate resample opts p samples = Inr e}"
    using estimate_challengers_spec [OF ch] by simp
  then have valid: "e \<in> set (sort_key e_median valid)
      \<longleftrightarrow> (\<exists>p \<in> set (map m_profile samples) - {baseline}. estimate resample opts p samples = Inr e)" for e
    unfolding ps by blast
  have not_base: "base \<notin> set (sort_key e_median valid)"
    using valid [of base] estimate_profile estimate_profile [OF base] by blast
  have srt: "sorted (map e_median (sort_key e_median valid))" by simp
  from first_gain_spec [OF fg srt] valid base not_base show ?thesis
    unfolding Let_def by (cases "w = base") auto
qed

definition sample :: "string \<Rightarrow> rat \<Rightarrow> measurement" where
  "sample p s = \<lparr>m_profile = p, m_parents = PInt 100, m_seconds = [Fin s], m_correct = True,
     m_admitted = True, m_throttled = False\<rparr>"

definition small_options :: estimate_options where
  "small_options = \<lparr>min_repeats = 3, bootstrap_repeats = 100, max_relative_mad = 1 / 10\<rparr>"

definition two_profiles :: "measurement list" where
  "two_profiles = [sample ''b'' 2, sample ''b'' 2, sample ''b'' 2, sample ''a'' 1, sample ''a'' 1, sample ''a'' 1]"

lemma constant_estimate:
  assumes "filter (\<lambda>m. m_profile m = p) samples = [sample p s, sample p s, sample p s]" "0 < s"
  shows "estimate (\<lambda>vs _. vs) small_options p samples =
    Inr \<lparr>e_profile = p, e_median = s / 100, e_low = s / 100, e_high = s / 100, e_mad = 0, e_repeats = 3\<rparr>"
proof -
  have "map (\<lambda>_. x) [0..<n] = replicate n x" for x :: rat and n by (simp add: map_replicate_const)
  moreover have "sort (replicate n x) = replicate n x" for x :: rat and n
    by (induction n) (auto simp: insort_is_Cons)
  moreover have "seconds_per_parent (sample p s) = Inr (s / 100)"
    using assms(2) by (simp add: seconds_per_parent_def sample_def)
  moreover have "\<lfloor>5 / 2 :: rat\<rfloor> = 2" "\<lfloor>195 / 2 :: rat\<rfloor> = 97" by (rule floor_unique; simp)+
  ultimately show ?thesis
    using assms
    by (simp add: estimate_def Let_def small_options_def cohorts_def percentile_index_def median_def)
      (simp add: sample_def floor_divide_of_int_eq)
qed

lemma select_sound_witness:
  "\<exists>w rejected. select (\<lambda>vs _. vs) small_options (1 / 50) ''b'' two_profiles = Inr (w, rejected)
     \<and> e_profile w = ''a'' \<and> e_high w < 2 / 100 * (1 - 1 / 50)"
proof -
  have b: "estimate (\<lambda>vs _. vs) small_options ''b'' two_profiles =
    Inr \<lparr>e_profile = ''b'', e_median = 2 / 100, e_low = 2 / 100, e_high = 2 / 100, e_mad = 0, e_repeats = 3\<rparr>"
    by (rule constant_estimate) (simp_all add: two_profiles_def sample_def)
  have a: "estimate (\<lambda>vs _. vs) small_options ''a'' two_profiles =
    Inr \<lparr>e_profile = ''a'', e_median = 1 / 100, e_low = 1 / 100, e_high = 1 / 100, e_mad = 0, e_repeats = 3\<rparr>"
    by (rule constant_estimate) (simp_all add: two_profiles_def sample_def)
  have names: "filter (\<lambda>p. p \<noteq> ''b'') (sort_strings (remdups (map m_profile two_profiles))) = [''a'']"
    by (simp add: two_profiles_def sample_def sort_strings_def string_less_eq_def)
  have "length (cohorts two_profiles) = 1" by (simp add: cohorts_def two_profiles_def sample_def)
  then obtain w rejected where run: "select (\<lambda>vs _. vs) small_options (1 / 50) ''b'' two_profiles = Inr (w, rejected)"
    and wa: "e_profile w = ''a''"
    using a b names by (simp add: select_def)
  from select_sound [OF run] b wa show ?thesis
    using run by (auto simp: Let_def split: if_splits)
qed

section \<open>Matched step reports\<close>

record step_receipt =
  r_identity :: "(string, pyval) dict"
  r_parents :: pyval
  r_uuids :: "string list"
  r_correct :: "pyval option"
  r_rows :: "pyfloat list list"

record step_report =
  sr_parents :: int
  sr_world :: nat
  sr_stream1 :: rat
  sr_full_step :: rat
  sr_loss :: rat
  sr_overhead :: rat

definition identity_keys :: "string list" where
  "identity_keys = [''parents'', ''gpu_uuids'', ''frontier_sha256'', ''model_sha256'', ''build_sha256'',
     ''precision'', ''executor'']"

definition cohort_duration :: "nat \<Rightarrow> step_receipt \<Rightarrow> rat result" where
  "cohort_duration world receipt =
     (if r_correct receipt \<noteq> Some (PBool True) then Inl (ValueError ''correctness receipt required'')
      else if length (r_rows receipt) < 3
      then Inl (ValueError ''at least three matched timing samples required'')
      else if \<not> list_all (\<lambda>row. length row = world \<and> None \<notin> set (map positive_part row)) (r_rows receipt)
      then Inl (ValueError ''missing rank or invalid duration'')
      else Inr (median (map (\<lambda>row. Max (set (map (the \<circ> positive_part) row))) (r_rows receipt))))"

definition matched_step_report :: "step_receipt \<Rightarrow> step_receipt \<Rightarrow> step_report result" where
  "matched_step_report inference pipeline =
     (if \<not> list_all (\<lambda>k. map_of (r_identity inference) k \<noteq> None
            \<and> map_of (r_identity inference) k = map_of (r_identity pipeline) k) identity_keys
      then Inl (ValueError ''unmatched inference/pipeline workload'')
      else if \<not> (is_int (r_parents inference) \<and> 0 < the_int (r_parents inference))
      then Inl (ValueError ''positive global parent count required'')
      else
        let world = length (r_uuids inference) in
        if world < 1 \<or> \<not> distinct (r_uuids inference)
        then Inl (ValueError ''unique ordered GPU cohort required'')
        else ebind (cohort_duration world inference) (\<lambda>stream1.
             ebind (cohort_duration world pipeline) (\<lambda>step.
             Inr \<lparr>sr_parents = the_int (r_parents inference), sr_world = world, sr_stream1 = stream1,
                  sr_full_step = step, sr_loss = 1 - stream1 / step, sr_overhead = step / stream1 - 1\<rparr>)))"

section \<open>GPU telemetry\<close>

record telemetry_row =
  t_index :: "pyval option"
  t_uuid :: "pyval option"
  t_throttled :: "pyval option"

text \<open>One line of \<open>nvidia-smi\<close> output, split at commas and stripped of blanks. Fields hold no quotes.\<close>

definition strip :: "string \<Rightarrow> string" where
  "strip s = rev (dropWhile (\<lambda>c. c = CHR '' '') (rev (dropWhile (\<lambda>c. c = CHR '' '') s)))"

definition parse_fields :: "string list \<Rightarrow> (int \<times> string \<times> int \<times> bool) result" where
  "parse_fields fields' =
     (case map strip fields' of
        [index, uuid, temperature, e1, e2, e3] \<Rightarrow>
          if \<not> list_all (\<lambda>e. e = ''Active'' \<or> e = ''Not Active'') [e1, e2, e3]
          then Inl (ValueError ''GPU throttling telemetry unavailable'')
          else ebind (py_int index) (\<lambda>i. ebind (py_int temperature) (\<lambda>t.
                 Inr (i, uuid, t, ''Active'' \<in> set [e1, e2, e3])))
      | _ \<Rightarrow> Inl (ValueError ''unexpected GPU telemetry fields''))"

definition text_lines :: "string \<Rightarrow> string list" where
  "text_lines s = (let ls = split_on CHR 0x0A s in if last ls = [] then butlast ls else ls)"

definition parse_telemetry :: "string \<Rightarrow> (int \<times> string \<times> int \<times> bool) list result" where
  "parse_telemetry text =
     ebind (emap (\<lambda>line. parse_fields (if line = [] then [] else split_on CHR '','' line)) (text_lines text)) (\<lambda>rows.
     if rows = [] \<or> \<not> distinct (map fst rows) then Inl (ValueError ''missing or duplicate GPU telemetry'')
     else Inr rows)"

record telemetry_receipt =
  tr_samples :: "telemetry_row list list option"
  tr_errors :: "string list"
  tr_throttled :: "pyval option"

record cohort_signature =
  cs_uuids :: "pyval list"
  cs_world :: int
  cs_devices :: "pyval list option"

definition ascii_lower :: "char \<Rightarrow> char" where
  "ascii_lower c = (let n = (of_char c :: nat) in if 65 \<le> n \<and> n \<le> 90 then char_of (n + 32) else c)"

definition gpu_identity :: "string \<Rightarrow> string" where
  "gpu_identity s =
     (let l = map ascii_lower s in if take 4 l = ''gpu-'' then drop 4 l else l)"

definition telemetry_identity :: "bool \<Rightarrow> pyval \<Rightarrow> pyval result" where
  "telemetry_identity use_uuid v =
     (if use_uuid
      then (case v of PStr s \<Rightarrow> if s = [] then Inl (TypeError ''invalid GPU UUID'') else Inr (PStr (gpu_identity s))
            | _ \<Rightarrow> Inl (TypeError ''invalid GPU UUID''))
      else Inr v)"

definition observed_rows :: "bool \<Rightarrow> telemetry_row list \<Rightarrow> (pyval, telemetry_row) dict result" where
  "observed_rows use_uuid sample' =
     ebind (emap (\<lambda>row. case (if use_uuid then t_uuid row else t_index row) of
                     None \<Rightarrow> Inl (KeyError (if use_uuid then ''uuid'' else ''index''))
                   | Some v \<Rightarrow> ebind (telemetry_identity use_uuid v) (\<lambda>k. Inr (k, row))) sample') (\<lambda>pairs.
     Inr (dict_update [] pairs))"

definition sample_verified :: "bool \<Rightarrow> pyval list \<Rightarrow> telemetry_row list \<Rightarrow> bool result" where
  "sample_verified use_uuid expected sample' =
     ebind (observed_rows use_uuid sample') (\<lambda>observed.
     Inr (length observed = length sample'
          \<and> list_all (\<lambda>v. case map_of observed v of
                None \<Rightarrow> False | Some row \<Rightarrow> t_throttled row = Some (PBool False)) expected))"

fun all_verified :: "('a \<Rightarrow> bool result) \<Rightarrow> 'a list \<Rightarrow> bool result" where
  "all_verified f [] = Inr True"
| "all_verified f (x # xs) = ebind (f x) (\<lambda>ok. if ok then all_verified f xs else Inr False)"

definition telemetry_check :: "telemetry_receipt \<Rightarrow> cohort_signature \<Rightarrow> bool result" where
  "telemetry_check receipt sig =
     (case tr_samples receipt of
        None \<Rightarrow> Inl (KeyError ''samples'')
      | Some samples \<Rightarrow>
          if tr_errors receipt \<noteq> [] \<or> tr_throttled receipt \<noteq> Some (PBool False) \<or> length samples < 2
          then Inr False
          else
            let use_uuid = (int (length (cs_uuids sig)) = cs_world sig
                            \<and> PStr ''unavailable'' \<notin> set (cs_uuids sig)) in
            case (if use_uuid then Some (cs_uuids sig) else cs_devices sig) of
              None \<Rightarrow> Inl (KeyError ''device_indices'')
            | Some named \<Rightarrow>
                ebind (emap (telemetry_identity use_uuid) named) (\<lambda>ids.
                let expected = remdups ids in
                if int (length expected) \<noteq> cs_world sig then Inr False
                else all_verified (sample_verified use_uuid expected) samples))"

text \<open>\<open>except (KeyError, TypeError): return False\<close>\<close>

definition verified_telemetry :: "telemetry_receipt \<Rightarrow> cohort_signature \<Rightarrow> bool" where
  "verified_telemetry receipt sig = (telemetry_check receipt sig = Inr True)"

lemma all_verified_True: "all_verified f xs = Inr True \<longleftrightarrow> (\<forall>x \<in> set xs. f x = Inr True)"
  by (induction xs) (auto simp: ebind_Inr_iff)

lemma dict_update_keys:
  "fst ` set (dict_update d e) = fst ` set d \<union> fst ` set e"
  "distinct (map fst d) \<Longrightarrow> distinct (map fst (dict_update d e))"
proof (induction e arbitrary: d)
  case (Cons p e)
  have step: "dict_update d (p # e) = dict_update (dict_set (fst p) (snd p) d) e" for d
    by (cases p) (simp add: dict_update_def)
  {
    case 1
    show ?case unfolding step Cons.IH(1) by (cases p) auto
  next
    case 2
    show ?case unfolding step using Cons.IH(2) 2 by simp
  }
qed (simp_all add: dict_update_def)

lemma dict_from_pairs_distinct:
  assumes "length (dict_update [] ps) = length ps"
  shows "distinct (map fst ps)"
proof (rule card_distinct)
  have "length (dict_update [] ps) = card (set (map fst (dict_update [] ps)))"
    using distinct_card [OF dict_update_keys(2) [of "[]" ps]] by simp
  also have "set (map fst (dict_update [] ps)) = set (map fst ps)"
    using dict_update_keys(1) [of "[]" ps] by simp
  finally show "card (set (map fst ps)) = length (map fst ps)" using assms by simp
qed

lemma sample_verified_unique:
  assumes "sample_verified use_uuid ids sample' = Inr True" "v \<in> set ids"
  shows "\<exists>!row. row \<in> set sample'
         \<and> (\<exists>raw. (if use_uuid then t_uuid row else t_index row) = Some raw
              \<and> telemetry_identity use_uuid raw = Inr v)
         \<and> t_throttled row = Some (PBool False)"
proof -
  let ?key = "\<lambda>row. (case (if use_uuid then t_uuid row else t_index row) of
                     None \<Rightarrow> Inl (KeyError (if use_uuid then ''uuid'' else ''index''))
                   | Some v \<Rightarrow> ebind (telemetry_identity use_uuid v) (\<lambda>k. Inr (k, row)))"
  from assms(1) obtain pairs where pairs: "emap ?key sample' = Inr pairs"
    and len: "length (dict_update [] pairs) = length sample'"
    and all: "list_all (\<lambda>v. case map_of (dict_update [] pairs) v of
                None \<Rightarrow> False | Some row \<Rightarrow> t_throttled row = Some (PBool False)) ids"
    by (auto simp: sample_verified_def observed_rows_def ebind_Inr_iff)
  have dist: "distinct (map fst pairs)"
    by (rule dict_from_pairs_distinct) (simp only: len emap_length [OF pairs])
  have pair: "(k, row) \<in> set pairs \<longleftrightarrow> row \<in> set sample'
      \<and> (\<exists>raw. (if use_uuid then t_uuid row else t_index row) = Some raw \<and> telemetry_identity use_uuid raw = Inr k)" for k row
  proof -
    have l2: "list_all2 (\<lambda>x y. ?key x = Inr y) sample' pairs" using pairs by (simp add: emap_Inr_iff)
    have key: "?key x = Inr (k, row) \<longleftrightarrow> x = row
        \<and> (\<exists>raw. (if use_uuid then t_uuid row else t_index row) = Some raw \<and> telemetry_identity use_uuid raw = Inr k)" for x
      by (auto simp: ebind_Inr_iff split: option.splits)
    have "(k, row) \<in> set pairs \<longleftrightarrow> (\<exists>x \<in> set sample'. ?key x = Inr (k, row))"
    proof
      assume "(k, row) \<in> set pairs"
      with pairs show "\<exists>x \<in> set sample'. ?key x = Inr (k, row)" by (rule emap_member) blast
    next
      assume "\<exists>x \<in> set sample'. ?key x = Inr (k, row)"
      then obtain j where j: "j < length sample'" "?key (sample' ! j) = Inr (k, row)" by (auto simp: in_set_conv_nth)
      then have "pairs ! j = (k, row)" using l2 by (simp add: list_all2_conv_all_nth)
      then show "(k, row) \<in> set pairs" using j(1) emap_length [OF pairs] by (metis nth_mem)
    qed
    then show ?thesis unfolding key by blast
  qed
  from all assms(2) obtain row where row: "map_of (rev pairs) v = Some row" "t_throttled row = Some (PBool False)"
    by (auto simp: list_all_iff map_of_dict_update split: option.splits)
  then have mem: "(v, row) \<in> set pairs" by (auto dest: map_of_SomeD)
  show ?thesis
  proof (rule ex1I [of _ row])
    show "row \<in> set sample' \<and> (\<exists>raw. (if use_uuid then t_uuid row else t_index row) = Some raw
        \<and> telemetry_identity use_uuid raw = Inr v) \<and> t_throttled row = Some (PBool False)"
      using mem row(2) unfolding pair by blast
    fix other assume "other \<in> set sample' \<and> (\<exists>raw. (if use_uuid then t_uuid other else t_index other) = Some raw
        \<and> telemetry_identity use_uuid raw = Inr v) \<and> t_throttled other = Some (PBool False)"
    then have "(v, other) \<in> set pairs" unfolding pair by blast
    with mem dist show "other = row" by (metis map_of_is_SomeI option.inject)
  qed
qed

text \<open>Verified telemetry is evidence about every selected GPU: there are at least two error-free
  samples, and in each of them every one of the \<open>world_size\<close> expected GPUs was observed, in exactly
  one row, and reported as not throttled.\<close>
theorem verified_telemetry_complete:
  assumes "verified_telemetry receipt sig"
  shows "\<exists>samples ids use_uuid. tr_samples receipt = Some samples \<and> 2 \<le> length samples
    \<and> tr_errors receipt = [] \<and> distinct ids \<and> int (length ids) = cs_world sig
    \<and> (\<forall>sample' \<in> set samples. \<forall>v \<in> set ids. \<exists>!row. row \<in> set sample'
         \<and> (\<exists>raw. (if use_uuid then t_uuid row else t_index row) = Some raw
              \<and> telemetry_identity use_uuid raw = Inr v)
         \<and> t_throttled row = Some (PBool False))"
proof -
  from assms obtain samples where s: "tr_samples receipt = Some samples" "tr_errors receipt = []" "2 \<le> length samples"
    by (auto simp: verified_telemetry_def telemetry_check_def split: option.splits if_splits)
  define u where "u = (int (length (cs_uuids sig)) = cs_world sig \<and> PStr ''unavailable'' \<notin> set (cs_uuids sig))"
  from assms s obtain named ids where "emap (telemetry_identity u) named = Inr ids"
    and len: "int (length (remdups ids)) = cs_world sig"
    and all: "all_verified (sample_verified u (remdups ids)) samples = Inr True"
    by (auto simp: verified_telemetry_def telemetry_check_def u_def [symmetric] Let_def ebind_Inr_iff
        split: option.splits if_splits)
  have "\<exists>!row. row \<in> set sample'
         \<and> (\<exists>raw. (if u then t_uuid row else t_index row) = Some raw \<and> telemetry_identity u raw = Inr v)
         \<and> t_throttled row = Some (PBool False)" if "sample' \<in> set samples" "v \<in> set (remdups ids)" for sample' v
    using all that by (intro sample_verified_unique [of u "remdups ids"]) (simp_all add: all_verified_True)
  then show ?thesis using s len by (intro exI [of _ samples] exI [of _ "remdups ids"] exI [of _ u]) simp
qed

definition quiet_row :: "int \<Rightarrow> telemetry_row" where
  "quiet_row i = \<lparr>t_index = Some (PInt i), t_uuid = None, t_throttled = Some (PBool False)\<rparr>"

lemma verified_telemetry_complete_witness:
  "\<exists>samples. tr_samples \<lparr>tr_samples = Some [[quiet_row 0, quiet_row 1], [quiet_row 0, quiet_row 1]], tr_errors = [],
       tr_throttled = Some (PBool False)\<rparr> = Some samples \<and> 2 \<le> length samples"
proof -
  have "verified_telemetry \<lparr>tr_samples = Some [[quiet_row 0, quiet_row 1], [quiet_row 0, quiet_row 1]], tr_errors = [],
      tr_throttled = Some (PBool False)\<rparr> \<lparr>cs_uuids = [], cs_world = 2, cs_devices = Some [PInt 0, PInt 1]\<rparr>"
    by (simp add: verified_telemetry_def telemetry_check_def telemetry_identity_def sample_verified_def
        observed_rows_def quiet_row_def Let_def dict_update_def)
  from verified_telemetry_complete [OF this] show ?thesis by blast
qed

end
