(* ===== verification/Plans.thy ===== *)
theory Plans
  imports Measurements
begin

text \<open>
  Native rank plans and pipeline profiles (\<open>pipeline_profiles.py\<close>): the profile candidates around a
  frozen inference batch, the distribution of a frontier over the ranks, the validation of the plans
  of all ranks and the coordinate search over full-step measurements. A plan is the dictionary that
  the native planner prints. The admission and measurement callbacks are parameters; the clock is a
  parameter that says whether the deadline has passed at the n-th check.
\<close>

type_synonym plan = "(string, pyval) dict"

section \<open>Frontier quotas\<close>

definition rank_frontier_counts :: "int \<Rightarrow> nat \<Rightarrow> int list" where
  "rank_frontier_counts width world =
     map (\<lambda>r. ceil_div ((int r + 1) * width) (int world) - ceil_div (int r * width) (int world)) [0..<world]"

text \<open>The logical quotas of the ranks are a fair partition of the frontier: they add up to its width
  and every rank gets the quotient by the number of ranks, rounded down or up.\<close>
theorem frontier_counts_partition:
  assumes "0 < world" "0 \<le> width"
  shows "sum_list (rank_frontier_counts width world) = width
    \<and> (\<forall>c \<in> set (rank_frontier_counts width world). c = width div int world \<or> c = ceil_div width (int world))"
proof
  let ?w = "int world"
  have w: "0 < ?w" using assms(1) by simp
  have "sum_list (map (\<lambda>r. ceil_div ((int r + 1) * width) ?w - ceil_div (int r * width) ?w) [0..<n])
      = ceil_div (int n * width) ?w" for n
  proof (induction n)
    case 0
    have "(?w - 1) div ?w = 0" using w by (intro div_pos_pos_trivial) simp_all
    then show ?case by (simp add: ceil_div_def)
  next
    case (Suc n)
    then show ?case by (simp add: algebra_simps)
  qed
  moreover have "ceil_div (?w * width) ?w = width"
  proof -
    have "(?w * width + ?w - 1) div ?w = width"
      by (rule int_div_pos_eq [of _ _ _ "?w - 1"]) (use w in auto)
    then show ?thesis by (simp add: ceil_div_def)
  qed
  ultimately show "sum_list (rank_frontier_counts width world) = width"
    by (simp add: rank_frontier_counts_def)
  show "\<forall>c \<in> set (rank_frontier_counts width world). c = width div ?w \<or> c = ceil_div width ?w"
  proof
    fix c assume "c \<in> set (rank_frontier_counts width world)"
    then obtain r where c: "c = ceil_div ((int r + 1) * width) ?w - ceil_div (int r * width) ?w"
      by (auto simp: rank_frontier_counts_def)
    let ?q = "width div ?w" and ?a = "ceil_div (int r * width) ?w"
    have a: "int r * width \<le> ?a * ?w" "?a * ?w < int r * width + ?w"
      using ceil_div_mult_ge [OF w] ceil_div_mult_less [OF w] by blast+
    have q: "?q * ?w \<le> width" "width < (?q + 1) * ?w"
    proof -
      have "?q * ?w + width mod ?w = width" by (rule div_mult_mod_eq)
      moreover have "0 \<le> width mod ?w" "width mod ?w < ?w" using w by simp_all
      moreover have "(?q + 1) * ?w = ?q * ?w + ?w" by (simp only: distrib_right mult_1)
      ultimately show "?q * ?w \<le> width" "width < (?q + 1) * ?w" by linarith+
    qed
    have "?a + ?q \<le> ceil_div ((int r + 1) * width) ?w"
    proof -
      have "(?a + ?q - 1) * ?w < (int r + 1) * width" using a(2) q(1) by (simp add: algebra_simps)
      then have "?a + ?q - 1 < ceil_div ((int r + 1) * width) ?w" by (simp add: less_ceil_div_iff [OF w])
      then show ?thesis by simp
    qed
    moreover have "ceil_div ((int r + 1) * width) ?w \<le> ?a + ceil_div width ?w"
    proof -
      have "width \<le> ceil_div width ?w * ?w" by (rule ceil_div_mult_ge [OF w])
      then show ?thesis using a(1) by (simp add: ceil_div_le_iff [OF w] algebra_simps)
    qed
    moreover have "ceil_div width ?w \<le> ?q + 1" using q(2) by (simp add: ceil_div_le_iff [OF w])
    ultimately show "c = ?q \<or> c = ceil_div width ?w" using c by linarith
  qed
qed

lemma frontier_counts_partition_witness:
  "sum_list (rank_frontier_counts 10 4) = 10"
  using frontier_counts_partition [of 4 10] by simp

section \<open>Validation of rank plans\<close>

definition common_keys :: "string list" where
  "common_keys = [''GLOBAL_BEAM_WIDTH_EFFECTIVE'', ''BEAM_WIDTH_ALIGNMENT'', ''SHARD_COUNT'', ''B_MICRO'',
     ''WORLD_SIZE'', ''STREAM4_BATCH_ALIGNMENT'']"

definition same_value :: "plan list \<Rightarrow> string \<Rightarrow> unit result" where
  "same_value plans key =
     ebind (emap (\<lambda>row. dict_item row key) plans) (\<lambda>vs.
     raise_if (length (remdups vs) \<noteq> 1) (ValueError (''rank plans disagree on '' @ key)))"

definition rank_labels_ok :: "plan list \<Rightarrow> int \<Rightarrow> bool" where
  "rank_labels_ok plans world =
     (let labels = map (\<lambda>row. map_of row ''LOCAL_RANK'') plans in
      list_all (\<lambda>l. case l of Some v \<Rightarrow> is_int v | None \<Rightarrow> False) labels
      \<and> set (map (the_int \<circ> the) labels) = {0..<world})"

definition memory_ok :: "plan \<Rightarrow> unit result" where
  "memory_ok row =
     ebind (dict_item row ''estimated_required_device_bytes'') (\<lambda>need.
     ebind (if is_int need \<and> 0 \<le> the_int need then dict_item row ''gpu_budget_bytes'' else Inr PNone) (\<lambda>budget.
     if \<not> (is_int need \<and> 0 \<le> the_int need \<and> is_int budget \<and> 0 \<le> the_int budget)
     then Inl (ValueError ''invalid native memory admission values'')
     else raise_if (the_int need > the_int budget) (ValueError ''rank exceeds exact native memory budget'')))"

definition validate_rank_plans :: "plan list \<Rightarrow> unit result" where
  "validate_rank_plans plans =
     (case plans of
        [] \<Rightarrow> Inl (ValueError ''no rank plans'')
      | first # _ \<Rightarrow>
          ebind (emap (same_value plans) common_keys) (\<lambda>_.
          ebind (dict_item first ''WORLD_SIZE'') (\<lambda>world.
          if \<not> (is_int world \<and> 0 < the_int world \<and> the_int world = int (length plans))
          then Inl (ValueError ''missing rank admission'')
          else if (\<exists>row \<in> set plans. map_of row ''LOCAL_RANK'' \<noteq> None) \<and> \<not> rank_labels_ok plans (the_int world)
          then Inl (ValueError ''duplicate or missing communicator rank admission'')
          else ebind (emap memory_ok plans) (\<lambda>_. Inr ()))))"

definition plan_int :: "plan \<Rightarrow> string \<Rightarrow> int" where
  "plan_int row key = (case map_of row key of Some v \<Rightarrow> the_int v | None \<Rightarrow> 0)"

lemma same_value_Inr:
  assumes "same_value plans key = Inr u" "a \<in> set plans" "b \<in> set plans"
  shows "map_of a key = map_of b key" "map_of a key \<noteq> None"
proof -
  from assms(1) obtain vs where vs: "list_all2 (\<lambda>row v. dict_item row key = Inr v) plans vs"
    and one: "length (remdups vs) = 1" by (auto simp: same_value_def ebind_Inr_iff emap_Inr_iff)
  from one obtain v where "remdups vs = [v]" by (cases "remdups vs") auto
  then have "set vs = {v}" by (metis set_remdups list.set(1) list.simps(15))
  then have val: "map_of x key = Some v" if "x \<in> set plans" for x
  proof -
    from that obtain i where i: "i < length plans" "x = plans ! i" by (auto simp: in_set_conv_nth)
    have "dict_item (plans ! i) key = Inr (vs ! i)" "vs ! i \<in> set vs"
      using vs i(1) by (auto simp: list_all2_conv_all_nth)
    then show ?thesis using i(2) \<open>set vs = {v}\<close> by (simp add: dict_item_Inr_iff)
  qed
  show "map_of a key = map_of b key" "map_of a key \<noteq> None" using val assms(2,3) by simp_all
qed

text \<open>C17. Validated plans are a complete, agreed and affordable admission: there is one plan for every
  rank of the world, all ranks agree on the beam, its alignment, the shards, the batch and the world
  size, communicator ranks (when given) are exactly 0 to world-1 without repetition, and no rank
  needs more device memory than its budget.\<close>
theorem validated_plans_complete:
  assumes "validate_rank_plans plans = Inr u"
  shows "plans \<noteq> [] \<and> plan_int (hd plans) ''WORLD_SIZE'' = int (length plans)
    \<and> (\<forall>a \<in> set plans. \<forall>key \<in> set common_keys. map_of a key = map_of (hd plans) key)
    \<and> (\<forall>a \<in> set plans. 0 \<le> plan_int a ''estimated_required_device_bytes''
         \<and> plan_int a ''estimated_required_device_bytes'' \<le> plan_int a ''gpu_budget_bytes'')
    \<and> ((\<exists>a \<in> set plans. map_of a ''LOCAL_RANK'' \<noteq> None) \<longrightarrow>
         bij_betw (\<lambda>i. plan_int (plans ! i) ''LOCAL_RANK'') {..<length plans} {0..<int (length plans)})"
proof -
  obtain first rest where pl: "plans = first # rest" using assms by (cases plans) (auto simp: validate_rank_plans_def)
  from assms pl obtain us world ms where us: "emap (same_value plans) common_keys = Inr us"
    and world: "map_of first ''WORLD_SIZE'' = Some world" "is_int world" "the_int world = int (length plans)"
    and labels: "(\<exists>row \<in> set plans. map_of row ''LOCAL_RANK'' \<noteq> None) \<longrightarrow> rank_labels_ok plans (int (length plans))"
    and ms: "emap memory_ok plans = Inr ms"
    by (auto simp: validate_rank_plans_def ebind_Inr_iff dict_item_Inr_iff split: if_splits)
  have agree: "map_of a key = map_of first key" if "a \<in> set plans" "key \<in> set common_keys" for a key
  proof -
    from us that(2) obtain u where "same_value plans key = Inr u"
      by (auto simp: emap_Inr_iff list_all2_conv_all_nth in_set_conv_nth)
    moreover have "first \<in> set plans" by (simp add: pl)
    ultimately show ?thesis using that(1) by (blast intro: same_value_Inr(1))
  qed
  have mem: "0 \<le> plan_int a ''estimated_required_device_bytes''
      \<and> plan_int a ''estimated_required_device_bytes'' \<le> plan_int a ''gpu_budget_bytes''" if "a \<in> set plans" for a
  proof -
    from ms that obtain u where "memory_ok a = Inr u"
      by (auto simp: emap_Inr_iff list_all2_conv_all_nth in_set_conv_nth)
    then show ?thesis
      by (auto simp: memory_ok_def ebind_Inr_iff dict_item_Inr_iff plan_int_def not_less split: if_splits)
  qed
  have bij: "bij_betw (\<lambda>i. plan_int (plans ! i) ''LOCAL_RANK'') {..<length plans} {0..<int (length plans)}"
    if "\<exists>a \<in> set plans. map_of a ''LOCAL_RANK'' \<noteq> None"
  proof -
    let ?f = "\<lambda>i. plan_int (plans ! i) ''LOCAL_RANK''"
    have lab: "rank_labels_ok plans (int (length plans))" using labels that by blast
    have "the_int (the (map_of row ''LOCAL_RANK'')) = plan_int row ''LOCAL_RANK''" if "row \<in> set plans" for row
      using lab that by (auto simp: rank_labels_ok_def Let_def list_all_iff plan_int_def split: option.splits)
    then have "(\<lambda>row. plan_int row ''LOCAL_RANK'') ` set plans = {0..<int (length plans)}"
      using lab by (auto simp: rank_labels_ok_def Let_def image_image cong: image_cong)
    moreover have "set plans = (!) plans ` {..<length plans}" by (auto simp: set_conv_nth)
    then have "?f ` {..<length plans} = (\<lambda>row. plan_int row ''LOCAL_RANK'') ` set plans"
      by (simp only: image_image)
    ultimately have img: "?f ` {..<length plans} = {0..<int (length plans)}" by simp
    then have "card (?f ` {..<length plans}) = card {..<length plans}" by simp
    then have "inj_on ?f {..<length plans}" by (rule eq_card_imp_inj_on [rotated]) simp
    with img show ?thesis by (simp add: bij_betw_def)
  qed
  have hd: "hd plans = first" "plans \<noteq> []" by (simp_all add: pl)
  have "plan_int first ''WORLD_SIZE'' = int (length plans)" using world(1,3) by (simp add: plan_int_def)
  then show ?thesis unfolding hd(1) using hd(2) agree mem bij by blast
qed

definition lone_plan :: "int \<Rightarrow> plan" where
  "lone_plan beam = [(''GLOBAL_BEAM_WIDTH_EFFECTIVE'', PInt beam), (''BEAM_WIDTH_ALIGNMENT'', PInt 256),
     (''SHARD_COUNT'', PInt 4), (''B_MICRO'', PInt 16), (''WORLD_SIZE'', PInt 1),
     (''STREAM4_BATCH_ALIGNMENT'', PInt 1024), (''LOCAL_RANK'', PInt 0),
     (''estimated_required_device_bytes'', PInt beam), (''gpu_budget_bytes'', PInt 4096)]"

lemma validate_lone_plan: "0 \<le> beam \<Longrightarrow> beam \<le> 4096 \<Longrightarrow> validate_rank_plans [lone_plan beam] = Inr ()"
proof -
  assume b: "0 \<le> beam" "beam \<le> 4096"
  have "{0..<1 :: int} = {0}" by auto
  then show ?thesis using b
    by (simp add: validate_rank_plans_def common_keys_def same_value_def dict_item_def lone_plan_def
        rank_labels_ok_def memory_ok_def raise_if_def Let_def)
qed

lemma validated_plans_complete_witness:
  "validate_rank_plans [lone_plan 512] = Inr () \<and> plan_int (lone_plan 512) ''WORLD_SIZE'' = 1"
  using validated_plans_complete [OF validate_lone_plan [of 512]] validate_lone_plan [of 512] by simp

section \<open>Profile candidates\<close>

definition tunable_keys :: "string list" where
  "tunable_keys = [''BEAM_B_MICRO'', ''BEAM_STREAM3_RING_SLOTS'', ''BEAM_SHARD_COUNT'',
     ''BEAM_STREAM4_BATCH_CANDIDATES'', ''BEAM_STREAM4_ACTIVE_SORT_SLOTS'']"

text \<open>Two environments are the same profile when they hold the same pairs.\<close>

definition same_env :: "env \<Rightarrow> env \<Rightarrow> bool" where
  "same_env a b \<longleftrightarrow> set a = set b"

definition add_candidate :: "env \<Rightarrow> string \<Rightarrow> string \<Rightarrow> int \<Rightarrow> (string \<times> env) result" where
  "add_candidate fixed name key value =
     (if key \<notin> set tunable_keys then Inl (ValueError ''attempt to tune a semantic or capacity policy'')
      else Inr (name, dict_set key (str_int value) fixed))"

definition candidate_list :: "int \<Rightarrow> int \<Rightarrow> bool \<Rightarrow> (string \<times> string \<times> int) list" where
  "candidate_list micro max_outer tune_outer =
     (if tune_outer then [(''outer-'' @ str_int k @ ''x'', ''BEAM_B_MICRO'', micro * k).
                           k \<leftarrow> filter (\<lambda>k. micro * k \<le> max_outer) [2, 4, 8]] else [])
     @ [(''ring-'' @ str_int k, ''BEAM_STREAM3_RING_SLOTS'', k). k \<leftarrow> [1, 2, 4, 8]]
     @ [(''shards-'' @ str_int k, ''BEAM_SHARD_COUNT'', k). k \<leftarrow> [4, 8, 16, 32, 64, 128]]
     @ [(''sort-batch-'' @ str_int k, ''BEAM_STREAM4_BATCH_CANDIDATES'', k).
          k \<leftarrow> [8192, 16384, 32768, 65536, 131072]]
     @ [(''sort-slots-'' @ str_int k, ''BEAM_STREAM4_ACTIVE_SORT_SLOTS'', k). k \<leftarrow> [1, 2, 4, 8]]"

fun drop_seen :: "env list \<Rightarrow> (string \<times> env) list \<Rightarrow> (string \<times> env) list" where
  "drop_seen known [] = []"
| "drop_seen known ((name, e) # rest) =
     (if \<exists>k \<in> set known. same_env k e then drop_seen known rest
      else (name, e) # drop_seen (e # known) rest)"

definition pipeline_candidates ::
  "pyval \<Rightarrow> env \<Rightarrow> int \<Rightarrow> bool \<Rightarrow> (string \<times> env) list result" where
  "pipeline_candidates micro baseline max_outer tune_outer =
     (if \<not> (is_int micro \<and> 0 < the_int micro) then Inl (ValueError ''inference microbatch must be positive'')
      else let m = the_int micro in
        if max_outer < m then Inl (ValueError ''outer capacity cannot truncate model microbatch'')
        else
          let fixed0 = dict_set ''BEAM_ENSEMBLE_INFERENCE_MICRO'' (str_int m) baseline in
          ebind (case map_of fixed0 ''BEAM_B_MICRO'' of None \<Rightarrow> Inr m | Some v \<Rightarrow> py_int v) (\<lambda>outer.
          let fixed = dict_set ''BEAM_B_MICRO'' (str_int (max m outer)) fixed0 in
          ebind (emap (\<lambda>(name, key, value). add_candidate fixed name key value)
                   (candidate_list m max_outer tune_outer)) (\<lambda>cands.
          Inr (drop_seen [] ((''baseline'', fixed) # cands)))))"

lemma drop_seen_mem: "c \<in> set (drop_seen known cs) \<Longrightarrow> c \<in> set cs"
  by (induction known cs rule: drop_seen.induct) (auto split: if_splits)

lemma drop_seen_fresh: "c \<in> set (drop_seen known cs) \<Longrightarrow> k \<in> set known \<Longrightarrow> \<not> same_env k (snd c)"
  by (induction known cs rule: drop_seen.induct) (auto split: if_splits)

lemma drop_seen_distinct:
  "sorted_wrt (\<lambda>a b. \<not> same_env (snd a) (snd b)) (drop_seen known cs)"
proof (induction known cs rule: drop_seen.induct)
  case (2 known name e rest)
  then show ?case using drop_seen_fresh [of _ "e # known" rest e] by auto
qed simp

lemma pipeline_candidates_spec:
  assumes "pipeline_candidates micro baseline max_outer tune_outer = Inr cs"
  shows "\<exists>fixed rest. cs = (''baseline'', fixed) # rest
    \<and> sorted_wrt (\<lambda>a b. \<not> same_env (snd a) (snd b)) cs
    \<and> (\<forall>(name, e) \<in> set cs. map_of e ''BEAM_ENSEMBLE_INFERENCE_MICRO'' = Some (str_int (the_int micro))
         \<and> (\<exists>key \<in> set tunable_keys. \<forall>k. k \<noteq> key \<longrightarrow> map_of e k = map_of fixed k))"
proof -
  from assms obtain fixed ov cands where
    fixed_def: "fixed = dict_set ''BEAM_B_MICRO'' (str_int (max (the_int micro) ov))
      (dict_set ''BEAM_ENSEMBLE_INFERENCE_MICRO'' (str_int (the_int micro)) baseline)"
    and cands: "emap (\<lambda>(name, key, value). add_candidate fixed name key value)
        (candidate_list (the_int micro) max_outer tune_outer) = Inr cands"
    and cs: "cs = drop_seen [] ((''baseline'', fixed) # cands)"
    by (auto simp: pipeline_candidates_def Let_def ebind_Inr_iff split: if_splits)
  have micro: "map_of fixed ''BEAM_ENSEMBLE_INFERENCE_MICRO'' = Some (str_int (the_int micro))"
    by (simp add: fixed_def)
  have "map_of e ''BEAM_ENSEMBLE_INFERENCE_MICRO'' = Some (str_int (the_int micro))
         \<and> (\<exists>key \<in> set tunable_keys. \<forall>k. k \<noteq> key \<longrightarrow> map_of e k = map_of fixed k)"
    if "(name, e) \<in> set ((''baseline'', fixed) # cands)" for name e
  proof (cases "(name, e) = (''baseline'', fixed)")
    case True
    then show ?thesis using micro by (auto simp: tunable_keys_def)
  next
    case False
    with that have "(name, e) \<in> set cands" by auto
    with cands obtain q where "(\<lambda>(name, key, value). add_candidate fixed name key value) q = Inr (name, e)"
      by (rule emap_member)
    then obtain key v where k: "key \<in> set tunable_keys" "e = dict_set key (str_int v) fixed"
      by (cases q) (auto simp: add_candidate_def split: if_splits)
    then have "key \<noteq> ''BEAM_ENSEMBLE_INFERENCE_MICRO''" by (auto simp: tunable_keys_def)
    with k micro show ?thesis by auto
  qed
  note each = this
  have all: "\<forall>(name, e) \<in> set cs. map_of e ''BEAM_ENSEMBLE_INFERENCE_MICRO'' = Some (str_int (the_int micro))
         \<and> (\<exists>key \<in> set tunable_keys. \<forall>k. k \<noteq> key \<longrightarrow> map_of e k = map_of fixed k)"
  proof clarify
    fix name e assume "(name, e) \<in> set cs"
    then have "(name, e) \<in> set ((''baseline'', fixed) # cands)" unfolding cs by (rule drop_seen_mem)
    then show "map_of e ''BEAM_ENSEMBLE_INFERENCE_MICRO'' = Some (str_int (the_int micro))
         \<and> (\<exists>key \<in> set tunable_keys. \<forall>k. k \<noteq> key \<longrightarrow> map_of e k = map_of fixed k)" by (rule each)
  qed
  show ?thesis
  proof (intro exI conjI)
    show "cs = (''baseline'', fixed) # drop_seen [fixed] cands" unfolding cs by simp
    show "sorted_wrt (\<lambda>a b. \<not> same_env (snd a) (snd b)) cs" unfolding cs by (rule drop_seen_distinct)
  qed (rule all)
qed

text \<open>The candidate profiles start with the baseline at the measured inference batch, no two of them
  are the same environment, all of them freeze the inference batch, and each differs from the first
  in at most one of the five tunable keys - never in a semantic or capacity setting.\<close>
theorem candidates_freeze_inference:
  assumes "pipeline_candidates micro baseline max_outer tune_outer = Inr cs"
  shows "\<exists>fixed rest. cs = (''baseline'', fixed) # rest
    \<and> sorted_wrt (\<lambda>a b. \<not> same_env (snd a) (snd b)) cs
    \<and> (\<forall>(name, e) \<in> set cs. map_of e ''BEAM_ENSEMBLE_INFERENCE_MICRO'' = Some (str_int (the_int micro))
         \<and> (\<exists>key \<in> set tunable_keys. \<forall>k. k \<noteq> key \<longrightarrow> map_of e k = map_of fixed k))"
  using assms by (rule pipeline_candidates_spec)

lemma candidates_freeze_inference_witness:
  "\<exists>cs. pipeline_candidates (PInt 64) [] 65536 False = Inr cs \<and> fst (hd cs) = ''baseline''"
proof -
  have "\<exists>cs. pipeline_candidates (PInt 64) [] 65536 False = Inr cs"
    by (simp add: pipeline_candidates_def Let_def candidate_list_def add_candidate_def tunable_keys_def)
  then obtain cs where cs: "pipeline_candidates (PInt 64) [] 65536 False = Inr cs" by blast
  from candidates_freeze_inference [OF cs] cs show ?thesis by auto
qed

end
