(* ===== verification/Capacity.thy ===== *)
theory Capacity
  imports Plans
begin

text \<open>
  The binary search for the largest admitted beam (\<open>beam_capacity.py\<close>). The native planner is a
  parameter; the clock says whether the deadline has passed at the n-th check.
\<close>

section \<open>The largest admitted beam\<close>

type_synonym admit = "int \<Rightarrow> env \<Rightarrow> plan list result"
type_synonym clock = "nat \<Rightarrow> bool"

text \<open>One probe: the plans when they are admitted, \<open>None\<close> on a capacity rejection; every other
  failure propagates.\<close>

definition capacity_probe :: "admit \<Rightarrow> env \<Rightarrow> int \<Rightarrow> plan list option result" where
  "capacity_probe admit profile beam =
     (case admit beam profile of
        Inl (CapacityRejected _) \<Rightarrow> Inr None
      | Inl e \<Rightarrow> Inl e
      | Inr plans \<Rightarrow>
          ebind (validate_rank_plans plans) (\<lambda>_.
          if plan_int (hd plans) ''GLOBAL_BEAM_WIDTH_EFFECTIVE'' \<noteq> beam
          then Inl (ValueError ''capacity search requires exact frozen alignment'')
          else Inr (Some plans)))"

record search_interval =
  si_low :: int
  si_high :: int
  si_accepted :: "plan list option"
  si_rejected :: "int option"
  si_probes :: nat
  si_checks :: nat
  si_complete :: bool

function capacity_search ::
  "clock \<Rightarrow> (int \<Rightarrow> plan list option result) \<Rightarrow> int \<Rightarrow> search_interval \<Rightarrow> search_interval result" where
  "capacity_search expired probe align s =
     (if si_high s - si_low s \<le> 1 then Inr s
      else if expired (si_checks s) then Inr (s\<lparr>si_checks := si_checks s + 1, si_complete := False\<rparr>)
      else
        let units = (si_low s + si_high s) div 2; beam = units * align;
            s' = s\<lparr>si_probes := si_probes s + 1, si_checks := si_checks s + 1\<rparr> in
        (case probe beam of
           Inl e \<Rightarrow> Inl e
         | Inr None \<Rightarrow> capacity_search expired probe align (s'\<lparr>si_high := units, si_rejected := Some beam\<rparr>)
         | Inr (Some plans) \<Rightarrow> capacity_search expired probe align (s'\<lparr>si_low := units, si_accepted := Some plans\<rparr>)))"
  by pat_completeness auto
termination
  by (relation "measure (\<lambda>(_, _, _, s). nat (si_high s - si_low s))") auto

declare capacity_search.simps [simp del]

record capacity_result =
  cap_beam :: int
  cap_profile :: env
  cap_plans :: "plan list"
  cap_probes :: nat
  cap_rejected :: "int option"
  cap_complete :: bool
  cap_verified :: bool

text \<open>The profiles are searched one after the other; an expired deadline stops after the current one.\<close>

fun search_profiles ::
  "clock \<Rightarrow> admit \<Rightarrow> int \<Rightarrow> int \<Rightarrow> env list \<Rightarrow> capacity_result option \<Rightarrow> nat \<Rightarrow> nat
    \<Rightarrow> (capacity_result option \<times> nat \<times> bool) result" where
  "search_profiles expired admit align most [] best probes checks = Inr (best, probes, True)"
| "search_profiles expired admit align most (profile # rest) best probes checks =
     ebind (capacity_search expired (capacity_probe admit profile) align
              \<lparr>si_low = 0, si_high = most + 1, si_accepted = None, si_rejected = None,
               si_probes = probes, si_checks = checks, si_complete = True\<rparr>) (\<lambda>s.
     let best' = (case si_accepted s of
                    Some plans \<Rightarrow>
                      if (case best of None \<Rightarrow> True | Some b \<Rightarrow> si_low s * align > cap_beam b)
                      then Some \<lparr>cap_beam = si_low s * align, cap_profile = profile, cap_plans = plans,
                                 cap_probes = si_probes s, cap_rejected = si_rejected s,
                                 cap_complete = si_complete s, cap_verified = False\<rparr>
                      else best
                  | None \<Rightarrow> best) in
     if si_complete s then search_profiles expired admit align most rest best' (si_probes s) (si_checks s)
     else Inr (best', si_probes s, False))"

definition find_capacity ::
  "clock \<Rightarrow> admit \<Rightarrow> (int \<Rightarrow> env \<Rightarrow> plan list \<Rightarrow> bool) option \<Rightarrow> pyval \<Rightarrow> pyval \<Rightarrow> env list \<Rightarrow> capacity_result result" where
  "find_capacity expired admit verify upper align profiles =
     (if \<not> (is_int upper \<and> is_int align) then Inl (ValueError ''integer beam ceiling and alignment required'')
      else if the_int align < 1 \<or> the_int upper < the_int align
      then Inl (ValueError ''beam ceiling must accommodate one aligned frontier'')
      else
        ebind (search_profiles expired admit (the_int align) (the_int upper div the_int align) profiles None 0 0)
          (\<lambda>(best, probes, complete).
          case best of
            None \<Rightarrow> Inl (CapacityRejected ''no frontier admitted within the search budget'')
          | Some b \<Rightarrow>
              (case verify of
                 None \<Rightarrow> Inr (b\<lparr>cap_probes := probes, cap_complete := complete, cap_verified := False\<rparr>)
               | Some f \<Rightarrow>
                   if f (cap_beam b) (cap_profile b) (cap_plans b)
                   then Inr (b\<lparr>cap_probes := probes, cap_complete := complete, cap_verified := True\<rparr>)
                   else Inl (ValueError ''largest admitted frontier failed full-step verification''))))"

definition admits :: "admit \<Rightarrow> env \<Rightarrow> int \<Rightarrow> bool" where
  "admits admit profile beam \<longleftrightarrow> (\<exists>plans. capacity_probe admit profile beam = Inr (Some plans))"

lemma capacity_search_spec:
  assumes "capacity_search expired probe align s = Inr s'" "si_low s < si_high s"
    and "si_accepted s \<noteq> None \<longrightarrow> probe (si_low s * align) = Inr (si_accepted s)"
    and "si_accepted s = None \<longrightarrow> si_low s = l0"
    and "si_high s = h0 \<or> probe (si_high s * align) = Inr None" "si_high s \<le> h0" "l0 \<le> si_low s"
  shows "(si_accepted s' \<noteq> None \<longrightarrow> probe (si_low s' * align) = Inr (si_accepted s'))
    \<and> (si_accepted s' = None \<longrightarrow> si_low s' = l0) \<and> l0 \<le> si_low s' \<and> si_low s' < h0
    \<and> (si_complete s' \<longrightarrow> si_complete s \<and> (si_low s' + 1 = h0 \<or> probe ((si_low s' + 1) * align) = Inr None))
    \<and> ((\<forall>n. \<not> expired n) \<longrightarrow> si_complete s' = si_complete s)"
  using assms
proof (induction expired probe align s rule: capacity_search.induct)
  case (1 expired probe align s)
  let ?u = "(si_low s + si_high s) div 2"
  let ?s = "s\<lparr>si_probes := si_probes s + 1, si_checks := si_checks s + 1\<rparr>"
  show ?case
  proof (cases "si_high s - si_low s \<le> 1")
    case True
    then have "s' = s" using 1(3) by (simp add: capacity_search.simps)
    moreover have "si_high s = si_low s + 1" using True 1(4) by simp
    ultimately show ?thesis using 1(5-9) by auto
  next
    case wide: False
    show ?thesis
    proof (cases "expired (si_checks s)")
      case True
      then have "s' = s\<lparr>si_checks := si_checks s + 1, si_complete := False\<rparr>"
        using 1(3) wide by (simp add: capacity_search.simps)
      then show ?thesis using 1(4-9) True by auto
    next
      case False
      have u: "si_low s < ?u" "?u < si_high s" using wide by linarith+
      consider plans where "probe (?u * align) = Inr (Some plans)" | "probe (?u * align) = Inr None"
        using 1(3) wide False by (auto simp: capacity_search.simps [of expired probe align s] Let_def split: sum.splits option.splits)
      then show ?thesis
      proof cases
        case (1 plans)
        then have r: "capacity_search expired probe align (?s\<lparr>si_low := ?u, si_accepted := Some plans\<rparr>) = Inr s'"
          using \<open>capacity_search expired probe align s = Inr s'\<close> wide False
          by (simp add: capacity_search.simps [of expired probe align s] Let_def)
        have ih: "si_low (?s\<lparr>si_low := ?u, si_accepted := Some plans\<rparr>) < si_high (?s\<lparr>si_low := ?u, si_accepted := Some plans\<rparr>)"
          using u by simp
        show ?thesis
          using "1.IH"(2) [OF wide False refl refl refl 1 refl r ih] 1 u "1.prems"(5-7)
          by simp
      next
        case 2
        then have r: "capacity_search expired probe align (?s\<lparr>si_high := ?u, si_rejected := Some (?u * align)\<rparr>) = Inr s'"
          using "1.prems"(1) wide False by (simp add: capacity_search.simps [of expired probe align s] Let_def)
        show ?thesis
          using "1.IH"(1) [OF wide False refl refl refl 2 refl r] 2 u "1.prems"(3-7) by simp
      qed
    qed
  qed
qed

lemma capacity_search_low:
  assumes "capacity_search expired probe align s = Inr s'" "0 \<le> si_low s"
    and "si_accepted s \<noteq> None \<Longrightarrow> 0 < si_low s"
  shows "si_accepted s' \<noteq> None \<Longrightarrow> si_low s' \<noteq> 0"
proof -
  have "si_accepted s' \<noteq> None \<longrightarrow> 0 < si_low s'"
    using assms
  proof (induction expired probe align s rule: capacity_search.induct)
    case (1 expired probe align s)
    show ?case
    proof (cases "si_high s - si_low s \<le> 1 \<or> expired (si_checks s)")
      case True
      then have "s' = s \<or> s' = s\<lparr>si_checks := si_checks s + 1, si_complete := False\<rparr>"
        using "1.prems"(1) by (auto simp: capacity_search.simps split: if_splits)
      then show ?thesis using "1.prems"(3) by auto
    next
      case False
      then have wide: "\<not> si_high s - si_low s \<le> 1" and ne: "\<not> expired (si_checks s)" by auto
      let ?u = "(si_low s + si_high s) div 2"
      have u: "0 < ?u" "si_low s < ?u" using wide "1.prems"(2) by linarith+
      consider plans where "probe (?u * align) = Inr (Some plans)" | "probe (?u * align) = Inr None"
        using "1.prems"(1) wide ne
        by (auto simp: capacity_search.simps [of expired probe align s] Let_def split: sum.splits option.splits)
      then show ?thesis
      proof cases
        case (1 plans)
        show ?thesis
          using "1.IH"(2) [OF wide ne refl refl refl 1 refl] "1.prems" 1 wide ne u
          by (simp add: capacity_search.simps [of expired probe align s] Let_def)
      next
        case 2
        show ?thesis
          using "1.IH"(1) [OF wide ne refl refl refl 2 refl] "1.prems" 2 wide ne
          by (simp add: capacity_search.simps [of expired probe align s] Let_def)
      qed
    qed
  qed
  then show "si_accepted s' \<noteq> None \<Longrightarrow> si_low s' \<noteq> 0" by auto
qed

definition frozen_admission :: "admit \<Rightarrow> env list \<Rightarrow> bool" where
  "frozen_admission admit profiles \<longleftrightarrow>
     (\<forall>p \<in> set profiles. \<forall>b b'. 0 < b \<and> b \<le> b' \<and> admits admit p b' \<longrightarrow> admits admit p b)"

definition best_ok :: "admit \<Rightarrow> int \<Rightarrow> int \<Rightarrow> env list \<Rightarrow> capacity_result option \<Rightarrow> bool" where
  "best_ok admit align most fin best \<longleftrightarrow>
     (case best of
        None \<Rightarrow> \<forall>p \<in> set fin. \<forall>k. 1 \<le> k \<and> k \<le> most \<longrightarrow> \<not> admits admit p (k * align)
      | Some b \<Rightarrow>
          (\<forall>p \<in> set fin. \<forall>k. 1 \<le> k \<and> k \<le> most \<longrightarrow> admits admit p (k * align) \<longrightarrow> k * align \<le> cap_beam b))"

definition best_real :: "admit \<Rightarrow> int \<Rightarrow> int \<Rightarrow> env list \<Rightarrow> capacity_result option \<Rightarrow> bool" where
  "best_real admit align most profiles best \<longleftrightarrow>
     (case best of
        None \<Rightarrow> True
      | Some b \<Rightarrow> cap_profile b \<in> set profiles
          \<and> capacity_probe admit (cap_profile b) (cap_beam b) = Inr (Some (cap_plans b))
          \<and> (\<exists>k. cap_beam b = k * align \<and> 1 \<le> k \<and> k \<le> most))"

lemma search_one:
  assumes "capacity_search expired (capacity_probe admit profile) align
              \<lparr>si_low = 0, si_high = most + 1, si_accepted = None, si_rejected = None,
               si_probes = probes, si_checks = checks, si_complete = True\<rparr> = Inr s" "0 < most" "0 < align"
  shows "case si_accepted s of
      Some plans \<Rightarrow> capacity_probe admit profile (si_low s * align) = Inr (Some plans) \<and> 1 \<le> si_low s \<and> si_low s \<le> most
    | None \<Rightarrow> si_low s = 0"
    and "si_complete s \<Longrightarrow> frozen_admission admit [profile] \<Longrightarrow> si_low s < k \<Longrightarrow> k \<le> most
      \<Longrightarrow> \<not> admits admit profile (k * align)"
    and "\<forall>n. \<not> expired n \<Longrightarrow> si_complete s"
proof -
  have "0 * align = 0" by simp
  note spec = capacity_search_spec [OF assms(1), of 0 "most + 1"]
  have spec: "(si_accepted s \<noteq> None \<longrightarrow> capacity_probe admit profile (si_low s * align) = Inr (si_accepted s))"
    "(si_accepted s = None \<longrightarrow> si_low s = 0)" "0 \<le> si_low s" "si_low s < most + 1"
    "si_complete s \<longrightarrow> si_low s + 1 = most + 1 \<or> capacity_probe admit profile ((si_low s + 1) * align) = Inr None"
    "(\<forall>n. \<not> expired n) \<longrightarrow> si_complete s"
    using spec assms(2) by auto
  have nz: "si_accepted s \<noteq> None \<Longrightarrow> si_low s \<noteq> 0"
    using capacity_search_low [OF assms(1)] by simp
  show "case si_accepted s of
      Some plans \<Rightarrow> capacity_probe admit profile (si_low s * align) = Inr (Some plans) \<and> 1 \<le> si_low s \<and> si_low s \<le> most
    | None \<Rightarrow> si_low s = 0"
    using spec(1-4) nz by (auto split: option.splits)
  show "\<forall>n. \<not> expired n \<Longrightarrow> si_complete s" using spec(6) by blast
  assume c: "si_complete s" and fr: "frozen_admission admit [profile]" and k: "si_low s < k" "k \<le> most"
  show "\<not> admits admit profile (k * align)"
  proof
    assume "admits admit profile (k * align)"
    moreover have "0 < (si_low s + 1) * align" using spec(3) assms(3) by simp
    moreover have "(si_low s + 1) * align \<le> k * align" using k assms(3) by simp
    ultimately have "admits admit profile ((si_low s + 1) * align)"
      using fr by (auto simp: frozen_admission_def)
    with spec(5) c k show False by (auto simp: admits_def)
  qed
qed

lemma search_profiles_spec:
  assumes "search_profiles expired admit align most rest best probes checks = Inr (best', probes', full)"
    "0 < most" "0 < align" "best_real admit align most (fin @ rest) best"
  shows "best_real admit align most (fin @ rest) best'
    \<and> (frozen_admission admit rest \<and> best_ok admit align most fin best \<and> full
          \<longrightarrow> best_ok admit align most (fin @ rest) best')
    \<and> ((\<forall>n. \<not> expired n) \<longrightarrow> full)"
  using assms(1,4)
proof (induction rest arbitrary: best probes checks fin)
  case (Cons p rest)
  from Cons.prems(1) obtain s where s: "capacity_search expired (capacity_probe admit p) align
              \<lparr>si_low = 0, si_high = most + 1, si_accepted = None, si_rejected = None,
               si_probes = probes, si_checks = checks, si_complete = True\<rparr> = Inr s"
    by (auto simp: ebind_Inr_iff)
  note one = search_one [OF s assms(2,3)]
  define b where "b = (case si_accepted s of
                    Some plans \<Rightarrow>
                      if (case best of None \<Rightarrow> True | Some b \<Rightarrow> si_low s * align > cap_beam b)
                      then Some \<lparr>cap_beam = si_low s * align, cap_profile = p, cap_plans = plans,
                                 cap_probes = si_probes s, cap_rejected = si_rejected s,
                                 cap_complete = si_complete s, cap_verified = False\<rparr>
                      else best
                  | None \<Rightarrow> best)"
  have go: "(if si_complete s then search_profiles expired admit align most rest b (si_probes s) (si_checks s)
     else Inr (b, si_probes s, False)) = Inr (best', probes', full)"
    using Cons.prems(1) unfolding search_profiles.simps s ebind_simps Let_def b_def [symmetric] .
  have real: "best_real admit align most ((fin @ [p]) @ rest) b"
    using Cons.prems(2) one(1) unfolding b_def best_real_def by (auto split: option.splits)
  have ok: "best_ok admit align most (fin @ [p]) b"
    if "best_ok admit align most fin best" "frozen_admission admit (p # rest)" "si_complete s"
  proof -
    have "frozen_admission admit [p]" using that(2) by (simp add: frozen_admission_def)
    note none = one(2) [OF that(3) this]
    have le: "k * align \<le> si_low s * align" if "1 \<le> k" "k \<le> most" "admits admit p (k * align)" for k
    proof -
      have "k \<le> si_low s" using none [of k] that by (meson not_less)
      then show ?thesis using assms(3) by simp
    qed
    show ?thesis
    proof (cases "si_accepted s")
      case None
      then have "\<not> admits admit p (k * align)" if "1 \<le> k" "k \<le> most" for k
        using none [of k] one(1) that by simp
      then show ?thesis using that(1) None by (auto simp: best_ok_def b_def split: option.splits)
    next
      case (Some plans)
      show ?thesis
      proof (cases best)
        case None
        then show ?thesis using that(1) Some le none
          by (fastforce simp: best_ok_def b_def)
      next
        case (Some c)
        then show ?thesis using that(1) \<open>si_accepted s = Some plans\<close> le
          by (fastforce simp: best_ok_def b_def)
      qed
    qed
  qed
  show ?case
  proof (cases "si_complete s")
    case True
    with go have r: "search_profiles expired admit align most rest b (si_probes s) (si_checks s) = Inr (best', probes', full)"
      by simp
    note IH = Cons.IH [OF r real]
    have "best_ok admit align most (fin @ [p]) b \<and> frozen_admission admit rest"
      if "frozen_admission admit (p # rest)" "best_ok admit align most fin best"
      using ok [OF that(2,1) True] that(1) by (simp add: frozen_admission_def)
    then show ?thesis using IH by simp
  next
    case False
    moreover have "\<not> (\<forall>n. \<not> expired n)" using one(3) False by blast
    ultimately show ?thesis using go real by auto
  qed
qed simp

lemma find_capacity_spec:
  assumes "find_capacity expired admit verify upper align profiles = Inr r"
  shows "cap_profile r \<in> set profiles \<and> 0 < cap_beam r \<and> cap_beam r \<le> the_int upper
    \<and> the_int align dvd cap_beam r
    \<and> capacity_probe admit (cap_profile r) (cap_beam r) = Inr (Some (cap_plans r))
    \<and> (frozen_admission admit profiles \<and> cap_complete r \<longrightarrow>
         (\<forall>p \<in> set profiles. \<forall>k \<ge> 1. k * the_int align \<le> the_int upper \<longrightarrow>
            admits admit p (k * the_int align) \<longrightarrow> k * the_int align \<le> cap_beam r))
    \<and> ((\<forall>n. \<not> expired n) \<longrightarrow> cap_complete r)"
proof -
  let ?a = "the_int align" and ?most = "the_int upper div the_int align"
  from assms have al: "1 \<le> ?a" "?a \<le> the_int upper" by (auto simp: find_capacity_def split: if_splits)
  from assms al obtain b probes full where
    run: "search_profiles expired admit ?a ?most profiles None 0 0 = Inr (Some b, probes, full)"
    and r: "cap_profile r = cap_profile b" "cap_beam r = cap_beam b" "cap_plans r = cap_plans b" "cap_complete r = full"
    by (cases verify) (auto simp: find_capacity_def ebind_Inr_iff split: if_splits option.splits)
  have most: "0 < ?most" using al by (simp add: pos_imp_zdiv_pos_iff)
  have "best_real admit ?a ?most ([] @ profiles) None" by (simp add: best_real_def)
  from search_profiles_spec [OF run most _ this] al
  have spec: "best_real admit ?a ?most profiles (Some b)"
    "frozen_admission admit profiles \<and> best_ok admit ?a ?most [] None \<and> full
       \<longrightarrow> best_ok admit ?a ?most profiles (Some b)" "(\<forall>n. \<not> expired n) \<longrightarrow> full" by simp_all
  have le: "k \<le> ?most \<longleftrightarrow> k * ?a \<le> the_int upper" for k using al by (intro le_floor_div_iff) simp
  from spec(1) obtain k where k: "cap_profile b \<in> set profiles"
    "capacity_probe admit (cap_profile b) (cap_beam b) = Inr (Some (cap_plans b))"
    "cap_beam b = k * ?a" "1 \<le> k" "k \<le> ?most" by (auto simp: best_real_def)
  have "0 < cap_beam b" "cap_beam b \<le> the_int upper" "?a dvd cap_beam b"
    using k(3-5) al le by simp_all
  moreover have "k * ?a \<le> cap_beam b"
    if "frozen_admission admit profiles" full "p \<in> set profiles" "1 \<le> k" "k * ?a \<le> the_int upper"
      "admits admit p (k * ?a)" for p k
  proof -
    have "best_ok admit ?a ?most [] None" by (simp add: best_ok_def)
    then have "best_ok admit ?a ?most profiles (Some b)" using spec(2) that(1,2) by blast
    then show ?thesis using that(3-6) le by (simp add: best_ok_def)
  qed
  ultimately show ?thesis unfolding r using k(1,2) spec(3) by blast
qed

lemma no_capacity_error:
  "capacity_probe admit profile beam \<noteq> Inl (CapacityRejected m)"
  "capacity_search expired (capacity_probe admit profile) align s \<noteq> Inl (CapacityRejected m)"
proof -
  have same: "same_value plans key \<noteq> Inl (CapacityRejected m)" for plans key m
    by (auto simp: same_value_def ebind_Inl_iff dict_item_def split: option.splits elim!: emap_Inl)
  have memory: "memory_ok row \<noteq> Inl (CapacityRejected m)" for row m
    by (auto simp: memory_ok_def ebind_Inl_iff dict_item_def split: option.splits if_splits)
  have plans: "validate_rank_plans plans \<noteq> Inl (CapacityRejected m)" for plans m
  proof
    assume "validate_rank_plans plans = Inl (CapacityRejected m)"
    then have "emap (same_value plans) common_keys = Inl (CapacityRejected m)
        \<or> emap memory_ok plans = Inl (CapacityRejected m)"
      by (auto simp: validate_rank_plans_def ebind_Inl_iff dict_item_def split: list.splits option.splits if_splits)
    then show False using same memory by (auto elim!: emap_Inl)
  qed
  show probe: "capacity_probe admit profile beam \<noteq> Inl (CapacityRejected m)" for beam
    using plans by (auto simp: capacity_probe_def ebind_Inl_iff split: sum.splits exn.splits)
  show "capacity_search expired (capacity_probe admit profile) align s \<noteq> Inl (CapacityRejected m)"
  proof (induction expired "capacity_probe admit profile" align s rule: capacity_search.induct)
    case (1 expired align s)
    then show ?case
      by (subst capacity_search.simps) (auto simp: Let_def probe split: sum.splits option.splits)
  qed
qed

lemma search_profiles_error:
  "search_profiles expired admit align most profiles best probes checks \<noteq> Inl (CapacityRejected m)"
  by (induction profiles arbitrary: best probes checks) (auto simp: ebind_Inl_iff no_capacity_error Let_def)

text \<open>An uninterrupted search reports that nothing is admitted only when that is so.\<close>

lemma find_capacity_none:
  assumes "find_capacity expired admit None (PInt upper) (PInt align) profiles = Inl (CapacityRejected m)"
    and "\<And>n. \<not> expired n" "frozen_admission admit profiles" "p \<in> set profiles" "1 \<le> k" "k * align \<le> upper"
  shows "\<not> admits admit p (k * align)"
proof -
  from assms(1) obtain probes full where al: "1 \<le> align" "align \<le> upper"
    and run: "search_profiles expired admit align (upper div align) profiles None 0 0 = Inr (None, probes, full)"
    by (auto simp: find_capacity_def ebind_Inl_iff search_profiles_error split: if_splits option.splits)
  have most: "0 < upper div align" using al by (simp add: pos_imp_zdiv_pos_iff)
  have "best_real admit align (upper div align) ([] @ profiles) None" by (simp add: best_real_def)
  from search_profiles_spec [OF run most _ this] al assms(2,3)
  have "best_ok admit align (upper div align) profiles None" by (simp add: best_ok_def)
  then show ?thesis using assms(4-6) al le_floor_div_iff [of align k upper] by (simp add: best_ok_def)
qed

text \<open>C18. When admission is monotone for every frozen profile, an uninterrupted capacity search returns
  the largest aligned beam up to the ceiling that any of the profiles admits, together with a profile
  and native plans that admit exactly that beam; even when the deadline cuts the search short, the
  returned beam is a really admitted one.\<close>
theorem find_capacity_largest:
  assumes "find_capacity expired admit verify upper align profiles = Inr r"
  shows "cap_profile r \<in> set profiles \<and> 0 < cap_beam r \<and> cap_beam r \<le> the_int upper
    \<and> the_int align dvd cap_beam r
    \<and> capacity_probe admit (cap_profile r) (cap_beam r) = Inr (Some (cap_plans r))
    \<and> (frozen_admission admit profiles \<and> cap_complete r \<longrightarrow>
         (\<forall>p \<in> set profiles. \<forall>k \<ge> 1. k * the_int align \<le> the_int upper \<longrightarrow>
            admits admit p (k * the_int align) \<longrightarrow> k * the_int align \<le> cap_beam r))
    \<and> ((\<forall>n. \<not> expired n) \<longrightarrow> cap_complete r)"
  using assms by (rule find_capacity_spec)

lemma find_capacity_largest_witness:
  "\<exists>r. find_capacity (\<lambda>_. False) (\<lambda>beam _. if beam \<le> 512 then Inr [lone_plan beam] else Inl (CapacityRejected ''full''))
       None (PInt 1024) (PInt 256) [[]] = Inr r
     \<and> cap_beam r = 512 \<and> the_int (PInt 256) dvd cap_beam r"
proof -
  let ?admit = "\<lambda>beam (_ :: env). if beam \<le> 512 then Inr [lone_plan beam] else Inl (CapacityRejected ''full'')"
  have eff: "plan_int (lone_plan b) ''GLOBAL_BEAM_WIDTH_EFFECTIVE'' = b" for b by (simp add: plan_int_def lone_plan_def)
  have "capacity_probe ?admit [] 512 = Inr (Some [lone_plan 512])" "capacity_probe ?admit [] 768 = Inr None"
    using eff [of 512] by (simp_all add: capacity_probe_def validate_lone_plan)
  then have "\<exists>r. find_capacity (\<lambda>_. False) ?admit None (PInt 1024) (PInt 256) [[]] = Inr r \<and> cap_beam r = 512"
    by (simp add: find_capacity_def capacity_search.simps Let_def)
  with find_capacity_largest [of "\<lambda>_. False" ?admit None "PInt 1024" "PInt 256" "[[]]"] show ?thesis by blast
qed

end
