(* ===== verification/Admission.thy ===== *)
theory Admission
  imports Capacity
begin

text \<open>
  Admission of measured inference batches (\<open>inference_admission.py\<close>) and the maximum frontier with
  its inference receipt (\<open>maximum_beam.py\<close>). A calibration keeps the timing rows of every batch; the
  admission tries the fastest verified batches in order and never changes the requested beam.
  Native planning sessions are a parameter that maps an environment to plans; the sessions left
  open are part of the state.
\<close>

section \<open>Measured candidates\<close>

record inference_row =
  ir_batch :: pyval
  ir_device :: pyval
  ir_correct :: "pyval option"
  ir_numeric :: "pyval option"
  ir_parents :: pyval
  ir_reserved :: "pyval option"
  ir_seconds :: "pyfloat list"

record inference_calibration =
  ic_world :: int
  ic_max_batch :: "int option"
  ic_schema :: "int option"
  ic_requested_beam :: "int option"
  ic_identity :: cohort_signature
  ic_records :: "inference_row list"
  ic_telemetry :: "(string, telemetry_receipt) dict"
  ic_rejected :: "(string, string) dict"
  ic_parent_batch :: int
  ic_reserve_bytes :: int
  ic_estimate :: estimate_row

text \<open>Equality of dictionary keys and set elements: numbers compare by value across their types.\<close>

fun numeric_value :: "pyval \<Rightarrow> rat option" where
  "numeric_value (PInt i) = Some (of_int i)"
| "numeric_value (PBool b) = Some (if b then 1 else 0)"
| "numeric_value (PFloat (Fin r)) = Some r"
| "numeric_value _ = None"

definition py_eq :: "pyval \<Rightarrow> pyval \<Rightarrow> bool" where
  "py_eq a b = (case (numeric_value a, numeric_value b) of
                  (Some x, Some y) \<Rightarrow> x = y
                | (None, None) \<Rightarrow> a = b
                | _ \<Rightarrow> False)"

fun add_row :: "inference_row \<Rightarrow> (pyval \<times> inference_row list) list \<Rightarrow> (pyval \<times> inference_row list) list" where
  "add_row r [] = [(ir_batch r, [r])]"
| "add_row r ((b, rows) # groups) =
     (if py_eq b (ir_batch r) then (b, rows @ [r]) # groups else (b, rows) # add_row r groups)"

definition group_rows :: "inference_row list \<Rightarrow> (pyval \<times> inference_row list) list" where
  "group_rows records = fold add_row records []"

definition complete_ranks :: "int \<Rightarrow> inference_row list \<Rightarrow> bool" where
  "complete_ranks world rows =
     (int (length rows) = world
      \<and> list_all (\<lambda>r. list_ex (\<lambda>i. py_eq (ir_device r) (PInt i)) [0..world - 1]) rows
      \<and> list_all (\<lambda>i. list_ex (\<lambda>r. py_eq (ir_device r) (PInt i)) rows) [0..world - 1])"

definition clean_readout :: "inference_row \<Rightarrow> bool" where
  "clean_readout r = (ir_correct r = Some (PBool True)
     \<and> (case ir_numeric r of Some v \<Rightarrow> py_eq v (PInt 0) | None \<Rightarrow> False))"

definition telemetry_accepted :: "inference_calibration \<Rightarrow> string \<Rightarrow> bool" where
  "telemetry_accepted c batch =
     (let schema = (case ic_schema c of Some s \<Rightarrow> s | None \<Rightarrow> 0); t = map_of (ic_telemetry c) batch in
      (schema \<ge> 3 \<longrightarrow> (case t of Some r \<Rightarrow> tr_throttled r = Some (PBool False) | None \<Rightarrow> False))
      \<and> (schema \<ge> 6 \<longrightarrow> (case t of Some r \<Rightarrow> verified_telemetry r (ic_identity c) | None \<Rightarrow> False)))"

definition sizes_valid :: "inference_row \<Rightarrow> bool" where
  "sizes_valid r = (is_int (ir_parents r) \<and> 0 < the_int (ir_parents r)
     \<and> (case ir_reserved r of Some v \<Rightarrow> is_int v \<and> 0 \<le> the_int v | None \<Rightarrow> False))"

record admission_candidate =
  ac_batch :: int
  ac_reserve :: int
  ac_estimate :: estimate_row

definition group_samples :: "string \<Rightarrow> int \<Rightarrow> inference_row list \<Rightarrow> measurement list" where
  "group_samples name world rows =
     map (\<lambda>i. \<lparr>m_profile = name, m_parents = PInt (the_int (ir_parents (hd rows)) * world),
               m_seconds = map (\<lambda>r. ir_seconds r ! i) rows, m_correct = True, m_admitted = True,
               m_throttled = False\<rparr>)
       [0..<Min (set (map (length \<circ> ir_seconds) rows))]"

definition group_candidate ::
  "resampler \<Rightarrow> inference_calibration \<Rightarrow> pyval \<times> inference_row list \<Rightarrow> admission_candidate option result" where
  "group_candidate resample c g =
     (let (batch, rows) = g; name = str_int (the_int batch) in
      if \<not> (is_int batch \<and> 0 < the_int batch
            \<and> the_int batch \<le> (case ic_max_batch c of Some m \<Rightarrow> m | None \<Rightarrow> 65536)) then Inr None
      else if \<not> complete_ranks (ic_world c) rows then Inr None
      else if \<not> list_all clean_readout rows then Inr None
      else if \<not> telemetry_accepted c name then Inr None
      else if \<not> list_all (\<lambda>r. py_eq (ir_parents r) (ir_parents (hd rows))) rows then Inr None
      else if \<not> list_all sizes_valid rows then Inr None
      else (case estimate resample default_options name (group_samples name (ic_world c) rows) of
              Inl e \<Rightarrow> if is_value_error e then Inr None else Inl e
            | Inr v \<Rightarrow>
                Inr (Some \<lparr>ac_batch = the_int batch,
                     ac_reserve = Max (set (map (the_int \<circ> the \<circ> ir_reserved) rows)) + 536870912,
                     ac_estimate = v\<rparr>)))"

definition candidate_key :: "int \<Rightarrow> admission_candidate \<Rightarrow> bool \<times> rat \<times> int" where
  "candidate_key preferred c = (ac_batch c \<noteq> preferred, e_median (ac_estimate c), ac_reserve c)"

definition measured_candidates :: "resampler \<Rightarrow> inference_calibration \<Rightarrow> admission_candidate list result" where
  "measured_candidates resample c =
     ebind (emap (group_candidate resample c) (group_rows (ic_records c))) (\<lambda>cs.
     Inr (sort_key (candidate_key (ic_parent_batch c)) (concat (map (\<lambda>o'. case o' of Some x \<Rightarrow> [x] | None \<Rightarrow> []) cs))))"

section \<open>Selecting an admitted batch\<close>

record admission_attempt =
  at_candidate :: admission_candidate
  at_reason :: "string option"

record admission_receipt =
  ad_unconstrained :: int
  ad_unconstrained_estimate :: estimate_row
  ad_attempts :: "admission_attempt list"

text \<open>The admission callback may change state (open sessions); a capacity rejection moves on to the
  next candidate, every other failure ends the selection.\<close>

fun try_candidates ::
  "(admission_candidate \<Rightarrow> 's \<Rightarrow> plan list result \<times> 's) \<Rightarrow> admission_candidate list \<Rightarrow> admission_attempt list \<Rightarrow> 's
    \<Rightarrow> (admission_candidate \<times> plan list \<times> admission_attempt list) result \<times> 's" where
  "try_candidates admit [] attempts s =
     (Inl (NativeBackendError ''no measured inference batch admits the requested frontier''), s)"
| "try_candidates admit (c # cs) attempts s =
     (case admit c s of
        (Inl (CapacityRejected m), s') \<Rightarrow>
          try_candidates admit cs (attempts @ [\<lparr>at_candidate = c, at_reason = Some m\<rparr>]) s'
      | (Inl e, s') \<Rightarrow> (Inl e, s')
      | (Inr plans, s') \<Rightarrow> (Inr (c, plans, attempts @ [\<lparr>at_candidate = c, at_reason = None\<rparr>]), s'))"

definition select_admitted ::
  "resampler \<Rightarrow> inference_calibration \<Rightarrow> (admission_candidate \<Rightarrow> 's \<Rightarrow> plan list result \<times> 's) \<Rightarrow> 's
    \<Rightarrow> (inference_calibration \<times> admission_receipt \<times> plan list) result \<times> 's" where
  "select_admitted resample c admit s =
     (case measured_candidates resample c of
        Inl e \<Rightarrow> (Inl e, s)
      | Inr cs \<Rightarrow>
          (case try_candidates admit cs [] s of
             (Inl e, s') \<Rightarrow> (Inl e, s')
           | (Inr (chosen, plans, attempts), s') \<Rightarrow>
               (Inr (c\<lparr>ic_parent_batch := ac_batch chosen, ic_reserve_bytes := ac_reserve chosen,
                       ic_estimate := ac_estimate chosen\<rparr>,
                     \<lparr>ad_unconstrained = ic_parent_batch c, ad_unconstrained_estimate = ic_estimate c,
                      ad_attempts = attempts\<rparr>, plans), s')))"

text \<open>The environment of one batch: the expansion microbatch is the inference batch times the number of
  neighbours that one model call scores.\<close>

definition batch_environment :: "int \<Rightarrow> int \<Rightarrow> int \<Rightarrow> env \<Rightarrow> env" where
  "batch_environment multiplier batch reserve environment =
     dict_set ''BEAM_ENSEMBLE_RESERVE_BYTES'' (str_int reserve)
       (dict_set ''BEAM_ENSEMBLE_INFERENCE_MICRO'' (str_int batch)
         (dict_set ''BEAM_B_MICRO'' (str_int (batch * multiplier)) environment))"

text \<open>The callback of the admission: it opens a planning session for the batch, closes it when the native
  planner refuses, and leaves it open only when the caller wants to keep it. The state is the list of open sessions.\<close>

definition admit_batch ::
  "(env \<Rightarrow> plan list result) \<Rightarrow> int \<Rightarrow> bool \<Rightarrow> env \<Rightarrow> admission_candidate \<Rightarrow> int list \<Rightarrow> plan list result \<times> int list" where
  "admit_batch session multiplier retain environment c live =
     (case session (batch_environment multiplier (ac_batch c) (ac_reserve c) environment) of
        Inl e \<Rightarrow> (Inl e, live)
      | Inr plans \<Rightarrow> (Inr plans, if retain then live @ [ac_batch c] else live))"

definition admit_inference ::
  "resampler \<Rightarrow> (nat \<Rightarrow> unit result) \<Rightarrow> (env \<Rightarrow> plan list result) \<Rightarrow> string \<Rightarrow> int \<Rightarrow> int \<Rightarrow> bool \<Rightarrow> env
    \<Rightarrow> inference_calibration \<Rightarrow> (inference_calibration \<times> admission_receipt \<times> plan list \<times> env) result \<times> int list" where
  "admit_inference resample verify session model_backend output_dim move_count' retain environment c =
     (case verify 0 of
        Inl e \<Rightarrow> (Inl e, [])
      | Inr _ \<Rightarrow>
          let multiplier = (if model_backend = ''mlp'' \<and> output_dim = 1 then move_count' else 1) in
          (case select_admitted resample c (admit_batch session multiplier retain environment) [] of
             (Inl e, live) \<Rightarrow> (Inl e, [])
           | (Inr (chosen, receipt, plans), live) \<Rightarrow>
               (case verify 1 of
                  Inl e \<Rightarrow> (Inl e, [])
                | Inr _ \<Rightarrow>
                    (Inr (chosen, receipt, plans,
                          batch_environment multiplier (ic_parent_batch chosen) (ic_reserve_bytes chosen) environment),
                     live))))"

section \<open>Correctness of the admission\<close>

lemma try_candidates_split:
  assumes "try_candidates admit cs attempts s = (Inr (c, plans, attempts'), s')"
  shows "\<exists>before after. cs = before @ c # after \<and> length attempts' = length attempts + length before + 1
    \<and> (\<forall>b \<in> set before. \<exists>m t t'. admit b t = (Inl (CapacityRejected m), t'))
    \<and> (\<exists>t. admit c t = (Inr plans, s'))"
  using assms
proof (induction admit cs attempts s rule: try_candidates.induct)
  case (2 admit d cs attempts s)
  obtain r t where r: "admit d s = (r, t)" by (cases "admit d s")
  show ?case
  proof (cases "\<exists>m. r = Inl (CapacityRejected m)")
    case True
    then obtain m where m: "r = Inl (CapacityRejected m)" by blast
    then have "try_candidates admit cs (attempts @ [\<lparr>at_candidate = d, at_reason = Some m\<rparr>]) t = (Inr (c, plans, attempts'), s')"
      using "2.prems" r by simp
    from "2.IH" [OF r [symmetric] m refl this]
    obtain before after where b: "cs = before @ c # after"
      "length attempts' = length (attempts @ [\<lparr>at_candidate = d, at_reason = Some m\<rparr>]) + length before + 1"
      "\<forall>b \<in> set before. \<exists>m t t'. admit b t = (Inl (CapacityRejected m), t')"
      "\<exists>t. admit c t = (Inr plans, s')" by auto
    show ?thesis
      using b r m by (intro exI [of _ "d # before"] exI [of _ after]) auto
  next
    case False
    then have "c = d \<and> r = Inr plans \<and> s' = t \<and> length attempts' = length attempts + 1"
      using "2.prems" r by (auto split: sum.splits exn.splits)
    then show ?thesis using r by (intro exI [of _ "[]"] exI [of _ cs]) auto
  qed
qed simp

lemma try_candidates_live:
  assumes "try_candidates (admit_batch session multiplier retain environment) cs attempts live = (r, live')"
  shows "case r of Inl e \<Rightarrow> live' = live
    | Inr (c, plans, _) \<Rightarrow> live' = (if retain then live @ [ac_batch c] else live)
        \<and> session (batch_environment multiplier (ac_batch c) (ac_reserve c) environment) = Inr plans"
  using assms
  by (induction "admit_batch session multiplier retain environment" cs attempts live rule: try_candidates.induct)
    (auto simp: admit_batch_def split: sum.splits exn.splits if_splits)

lemma group_candidate_sound:
  assumes "group_candidate resample c (b, rows) = Inr (Some a)"
  shows "is_int b \<and> ac_batch a = the_int b \<and> 0 < ac_batch a \<and> complete_ranks (ic_world c) rows
    \<and> list_all clean_readout rows \<and> list_all sizes_valid rows
    \<and> estimate resample default_options (str_int (the_int b)) (group_samples (str_int (the_int b)) (ic_world c) rows)
        = Inr (ac_estimate a)
    \<and> ac_reserve a = Max (set (map (the_int \<circ> the \<circ> ir_reserved) rows)) + 536870912"
  using assms by (auto simp: group_candidate_def Let_def split: if_splits sum.splits)

lemma group_rows_mem:
  "(b, rows) \<in> set (fold add_row records groups) \<Longrightarrow>
     set rows \<subseteq> set records \<union> \<Union> (set ` snd ` set groups)"
proof (induction records arbitrary: groups)
  case (Cons r records)
  have "\<Union> (set ` snd ` set (add_row r groups)) \<subseteq> insert r (\<Union> (set ` snd ` set groups))" for groups
    by (induction r groups rule: add_row.induct) auto
  with Cons show ?case by fastforce
qed force

lemma measured_candidates_sound:
  assumes "measured_candidates resample c = Inr cs"
  shows "sorted (map (candidate_key (ic_parent_batch c)) cs)"
    and "a \<in> set cs \<Longrightarrow> \<exists>b rows. (b, rows) \<in> set (group_rows (ic_records c))
           \<and> group_candidate resample c (b, rows) = Inr (Some a)"
proof -
  from assms obtain os where os: "emap (group_candidate resample c) (group_rows (ic_records c)) = Inr os"
    and cs: "cs = sort_key (candidate_key (ic_parent_batch c)) (concat (map (\<lambda>o'. case o' of Some x \<Rightarrow> [x] | None \<Rightarrow> []) os))"
    by (auto simp: measured_candidates_def ebind_Inr_iff)
  show "sorted (map (candidate_key (ic_parent_batch c)) cs)" unfolding cs by simp
  assume "a \<in> set cs"
  then have "Some a \<in> set os" unfolding cs by (auto split: option.splits)
  with os obtain g where "g \<in> set (group_rows (ic_records c))" "group_candidate resample c g = Inr (Some a)"
    by (rule emap_member)
  then show "\<exists>b rows. (b, rows) \<in> set (group_rows (ic_records c))
           \<and> group_candidate resample c (b, rows) = Inr (Some a)" by (metis surj_pair)
qed


definition timed_row :: inference_row where
  "timed_row = \<lparr>ir_batch = PInt 64, ir_device = PInt 0, ir_correct = Some (PBool True), ir_numeric = Some (PInt 0),
     ir_parents = PInt 100, ir_reserved = Some (PInt 1000), ir_seconds = replicate 5 (Fin 1)\<rparr>"

definition timed_calibration :: inference_calibration where
  "timed_calibration = \<lparr>ic_world = 1, ic_max_batch = None, ic_schema = None, ic_requested_beam = None,
     ic_identity = \<lparr>cs_uuids = [], cs_world = 1, cs_devices = None\<rparr>, ic_records = [timed_row],
     ic_telemetry = [], ic_rejected = [], ic_parent_batch = 64, ic_reserve_bytes = 0,
     ic_estimate = \<lparr>e_profile = '''', e_median = 1, e_low = 1, e_high = 1, e_mad = 0, e_repeats = 0\<rparr>\<rparr>"

lemma timed_estimate:
  "\<exists>v. estimate (\<lambda>vs _. vs) default_options (str_int 64) (group_samples (str_int 64) 1 [timed_row]) = Inr v"
proof -
  have upt: "[0..<5] = [0, 1, 2, 3, 4 :: nat]" by (simp add: upt_rec)
  show ?thesis
    by (simp add: estimate_def Let_def default_options_def group_samples_def timed_row_def upt
        cohorts_def seconds_per_parent_def median_def)
qed


end
