(* ===== verification/Contracts.thy ===== *)
theory Contracts
  imports Prelude
begin

text \<open>
  The mathematical boundary of the adapter (\<open>contracts.py\<close>): the admission of a CayleyPy graph and
  a start state as a \<open>GraphContract\<close>, and the replay of a move path that every returned solution
  has to pass. CayleyPy's graph definition is third-party code and enters as the record of the
  attributes that \<open>from_graph\<close> reads; the SHA-256 of the JSON encoding of generators and central
  state is the parameter \<open>fingerprint\<close>, a function of exactly these two fields.
\<close>

section \<open>Admission of integer vectors\<close>

text \<open>\<open>_integers\<close>: no element may be a bool or a float, and nothing is coerced.\<close>

definition integer_dtypes :: "string list" where
  "integer_dtypes = [''uint8'', ''int8'', ''int16'', ''int32'', ''int64'']"

fun to_items :: "pyval \<Rightarrow> pyval result" where
  "to_items (PTensor dt v) =
     (if dt \<in> set integer_dtypes then Inr v
      else Inl (NativeUnavailable ''must contain integers without coercion''))"
| "to_items (PNdarray k v) =
     (if k \<in> {CHR ''i'', CHR ''u''} then Inr v
      else Inl (NativeUnavailable ''must contain integers without coercion''))"
| "to_items v = Inr v"

definition first_row :: "bool \<Rightarrow> pyval list \<Rightarrow> pyval list" where
  "first_row single_row xs =
     (case xs of [x] \<Rightarrow> (case sequence_items x of
          Some ys \<Rightarrow> if single_row then ys else xs
        | None \<Rightarrow> xs)
      | _ \<Rightarrow> xs)"

definition coercion_free :: "pyval \<Rightarrow> bool" where
  "coercion_free x \<longleftrightarrow> \<not> is_any_bool x \<and> is_integral x"

fun as_int :: "pyval \<Rightarrow> int" where
  "as_int (PInt i) = i"
| "as_int (PNpInt i) = i"
| "as_int _ = 0"

definition integers :: "pyval \<Rightarrow> nat \<Rightarrow> bool \<Rightarrow> int list result" where
  "integers value n single_row =
     ebind (to_items value) (\<lambda>items.
       case sequence_items items of
         None \<Rightarrow> Inl (NativeUnavailable ''must be a vector of integers'')
       | Some xs \<Rightarrow>
           (let row = first_row single_row xs in
            if length row \<noteq> n
            then Inl (NativeUnavailable ''must have exactly one state'')
            else if \<not> list_all coercion_free row
            then Inl (NativeUnavailable ''must contain integers without coercion'')
            else Inr (map as_int row)))"

lemma integers_length: "integers v n r = Inr xs \<Longrightarrow> length xs = n"
  by (auto simp: integers_def Let_def result_simps split: option.splits if_splits)

lemma coercion_free_iff: "coercion_free x \<longleftrightarrow> (\<exists>i. x = PInt i \<or> x = PNpInt i)"
  by (cases x) (auto simp: coercion_free_def)

lemma first_row_ints: "first_row r (map PInt xs) = map PInt xs"
  by (auto simp: first_row_def split: list.splits)

lemma coercion_free_PInt [simp]: "list_all coercion_free (map PInt xs)"
  by (simp add: list_all_iff coercion_free_iff)

lemma integers_PTuple: "integers (PTuple (map PInt xs)) (length xs) r = Inr xs"
  by (simp add: integers_def first_row_ints comp_def)

lemma integers_PList: "integers (PList (map PInt xs)) (length xs) r = Inr xs"
  by (simp add: integers_def first_row_ints comp_def)

section \<open>The contract\<close>

text \<open>The attributes of \<open>graph.definition\<close> that are read; \<open>None\<close> when it is absent.\<close>

record graph_definition =
  is_permutation_group :: bool
  state_size :: pyval
  central_state :: pyval
  generators_permutations :: "pyval list"
  definition_names :: "pyval list"

record graph_contract =
  state_len :: nat
  num_classes :: int
  generators :: "nat list list"
  generator_names :: "string list"
  center :: "int list"
  start :: "int list"
  graph_hash :: string

definition move_count :: "graph_contract \<Rightarrow> nat" where
  "move_count c = length (generators c)"

fun str_of :: "pyval \<Rightarrow> string" where
  "str_of (PStr s) = s"
| "str_of _ = []"

definition check_size :: "pyval \<Rightarrow> nat result" where
  "check_size v =
     (case v of
        PInt n \<Rightarrow> if 1 \<le> n \<and> n \<le> 150 then Inr (nat n)
                  else Inl (NativeUnavailable ''native logical state length must be in [1, 150]'')
      | _ \<Rightarrow> Inl (NativeUnavailable ''native logical state length must be in [1, 150]''))"

definition value_max :: "nat \<Rightarrow> int" where
  "value_max n = (if 128 < n then 255 else 127)"

definition from_graph ::
    "(nat list list \<Rightarrow> int list \<Rightarrow> string) \<Rightarrow> graph_definition option \<Rightarrow> pyval \<Rightarrow> graph_contract result"
where
  "from_graph fingerprint defn start_state =
     (case defn of
        None \<Rightarrow> Inl (NativeUnavailable ''native adapter currently supports permutation generators only'')
      | Some d \<Rightarrow>
        if \<not> is_permutation_group d
        then Inl (NativeUnavailable ''native adapter currently supports permutation generators only'')
        else
          ebind (check_size (state_size d)) (\<lambda>n.
          ebind (integers (central_state d) n False) (\<lambda>cen.
          ebind (integers start_state n True) (\<lambda>sta.
          ebind (raise_if (\<not> list_all (\<lambda>x. 0 \<le> x \<and> x \<le> value_max n) (cen @ sta))
                  (NativeUnavailable ''native state values must be integers'')) (\<lambda>_.
          ebind (raise_if (mset cen \<noteq> mset sta)
                  (NativeUnavailable ''start_state multiset must exactly match central_state'')) (\<lambda>_.
          ebind (emap (\<lambda>g. integers g n False) (generators_permutations d)) (\<lambda>gens.
          ebind (raise_if (gens = [] \<or> 255 < length gens)
                  (NativeUnavailable ''native move count must be in [1, 255]'')) (\<lambda>_.
          ebind (raise_if (\<not> list_all (\<lambda>g. sort g = map int [0..<n]) gens)
                  (NativeUnavailable ''every native generator must be a complete gather permutation'')) (\<lambda>_.
          ebind (raise_if (length (definition_names d) \<noteq> length gens
                           \<or> \<not> list_all is_str (definition_names d))
                  (NativeUnavailable ''generator_names must contain one string per ordered generator'')) (\<lambda>_.
          let moves = map (map nat) gens in
          Inr \<lparr>state_len = n, num_classes = Max (set cen) + 1, generators = moves,
               generator_names = map str_of (definition_names d), center = cen, start = sta,
               graph_hash = fingerprint moves cen\<rparr>))))))))))"

text \<open>\<open>to_puzzle_info\<close>: synthetic names \<open>m0, m1, ...\<close>, so the native parser never sees user names.\<close>

definition synthetic_name :: "nat \<Rightarrow> string" where
  "synthetic_name i = CHR ''m'' # str_nat i"

definition to_puzzle_info :: "graph_contract \<Rightarrow> int list \<times> (string \<times> nat list) list" where
  "to_puzzle_info c =
     (center c, map (\<lambda>i. (synthetic_name i, generators c ! i)) [0..<move_count c])"

section \<open>Replay\<close>

text \<open>\<open>tuple(state[source] for source in move)\<close>.\<close>

definition gather :: "'a list \<Rightarrow> nat list \<Rightarrow> 'a list" where
  "gather s g = map (\<lambda>source. s ! source) g"

fun replay_loop :: "graph_contract \<Rightarrow> int list \<Rightarrow> pyval list \<Rightarrow> bool" where
  "replay_loop c state [] = (state = center c)"
| "replay_loop c state (move # path) =
     (case move of
        PInt m \<Rightarrow> if 0 \<le> m \<and> m < int (move_count c)
                  then replay_loop c (gather state (generators c ! nat m)) path
                  else False
      | _ \<Rightarrow> False)"

definition replay :: "graph_contract \<Rightarrow> pyval \<Rightarrow> bool" where
  "replay c path =
     (case sequence_items path of None \<Rightarrow> False | Some moves \<Rightarrow> replay_loop c (start c) moves)"

section \<open>The contract invariant\<close>

definition wf_contract :: "graph_contract \<Rightarrow> bool" where
  "wf_contract c \<longleftrightarrow>
     1 \<le> state_len c \<and> state_len c \<le> 150
     \<and> length (center c) = state_len c
     \<and> mset (start c) = mset (center c)
     \<and> (\<forall>x \<in> set (center c). 0 \<le> x \<and> x \<le> value_max (state_len c) \<and> x < num_classes c)
     \<and> generators c \<noteq> [] \<and> length (generators c) \<le> 255
     \<and> (\<forall>g \<in> set (generators c). is_perm (state_len c) g)
     \<and> length (generator_names c) = length (generators c)"

lemma sort_int_perm:
  assumes "sort g = map int [0..<n]"
  shows "is_perm n (map nat g)"
proof -
  have g: "set g = int ` {..<n}"
    using assms by (metis atLeast_upt set_map set_sort)
  have "distinct g"
    using assms by (metis distinct_map distinct_sort distinct_upt inj_on_of_nat)
  then have "distinct (map nat g)"
    using g by (auto simp: distinct_map inj_on_def)
  moreover have "set (map nat g) = {..<n}"
    using g by force
  ultimately show ?thesis by (simp add: is_perm_iff)
qed

lemma check_size_iff [result_simps]:
  "check_size v = Inr n \<longleftrightarrow> (\<exists>i. v = PInt i \<and> 1 \<le> i \<and> i \<le> 150 \<and> n = nat i)"
  by (cases v) (auto simp: check_size_def)

lemma from_graph_wf_aux:
  assumes "from_graph fp d s = Inr c"
  shows "wf_contract c"
proof -
  from assms obtain d' i gens where d: "d = Some d'" "is_permutation_group d'"
    and i: "state_size d' = PInt i" "1 \<le> i" "i \<le> 150"
    and emapped: "emap (\<lambda>g. integers g (nat i) False) (generators_permutations d') = Inr gens"
    and cen: "integers (central_state d') (nat i) False = Inr (center c)"
    and sta: "integers s (nat i) True = Inr (start c)"
    and vals: "list_all (\<lambda>x. 0 \<le> x \<and> x \<le> value_max (nat i)) (center c @ start c)"
    and ms: "mset (center c) = mset (start c)"
    and gens: "gens \<noteq> []" "length gens \<le> 255"
      "list_all (\<lambda>g. sort g = map int [0..<nat i]) gens"
    and names: "length (definition_names d') = length gens"
    and c: "state_len c = nat i" "generators c = map (map nat) gens"
      "num_classes c = Max (set (center c)) + 1"
      "generator_names c = map str_of (definition_names d')"
    by (auto simp: from_graph_def result_simps Let_def not_less split: option.splits if_splits)
  have "\<forall>x \<in> set (center c). x < num_classes c"
    by (simp add: c zle_add1_eq_le)
  moreover have "\<forall>g \<in> set (generators c). is_perm (nat i) g"
    using gens(3) by (auto simp: c(2) list_all_iff intro: sort_int_perm)
  ultimately show ?thesis
    using i gens vals ms names integers_length [OF cen] c
    by (auto simp: wf_contract_def list_all_iff)
qed

lemma wf_contract_simps:
  assumes "wf_contract c"
  shows "length (center c) = state_len c" "length (start c) = state_len c"
    "\<forall>g \<in> set (generators c). is_perm (state_len c) g"
    "length (generator_names c) = move_count c"
proof -
  have "size (mset (start c)) = size (mset (center c))"
    using assms by (simp add: wf_contract_def)
  then show "length (start c) = state_len c" using assms by (simp add: wf_contract_def)
qed (use assms in \<open>simp_all add: wf_contract_def move_count_def\<close>)

section \<open>The action of move paths\<close>

text \<open>
  The specification of replay: a path of move numbers acts on a state by gathering through one
  generator after the other. A state is a function from positions to colours, and gathering is
  composition with the generator.
\<close>

fun act :: "nat list list \<Rightarrow> 'a list \<Rightarrow> nat list \<Rightarrow> 'a list" where
  "act gens s [] = s"
| "act gens s (m # ms) = act gens (gather s (gens ! m)) ms"

definition path_ok :: "graph_contract \<Rightarrow> nat list \<Rightarrow> bool" where
  "path_ok c ms \<longleftrightarrow> (\<forall>m \<in> set ms. m < move_count c)"

definition solves :: "graph_contract \<Rightarrow> nat list \<Rightarrow> bool" where
  "solves c ms \<longleftrightarrow> path_ok c ms \<and> act (generators c) (start c) ms = center c"

definition py_path :: "nat list \<Rightarrow> pyval" where
  "py_path ms = PTuple (map (PInt \<circ> int) ms)"

lemma length_gather [simp]: "length (gather s g) = length g"
  by (simp add: gather_def)

lemma gather_nth [simp]: "i < length g \<Longrightarrow> gather s g ! i = s ! (g ! i)"
  by (simp add: gather_def)

lemma gather_id: "length s = n \<Longrightarrow> gather s [0..<n] = s"
  by (auto simp: gather_def intro: nth_equalityI)

lemma gather_gather:
  "(\<And>i. i \<in> set h \<Longrightarrow> i < length g) \<Longrightarrow> gather (gather s g) h = gather s (gather g h)"
  by (simp add: gather_def)

lemma mset_gather:
  assumes "is_perm n g" "length s = n"
  shows "mset (gather s g) = mset s"
proof -
  have "mset (gather s g) = image_mset (\<lambda>i. s ! i) (mset g)"
    by (simp add: gather_def)
  also have "mset g = mset [0..<n]"
    using assms(1) by (metis is_perm_def mset_sort)
  also have "image_mset (\<lambda>i. s ! i) (mset [0..<n]) = mset (map (\<lambda>i. s ! i) [0..<n])"
    by simp
  also have "map (\<lambda>i. s ! i) [0..<n] = s"
    using assms(2) by (metis map_nth)
  finally show ?thesis .
qed

lemma act_append: "act gens s (xs @ ys) = act gens (act gens s xs) ys"
  by (induction xs arbitrary: s) simp_all

lemma act_mset:
  assumes "\<forall>g \<in> set gens. is_perm n g" "\<forall>m \<in> set ms. m < length gens" "length s = n"
  shows "mset (act gens s ms) = mset s \<and> length (act gens s ms) = n"
  using assms(2,3)
proof (induction ms arbitrary: s)
  case (Cons m ms)
  then have g: "is_perm n (gens ! m)" using assms(1) by simp
  then have "length (gather s (gens ! m)) = n" by (simp add: is_perm_length)
  with Cons mset_gather [OF g] show ?case by simp
qed simp

lemma replay_loop_act:
  "replay_loop c s (map (PInt \<circ> int) ms) \<longleftrightarrow> path_ok c ms \<and> act (generators c) s ms = center c"
  by (induction ms arbitrary: s) (auto simp: path_ok_def)

lemma replay_py_path [simp]: "replay c (py_path ms) \<longleftrightarrow> solves c ms"
  by (simp add: replay_def py_path_def solves_def replay_loop_act)

lemma replay_loop_ints:
  "replay_loop c s ps \<Longrightarrow> \<exists>ms. ps = map (PInt \<circ> int) ms"
proof (induction ps arbitrary: s)
  case (Cons p ps)
  then obtain i where i: "p = PInt i" "0 \<le> i"
    and r: "replay_loop c (gather s (generators c ! nat i)) ps"
    by (auto split: pyval.splits if_splits)
  with Cons.IH obtain ms where "ps = map (PInt \<circ> int) ms" by blast
  with i have "p # ps = map (PInt \<circ> int) (nat i # ms)" by simp
  then show ?case by (rule exI)
qed simp

lemma replay_inv:
  assumes "replay c p"
  obtains ms where "sequence_items p = Some (map (PInt \<circ> int) ms)" "solves c ms"
proof -
  from assms obtain ps where ps: "sequence_items p = Some ps" "replay_loop c (start c) ps"
    by (auto simp: replay_def split: option.splits)
  with replay_loop_ints obtain ms where "ps = map (PInt \<circ> int) ms" by blast
  with ps that show ?thesis by (simp add: solves_def replay_loop_act)
qed

section \<open>Properties of admission and replay\<close>

text \<open>A three-element example used by the witnesses: left shift, right shift and a swap.\<close>

definition lrx_contract :: graph_contract where
  "lrx_contract = \<lparr>state_len = 3, num_classes = 3, generators = [[1, 2, 0], [2, 0, 1], [1, 0, 2]],
     generator_names = [''L'', ''R'', ''X''], center = [0, 1, 2], start = [1, 2, 0], graph_hash = []\<rparr>"

lemma wf_lrx: "wf_contract lrx_contract"
  by (simp add: wf_contract_def lrx_contract_def value_max_def is_perm_def upt_rec)

definition lrx_definition :: graph_definition where
  "lrx_definition = \<lparr>is_permutation_group = True, state_size = PInt 3,
     central_state = PList [PInt 0, PInt 1, PInt 2],
     generators_permutations = [PList [PInt 1, PInt 2, PInt 0], PList [PInt 2, PInt 0, PInt 1],
       PList [PInt 1, PInt 0, PInt 2]],
     definition_names = [PStr ''L'', PStr ''R'', PStr ''X'']\<rparr>"

lemma from_graph_lrx:
  "from_graph (\<lambda>_ _. []) (Some lrx_definition) (PList [PInt 1, PInt 2, PInt 0])
     = Inr lrx_contract"
  by (simp add: from_graph_def lrx_definition_def lrx_contract_def check_size_def integers_def
      first_row_def coercion_free_def value_max_def raise_if_def Let_def upt_rec)

text \<open>C3. Every contract that \<open>from_graph\<close> admits is well formed: 1 to 150 positions, the start state
  a rearrangement of the centre, all colours in the native range and below \<open>num_classes\<close>, between 1
  and 255 generators, each a complete permutation of the positions, and one name per generator.\<close>

theorem from_graph_wf:
  assumes "from_graph fp defn start_state = Inr c"
  shows "wf_contract c"
  using assms by (rule from_graph_wf_aux)

lemma from_graph_wf_witness: "wf_contract lrx_contract"
  by (rule from_graph_wf [OF from_graph_lrx])

text \<open>Replay accepts exactly the lists and tuples of proper integers that name generators and
  whose successive gathers turn the start state into the centre; anything else is rejected without
  an exception.\<close>

theorem replay_exact:
  "replay c path \<longleftrightarrow>
     (\<exists>ms. sequence_items path = Some (map (PInt \<circ> int) ms) \<and> (\<forall>m \<in> set ms. m < length (generators c))
        \<and> foldl gather (start c) (map ((!) (generators c)) ms) = center c)"
proof -
  have act: "act gens s ms = foldl gather s (map ((!) gens) ms)" for gens and s :: "int list" and ms
    by (induction ms arbitrary: s) simp_all
  show ?thesis
  proof
    assume "replay c path"
    then show "\<exists>ms. sequence_items path = Some (map (PInt \<circ> int) ms) \<and>
        (\<forall>m \<in> set ms. m < length (generators c))
        \<and> foldl gather (start c) (map ((!) (generators c)) ms) = center c"
      by (rule replay_inv) (auto simp: solves_def path_ok_def move_count_def act)
  next
    assume "\<exists>ms. sequence_items path = Some (map (PInt \<circ> int) ms) \<and>
        (\<forall>m \<in> set ms. m < length (generators c))
        \<and> foldl gather (start c) (map ((!) (generators c)) ms) = center c"
    then show "replay c path"
      by (auto simp: replay_def replay_loop_act path_ok_def move_count_def act)
  qed
qed

lemma replay_exact_witness:
  "1 < length (generators lrx_contract)
     \<and> foldl gather (start lrx_contract) (map ((!) (generators lrx_contract)) [1]) = center lrx_contract
     \<and> replay lrx_contract (PTuple [PInt 1])"
proof -
  have h: "sequence_items (PTuple [PInt 1]) = Some (map (PInt \<circ> int) [1])" by simp
  have r: "(\<forall>m \<in> set [1]. m < length (generators lrx_contract))
     \<and> foldl gather (start lrx_contract) (map ((!) (generators lrx_contract)) [1]) = center lrx_contract"
    by (simp add: lrx_contract_def gather_def)
  with h have "replay lrx_contract (PTuple [PInt 1])"
    using replay_exact [of lrx_contract "PTuple [PInt 1]"] by blast
  with r show ?thesis by simp
qed

end
