(* ===== verification/Texts.thy ===== *)
theory Texts
  imports Geometry
begin

text \<open>
  Text handling that the log parsers share: white space, \<open>str.split\<close>, \<open>str.strip\<close>, \<open>str.partition\<close>, prefixes,
  spans of digits and of non-blanks (the regular expressions of the code are deterministic sequences
  of these), \<open>float(s)\<close> on decimal notation, and the words of a line. Characters are the
  8-bit characters of HOL strings.
\<close>

definition is_space :: "char \<Rightarrow> bool" where
  "is_space c = (let n = (of_char c :: nat) in 9 \<le> n \<and> n \<le> 13 \<or> 28 \<le> n \<and> n \<le> 32 \<or> n = 133 \<or> n = 160)"

definition is_black :: "char \<Rightarrow> bool" where
  "is_black c = (\<not> is_space c)"

function py_split :: "string \<Rightarrow> string list" where
  "py_split s = (let t = dropWhile is_space s in
     if t = [] then [] else takeWhile is_black t # py_split (dropWhile is_black t))"
  by pat_completeness auto
termination
proof (relation "measure length")
  show "wf (measure (length :: string \<Rightarrow> nat))" by simp
next
  fix s t :: string
  assume t: "t = dropWhile is_space s" and ne: "t \<noteq> []"
  obtain c cs where c: "t = c # cs" using ne by (cases t) auto
  have "hd t = c" by (simp add: c)
  moreover have "\<not> is_space (hd t)" unfolding t by (rule hd_dropWhile) (use ne t in simp)
  ultimately have "is_black c" by (simp add: is_black_def)
  then have "length (dropWhile is_black t) \<le> length cs" using c by (simp add: length_dropWhile_le)
  moreover have "length t \<le> length s" unfolding t by (rule length_dropWhile_le)
  ultimately show "(dropWhile is_black t, s) \<in> measure length" using c by simp
qed

declare py_split.simps [simp del]

definition py_rstrip :: "string \<Rightarrow> string" where
  "py_rstrip s = rev (dropWhile is_space (rev s))"

definition py_strip :: "string \<Rightarrow> string" where
  "py_strip s = py_rstrip (dropWhile is_space s)"

text \<open>\<open>s.split(c, 1)\<close>: the parts before and after the first separator, if there is one.\<close>

definition split_once :: "char \<Rightarrow> string \<Rightarrow> (string \<times> string) option" where
  "split_once c s =
     (if c \<in> set s then Some (takeWhile (\<lambda>x. x \<noteq> c) s, tl (dropWhile (\<lambda>x. x \<noteq> c) s)) else None)"

definition after_prefix :: "string \<Rightarrow> string \<Rightarrow> string option" where
  "after_prefix p s = (if prefix p s then Some (drop (length p) s) else None)"

text \<open>One or more characters of a class, greedily.\<close>

definition span1 :: "(char \<Rightarrow> bool) \<Rightarrow> string \<Rightarrow> (string \<times> string) option" where
  "span1 P s = (let w = takeWhile P s in if w = [] then None else Some (w, drop (length w) s))"

definition span_nat :: "string \<Rightarrow> (nat \<times> string) option" where
  "span_nat s = map_option (\<lambda>(w, r). (nat_of_digits w, r)) (span1 is_digit s)"

text \<open>Every suffix, longest first: where a regular expression search can start.\<close>

fun suffixes_of :: "'a list \<Rightarrow> 'a list list" where
  "suffixes_of [] = [[]]"
| "suffixes_of (x # xs) = (x # xs) # suffixes_of xs"

fun first_some :: "('a \<Rightarrow> 'b option) \<Rightarrow> 'a list \<Rightarrow> 'b option" where
  "first_some f [] = None"
| "first_some f (x # xs) = (case f x of Some y \<Rightarrow> Some y | None \<Rightarrow> first_some f xs)"

lemma first_some_mem: "first_some f xs = Some y \<Longrightarrow> \<exists>x \<in> set xs. f x = Some y"
  by (induction xs) (auto split: option.splits)

section \<open>Decimal fractions\<close>

definition lower_char :: "char \<Rightarrow> char" where
  "lower_char c = (let n = (of_char c :: nat) in if 65 \<le> n \<and> n \<le> 90 then char_of (n + 32) else c)"

definition all_digits :: "string \<Rightarrow> bool" where
  "all_digits s = list_all is_digit s"

definition mantissa :: "string \<Rightarrow> rat option" where
  "mantissa s =
     (let (a, b) = (case split_once CHR ''.'' s of None \<Rightarrow> (s, []) | Some p \<Rightarrow> p) in
      if all_digits a \<and> all_digits b \<and> a @ b \<noteq> []
      then Some (of_nat (nat_of_digits a) + of_nat (nat_of_digits b) / 10 ^ length b) else None)"

definition power_ten :: "int \<Rightarrow> rat" where
  "power_ten e = (if 0 \<le> e then 10 ^ nat e else 1 / 10 ^ nat (- e))"

definition signed :: "string \<Rightarrow> bool \<times> string" where
  "signed s = (case s of c # cs \<Rightarrow> if c = CHR ''-'' then (True, cs) else if c = CHR ''+'' then (False, cs) else (False, s)
                       | [] \<Rightarrow> (False, []))"

definition exponent :: "string \<Rightarrow> int option" where
  "exponent s = (let (neg, d) = signed s in
     map_option (\<lambda>n. if neg then - int n else int n) (parse_nat d))"

definition py_float :: "string \<Rightarrow> pyfloat result" where
  "py_float s =
     (let (neg, body) = signed (py_strip s); low = map lower_char body;
          sg = (if neg then -1 else 1);
          bad = Inl (ValueError ''could not convert string to float'') in
      if low = ''inf'' \<or> low = ''infinity'' then Inr (if neg then NegInf else PosInf)
      else if low = ''nan'' then Inr NaN
      else (case split_once CHR ''e'' low of
              None \<Rightarrow> (case mantissa low of None \<Rightarrow> bad | Some m \<Rightarrow> Inr (Fin (sg * m)))
            | Some (m, e) \<Rightarrow>
                (case (mantissa m, exponent e) of
                   (Some m', Some e') \<Rightarrow> Inr (Fin (sg * m' * power_ten e'))
                 | _ \<Rightarrow> bad)))"

section \<open>Fields of a line\<close>

text \<open>\<open>dict(part.split('=', 1) for part in line.split())\<close>\<close>

definition line_fields :: "string \<Rightarrow> (string, string) dict result" where
  "line_fields line =
     ebind (emap (\<lambda>p. case split_once CHR ''='' p of
                        None \<Rightarrow> Inl (ValueError ''dictionary update sequence element has length 1; 2 is required'')
                      | Some kv \<Rightarrow> Inr kv) (py_split line)) (\<lambda>ps. Inr (dict_update [] ps))"

definition field_int :: "(string, string) dict \<Rightarrow> string \<Rightarrow> int result" where
  "field_int d k = ebind (dict_item d k) py_int"

end
