(* ===== verification/Artifacts.thy ===== *)
theory Artifacts
  imports Admission Contracts Texts
begin

text \<open>
  Native model artifacts: the manifest and the blobs of an exported MLP (\<open>models.py\<close>), the ensemble around
  such artifacts, and the fixed Hamming network that \<open>hamming.py\<close> writes. The JSON parser (which keeps
  duplicate keys) and the digest are parameters; a blob is the list of its half-precision values.
\<close>

section \<open>Manifests the native parser reads identically\<close>

definition runtime_manifest_keys :: "string list" where
  "runtime_manifest_keys =
     [''state_len'', ''num_classes'', ''hidden1'', ''hd1'', ''hidden2'', ''hd2'', ''residual_count'', ''nrd'', ''output_dim'',
      ''dtype'', ''normalization'']"

datatype jtree = JObject "(string \<times> jtree) list" | JArray "jtree list" | JAtom pyval

definition unique_literal_key :: exn where
  "unique_literal_key = NativeBackendError ''native manifest runtime key must be a unique literal top-level key''"

fun validate_tree :: "nat \<Rightarrow> jtree \<Rightarrow> string list \<Rightarrow> string list result"
  and validate_pairs :: "nat \<Rightarrow> string list \<Rightarrow> (string \<times> jtree) list \<Rightarrow> string list \<Rightarrow> string list result"
  and validate_items :: "nat \<Rightarrow> jtree list \<Rightarrow> string list \<Rightarrow> string list result" where
  "validate_tree depth (JObject ps) keys = validate_pairs depth [] ps keys"
| "validate_tree depth (JArray vs) keys = validate_items depth vs keys"
| "validate_tree depth (JAtom v) keys = Inr keys"
| "validate_pairs depth local [] keys = Inr keys"
| "validate_pairs depth local ((k, v) # ps) keys =
     (if k \<in> set local
      then Inl (if k \<in> set runtime_manifest_keys then unique_literal_key
                else NativeBackendError ''native manifest contains duplicate JSON key'')
      else if k \<in> set runtime_manifest_keys \<and> (depth \<noteq> 0 \<or> k \<in> set keys) then Inl unique_literal_key
      else
        ebind (validate_tree (Suc depth) v (if k \<in> set runtime_manifest_keys then keys @ [k] else keys))
          (validate_pairs depth (k # local) ps))"
| "validate_items depth [] keys = Inr keys"
| "validate_items depth (v # vs) keys = ebind (validate_tree depth v keys) (validate_items depth vs)"

fun materialize :: "jtree \<Rightarrow> pyval" where
  "materialize (JObject ps) = PDict (dict_update [] (map (\<lambda>(k, v). (k, materialize v)) ps))"
| "materialize (JArray vs) = PList (map materialize vs)"
| "materialize (JAtom v) = v"

text \<open>\<open>text.count\<close> of occurrences that do not overlap, and \<open>text.find\<close>.\<close>

fun count_text :: "string \<Rightarrow> nat \<Rightarrow> string \<Rightarrow> nat" where
  "count_text pat skip [] = 0"
| "count_text pat (Suc k) (c # cs) = count_text pat k cs"
| "count_text pat 0 (c # cs) =
     (if prefix pat (c # cs) then Suc (count_text pat (length pat - 1) cs) else count_text pat 0 cs)"

primrec find_from :: "string \<Rightarrow> string \<Rightarrow> nat option" where
  "find_from pat [] = (if pat = [] then Some 0 else None)"
| "find_from pat (c # cs) = (if prefix pat (c # cs) then Some 0 else map_option Suc (find_from pat cs))"

definition find_text :: "string \<Rightarrow> nat \<Rightarrow> string \<Rightarrow> nat option" where
  "find_text pat from' s = (if length s < from' then None else map_option ((+) from') (find_from pat (drop from' s)))"

definition quoted :: "string \<Rightarrow> string" where
  "quoted key = [CHR 0x22] @ key @ [CHR 0x22]"

definition literal_value :: "string \<Rightarrow> string \<Rightarrow> string option" where
  "literal_value s key =
     Option.bind (find_text (quoted key) 0 s) (\<lambda>k.
     Option.bind (find_text '':'' (k + length (quoted key)) s) (\<lambda>colon.
     Option.bind (find_text [CHR 0x22] (colon + 1) s) (\<lambda>opening.
     Option.bind (find_text [CHR 0x22] (opening + 1) s) (\<lambda>closing.
     Some (take (closing - (opening + 1)) (drop (opening + 1) s))))))"

definition literal_ok :: "string \<Rightarrow> (string, pyval) dict \<Rightarrow> string \<Rightarrow> bool" where
  "literal_ok s manifest key =
     (case map_of manifest key of
        None \<Rightarrow> True
      | Some v \<Rightarrow> (case literal_value s key of Some w \<Rightarrow> v = PStr w | None \<Rightarrow> False))"

definition load_manifest :: "(string \<Rightarrow> jtree result) \<Rightarrow> string \<Rightarrow> (string, pyval) dict result" where
  "load_manifest parse text' =
     ebind (parse text') (\<lambda>tree.
     case tree of
       JObject ps \<Rightarrow>
         ebind (validate_tree 0 tree []) (\<lambda>keys.
         let manifest = dict_update [] (map (\<lambda>(k, v). (k, materialize v)) ps) in
         if \<not> list_all (\<lambda>k. count_text (quoted k) 0 text' = 1) keys then Inl unique_literal_key
         else if \<not> list_all (literal_ok text' manifest) [''dtype'', ''normalization'']
         then Inl (NativeBackendError ''native manifest string value must use a native-compatible literal encoding'')
         else Inr manifest)
     | _ \<Rightarrow> Inl (NativeBackendError ''native manifest must be a JSON object''))"

section \<open>Validation of an artifact\<close>

record artifact =
  af_text :: string
  af_blobs :: "(string, pyfloat list) dict"

record validated_artifact =
  va_manifest :: "(string, pyval) dict"
  va_hash :: string
  va_files :: "string list"

definition manifest_int :: "(string, pyval) dict \<Rightarrow> string \<Rightarrow> string option \<Rightarrow> int result" where
  "manifest_int manifest primary alias =
     (let other = (case alias of Some a \<Rightarrow> map_of manifest a | None \<Rightarrow> None);
          value = (case map_of manifest primary of Some v \<Rightarrow> Some v | None \<Rightarrow> other) in
      case value of
        Some (PInt n) \<Rightarrow>
          if \<not> (0 < n \<and> n < 2 ^ 32) then Inl (NativeBackendError ''native manifest value must be a positive uint32'')
          else if map_of manifest primary \<noteq> None \<and> (case other of Some w \<Rightarrow> \<not> py_eq w (PInt n) | None \<Rightarrow> False)
          then Inl (NativeBackendError ''native manifest has conflicting values'')
          else Inr n
      | _ \<Rightarrow> Inl (NativeBackendError ''native manifest value must be a positive uint32''))"

record mlp_shape =
  ms_size :: int
  ms_classes :: int
  ms_h1 :: int
  ms_h2 :: int
  ms_blocks :: int
  ms_outputs :: int

definition read_shape :: "(string, pyval) dict \<Rightarrow> mlp_shape result" where
  "read_shape manifest =
     ebind (manifest_int manifest ''state_len'' None) (\<lambda>size'.
     ebind (manifest_int manifest ''num_classes'' None) (\<lambda>classes.
     ebind (manifest_int manifest ''hidden1'' (Some ''hd1'')) (\<lambda>h1.
     ebind (manifest_int manifest ''hidden2'' (Some ''hd2'')) (\<lambda>h2.
     ebind (manifest_int manifest ''residual_count'' (Some ''nrd'')) (\<lambda>blocks.
     ebind (manifest_int manifest ''output_dim'' None) (\<lambda>outputs.
     Inr \<lparr>ms_size = size', ms_classes = classes, ms_h1 = h1, ms_h2 = h2, ms_blocks = blocks, ms_outputs = outputs\<rparr>))))))"

definition shape_error :: "graph_contract \<Rightarrow> mlp_shape \<Rightarrow> exn option" where
  "shape_error c sh =
     (if ms_size sh \<noteq> int (state_len c) \<or> ms_classes sh < max (num_classes c) (ms_size sh)
      then Some (NativeBackendError ''native manifest state_len/num_classes do not match graph/runtime'')
      else if ms_outputs sh \<notin> {1, int (move_count c)}
      then Some (NativeBackendError ''native output_dim must be 1 or graph move_count'')
      else if ms_h1 sh < ms_h2 sh \<or> \<not> 8 dvd ms_h1 sh \<or> \<not> 8 dvd ms_h2 sh
      then Some (NativeBackendError ''native hidden dimensions require hidden1>=hidden2 and multiples of 8'')
      else if 1024 < ms_blocks sh then Some (NativeBackendError ''native adapter supports at most 1024 residual blocks'')
      else None)"

definition str_in :: "pyval option \<Rightarrow> string list \<Rightarrow> bool" where
  "str_in v options = (case v of Some (PStr s) \<Rightarrow> s \<in> set options | _ \<Rightarrow> False)"

definition manifest_norm :: "(string, pyval) dict \<Rightarrow> pyval" where
  "manifest_norm manifest = (case map_of manifest ''normalization'' of Some v \<Rightarrow> v | None \<Rightarrow> PStr ''none'')"

definition format_error :: "graph_contract \<Rightarrow> (string, pyval) dict \<Rightarrow> exn option" where
  "format_error c manifest =
     (if \<not> str_in (map_of manifest ''dtype'') [''fp16'', ''bf16'']
      then Some (NativeBackendError ''native manifest dtype must be fp16 or bf16'')
      else if \<not> str_in (Some (manifest_norm manifest)) [''none'', ''batchnorm_folded'', ''layernorm'']
      then Some (NativeBackendError ''native normalization must be none, batchnorm_folded, or layernorm'')
      else if (case map_of manifest ''graph_hash'' of Some v \<Rightarrow> v \<noteq> PStr (graph_hash c) | None \<Rightarrow> False)
      then Some (NativeBackendError ''native manifest graph_hash does not match declared graph'')
      else None)"


definition residual_prefixes :: "int \<Rightarrow> string list" where
  "residual_prefixes blocks =
     concat (map (\<lambda>b. map (\<lambda>fc. ''residual'' @ str_int b @ ''_fc'' @ str_int fc) [1, 2]) [0..blocks - 1])"

definition norm_counts :: "mlp_shape \<Rightarrow> (string, int) dict" where
  "norm_counts sh =
     concat (map (\<lambda>(p, width). [(p @ ''_ln_gamma'', width), (p @ ''_ln_beta'', width)])
       ([(''input'', ms_h1 sh), (''hidden'', ms_h2 sh)] @ map (\<lambda>p. (p, ms_h2 sh)) (residual_prefixes (ms_blocks sh))))"

definition blob_counts :: "mlp_shape \<Rightarrow> bool \<Rightarrow> (string, int) dict" where
  "blob_counts sh layernorm =
     [(''input_weight_hxk'', ms_size sh * ms_classes sh * ms_h1 sh), (''input_bias'', ms_h1 sh),
      (''hidden_weight_hxk'', ms_h1 sh * ms_h2 sh), (''hidden_bias'', ms_h2 sh),
      (''output_weight_hxk'', ms_h2 sh * ms_outputs sh), (''output_bias'', ms_outputs sh)]
     @ concat (map (\<lambda>p. [(p @ ''_weight_hxk'', ms_h2 sh * ms_h2 sh), (p @ ''_bias'', ms_h2 sh)]) (residual_prefixes (ms_blocks sh)))
     @ (if layernorm then norm_counts sh else [])"

definition finite_value :: "pyfloat \<Rightarrow> bool" where
  "finite_value v = (case v of Fin _ \<Rightarrow> True | _ \<Rightarrow> False)"

text \<open>Two bytes per value; the file name carries the data type.\<close>

definition check_blob :: "artifact \<Rightarrow> string \<Rightarrow> string \<times> int \<Rightarrow> (string \<times> pyfloat list) result" where
  "check_blob af dtype p =
     (case p of (name, n) \<Rightarrow>
        let file = name @ ''.'' @ dtype in
        case map_of (af_blobs af) file of
          None \<Rightarrow> Inl (NativeBackendError ''native blob missing or wrong length'')
        | Some values \<Rightarrow>
            if int (length values) * 2 \<noteq> n * 2 then Inl (NativeBackendError ''native blob missing or wrong length'')
            else if \<not> list_all finite_value values
            then Inl (NativeBackendError ''native artifact contains non-finite values'')
            else Inr (file, values))"

text \<open>Blobs are visited in the order of their names; the digest covers the manifest, the graph and every blob.\<close>

type_synonym hasher = "string \<Rightarrow> string \<Rightarrow> (string \<times> pyfloat list) list \<Rightarrow> string"

definition wrap_artifact_error :: "exn \<Rightarrow> exn" where
  "wrap_artifact_error e =
     (case e of
        NativeBackendError s \<Rightarrow> e
      | OSError _ \<Rightarrow> NativeBackendError ''invalid native model artifact''
      | TypeError _ \<Rightarrow> NativeBackendError ''invalid native model artifact''
      | OverflowError _ \<Rightarrow> NativeBackendError ''invalid native model artifact''
      | _ \<Rightarrow> if is_value_error e \<or> is_runtime_error e then NativeBackendError ''invalid native model artifact'' else e)"

definition order_counts :: "(string, int) dict \<Rightarrow> (string \<times> int) list" where
  "order_counts d = List.map_filter (\<lambda>k. map_option (Pair k) (map_of d k)) (sort_strings (map fst d))"

definition check_artifact :: "(string \<Rightarrow> jtree result) \<Rightarrow> hasher \<Rightarrow> graph_contract \<Rightarrow> artifact \<Rightarrow> validated_artifact result" where
  "check_artifact parse hash c af =
     ebind (load_manifest parse (af_text af)) (\<lambda>manifest.
     ebind (read_shape manifest) (\<lambda>sh.
     case (shape_error c sh, format_error c manifest, map_of manifest ''dtype'') of
       (Some e, _, _) \<Rightarrow> Inl e
     | (None, Some e, _) \<Rightarrow> Inl e
     | (None, None, Some (PStr dtype)) \<Rightarrow>
         ebind (emap (check_blob af dtype) (order_counts (blob_counts sh (manifest_norm manifest = PStr ''layernorm'')))) (\<lambda>files.
         Inr \<lparr>va_manifest = manifest, va_hash = hash (af_text af) (graph_hash c) files,
              va_files = ''manifest.json'' # map fst files\<rparr>)
     | _ \<Rightarrow> Inl (NativeBackendError ''native manifest dtype must be fp16 or bf16'')))"

definition validate_artifact :: "(string \<Rightarrow> jtree result) \<Rightarrow> hasher \<Rightarrow> graph_contract \<Rightarrow> artifact \<Rightarrow> validated_artifact result" where
  "validate_artifact parse hash c af =
     (case check_artifact parse hash c af of Inl e \<Rightarrow> Inl (wrap_artifact_error e) | Inr v \<Rightarrow> Inr v)"

text \<open>
  \<open>_validate_artifact\<close> by family. The validators of the other families live in modules of their own and
  enter as one parameter.
\<close>

definition other_families :: "string list" where
  "other_families = [''cube555_transformer'', ''cube555_mlp'', ''pancake_gnn'', ''cube444_transformer'', ''cube444_mlp'']"

definition validate_family ::
  "(string \<Rightarrow> artifact \<Rightarrow> validated_artifact result) \<Rightarrow> (string \<Rightarrow> jtree result) \<Rightarrow> hasher \<Rightarrow> graph_contract \<Rightarrow> artifact
     \<Rightarrow> string \<Rightarrow> validated_artifact result" where
  "validate_family other parse hash c af backend =
     (if backend \<in> set other_families then other backend af
      else if backend \<noteq> ''mlp'' then Inl (NativeUnavailable ''native model backend is not supported by this adapter'')
      else validate_artifact parse hash c af)"

text \<open>\<open>verify_prepared_model\<close>: the arguments are the fresh validations of the same directory, as an ensemble
  and by family.\<close>

definition verify_prepared_model ::
  "validated_artifact result \<Rightarrow> (string \<Rightarrow> validated_artifact result) \<Rightarrow> string \<Rightarrow> string \<Rightarrow> unit result" where
  "verify_prepared_model ensemble family backend expected =
     ebind (if backend = ''ensemble'' then ensemble else family backend) (\<lambda>current.
     if va_hash current \<noteq> expected
     then Inl (NativeBackendError ''native model artifact changed before launch'') else Inr ())"

section \<open>Ensembles\<close>

definition max_fp32 :: rat where
  "max_fp32 = 340282346600000000000000000000000000000"

definition valid_coefficient :: "pyval \<Rightarrow> bool" where
  "valid_coefficient v =
     (case v of
        PInt n \<Rightarrow> \<bar>of_int n\<bar> \<le> max_fp32
      | PFloat (Fin r) \<Rightarrow> \<bar>r\<bar> \<le> max_fp32
      | _ \<Rightarrow> False)"

text \<open>The constructor of \<open>NativeEnsemble\<close>.\<close>

definition check_ensemble_arguments :: "nat \<Rightarrow> pyval list \<Rightarrow> unit result" where
  "check_ensemble_arguments models coefficients =
     (if models = 0 \<or> models \<noteq> length coefficients
      then Inl (ValueError ''ensemble requires one coefficient per model and at least one model'')
      else if \<not> list_all valid_coefficient coefficients
      then Inl (ValueError ''ensemble coefficients must be finite FP32 values'')
      else Inr ())"

definition relative_inside :: "string \<Rightarrow> bool" where
  "relative_inside s = (\<not> prefix ''/'' s \<and> ''..'' \<notin> set (split_on CHR ''/'' s))"

definition check_member ::
  "(string \<Rightarrow> string \<Rightarrow> validated_artifact result) \<Rightarrow> pyval \<Rightarrow> (string \<times> validated_artifact) result" where
  "check_member validate entry =
     (case entry of
        PDict d \<Rightarrow>
          if set (map fst d) \<noteq> {''weights_dir'', ''family'', ''coefficient'', ''artifact_hash''}
          then Inl (NativeBackendError ''invalid ensemble member fields'')
          else
            (case (map_of d ''weights_dir'', map_of d ''family'') of
               (Some (PStr dir), Some (PStr family)) \<Rightarrow>
                 if \<not> relative_inside dir then Inl (NativeBackendError ''ensemble members must be inside the private snapshot'')
                 else if \<not> valid_coefficient (the (map_of d ''coefficient'')) then Inl (NativeBackendError ''nonfinite ensemble coefficient'')
                 else
                   ebind (validate dir family) (\<lambda>v.
                   if map_of (va_manifest v) ''dtype'' \<noteq> Some (PStr ''fp16'')
                   then Inl (NativeUnavailable ''native ensemble members must use FP16'')
                   else if map_of d ''artifact_hash'' \<noteq> Some (PStr (va_hash v))
                   then Inl (NativeBackendError ''ensemble member changed after snapshot'')
                   else Inr (dir, v))
             | _ \<Rightarrow> Inl (TypeError ''argument should be a str''))
      | _ \<Rightarrow> Inl (NativeBackendError ''invalid ensemble member fields''))"

definition ensemble_contract :: "graph_contract \<Rightarrow> (string, pyval) dict \<Rightarrow> bool" where
  "ensemble_contract c manifest =
     (let is = (\<lambda>k v. case map_of manifest k of Some w \<Rightarrow> py_eq w v | None \<Rightarrow> False) in
      is ''schema_version'' (PInt 1) \<and> is ''graph_hash'' (PStr (graph_hash c)) \<and> is ''state_len'' (PInt (int (state_len c)))
      \<and> is ''output_dim'' (PInt (int (move_count c))) \<and> is ''score_semantics'' (PStr ''distance_q''))"

definition validate_ensemble ::
  "(string \<Rightarrow> string \<Rightarrow> validated_artifact result) \<Rightarrow> (string \<Rightarrow> string list \<Rightarrow> string) \<Rightarrow> graph_contract \<Rightarrow> string
     \<Rightarrow> (string, pyval) dict \<Rightarrow> validated_artifact result" where
  "validate_ensemble validate hash c raw manifest =
     (case (ensemble_contract c manifest, map_of manifest ''models'') of
        (True, Some (PList (entry # entries))) \<Rightarrow>
          ebind (emap (check_member validate) (entry # entries)) (\<lambda>members.
          Inr \<lparr>va_manifest = dict_set ''ensemble'' (PDict manifest) (va_manifest (snd (hd members))),
               va_hash = hash raw (map (va_hash \<circ> snd) members),
               va_files = ''ensemble.json'' # concat (map (\<lambda>(dir, v). map (\<lambda>f. dir @ ''/'' @ f) (va_files v)) members)\<rparr>)
      | _ \<Rightarrow> Inl (NativeBackendError ''ensemble graph, shape or score contract mismatch''))"

end
