(* ===== verification/Networks.thy ===== *)
theory Networks
  imports Artifacts
begin

text \<open>
  The forward pass that the blobs of an MLP artifact describe, over exact rationals, and the layout of
  its weights: the specification against which the fixed Hamming network and the exporter are proved.
\<close>

section \<open>The network an MLP artifact describes\<close>

text \<open>Weights are input-major: the entry of input \<open>i\<close> and output \<open>j\<close> is at \<open>i * outputs + j\<close>.\<close>

definition relu :: "rat list \<Rightarrow> rat list" where
  "relu = map (max 0)"

definition affine :: "nat \<Rightarrow> nat \<Rightarrow> rat list \<Rightarrow> rat list \<Rightarrow> rat list \<Rightarrow> rat list" where
  "affine inputs outputs w b x = map (\<lambda>j. (\<Sum>i < inputs. x ! i * w ! (i * outputs + j)) + b ! j) [0..<outputs]"

definition one_hot :: "nat \<Rightarrow> int list \<Rightarrow> rat list" where
  "one_hot classes state = concat (map (\<lambda>v. map (\<lambda>label. if int label = v then 1 else 0) [0..<classes]) state)"

definition dense_layer :: "(string \<Rightarrow> rat list) \<Rightarrow> string \<Rightarrow> nat \<Rightarrow> nat \<Rightarrow> rat list \<Rightarrow> rat list" where
  "dense_layer blob name inputs outputs x = affine inputs outputs (blob (name @ ''_weight_hxk'')) (blob (name @ ''_bias'')) x"

definition residual_block :: "(string \<Rightarrow> rat list) \<Rightarrow> nat \<Rightarrow> rat list \<Rightarrow> nat \<Rightarrow> rat list" where
  "residual_block blob width x block =
     (let name = ''residual'' @ str_nat block;
          r = relu (dense_layer blob (name @ ''_fc1'') width width x);
          y = dense_layer blob (name @ ''_fc2'') width width r in
      relu (map (\<lambda>(a, b). a + b) (zip x y)))"

definition mlp_forward :: "(string \<Rightarrow> rat list) \<Rightarrow> mlp_shape \<Rightarrow> int list \<Rightarrow> rat list" where
  "mlp_forward blob sh state =
     (let classes = nat (ms_classes sh); h1 = nat (ms_h1 sh); h2 = nat (ms_h2 sh);
          x1 = relu (dense_layer blob ''input'' (nat (ms_size sh) * classes) h1 (one_hot classes state));
          x2 = relu (dense_layer blob ''hidden'' h1 h2 x1);
          x3 = foldl (residual_block blob h2) x2 [0..<nat (ms_blocks sh)] in
      dense_layer blob ''output'' h2 (nat (ms_outputs sh)) x3)"

section \<open>Matrix layout\<close>

lemma grid_nth:
  assumes "i < n" "j < m"
  shows "concat (map (\<lambda>i. map (f i) [0..<m]) [0..<n]) ! (i * m + j) = f i j"
  using assms
proof (induction n)
  case (Suc n)
  let ?rows = "concat (map (\<lambda>i. map (f i) [0..<m]) [0..<n])"
  have len: "length ?rows = n * m" by (simp add: length_concat comp_def sum_list_triv)
  show ?case
  proof (cases "i < n")
    case True
    then have "i * m + j < n * m"
      using Suc.prems(2) by (metis add.commute add_less_cancel_left less_le_trans mult_Suc mult_le_mono1 Suc_leI)
    then show ?thesis using Suc True by (simp add: nth_append len)
  next
    case False
    then have "i = n" using Suc.prems by simp
    then show ?thesis using Suc.prems by (simp add: nth_append len)
  qed
qed simp

lemma grid_concat:
  "concat (map (\<lambda>p. concat (map (\<lambda>l. map (f p l) [0..<k]) [0..<m])) [0..<n])
     = concat (map (\<lambda>i. map (f (i div m) (i mod m)) [0..<k]) [0..<n * m])"
proof (induction n)
  case (Suc n)
  have "map (\<lambda>i. map (f (i div m) (i mod m)) [0..<k]) [n * m..<n * m + m]
      = map (\<lambda>l. map (f n l) [0..<k]) [0..<m]"
    by (rule nth_equalityI) auto
  moreover have "[0..<Suc n * m] = [0..<n * m] @ [n * m..<n * m + m]"
    using upt_add_eq_append [of 0 "n * m" m] by (metis add.commute mult_Suc zero_le)
  ultimately show ?case using Suc by simp
qed simp

lemma sum_grid: "(\<Sum>i < n * m. g i) = (\<Sum>p < n. \<Sum>l < m. g (p * m + l :: nat))" for g :: "nat \<Rightarrow> rat"
proof -
  have "sum g {p * m..<p * m + m} = (\<Sum>l < m. g (p * m + l))" for p
    using sum.shift_bounds_nat_ivl [of g 0 "p * m" m] by (simp add: atLeast0LessThan add.commute)
  then show ?thesis by (simp add: sum.nat_group [symmetric])
qed

lemma grid_index: "p < n \<Longrightarrow> l < m \<Longrightarrow> p * m + l < n * (m :: nat)"
  by (metis add.commute add_less_cancel_left less_le_trans mult_Suc mult_le_mono1 Suc_leI)

lemma one_hot_nth:
  assumes "p < length state" "l < m"
  shows "one_hot m state ! (p * m + l) = (if int l = state ! p then 1 else 0)"
proof -
  have "one_hot m state = concat (map (\<lambda>p. map (\<lambda>l. if int l = state ! p then 1 else 0) [0..<m]) [0..<length state])"
    unfolding one_hot_def by (rule arg_cong [where f = concat], rule nth_equalityI) auto
  then show ?thesis using grid_nth [OF assms, of "\<lambda>p l. if int l = state ! p then 1 else 0"] by simp
qed

end
