(* ===== verification/Hamming.thy ===== *)
theory Hamming
  imports Networks
begin

text \<open>
  The fixed, untrained heuristic of \<open>hamming.py\<close>: the blobs and the manifest it writes in the format of
  an exported MLP, and the proof that the network counts the
  positions at which a state differs from the centre. Values are exact rationals; every written value
  is an integer of magnitude at most 150, which binary16 holds exactly.
\<close>

section \<open>The written artifact\<close>

definition network_width :: nat where
  "network_width = 8"

definition label_classes :: "graph_contract \<Rightarrow> nat" where
  "label_classes c = nat (max (int (state_len c)) (num_classes c))"

definition input_weights :: "graph_contract \<Rightarrow> rat list" where
  "input_weights c =
     concat (map (\<lambda>position. concat (map (\<lambda>label. map (\<lambda>channel.
       if channel = 0 \<and> int label = center c ! position then - 1 else 0) [0..<network_width]) [0..<label_classes c]))
       [0..<state_len c])"

definition input_bias :: "graph_contract \<Rightarrow> rat list" where
  "input_bias c = map (\<lambda>channel. if channel = 0 then of_nat (state_len c) else 0) [0..<network_width]"

definition hidden_weights :: "rat list" where
  "hidden_weights =
     concat (map (\<lambda>incoming. map (\<lambda>outgoing. if incoming = 0 \<and> outgoing = 0 then 1 else 0) [0..<network_width]) [0..<network_width])"

definition hamming_blobs :: "graph_contract \<Rightarrow> (string, rat list) dict" where
  "hamming_blobs c =
     [(''input_weight_hxk'', input_weights c), (''input_bias'', input_bias c),
      (''hidden_weight_hxk'', hidden_weights), (''hidden_bias'', replicate network_width 0)]
     @ concat (map (\<lambda>fc. [(''residual0_fc'' @ fc @ ''_weight_hxk'', replicate (network_width * network_width) 0),
                         (''residual0_fc'' @ fc @ ''_bias'', replicate network_width 0)]) [''1'', ''2''])
     @ [(''output_weight_hxk'', 1 # replicate (network_width - 1) 0), (''output_bias'', [0])]"

definition hamming_manifest :: "graph_contract \<Rightarrow> (string, pyval) dict" where
  "hamming_manifest c =
     [(''state_len'', PInt (int (state_len c))), (''num_classes'', PInt (int (label_classes c))),
      (''hidden1'', PInt (int network_width)), (''hidden2'', PInt (int network_width)), (''residual_count'', PInt 1),
      (''output_dim'', PInt 1), (''dtype'', PStr ''fp16''), (''normalization'', PStr ''none''),
      (''graph_hash'', PStr (graph_hash c)), (''heuristic'', PStr ''hamming''), (''trained'', PBool False)]"

definition write_hamming_artifact :: "((string, pyval) dict \<Rightarrow> string) \<Rightarrow> graph_contract \<Rightarrow> artifact" where
  "write_hamming_artifact dumps c =
     \<lparr>af_text = dumps (hamming_manifest c),
      af_blobs = map (\<lambda>(name, values). (name @ ''.fp16'', map Fin values)) (hamming_blobs c)\<rparr>"

definition hamming_blob :: "graph_contract \<Rightarrow> string \<Rightarrow> rat list" where
  "hamming_blob c name = the (map_of (hamming_blobs c) name)"

definition hamming_shape :: "graph_contract \<Rightarrow> mlp_shape" where
  "hamming_shape c =
     \<lparr>ms_size = int (state_len c), ms_classes = int (label_classes c), ms_h1 = 8, ms_h2 = 8, ms_blocks = 1, ms_outputs = 1\<rparr>"

text \<open>The specification: the number of positions at which two states differ.\<close>

definition mismatches :: "int list \<Rightarrow> int list \<Rightarrow> nat" where
  "mismatches xs ys = length (filter (\<lambda>i. xs ! i \<noteq> ys ! i) [0..<length xs])"

section \<open>One layer at a time\<close>

lemma input_weights_nth:
  assumes "p < state_len c" "l < label_classes c" "j < network_width"
  shows "input_weights c ! ((p * label_classes c + l) * network_width + j)
    = (if j = 0 \<and> int l = center c ! p then - 1 else 0)"
  unfolding input_weights_def grid_concat
  using assms(2) grid_nth [OF grid_index [OF assms(1,2)] assms(3),
    of "\<lambda>i j. if j = 0 \<and> int (i mod label_classes c) = center c ! (i div label_classes c) then - 1 else 0"] by simp

text \<open>A one-hot row against a row with one nonzero entry.\<close>

lemma one_hot_product:
  assumes "0 \<le> v" "v < int m"
  shows "(\<Sum>l < m. (if int l = v then 1 else 0) * (if P \<and> int l = w then - 1 else 0)) = (if P \<and> v = w then - 1 else (0 :: rat))"
proof -
  have "(if int l = v then 1 else 0) * (if P \<and> int l = w then - 1 else 0)
      = (if l = nat v then (if P \<and> v = w then - 1 else 0) else (0 :: rat))" for l
    using assms by auto
  moreover have "nat v < m" using assms by linarith
  ultimately show ?thesis by simp
qed

lemma matches_sum:
  "(\<Sum>p < n. if xs ! p = ys ! p then - 1 else (0 :: rat)) + of_nat n = of_nat (length (filter (\<lambda>p. xs ! p \<noteq> ys ! p) [0..<n]))"
  by (induction n) auto

definition carrier :: "rat \<Rightarrow> rat list" where
  "carrier d = map (\<lambda>j. if j = 0 then d else 0) [0..<network_width]"

lemma carrier_nth [simp]: "j < network_width \<Longrightarrow> carrier d ! j = (if j = 0 then d else 0)"
  by (simp add: carrier_def)

lemma length_carrier [simp]: "length (carrier d) = network_width"
  by (simp add: carrier_def)

lemma carrier_affine:
  assumes "\<And>j. j < network_width \<Longrightarrow> (\<Sum>i < n. x ! i * w ! (i * network_width + j)) + b ! j = (if j = 0 then d else 0)"
  shows "affine n network_width w b x = carrier d"
  unfolding affine_def carrier_def by (rule map_cong) (use assms in auto)

lemma relu_carrier [simp]: "0 \<le> d \<Longrightarrow> relu (carrier d) = carrier d"
  by (auto simp: relu_def carrier_def)

lemma input_layer:
  assumes "length state = state_len c" "\<forall>v \<in> set state. 0 \<le> v \<and> v < int (label_classes c)"
  shows "affine (state_len c * label_classes c) network_width (input_weights c) (input_bias c) (one_hot (label_classes c) state)
    = carrier (of_nat (mismatches state (center c)))"
proof (rule carrier_affine)
  fix j assume j: "j < network_width"
  let ?m = "label_classes c"
  have row: "(\<Sum>l < ?m. one_hot ?m state ! (p * ?m + l) * input_weights c ! ((p * ?m + l) * network_width + j))
      = (if j = 0 \<and> state ! p = center c ! p then - 1 else 0)" if p: "p < state_len c" for p
  proof -
    have "(\<Sum>l < ?m. one_hot ?m state ! (p * ?m + l) * input_weights c ! ((p * ?m + l) * network_width + j))
        = (\<Sum>l < ?m. (if int l = state ! p then 1 else 0) * (if j = 0 \<and> int l = center c ! p then - 1 else 0))"
      by (rule sum.cong) (use p j assms(1) in \<open>simp_all add: one_hot_nth input_weights_nth\<close>)
    also have "\<dots> = (if j = 0 \<and> state ! p = center c ! p then - 1 else 0)"
      by (rule one_hot_product) (use assms p in auto)
    finally show ?thesis .
  qed
  have "(\<Sum>i < state_len c * ?m. one_hot ?m state ! i * input_weights c ! (i * network_width + j))
      = (\<Sum>p < state_len c. if j = 0 \<and> state ! p = center c ! p then - 1 else 0)"
    unfolding sum_grid by (rule sum.cong) (simp_all add: row)
  then show "(\<Sum>i < state_len c * ?m. one_hot ?m state ! i * input_weights c ! (i * network_width + j)) + input_bias c ! j
      = (if j = 0 then of_nat (mismatches state (center c)) else 0)"
    using matches_sum [of state "center c" "state_len c"] assms(1) j by (auto simp: input_bias_def mismatches_def)
qed

lemma hidden_weights_nth:
  assumes "i < network_width" "j < network_width"
  shows "hidden_weights ! (i * network_width + j) = (if i = 0 \<and> j = 0 then 1 else 0)"
  using grid_nth [OF assms, of "\<lambda>i j. if i = 0 \<and> j = 0 then 1 else 0"] by (simp add: hidden_weights_def)

lemma hidden_layer: "affine network_width network_width hidden_weights (replicate network_width 0) (carrier d) = carrier d"
proof (rule carrier_affine)
  fix j assume j: "j < network_width"
  have "carrier d ! i * hidden_weights ! (i * network_width + j) = (if i = 0 then (if j = 0 then d else 0) else 0)"
    if "i < network_width" for i
    using that j by (simp only: hidden_weights_nth carrier_nth) simp
  then have "(\<Sum>i < network_width. carrier d ! i * hidden_weights ! (i * network_width + j))
      = (\<Sum>i < network_width. if i = 0 then (if j = 0 then d else 0) else 0)"
    by (intro sum.cong) simp_all
  then show "(\<Sum>i < network_width. carrier d ! i * hidden_weights ! (i * network_width + j)) + replicate network_width 0 ! j
      = (if j = 0 then d else 0)"
    using j by (simp add: network_width_def)
qed

lemma zero_layer:
  "affine network_width network_width (replicate (network_width * network_width) 0) (replicate network_width 0) x = carrier 0"
proof (rule carrier_affine)
  fix j assume j: "j < network_width"
  have "(\<Sum>i < network_width. x ! i * replicate (network_width * network_width) 0 ! (i * network_width + j)) = (\<Sum>i < network_width. 0)"
    by (rule sum.cong) (use j grid_index [of _ network_width j network_width] in auto)
  then show "(\<Sum>i < network_width. x ! i * replicate (network_width * network_width) 0 ! (i * network_width + j)) + replicate network_width 0 ! j
      = (if j = 0 then 0 else 0)"
    using j by simp
qed

lemma output_layer: "affine network_width 1 (1 # replicate (network_width - 1) 0) [0] (carrier d) = [d]"
proof -
  have "(\<Sum>i < network_width. carrier d ! i * (1 # replicate (network_width - 1) 0) ! i) = (\<Sum>i < network_width. if i = 0 then d else 0)"
    by (rule sum.cong) auto
  then show ?thesis by (simp add: affine_def network_width_def)
qed

section \<open>The network counts mismatches\<close>

lemma hamming_blob_values:
  "hamming_blob c ''input_weight_hxk'' = input_weights c" "hamming_blob c ''input_bias'' = input_bias c"
  "hamming_blob c ''hidden_weight_hxk'' = hidden_weights" "hamming_blob c ''hidden_bias'' = replicate network_width 0"
  "hamming_blob c ''residual0_fc1_weight_hxk'' = replicate (network_width * network_width) 0"
  "hamming_blob c ''residual0_fc1_bias'' = replicate network_width 0"
  "hamming_blob c ''residual0_fc2_weight_hxk'' = replicate (network_width * network_width) 0"
  "hamming_blob c ''residual0_fc2_bias'' = replicate network_width 0"
  "hamming_blob c ''output_weight_hxk'' = 1 # replicate (network_width - 1) 0" "hamming_blob c ''output_bias'' = [0]"
  by (simp_all add: hamming_blob_def hamming_blobs_def)

lemma residual_identity:
  assumes "0 \<le> d"
  shows "residual_block (hamming_blob c) network_width (carrier d) 0 = carrier d"
proof -
  have name: "str_nat 0 = ''0''" by (code_simp)
  have "map (\<lambda>(a, b). a + b) (zip (carrier d) (carrier 0)) = carrier d"
    by (rule nth_equalityI) auto
  then show ?thesis
    using assms by (simp add: residual_block_def Let_def name dense_layer_def hamming_blob_values zero_layer)
qed

lemma hamming_network:
  assumes "length state = state_len c" "\<forall>v \<in> set state. 0 \<le> v \<and> v < int (label_classes c)"
  shows "mlp_forward (hamming_blob c) (hamming_shape c) state = [of_nat (mismatches state (center c))]"
proof -
  let ?d = "of_nat (mismatches state (center c)) :: rat"
  have width: "nat (ms_h1 (hamming_shape c)) = network_width" "nat (ms_h2 (hamming_shape c)) = network_width"
    by (simp_all add: hamming_shape_def network_width_def)
  have "relu (dense_layer (hamming_blob c) ''input'' (state_len c * label_classes c) network_width (one_hot (label_classes c) state))
      = carrier ?d"
    using input_layer [OF assms] by (simp add: dense_layer_def hamming_blob_values)
  moreover have "relu (dense_layer (hamming_blob c) ''hidden'' network_width network_width (carrier ?d)) = carrier ?d"
    by (simp add: dense_layer_def hamming_blob_values hidden_layer)
  moreover have "foldl (residual_block (hamming_blob c) network_width) (carrier ?d) [0..<1] = carrier ?d"
    by (simp add: residual_identity)
  moreover have "dense_layer (hamming_blob c) ''output'' network_width 1 (carrier ?d) = [?d]"
    using output_layer by (simp add: dense_layer_def hamming_blob_values)
  ultimately show ?thesis
    unfolding mlp_forward_def width by (simp add: Let_def hamming_shape_def)
qed

section \<open>The artifact passes validation\<close>

lemma label_classes_pos: "1 \<le> state_len c \<Longrightarrow> 0 < label_classes c"
  by (simp add: label_classes_def)

lemma hamming_read_shape:
  assumes "wf_contract c" "num_classes c \<le> 256"
  shows "read_shape (hamming_manifest c) = Inr (hamming_shape c)"
proof -
  have "0 < int (label_classes c)" "int (label_classes c) < 2 ^ 32" "0 < int (state_len c)" "int (state_len c) < 2 ^ 32"
    using assms by (auto simp: wf_contract_def label_classes_def)
  then show ?thesis
    by (simp add: read_shape_def manifest_int_def hamming_manifest_def hamming_shape_def network_width_def Let_def)
qed

lemma hamming_shape_ok: "wf_contract c \<Longrightarrow> shape_error c (hamming_shape c) = None"
  by (auto simp: shape_error_def hamming_shape_def label_classes_def)

lemma hamming_format_ok: "format_error c (hamming_manifest c) = None"
  by (simp add: format_error_def hamming_manifest_def str_in_def manifest_norm_def)

lemma hamming_counts:
  "blob_counts (hamming_shape c) False =
     [(''input_weight_hxk'', int (state_len c) * int (label_classes c) * 8), (''input_bias'', 8),
      (''hidden_weight_hxk'', 64), (''hidden_bias'', 8), (''output_weight_hxk'', 8), (''output_bias'', 1),
      (''residual0_fc1_weight_hxk'', 64), (''residual0_fc1_bias'', 8),
      (''residual0_fc2_weight_hxk'', 64), (''residual0_fc2_bias'', 8)]"
proof -
  have "residual_prefixes 1 = [''residual0_fc1'', ''residual0_fc2'']" by code_simp
  then show ?thesis by (simp add: blob_counts_def hamming_shape_def)
qed

lemma input_weights_length: "length (input_weights c) = state_len c * label_classes c * 8"
  unfolding input_weights_def grid_concat
  by (simp add: length_concat comp_def sum_list_triv network_width_def)

definition hamming_files :: "graph_contract \<Rightarrow> string \<times> int \<Rightarrow> string \<times> pyfloat list" where
  "hamming_files c p = (fst p @ ''.fp16'', map Fin (hamming_blob c (fst p)))"

lemma hamming_lengths:
  "p \<in> set (blob_counts (hamming_shape c) False) \<Longrightarrow> int (length (hamming_blob c (fst p))) = snd p"
  unfolding hamming_counts
  by (auto simp: hamming_blob_values input_weights_length input_bias_def hidden_weights_def length_concat comp_def
      sum_list_triv network_width_def)

lemma hamming_blob_files:
  "p \<in> set (blob_counts (hamming_shape c) False) \<Longrightarrow>
     map_of (af_blobs (write_hamming_artifact dumps c)) (fst p @ ''.fp16'') = Some (map Fin (hamming_blob c (fst p)))"
  unfolding hamming_counts
  by (auto simp: hamming_blob_values write_hamming_artifact_def hamming_blobs_def)

lemma hamming_check_blob:
  "p \<in> set (blob_counts (hamming_shape c) False) \<Longrightarrow>
     check_blob (write_hamming_artifact dumps c) ''fp16'' p = Inr (hamming_files c p)"
  using hamming_blob_files [of p c dumps] hamming_lengths [of p c]
  by (cases p) (auto simp: check_blob_def hamming_files_def list_all_iff finite_value_def)

lemma order_counts_mem: "p \<in> set (order_counts d) \<Longrightarrow> p \<in> set d"
  by (auto simp: order_counts_def List.map_filter_def dest: map_of_SomeD)

lemma hamming_valid:
  assumes "wf_contract c" "num_classes c \<le> 256"
    and reads: "load_manifest parse (dumps (hamming_manifest c)) = Inr (hamming_manifest c)"
  shows "\<exists>v. validate_artifact parse hash c (write_hamming_artifact dumps c) = Inr v
    \<and> va_manifest v = hamming_manifest c"
proof -
  let ?counts = "order_counts (blob_counts (hamming_shape c) False)"
  have "emap (check_blob (write_hamming_artifact dumps c) ''fp16'') ?counts = Inr (map (hamming_files c) ?counts)"
    by (rule emap_total) (rule hamming_check_blob, rule order_counts_mem)
  moreover have "map_of (hamming_manifest c) ''dtype'' = Some (PStr ''fp16'')"
    "(manifest_norm (hamming_manifest c) = PStr ''layernorm'') = False"
    by (simp_all add: hamming_manifest_def manifest_norm_def)
  moreover have "af_text (write_hamming_artifact dumps c) = dumps (hamming_manifest c)"
    by (simp add: write_hamming_artifact_def)
  ultimately show ?thesis
    using hamming_read_shape [OF assms(1,2)] hamming_shape_ok [OF assms(1)] hamming_format_ok reads
    by (simp add: validate_artifact_def check_artifact_def)
qed

lemma hamming_values:
  assumes "state_len c \<le> 150" "(name, values) \<in> set (hamming_blobs c)" "v \<in> set values"
  shows "\<exists>k :: int. v = of_int k \<and> \<bar>k\<bar> \<le> 2048"
proof -
  have "v \<in> {- 1, 0, 1, of_nat (state_len c)}"
    using assms(2,3) by (auto simp: hamming_blobs_def input_weights_def input_bias_def hidden_weights_def split: if_splits)
  moreover have "\<exists>k :: int. - 1 = (of_int k :: rat) \<and> \<bar>k\<bar> \<le> 2048" by (intro exI [of _ "- 1"]) simp
  moreover have "\<exists>k :: int. 0 = (of_int k :: rat) \<and> \<bar>k\<bar> \<le> 2048" by (intro exI [of _ 0]) simp
  moreover have "\<exists>k :: int. 1 = (of_int k :: rat) \<and> \<bar>k\<bar> \<le> 2048" by (intro exI [of _ 1]) simp
  moreover have "\<exists>k :: int. of_nat (state_len c) = (of_int k :: rat) \<and> \<bar>k\<bar> \<le> 2048"
    using assms(1) by (intro exI [of _ "int (state_len c)"]) simp
  ultimately show ?thesis by blast
qed

text \<open>C35. The Hamming artifact is exact: for every admitted contract whose manifest the JSON library reads
  back, the written directory passes the validation of native MLP artifacts; every value written is an
  integer that half precision holds without rounding; and on every state of the right length with labels
  in range, the forward pass its blobs describe returns the number of positions at which the state differs
  from the centre.\<close>

theorem hamming_exact:
  assumes "wf_contract c" "num_classes c \<le> 256"
    and json_reads_back: "load_manifest parse (dumps (hamming_manifest c)) = Inr (hamming_manifest c)"
    and "length state = state_len c" "\<forall>v \<in> set state. 0 \<le> v \<and> v < int (label_classes c)"
  shows "(\<exists>v. validate_artifact parse hash c (write_hamming_artifact dumps c) = Inr v \<and> va_manifest v = hamming_manifest c)
    \<and> (\<forall>name values v. (name, values) \<in> set (hamming_blobs c) \<and> v \<in> set values
         \<longrightarrow> (\<exists>k :: int. v = of_int k \<and> \<bar>k\<bar> \<le> 2048))
    \<and> mlp_forward (hamming_blob c) (hamming_shape c) state = [of_nat (mismatches state (center c))]"
  using hamming_valid [where dumps = dumps, OF assms(1-3)] hamming_values [of c] hamming_network [OF assms(4,5)] assms(1)
  unfolding wf_contract_def by blast

text \<open>A JSON printer for the witness: \<open>json.dumps\<close> with an indent of two on a flat dictionary.\<close>

fun dump_value :: "pyval \<Rightarrow> string" where
  "dump_value (PInt n) = str_int n"
| "dump_value (PStr s) = quoted s"
| "dump_value (PBool b) = (if b then ''true'' else ''false'')"
| "dump_value v = ''null''"

definition dump_flat :: "(string, pyval) dict \<Rightarrow> string" where
  "dump_flat d = ''{'' @ concat (map (\<lambda>(k, v). [CHR 0x0A] @ ''  '' @ quoted k @ '': '' @ dump_value v @ '','') d) @ [CHR 0x0A] @ ''}''"

definition parse_manifest :: "(string, pyval) dict \<Rightarrow> string \<Rightarrow> jtree result" where
  "parse_manifest m text' = (if text' = dump_flat m then Inr (JObject (map (\<lambda>(k, v). (k, JAtom v)) m)) else Inl (ValueError ''json''))"

lemma lrx_manifest:
  "hamming_manifest lrx_contract =
     [(''state_len'', PInt 3), (''num_classes'', PInt 3), (''hidden1'', PInt 8), (''hidden2'', PInt 8), (''residual_count'', PInt 1),
      (''output_dim'', PInt 1), (''dtype'', PStr ''fp16''), (''normalization'', PStr ''none''),
      (''graph_hash'', PStr []), (''heuristic'', PStr ''hamming''), (''trained'', PBool False)]"
  by (simp add: hamming_manifest_def lrx_contract_def label_classes_def network_width_def)

lemma lrx_numbers: "str_int 3 = ''3''" "str_int 8 = ''8''" "str_int 1 = ''1''"
  by (code_simp)+

lemma lrx_text:
  "list_all (\<lambda>k. count_text (quoted k) 0 (dump_flat (hamming_manifest lrx_contract)) = 1)
     [''state_len'', ''num_classes'', ''hidden1'', ''hidden2'', ''residual_count'', ''output_dim'', ''dtype'', ''normalization'']"
  by (simp add: lrx_manifest dump_flat_def lrx_numbers quoted_def numeral_nat)

lemma lrx_literals:
  "literal_value (dump_flat (hamming_manifest lrx_contract)) ''dtype'' = Some ''fp16''"
  "literal_value (dump_flat (hamming_manifest lrx_contract)) ''normalization'' = Some ''none''"
  by (simp_all add: lrx_manifest dump_flat_def lrx_numbers quoted_def literal_value_def find_text_def)

lemma lrx_manifest_reads_back:
  "load_manifest (parse_manifest (hamming_manifest lrx_contract)) (dump_flat (hamming_manifest lrx_contract))
     = Inr (hamming_manifest lrx_contract)"
proof -
  let ?ps = "map (\<lambda>(k, v). (k, JAtom v)) (hamming_manifest lrx_contract)"
  have entries: "map_of (hamming_manifest lrx_contract) ''dtype'' = Some (PStr ''fp16'')"
    "map_of (hamming_manifest lrx_contract) ''normalization'' = Some (PStr ''none'')"
    by (simp_all add: lrx_manifest)
  have "validate_tree 0 (JObject ?ps) []
      = Inr [''state_len'', ''num_classes'', ''hidden1'', ''hidden2'', ''residual_count'', ''output_dim'', ''dtype'', ''normalization'']"
    by (simp add: lrx_manifest runtime_manifest_keys_def)
  moreover have "dict_update [] (map (\<lambda>(k, v). (k, materialize v)) ?ps) = hamming_manifest lrx_contract"
    by (simp add: lrx_manifest dict_update_def)
  moreover have "literal_ok (dump_flat (hamming_manifest lrx_contract)) (hamming_manifest lrx_contract) ''dtype''"
    "literal_ok (dump_flat (hamming_manifest lrx_contract)) (hamming_manifest lrx_contract) ''normalization''"
    using entries by (simp_all add: literal_ok_def lrx_literals)
  ultimately show ?thesis
    using lrx_text by (simp add: load_manifest_def parse_manifest_def Let_def del: validate_tree.simps)
qed

lemma hamming_exact_witness:
  "(\<exists>v. validate_artifact (parse_manifest (hamming_manifest lrx_contract)) (\<lambda>_ _ _. []) lrx_contract
           (write_hamming_artifact dump_flat lrx_contract) = Inr v \<and> va_manifest v = hamming_manifest lrx_contract)
    \<and> mlp_forward (hamming_blob lrx_contract) (hamming_shape lrx_contract) [1, 2, 2] = [2]"
proof -
  have "mismatches [1, 2, 2] (center lrx_contract) = 2" by (simp add: mismatches_def lrx_contract_def upt_rec)
  moreover have "length [1, 2, 2 :: int] = state_len lrx_contract" "num_classes lrx_contract \<le> 256"
    "\<forall>v \<in> set [1, 2, 2]. 0 \<le> v \<and> v < int (label_classes lrx_contract)"
    by (simp_all add: lrx_contract_def label_classes_def)
  ultimately show ?thesis
    using hamming_exact [where dumps = dump_flat, OF wf_lrx _ lrx_manifest_reads_back, of "[1, 2, 2]" "\<lambda>_ _ _. []"] by simp
qed

end
