(* ===== verification/Exporter.thy ===== *)
theory Exporter
  imports Networks
begin

text \<open>
  The exporter of \<open>tools/export_stream1_mlp.py\<close> for networks with batch normalisation: it folds each
  normalisation into the linear layer before it, pads the hidden widths to multiples of eight and writes
  the layers input-major. Tensors have exact rational entries; the square root is a parameter, and the
  rounding to half precision is the last step of writing.
\<close>

section \<open>Checkpoints\<close>

text \<open>A tensor is its shape with its entries; only vectors and matrices are used.\<close>

datatype tensor = Vector nat "nat \<Rightarrow> rat" | Matrix nat nat "nat \<Rightarrow> nat \<Rightarrow> rat"

datatype checkpoint = CkDict "(string \<times> checkpoint) list" | CkTensor tensor | CkOther

type_synonym state_dict = "(string, checkpoint) dict"

definition wrapper_keys :: "string list" where
  "wrapper_keys = [''state_dict'', ''model_state_dict'', ''model'', ''net'', ''module'']"

fun first_dict :: "state_dict \<Rightarrow> string list \<Rightarrow> state_dict" where
  "first_dict d [] = d"
| "first_dict d (k # ks) = (case map_of d k of Some (CkDict e) \<Rightarrow> e | _ \<Rightarrow> first_dict d ks)"

definition unwrap_state_dict :: "checkpoint \<Rightarrow> state_dict result" where
  "unwrap_state_dict obj =
     (case obj of
        CkDict d \<Rightarrow> Inr (first_dict d wrapper_keys)
      | _ \<Rightarrow> Inl (TypeError ''unsupported checkpoint root type''))"

definition strip_orig_mod :: "state_dict \<Rightarrow> state_dict" where
  "strip_orig_mod sd =
     dict_update [] (map (\<lambda>(key, v). (if prefix ''_orig_mod.'' key then drop 10 key else key, v)) sd)"

definition matrix_of :: "state_dict \<Rightarrow> string \<Rightarrow> (nat \<times> nat \<times> (nat \<Rightarrow> nat \<Rightarrow> rat)) result" where
  "matrix_of sd key =
     (case map_of sd key of
        None \<Rightarrow> Inl (KeyError key)
      | Some (CkTensor (Matrix r c w)) \<Rightarrow> Inr (r, c, w)
      | _ \<Rightarrow> Inl (ValueError ''not enough values to unpack''))"

definition vector_of :: "state_dict \<Rightarrow> string \<Rightarrow> (nat \<times> (nat \<Rightarrow> rat)) result" where
  "vector_of sd key =
     (case map_of sd key of
        None \<Rightarrow> Inl (KeyError key)
      | Some (CkTensor (Vector n v)) \<Rightarrow> Inr (n, v)
      | _ \<Rightarrow> Inl (RuntimeError ''shape mismatch''))"

definition bias_of :: "state_dict \<Rightarrow> string \<Rightarrow> nat \<Rightarrow> (nat \<times> (nat \<Rightarrow> rat)) result" where
  "bias_of sd lin n =
     (if map_of sd (lin @ ''.bias'') = None then Inr (n, \<lambda>_. 0) else vector_of sd (lin @ ''.bias''))"

definition linear_weight_bias ::
  "state_dict \<Rightarrow> string \<Rightarrow> ((nat \<times> nat \<times> (nat \<Rightarrow> nat \<Rightarrow> rat)) \<times> (nat \<times> (nat \<Rightarrow> rat))) result" where
  "linear_weight_bias sd lin =
     ebind (matrix_of sd (lin @ ''.weight'')) (\<lambda>w. ebind (bias_of sd lin (fst w)) (\<lambda>b. Inr (w, b)))"

section \<open>Folding a normalisation into a linear layer\<close>

text \<open>Elementwise operations of \<open>torch\<close>: equal lengths, or one operand of length one.\<close>

definition broadcast :: "('a \<Rightarrow> 'b \<Rightarrow> 'c) \<Rightarrow> nat \<times> (nat \<Rightarrow> 'a) \<Rightarrow> nat \<times> (nat \<Rightarrow> 'b) \<Rightarrow> (nat \<times> (nat \<Rightarrow> 'c)) result" where
  "broadcast f p q =
     (case (p, q) of ((n, x), (m, y)) \<Rightarrow>
        if n = m then Inr (n, \<lambda>i. f (x i) (y i))
        else if n = 1 then Inr (m, \<lambda>i. f (x 0) (y i))
        else if m = 1 then Inr (n, \<lambda>i. f (x i) (y 0))
        else Inl (RuntimeError ''shape mismatch''))"

definition epsilon :: rat where
  "epsilon = 1 / 100000"

definition fold_linear_bn ::
  "(rat \<Rightarrow> rat) \<Rightarrow> state_dict \<Rightarrow> string \<Rightarrow> string
     \<Rightarrow> ((nat \<times> nat \<times> (nat \<Rightarrow> nat \<Rightarrow> rat)) \<times> (nat \<times> (nat \<Rightarrow> rat))) result" where
  "fold_linear_bn sq sd lin bn =
     ebind (linear_weight_bias sd lin) (\<lambda>((r, c, w), bias).
     ebind (vector_of sd (bn @ ''.weight'')) (\<lambda>gamma.
     ebind (vector_of sd (bn @ ''.bias'')) (\<lambda>beta.
     ebind (vector_of sd (bn @ ''.running_mean'')) (\<lambda>mean.
     ebind (vector_of sd (bn @ ''.running_var'')) (\<lambda>var.
     ebind (broadcast (\<lambda>g v. g / sq (v + epsilon)) gamma var) (\<lambda>scale.
     ebind (broadcast (\<lambda>row s. \<lambda>i. row i * s) (r, w) scale) (\<lambda>(r', weight).
     ebind (broadcast (-) bias mean) (\<lambda>shifted.
     ebind (broadcast (*) shifted scale) (\<lambda>scaled.
     ebind (broadcast (+) scaled beta) (\<lambda>folded.
     Inr ((r', c, weight), folded)))))))))))"

section \<open>Padding and layout\<close>

definition pad_width :: "nat \<Rightarrow> nat" where
  "pad_width n = (n + 8 - 1) div 8 * 8"

definition pad_out_in :: "nat \<times> nat \<times> (nat \<Rightarrow> nat \<Rightarrow> rat) \<Rightarrow> nat \<Rightarrow> nat \<Rightarrow> (nat \<times> nat \<times> (nat \<Rightarrow> nat \<Rightarrow> rat)) result" where
  "pad_out_in m out_dim in_dim =
     (case m of (r, c, w) \<Rightarrow>
        if out_dim < r \<or> in_dim < c then Inl (RuntimeError ''shape mismatch'')
        else Inr (out_dim, in_dim, \<lambda>i j. if i < r \<and> j < c then w i j else 0))"

definition pad_vec :: "nat \<times> (nat \<Rightarrow> rat) \<Rightarrow> nat \<Rightarrow> (nat \<times> (nat \<Rightarrow> rat)) result" where
  "pad_vec v size' =
     (if size' < fst v then Inl (RuntimeError ''shape mismatch'')
      else Inr (size', \<lambda>i. if i < fst v then snd v i else 0))"

definition hxk :: "nat \<times> nat \<times> (nat \<Rightarrow> nat \<Rightarrow> rat) \<Rightarrow> rat list" where
  "hxk m = (case m of (r, c, w) \<Rightarrow> concat (map (\<lambda>i. map (\<lambda>j. w j i) [0..<r]) [0..<c]))"

definition vec_blob :: "nat \<times> (nat \<Rightarrow> rat) \<Rightarrow> rat list" where
  "vec_blob v = map (snd v) [0..<fst v]"

type_synonym blobs = "(string, rat list) dict"

definition export_layer :: "(rat \<Rightarrow> rat) \<Rightarrow> state_dict \<Rightarrow> string \<Rightarrow> string \<Rightarrow> string \<Rightarrow> nat \<Rightarrow> nat \<Rightarrow> blobs result" where
  "export_layer sq sd lin bn name out_dim in_dim =
     ebind (fold_linear_bn sq sd lin bn) (\<lambda>(weight, bias).
     ebind (pad_out_in weight out_dim in_dim) (\<lambda>weight'.
     ebind (pad_vec bias out_dim) (\<lambda>bias'.
     Inr [(name @ ''_weight_hxk'', hxk weight'), (name @ ''_bias'', vec_blob bias')])))"

section \<open>The exporter\<close>

text \<open>The number in a key \<open>residual_blocks.<n>.fc1.weight\<close>; the pattern's end also matches before a final newline.\<close>

definition block_index :: "string \<Rightarrow> nat option" where
  "block_index key =
     (let k = (if suffix [CHR 0x0A] key then butlast key else key);
          front = ''residual_blocks.''; back = ''.fc1.weight'' in
      if prefix front k \<and> suffix back k \<and> length front + length back < length k
      then parse_nat (take (length k - length front - length back) (drop (length front) k))
      else None)"

definition infer_residual_count :: "state_dict \<Rightarrow> nat result" where
  "infer_residual_count sd =
     (let blocks = List.map_filter (\<lambda>(k, _). block_index k) sd in
      if blocks = [] then Inl (ValueError ''no residual_blocks.*.fc1.weight tensors found'')
      else if set blocks \<noteq> {0..<Max (set blocks) + 1}
      then Inl (ValueError ''residual block indices are not contiguous'')
      else Inr (Max (set blocks) + 1))"

definition block_prefix :: "nat \<Rightarrow> string" where
  "block_prefix block = ''residual_blocks.'' @ str_nat block"

definition residual_name :: "nat \<Rightarrow> string" where
  "residual_name block = ''residual'' @ str_nat block"

definition export_block :: "(rat \<Rightarrow> rat) \<Rightarrow> state_dict \<Rightarrow> nat \<Rightarrow> nat \<Rightarrow> blobs result" where
  "export_block sq sd width block =
     (let p = block_prefix block; out = residual_name block in
      ebind (export_layer sq sd (p @ ''.fc1'') (p @ ''.bn1'') (out @ ''_fc1'') width width) (\<lambda>b1.
      ebind (export_layer sq sd (p @ ''.fc2'') (p @ ''.bn2'') (out @ ''_fc2'') width width) (\<lambda>b2.
      Inr (b1 @ b2))))"

definition export_output :: "state_dict \<Rightarrow> nat \<Rightarrow> nat \<Rightarrow> blobs result" where
  "export_output sd output_dim width =
     ebind (linear_weight_bias sd ''output_layer'') (\<lambda>(weight, bias).
     ebind (pad_out_in weight output_dim width) (\<lambda>weight'.
     Inr [(''output_weight_hxk'', hxk weight'), (''output_bias'', vec_blob bias)]))"

definition export_manifest :: "int \<Rightarrow> int \<Rightarrow> nat \<Rightarrow> nat \<Rightarrow> nat \<Rightarrow> nat \<Rightarrow> string \<Rightarrow> string \<Rightarrow> (string, pyval) dict" where
  "export_manifest input_dim classes h1 h2 blocks outputs dtype source =
     [(''state_len'', PInt (input_dim div classes)), (''num_classes'', PInt classes),
      (''hd1'', PInt (int (pad_width h1))), (''hd2'', PInt (int (pad_width h2))),
      (''original_hd1'', PInt (int h1)), (''original_hd2'', PInt (int h2)), (''hidden_alignment'', PInt 8),
      (''nrd'', PInt (int blocks)), (''output_dim'', PInt (int outputs)), (''dtype'', PStr dtype),
      (''normalization'', PStr ''batchnorm_folded''),
      (''layout'', PStr ''row-major input activations times weight_hxk''),
      (''batchnorm'', PStr ''folded into preceding linear weights''),
      (''embeddingbag'', PStr ''removed from runtime; input layer exported as position-class table''),
      (''source_weights'', PStr source)]"

definition check_widths :: "nat \<Rightarrow> nat \<Rightarrow> nat \<Rightarrow> nat \<Rightarrow> nat \<Rightarrow> int \<Rightarrow> unit result" where
  "check_widths hidden_in h1 output_in h2 input_dim classes =
     (if hidden_in \<noteq> h1 then Inl (ValueError ''hidden_layer input mismatch'')
      else if output_in \<noteq> h2 then Inl (ValueError ''output_layer input mismatch'')
      else if classes \<le> 0 then Inl (ValueError ''num_classes must be positive'')
      else if int input_dim mod classes \<noteq> 0 then Inl (ValueError ''input_dim is not divisible by num_classes'')
      else Inr ())"

definition export_layers :: "(rat \<Rightarrow> rat) \<Rightarrow> state_dict \<Rightarrow> nat \<Rightarrow> nat \<Rightarrow> nat \<Rightarrow> nat \<Rightarrow> nat \<Rightarrow> blobs result" where
  "export_layers sq sd input_dim h1 h2 blocks outputs =
     ebind (export_layer sq sd ''input_layer'' ''bn1'' ''input'' (pad_width h1) input_dim) (\<lambda>b1.
     ebind (export_layer sq sd ''hidden_layer'' ''bn2'' ''hidden'' (pad_width h2) (pad_width h1)) (\<lambda>b2.
     ebind (emap (export_block sq sd (pad_width h2)) [0..<blocks]) (\<lambda>bs.
     ebind (export_output sd outputs (pad_width h2)) (\<lambda>b3.
     Inr (b1 @ b2 @ concat bs @ b3)))))"

definition export_batchnorm_folded ::
  "(rat \<Rightarrow> rat) \<Rightarrow> string \<Rightarrow> string \<Rightarrow> int \<Rightarrow> checkpoint \<Rightarrow> (blobs \<times> (string, pyval) dict) result" where
  "export_batchnorm_folded sq source dtype classes obj =
     ebind (unwrap_state_dict obj) (\<lambda>raw.
     let sd = strip_orig_mod raw in
     ebind (emap (dict_item sd) [''input_layer.weight'', ''hidden_layer.weight'', ''output_layer.weight'']) (\<lambda>_.
     ebind (matrix_of sd ''input_layer.weight'') (\<lambda>(h1, input_dim, _).
     ebind (matrix_of sd ''hidden_layer.weight'') (\<lambda>(h2, hidden_in, _).
     ebind (matrix_of sd ''output_layer.weight'') (\<lambda>(outputs, output_in, _).
     ebind (check_widths hidden_in h1 output_in h2 input_dim classes) (\<lambda>_.
     ebind (infer_residual_count sd) (\<lambda>blocks.
     ebind (export_layers sq sd input_dim h1 h2 blocks outputs) (\<lambda>blobs.
     Inr (blobs, export_manifest (int input_dim) classes h1 h2 blocks outputs dtype source)))))))))"

text \<open>Writing: the values are cast and stored with the suffix of the data type.\<close>

definition write_artifact :: "(string \<Rightarrow> rat \<Rightarrow> pyfloat) \<Rightarrow> ((string, pyval) dict \<Rightarrow> string) \<Rightarrow> string \<Rightarrow> blobs \<times> (string, pyval) dict \<Rightarrow> artifact" where
  "write_artifact cast dumps dtype e =
     \<lparr>af_text = dumps (snd e), af_blobs = map (\<lambda>(name, xs). (name @ ''.'' @ dtype, map (cast dtype) xs)) (fst e)\<rparr>"

section \<open>The network the checkpoint describes\<close>

text \<open>
  \<open>reference\<close> of \<open>_known_model\<close>: the layers of the trained network on activations given as functions of
  the channel, and the dimensions \<open>_known_model\<close> requires before it.
\<close>

definition weight_of :: "state_dict \<Rightarrow> string \<Rightarrow> nat \<Rightarrow> nat \<Rightarrow> rat" where
  "weight_of sd key i j = (case map_of sd key of Some (CkTensor (Matrix r c w)) \<Rightarrow> w i j | _ \<Rightarrow> 0)"

definition entry_of :: "state_dict \<Rightarrow> string \<Rightarrow> nat \<Rightarrow> rat" where
  "entry_of sd key i = (case map_of sd key of Some (CkTensor (Vector n v)) \<Rightarrow> v i | _ \<Rightarrow> 0)"

definition linear_map :: "state_dict \<Rightarrow> string \<Rightarrow> nat \<Rightarrow> (nat \<Rightarrow> rat) \<Rightarrow> nat \<Rightarrow> rat" where
  "linear_map sd name inputs x j =
     (\<Sum>i < inputs. x i * weight_of sd (name @ ''.weight'') j i) + entry_of sd (name @ ''.bias'') j"

definition batch_norm :: "(rat \<Rightarrow> rat) \<Rightarrow> state_dict \<Rightarrow> string \<Rightarrow> (nat \<Rightarrow> rat) \<Rightarrow> nat \<Rightarrow> rat" where
  "batch_norm sq sd name x j =
     (x j - entry_of sd (name @ ''.running_mean'') j) / sq (entry_of sd (name @ ''.running_var'') j + epsilon)
       * entry_of sd (name @ ''.weight'') j + entry_of sd (name @ ''.bias'') j"

definition relu_map :: "(nat \<Rightarrow> rat) \<Rightarrow> nat \<Rightarrow> rat" where
  "relu_map x j = max 0 (x j)"

definition reference_block :: "(rat \<Rightarrow> rat) \<Rightarrow> state_dict \<Rightarrow> nat \<Rightarrow> (nat \<Rightarrow> rat) \<Rightarrow> nat \<Rightarrow> (nat \<Rightarrow> rat)" where
  "reference_block sq sd h2 x i =
     (let p = block_prefix i;
          inner = relu_map (batch_norm sq sd (p @ ''.bn1'') (linear_map sd (p @ ''.fc1'') h2 x));
          residual = batch_norm sq sd (p @ ''.bn2'') (linear_map sd (p @ ''.fc2'') h2 inner) in
      relu_map (\<lambda>j. x j + residual j))"

definition reference :: "(rat \<Rightarrow> rat) \<Rightarrow> state_dict \<Rightarrow> nat \<Rightarrow> nat \<Rightarrow> nat \<Rightarrow> nat \<Rightarrow> nat \<Rightarrow> nat \<Rightarrow> int list \<Rightarrow> rat list" where
  "reference sq sd classes inputs h1 h2 blocks outputs state =
     (let x0 = (\<lambda>i. one_hot classes state ! i);
          x1 = relu_map (batch_norm sq sd ''bn1'' (linear_map sd ''input_layer'' inputs x0));
          x2 = relu_map (batch_norm sq sd ''bn2'' (linear_map sd ''hidden_layer'' h1 x1));
          x3 = foldl (reference_block sq sd h2) x2 [0..<blocks] in
      map (linear_map sd ''output_layer'' h2 x3) [0..<outputs])"

definition linear_dimensions :: "state_dict \<Rightarrow> string \<Rightarrow> nat \<Rightarrow> nat \<Rightarrow> bool" where
  "linear_dimensions sd name output_width input_width =
     ((case map_of sd (name @ ''.weight'') of
         Some (CkTensor (Matrix r c w)) \<Rightarrow> r = output_width \<and> c = input_width
       | _ \<Rightarrow> False)
      \<and> (case map_of sd (name @ ''.bias'') of
           None \<Rightarrow> True
         | Some (CkTensor (Vector n v)) \<Rightarrow> n = output_width
         | _ \<Rightarrow> False))"

definition affine_dimensions :: "state_dict \<Rightarrow> string \<Rightarrow> nat \<Rightarrow> bool" where
  "affine_dimensions sd name width =
     list_all (\<lambda>suffix'. case map_of sd (name @ ''.'' @ suffix') of Some (CkTensor (Vector n v)) \<Rightarrow> n = width | _ \<Rightarrow> False)
       [''weight'', ''bias'', ''running_mean'', ''running_var'']"

definition block_dimensions :: "state_dict \<Rightarrow> nat \<Rightarrow> nat \<Rightarrow> bool" where
  "block_dimensions sd h2 i =
     (let p = block_prefix i in
      linear_dimensions sd (p @ ''.fc1'') h2 h2 \<and> linear_dimensions sd (p @ ''.fc2'') h2 h2
      \<and> affine_dimensions sd (p @ ''.bn1'') h2 \<and> affine_dimensions sd (p @ ''.bn2'') h2)"

definition pilgrim_dimensions :: "state_dict \<Rightarrow> nat \<Rightarrow> nat \<Rightarrow> nat \<Rightarrow> nat \<Rightarrow> nat \<Rightarrow> bool" where
  "pilgrim_dimensions sd inputs h1 h2 blocks outputs =
     (linear_dimensions sd ''input_layer'' h1 inputs \<and> linear_dimensions sd ''hidden_layer'' h2 h1
      \<and> linear_dimensions sd ''output_layer'' outputs h2 \<and> affine_dimensions sd ''bn1'' h1 \<and> affine_dimensions sd ''bn2'' h2
      \<and> list_all (block_dimensions sd h2) [0..<blocks])"

section \<open>Padded layers\<close>

text \<open>Activations of \<open>n\<close> channels in a padded vector of \<open>N\<close>: the padding channels are zero.\<close>

definition padded :: "nat \<Rightarrow> nat \<Rightarrow> (nat \<Rightarrow> rat) \<Rightarrow> rat list" where
  "padded n N f = map (\<lambda>j. if j < n then f j else 0) [0..<N]"

lemma padded_nth [simp]: "j < N \<Longrightarrow> padded n N f ! j = (if j < n then f j else 0)"
  by (simp add: padded_def)

lemma relu_padded: "relu (padded n N f) = padded n N (relu_map f)"
  by (simp add: relu_def padded_def relu_map_def)

lemma add_padded: "map (\<lambda>(a, b). a + b) (zip (padded n N f) (padded n N g)) = padded n N (\<lambda>j. f j + g j)"
  by (rule nth_equalityI) (simp_all add: padded_def)

lemma hxk_nth: "i < c \<Longrightarrow> j < r \<Longrightarrow> hxk (r, c, w) ! (i * r + j) = w j i"
  unfolding hxk_def using grid_nth [of i c j r "\<lambda>i j. w j i"] by simp

lemma padded_sum:
  assumes "n \<le> N"
  shows "(\<Sum>i < N. padded n N f ! i * (if P \<and> i < n then g i else 0)) = (if P then \<Sum>i < n. f i * g i else (0 :: rat))"
proof -
  have "(\<Sum>i < N. padded n N f ! i * (if P \<and> i < n then g i else 0)) = (\<Sum>i < n. if P then f i * g i else 0)"
    by (rule sum.mono_neutral_cong_right) (use assms in auto)
  then show ?thesis by auto
qed

lemma padded_layer:
  assumes "c \<le> inp" "r \<le> out"
  shows "affine inp out (hxk (out, inp, \<lambda>i j. if i < r \<and> j < c then w i j else 0)) (vec_blob (out, \<lambda>i. if i < r then b i else 0))
      (padded c inp f) = padded r out (\<lambda>j. (\<Sum>i < c. f i * w j i) + b j)"
proof -
  have "(\<Sum>i < inp. padded c inp f ! i * hxk (out, inp, \<lambda>i j. if i < r \<and> j < c then w i j else 0) ! (i * out + j))
      = (if j < r then \<Sum>i < c. f i * w j i else 0)" if "j < out" for j
    using padded_sum [OF assms(1), of f "j < r" "w j"] that by (simp add: hxk_nth)
  then show ?thesis by (auto simp: affine_def padded_def vec_blob_def)
qed

section \<open>Folded layers\<close>

lemma linear_dimensionsE:
  assumes "linear_dimensions sd name r c"
  obtains w b where "linear_weight_bias sd name = Inr ((r, c, w), (r, b))"
    "\<And>f j. linear_map sd name c f j = (\<Sum>i < c. f i * w j i) + b j"
proof -
  from assms obtain w where w: "map_of sd (name @ ''.weight'') = Some (CkTensor (Matrix r c w))"
    by (auto simp: linear_dimensions_def split: option.splits checkpoint.splits tensor.splits)
  show thesis
  proof (cases "map_of sd (name @ ''.bias'')")
    case None
    with w show thesis
      by (intro that [of w "\<lambda>_. 0"])
        (simp_all add: linear_weight_bias_def matrix_of_def bias_of_def linear_map_def weight_of_def entry_of_def)
  next
    case (Some t)
    with assms obtain b where "t = CkTensor (Vector r b)"
      by (auto simp: linear_dimensions_def split: checkpoint.splits tensor.splits)
    with w Some show thesis
      by (intro that [of w b])
        (simp_all add: linear_weight_bias_def matrix_of_def bias_of_def vector_of_def linear_map_def weight_of_def entry_of_def)
  qed
qed

lemma affine_dimensionsE:
  assumes "affine_dimensions sd name r" "s \<in> {''weight'', ''bias'', ''running_mean'', ''running_var''}"
  shows "vector_of sd (name @ ''.'' @ s) = Inr (r, entry_of sd (name @ ''.'' @ s))"
proof -
  from assms obtain v where "map_of sd (name @ ''.'' @ s) = Some (CkTensor (Vector r v))"
    by (fastforce simp: affine_dimensions_def split: option.splits checkpoint.splits tensor.splits)
  then show ?thesis by (simp add: vector_of_def entry_of_def fun_eq_iff)
qed

lemma fold_linear_bn_ok:
  assumes "linear_dimensions sd lin r c" "affine_dimensions sd bn r"
  obtains w b where "fold_linear_bn sq sd lin bn = Inr ((r, c, w), (r, b))"
    "\<And>f j. (\<Sum>i < c. f i * w j i) + b j = batch_norm sq sd bn (linear_map sd lin c f) j"
proof -
  obtain w b where lin: "linear_weight_bias sd lin = Inr ((r, c, w), (r, b))"
    and map: "\<And>f j. linear_map sd lin c f j = (\<Sum>i < c. f i * w j i) + b j"
    by (rule linear_dimensionsE [OF assms(1)]) blast
  define scale where "scale = (\<lambda>j. entry_of sd (bn @ ''.weight'') j / sq (entry_of sd (bn @ ''.running_var'') j + epsilon))"
  let ?w = "\<lambda>j i. w j i * scale j"
  let ?b = "\<lambda>j. (b j - entry_of sd (bn @ ''.running_mean'') j) * scale j + entry_of sd (bn @ ''.bias'') j"
  have "fold_linear_bn sq sd lin bn = Inr ((r, c, ?w), (r, ?b))"
    using affine_dimensionsE [OF assms(2)] by (simp add: fold_linear_bn_def lin broadcast_def scale_def)
  moreover have "(\<Sum>i < c. f i * ?w j i) + ?b j = batch_norm sq sd bn (linear_map sd lin c f) j" for f j
  proof -
    have "(\<Sum>i < c. f i * ?w j i) = (\<Sum>i < c. f i * w j i) * scale j"
      by (simp add: sum_distrib_right mult.assoc)
    then have "(\<Sum>i < c. f i * ?w j i) + ?b j
        = ((\<Sum>i < c. f i * w j i) + b j - entry_of sd (bn @ ''.running_mean'') j) * scale j + entry_of sd (bn @ ''.bias'') j"
      by (simp add: algebra_simps)
    then show ?thesis unfolding batch_norm_def map scale_def by simp
  qed
  ultimately show thesis by (rule that)
qed

text \<open>A lookup agrees with a list of blobs.\<close>

definition agrees :: "(string \<Rightarrow> rat list) \<Rightarrow> blobs \<Rightarrow> bool" where
  "agrees blob bs \<longleftrightarrow> (\<forall>(k, v) \<in> set bs. blob k = v)"

lemma agrees_append [simp]: "agrees blob (xs @ ys) \<longleftrightarrow> agrees blob xs \<and> agrees blob ys"
  unfolding agrees_def by (simp add: ball_Un)

lemma export_layer_ok:
  assumes "linear_dimensions sd lin r c" "affine_dimensions sd bn r" "r \<le> out" "c \<le> inp"
  obtains bs where "export_layer sq sd lin bn name out inp = Inr bs"
    "map fst bs = [name @ ''_weight_hxk'', name @ ''_bias'']"
    "\<forall>blob f. agrees blob bs \<longrightarrow> dense_layer blob name inp out (padded c inp f)
       = padded r out (batch_norm sq sd bn (linear_map sd lin c f))"
proof -
  obtain w b where fold: "fold_linear_bn sq sd lin bn = Inr ((r, c, w), (r, b))"
    and eq: "\<And>f j. (\<Sum>i < c. f i * w j i) + b j = batch_norm sq sd bn (linear_map sd lin c f) j"
    by (rule fold_linear_bn_ok [OF assms(1,2), where sq = sq]) blast
  let ?bs = "[(name @ ''_weight_hxk'', hxk (out, inp, \<lambda>i j. if i < r \<and> j < c then w i j else 0)),
    (name @ ''_bias'', vec_blob (out, \<lambda>i. if i < r then b i else 0))]"
  have run: "export_layer sq sd lin bn name out inp = Inr ?bs"
    using assms(3,4) by (simp add: export_layer_def fold pad_out_in_def pad_vec_def cong: if_cong)
  moreover have "dense_layer blob name inp out (padded c inp f) = padded r out (batch_norm sq sd bn (linear_map sd lin c f))"
    if "agrees blob ?bs" for blob f
  proof -
    have blobs: "blob (name @ ''_weight_hxk'') = hxk (out, inp, \<lambda>i j. if i < r \<and> j < c then w i j else 0)"
      "blob (name @ ''_bias'') = vec_blob (out, \<lambda>i. if i < r then b i else 0)"
      using that unfolding agrees_def by simp_all
    have "dense_layer blob name inp out (padded c inp f) = padded r out (\<lambda>j. (\<Sum>i < c. f i * w j i) + b j)"
      unfolding dense_layer_def blobs by (rule padded_layer [OF assms(4,3)])
    then show ?thesis by (simp add: eq)
  qed
  ultimately show thesis using that [OF run] by auto
qed

section \<open>Blocks and names\<close>

definition block_names :: "nat \<Rightarrow> string list" where
  "block_names i =
     map (\<lambda>s. residual_name i @ s) [''_fc1_weight_hxk'', ''_fc1_bias'', ''_fc2_weight_hxk'', ''_fc2_bias'']"

lemma export_block_ok:
  assumes "block_dimensions sd h2 i" "h2 \<le> width"
  obtains bs where "export_block sq sd width i = Inr bs" "map fst bs = block_names i"
    "\<forall>blob f. agrees blob bs \<longrightarrow>
       residual_block blob width (padded h2 width f) i = padded h2 width (reference_block sq sd h2 f i)"
proof -
  let ?p = "block_prefix i" and ?n = "residual_name i"
  from assms(1) have dims: "linear_dimensions sd (?p @ ''.fc1'') h2 h2" "affine_dimensions sd (?p @ ''.bn1'') h2"
    "linear_dimensions sd (?p @ ''.fc2'') h2 h2" "affine_dimensions sd (?p @ ''.bn2'') h2"
    by (simp_all add: block_dimensions_def Let_def)
  obtain b1 where b1: "export_layer sq sd (?p @ ''.fc1'') (?p @ ''.bn1'') (?n @ ''_fc1'') width width = Inr b1"
    "map fst b1 = [(?n @ ''_fc1'') @ ''_weight_hxk'', (?n @ ''_fc1'') @ ''_bias'']"
    and l1: "\<forall>blob f. agrees blob b1 \<longrightarrow> dense_layer blob (?n @ ''_fc1'') width width (padded h2 width f)
       = padded h2 width (batch_norm sq sd (?p @ ''.bn1'') (linear_map sd (?p @ ''.fc1'') h2 f))"
    by (rule export_layer_ok [OF dims(1,2) assms(2) assms(2), where sq = sq and name = "?n @ ''_fc1''"]) (rule that; assumption)
  obtain b2 where b2: "export_layer sq sd (?p @ ''.fc2'') (?p @ ''.bn2'') (?n @ ''_fc2'') width width = Inr b2"
    "map fst b2 = [(?n @ ''_fc2'') @ ''_weight_hxk'', (?n @ ''_fc2'') @ ''_bias'']"
    and l2: "\<forall>blob f. agrees blob b2 \<longrightarrow> dense_layer blob (?n @ ''_fc2'') width width (padded h2 width f)
       = padded h2 width (batch_norm sq sd (?p @ ''.bn2'') (linear_map sd (?p @ ''.fc2'') h2 f))"
    by (rule export_layer_ok [OF dims(3,4) assms(2) assms(2), where sq = sq and name = "?n @ ''_fc2''"]) (rule that; assumption)
  show thesis
  proof (rule that [of "b1 @ b2"])
    show "export_block sq sd width i = Inr (b1 @ b2)" by (simp only: export_block_def Let_def b1(1) b2(1) ebind_simps)
    show "map fst (b1 @ b2) = block_names i" using b1(2) b2(2) by (simp add: block_names_def)
    show "\<forall>blob f. agrees blob (b1 @ b2) \<longrightarrow>
      residual_block blob width (padded h2 width f) i = padded h2 width (reference_block sq sd h2 f i)"
    proof (intro allI impI)
      fix blob f assume "agrees blob (b1 @ b2)"
      then have "agrees blob b1" "agrees blob b2" by simp_all
      then show "residual_block blob width (padded h2 width f) i = padded h2 width (reference_block sq sd h2 f i)"
        using l1 l2
        by (simp only: residual_block_def Let_def residual_name_def [symmetric] relu_padded add_padded reference_block_def)
    qed
  qed
qed

lemma residual_key_eq:
  "residual_name i @ CHR ''_'' # s = residual_name j @ CHR ''_'' # t \<longleftrightarrow> i = j \<and> s = t"
proof
  assume "residual_name i @ CHR ''_'' # s = residual_name j @ CHR ''_'' # t"
  then have eq: "str_nat i @ CHR ''_'' # s = str_nat j @ CHR ''_'' # t" by (simp add: residual_name_def)
  have "takeWhile is_digit (str_nat k @ CHR ''_'' # r) = str_nat k" for k r
    using str_nat_digits [of k] by (subst takeWhile_append2) (auto simp: is_digit_def list_all_iff)
  then have "str_nat i = str_nat j" using arg_cong [OF eq, of "takeWhile is_digit"] by simp
  then show "i = j \<and> s = t" using eq by simp
qed simp

lemma residual_name_inj: "residual_name i = residual_name j \<Longrightarrow> i = j"
  using residual_key_eq [of i "[]" j "[]"] by simp

lemma block_names_distinct: "distinct (concat (map block_names [0..<n]))"
proof (rule distinct_concat)
  show "distinct (map block_names [0..<n])"
    unfolding distinct_map by (auto simp: inj_on_def block_names_def residual_key_eq dest: residual_name_inj)
  show "distinct ys" if "ys \<in> set (map block_names [0..<n])" for ys
    using that by (auto simp: block_names_def)
  show "set ys \<inter> set zs = {}"
    if "ys \<in> set (map block_names [0..<n])" "zs \<in> set (map block_names [0..<n])" "ys \<noteq> zs" for ys zs
    using that by (auto simp: block_names_def residual_key_eq)
qed

definition layer_names :: "nat \<Rightarrow> string list" where
  "layer_names blocks =
     [''input_weight_hxk'', ''input_bias'', ''hidden_weight_hxk'', ''hidden_bias''] @ concat (map block_names [0..<blocks])
     @ [''output_weight_hxk'', ''output_bias'']"

lemma layer_names_distinct: "distinct (layer_names blocks)"
  using block_names_distinct [of blocks]
  by (auto simp: layer_names_def block_names_def residual_name_def)

lemma lookup_agrees:
  assumes "distinct (map fst blobs)" "set bs \<subseteq> set blobs"
  shows "agrees (\<lambda>k. the (map_of blobs k)) bs"
  using assms map_of_is_SomeI [OF assms(1)] unfolding agrees_def by fastforce

section \<open>The exported network\<close>

lemma pad_width_ge: "n \<le> pad_width n"
  unfolding pad_width_def by linarith

lemma export_output_ok:
  assumes "linear_dimensions sd ''output_layer'' outputs h2" "h2 \<le> width"
  obtains bs where "export_output sd outputs width = Inr bs" "map fst bs = [''output_weight_hxk'', ''output_bias'']"
    "\<forall>blob f. agrees blob bs \<longrightarrow>
       dense_layer blob ''output'' width outputs (padded h2 width f) = map (linear_map sd ''output_layer'' h2 f) [0..<outputs]"
proof -
  obtain w b where lin: "linear_weight_bias sd ''output_layer'' = Inr ((outputs, h2, w), (outputs, b))"
    and map: "\<And>f j. linear_map sd ''output_layer'' h2 f j = (\<Sum>i < h2. f i * w j i) + b j"
    by (rule linear_dimensionsE [OF assms(1)]) blast
  let ?w = "hxk (outputs, width, \<lambda>i j. if i < outputs \<and> j < h2 then w i j else 0)"
  let ?b = "vec_blob (outputs, \<lambda>i. if i < outputs then b i else 0)"
  have "vec_blob (outputs, b) = ?b" by (simp add: vec_blob_def)
  then have run: "export_output sd outputs width = Inr [(''output_weight_hxk'', ?w), (''output_bias'', ?b)]"
    using assms(2) by (simp add: export_output_def lin pad_out_in_def cong: if_cong)
  have "dense_layer blob ''output'' width outputs (padded h2 width f) = map (linear_map sd ''output_layer'' h2 f) [0..<outputs]"
    if "agrees blob [(''output_weight_hxk'', ?w), (''output_bias'', ?b)]" for blob f
  proof -
    have "blob (''output'' @ ''_weight_hxk'') = ?w" "blob (''output'' @ ''_bias'') = ?b" using that by (simp_all add: agrees_def)
    then have "dense_layer blob ''output'' width outputs (padded h2 width f)
        = padded outputs outputs (\<lambda>j. (\<Sum>i < h2. f i * w j i) + b j)"
      using padded_layer [OF assms(2) order_refl] by (simp only: dense_layer_def)
    then show ?thesis by (simp add: padded_def map)
  qed
  then show thesis using that [OF run] by simp
qed

lemma blocks_fold:
  assumes "\<And>i f. i < n \<Longrightarrow> residual_block blob width (padded h2 width f) i = padded h2 width (reference_block sq sd h2 f i)"
  shows "foldl (residual_block blob width) (padded h2 width f) [0..<n] = padded h2 width (foldl (reference_block sq sd h2) f [0..<n])"
  using assms by (induction n) simp_all

text \<open>The layers of the exported network, one fact per layer.\<close>

definition layers_exact :: "(rat \<Rightarrow> rat) \<Rightarrow> state_dict \<Rightarrow> nat \<Rightarrow> nat \<Rightarrow> nat \<Rightarrow> nat \<Rightarrow> nat \<Rightarrow> (string \<Rightarrow> rat list) \<Rightarrow> bool" where
  "layers_exact sq sd inputs h1 h2 blocks outputs blob \<longleftrightarrow>
     (\<forall>f. dense_layer blob ''input'' inputs (pad_width h1) (padded inputs inputs f)
         = padded h1 (pad_width h1) (batch_norm sq sd ''bn1'' (linear_map sd ''input_layer'' inputs f)))
     \<and> (\<forall>f. dense_layer blob ''hidden'' (pad_width h1) (pad_width h2) (padded h1 (pad_width h1) f)
         = padded h2 (pad_width h2) (batch_norm sq sd ''bn2'' (linear_map sd ''hidden_layer'' h1 f)))
     \<and> (\<forall>i < blocks. \<forall>f. residual_block blob (pad_width h2) (padded h2 (pad_width h2) f) i
         = padded h2 (pad_width h2) (reference_block sq sd h2 f i))
     \<and> (\<forall>f. dense_layer blob ''output'' (pad_width h2) outputs (padded h2 (pad_width h2) f)
         = map (linear_map sd ''output_layer'' h2 f) [0..<outputs])"

lemma export_blocks_ok:
  assumes "list_all (block_dimensions sd h2) [0..<blocks]"
  obtains bs where "emap (export_block sq sd (pad_width h2)) [0..<blocks] = Inr bs"
    "map (map fst) bs = map block_names [0..<blocks]"
    "\<forall>blob i f. i < blocks \<and> agrees blob (concat bs) \<longrightarrow> residual_block blob (pad_width h2) (padded h2 (pad_width h2) f) i
       = padded h2 (pad_width h2) (reference_block sq sd h2 f i)"
proof -
  have "\<exists>b. export_block sq sd (pad_width h2) i = Inr b \<and> map fst b = block_names i
      \<and> (\<forall>blob f. agrees blob b \<longrightarrow> residual_block blob (pad_width h2) (padded h2 (pad_width h2) f) i
           = padded h2 (pad_width h2) (reference_block sq sd h2 f i))" if "i < blocks" for i
  proof -
    from assms that have "block_dimensions sd h2 i" by (simp add: list_all_iff)
    then show ?thesis by (rule export_block_ok [OF _ pad_width_ge, where sq = sq]) (intro exI conjI; assumption)
  qed
  then obtain g where g: "\<And>i. i < blocks \<Longrightarrow> export_block sq sd (pad_width h2) i = Inr (g i)"
    "\<And>i. i < blocks \<Longrightarrow> map fst (g i) = block_names i"
    "\<And>i blob f. i < blocks \<Longrightarrow> agrees blob (g i) \<Longrightarrow> residual_block blob (pad_width h2) (padded h2 (pad_width h2) f) i
           = padded h2 (pad_width h2) (reference_block sq sd h2 f i)"
    by metis
  show thesis
  proof (rule that [of "map g [0..<blocks]"])
    show "emap (export_block sq sd (pad_width h2)) [0..<blocks] = Inr (map g [0..<blocks])"
      by (rule emap_total) (simp add: g(1))
    show "map (map fst) (map g [0..<blocks]) = map block_names [0..<blocks]" by (simp add: g(2))
    show "\<forall>blob i f. i < blocks \<and> agrees blob (concat (map g [0..<blocks])) \<longrightarrow>
      residual_block blob (pad_width h2) (padded h2 (pad_width h2) f) i = padded h2 (pad_width h2) (reference_block sq sd h2 f i)"
      using g(3) by (auto simp: agrees_def)
  qed
qed

lemma export_layers_ok:
  assumes "pilgrim_dimensions sd inputs h1 h2 blocks outputs"
  obtains blobs where "export_layers sq sd inputs h1 h2 blocks outputs = Inr blobs" "map fst blobs = layer_names blocks"
    "layers_exact sq sd inputs h1 h2 blocks outputs (\<lambda>k. the (map_of blobs k))"
proof -
  have dims: "linear_dimensions sd ''input_layer'' h1 inputs" "affine_dimensions sd ''bn1'' h1"
    "linear_dimensions sd ''hidden_layer'' h2 h1" "affine_dimensions sd ''bn2'' h2"
    "linear_dimensions sd ''output_layer'' outputs h2" "list_all (block_dimensions sd h2) [0..<blocks]"
    using assms by (simp_all add: pilgrim_dimensions_def)
  obtain b1 where b1: "export_layer sq sd ''input_layer'' ''bn1'' ''input'' (pad_width h1) inputs = Inr b1"
    "map fst b1 = [''input'' @ ''_weight_hxk'', ''input'' @ ''_bias'']"
    and l1: "\<forall>blob f. agrees blob b1 \<longrightarrow> dense_layer blob ''input'' inputs (pad_width h1) (padded inputs inputs f)
       = padded h1 (pad_width h1) (batch_norm sq sd ''bn1'' (linear_map sd ''input_layer'' inputs f))"
    by (rule export_layer_ok [OF dims(1,2) pad_width_ge order_refl, where sq = sq and name = "''input''"])
      (rule that; assumption)
  obtain b2 where b2: "export_layer sq sd ''hidden_layer'' ''bn2'' ''hidden'' (pad_width h2) (pad_width h1) = Inr b2"
    "map fst b2 = [''hidden'' @ ''_weight_hxk'', ''hidden'' @ ''_bias'']"
    and l2: "\<forall>blob f. agrees blob b2 \<longrightarrow> dense_layer blob ''hidden'' (pad_width h1) (pad_width h2) (padded h1 (pad_width h1) f)
       = padded h2 (pad_width h2) (batch_norm sq sd ''bn2'' (linear_map sd ''hidden_layer'' h1 f))"
    by (rule export_layer_ok [OF dims(3,4) pad_width_ge pad_width_ge, where sq = sq and name = "''hidden''"])
      (rule that; assumption)
  obtain bs where bs: "emap (export_block sq sd (pad_width h2)) [0..<blocks] = Inr bs"
    "map (map fst) bs = map block_names [0..<blocks]"
    and lb: "\<forall>blob i f. i < blocks \<and> agrees blob (concat bs) \<longrightarrow> residual_block blob (pad_width h2) (padded h2 (pad_width h2) f) i
       = padded h2 (pad_width h2) (reference_block sq sd h2 f i)"
    by (rule export_blocks_ok [OF dims(6), where sq = sq]) (rule that; assumption)
  obtain b3 where b3: "export_output sd outputs (pad_width h2) = Inr b3" "map fst b3 = [''output_weight_hxk'', ''output_bias'']"
    and l3: "\<forall>blob f. agrees blob b3 \<longrightarrow> dense_layer blob ''output'' (pad_width h2) outputs (padded h2 (pad_width h2) f)
       = map (linear_map sd ''output_layer'' h2 f) [0..<outputs]"
    by (rule export_output_ok [OF dims(5) pad_width_ge]) (rule that; assumption)
  let ?blobs = "b1 @ b2 @ concat bs @ b3"
  have names: "map fst ?blobs = layer_names blocks"
    using b1(2) b2(2) b3(2) bs(2) by (simp add: layer_names_def map_concat)
  have "agrees (\<lambda>k. the (map_of ?blobs k)) ?blobs"
    by (rule lookup_agrees) (simp_all only: names layer_names_distinct order_refl)
  then have "layers_exact sq sd inputs h1 h2 blocks outputs (\<lambda>k. the (map_of ?blobs k))"
    using l1 l2 lb l3 unfolding layers_exact_def agrees_append by blast
  moreover have "export_layers sq sd inputs h1 h2 blocks outputs = Inr ?blobs"
    by (simp add: export_layers_def b1(1) b2(1) bs(1) b3(1))
  ultimately show thesis using that names by blast
qed

lemma pad_width_bounds:
  assumes "0 < n" "n < 2 ^ 31"
  shows "0 < pad_width n" "int (pad_width n) < 2 ^ 32"
  using assms unfolding pad_width_def by auto

definition exported_shape :: "nat \<Rightarrow> nat \<Rightarrow> nat \<Rightarrow> nat \<Rightarrow> nat \<Rightarrow> nat \<Rightarrow> mlp_shape" where
  "exported_shape size' classes h1 h2 blocks outputs =
     \<lparr>ms_size = int size', ms_classes = int classes, ms_h1 = int (pad_width h1), ms_h2 = int (pad_width h2),
      ms_blocks = int blocks, ms_outputs = int outputs\<rparr>"

lemma exported_manifest_shape:
  assumes "\<forall>n \<in> {size', classes, h1, h2, blocks, outputs}. 0 < n \<and> n < 2 ^ 31"
  shows "read_shape (export_manifest (int (size' * classes)) (int classes) h1 h2 blocks outputs dtype source)
    = Inr (exported_shape size' classes h1 h2 blocks outputs)"
proof -
  have "0 < int n \<and> int n < 2 ^ 32" if "n \<in> {size', classes, blocks, outputs}" for n
    using assms that by auto
  then show ?thesis
    using pad_width_bounds [of h1] pad_width_bounds [of h2] assms
    by (simp add: read_shape_def manifest_int_def export_manifest_def exported_shape_def)
qed

lemma one_hot_padded:
  "length state = n \<Longrightarrow> one_hot m state = padded (n * m) (n * m) (\<lambda>i. one_hot m state ! i)"
  by (rule nth_equalityI) (simp_all add: padded_def one_hot_def length_concat comp_def sum_list_triv)

lemma layers_exact_forward:
  assumes "layers_exact sq sd (size' * classes) h1 h2 blocks outputs blob" "length state = size'"
  shows "mlp_forward blob (exported_shape size' classes h1 h2 blocks outputs) state
    = reference sq sd classes (size' * classes) h1 h2 blocks outputs state"
proof -
  let ?x0 = "\<lambda>i. one_hot classes state ! i"
  let ?x1 = "relu_map (batch_norm sq sd ''bn1'' (linear_map sd ''input_layer'' (size' * classes) ?x0))"
  let ?x2 = "relu_map (batch_norm sq sd ''bn2'' (linear_map sd ''hidden_layer'' h1 ?x1))"
  let ?x3 = "foldl (reference_block sq sd h2) ?x2 [0..<blocks]"
  have "relu (dense_layer blob ''input'' (size' * classes) (pad_width h1) (one_hot classes state)) = padded h1 (pad_width h1) ?x1"
    using assms(1) unfolding layers_exact_def by (subst one_hot_padded [OF assms(2)]) (simp add: relu_padded)
  moreover have "relu (dense_layer blob ''hidden'' (pad_width h1) (pad_width h2) (padded h1 (pad_width h1) ?x1))
      = padded h2 (pad_width h2) ?x2"
    using assms(1) unfolding layers_exact_def by (simp add: relu_padded)
  moreover have "foldl (residual_block blob (pad_width h2)) (padded h2 (pad_width h2) ?x2) [0..<blocks] = padded h2 (pad_width h2) ?x3"
    using assms(1) unfolding layers_exact_def by (intro blocks_fold) blast
  moreover have "dense_layer blob ''output'' (pad_width h2) outputs (padded h2 (pad_width h2) ?x3)
      = map (linear_map sd ''output_layer'' h2 ?x3) [0..<outputs]"
    using assms(1) unfolding layers_exact_def by blast
  ultimately show ?thesis
    by (simp add: mlp_forward_def exported_shape_def reference_def Let_def)
qed

lemma dimensions_matrix:
  "linear_dimensions sd name r c \<Longrightarrow> \<exists>w. map_of sd (name @ ''.weight'') = Some (CkTensor (Matrix r c w))"
  by (auto simp: linear_dimensions_def split: option.splits checkpoint.splits tensor.splits)

text \<open>C36. Exporting a trained network preserves what it computes. For a checkpoint with the dimensions that
  \<open>_known_model\<close> requires, widths of any size, the exporter succeeds, its manifest reads back as the padded
  shape, and the forward pass of the written blobs (each normalisation folded into the linear layer before
  it, hidden widths padded to multiples of eight, weights input-major) equals on every state the reference
  network with its batch normalisations. The values are those before the final rounding to half precision.\<close>

theorem export_exact:
  assumes "unwrap_state_dict obj = Inr raw"
    and "pilgrim_dimensions (strip_orig_mod raw) (size' * classes) h1 h2 blocks outputs"
    and "infer_residual_count (strip_orig_mod raw) = Inr blocks"
    and "\<forall>n \<in> {size', classes, h1, h2, blocks, outputs}. 0 < n \<and> n < 2 ^ 31"
    and "length state = size'"
  shows "\<exists>blobs manifest sh. export_batchnorm_folded sq source dtype (int classes) obj = Inr (blobs, manifest)
    \<and> read_shape manifest = Inr sh \<and> ms_h1 sh = int (pad_width h1) \<and> ms_h2 sh = int (pad_width h2)
    \<and> mlp_forward (\<lambda>k. the (map_of blobs k)) sh state
        = reference sq (strip_orig_mod raw) classes (size' * classes) h1 h2 blocks outputs state"
proof -
  let ?sd = "strip_orig_mod raw"
  let ?m = "export_manifest (int (size' * classes)) (int classes) h1 h2 blocks outputs dtype source"
  let ?sh = "exported_shape size' classes h1 h2 blocks outputs"
  obtain blobs where blobs: "export_layers sq ?sd (size' * classes) h1 h2 blocks outputs = Inr blobs"
    and exact: "layers_exact sq ?sd (size' * classes) h1 h2 blocks outputs (\<lambda>k. the (map_of blobs k))"
    by (rule export_layers_ok [OF assms(2)])
  obtain w1 w2 w3 where w: "map_of ?sd ''input_layer.weight'' = Some (CkTensor (Matrix h1 (size' * classes) w1))"
    "map_of ?sd ''hidden_layer.weight'' = Some (CkTensor (Matrix h2 h1 w2))"
    "map_of ?sd ''output_layer.weight'' = Some (CkTensor (Matrix outputs h2 w3))"
  proof -
    have "linear_dimensions ?sd ''input_layer'' h1 (size' * classes)" "linear_dimensions ?sd ''hidden_layer'' h2 h1"
      "linear_dimensions ?sd ''output_layer'' outputs h2"
      using assms(2) by (simp_all add: pilgrim_dimensions_def)
    from this [THEN dimensions_matrix] show thesis using that by auto
  qed
  have "export_batchnorm_folded sq source dtype (int classes) obj = Inr (blobs, ?m)"
    using assms(4) by (simp add: export_batchnorm_folded_def assms(1,3) Let_def dict_item_def matrix_of_def w check_widths_def blobs)
  moreover have "read_shape ?m = Inr ?sh" by (rule exported_manifest_shape [OF assms(4)])
  moreover have "ms_h1 ?sh = int (pad_width h1)" "ms_h2 ?sh = int (pad_width h2)" by (simp_all add: exported_shape_def)
  ultimately show ?thesis using layers_exact_forward [OF exact assms(5)] by blast
qed

text \<open>A network with one position, two labels, hidden width one and one block.\<close>

definition tiny_vector :: checkpoint where
  "tiny_vector = CkTensor (Vector 1 (\<lambda>_. 1))"

definition tiny_matrix :: checkpoint where
  "tiny_matrix = CkTensor (Matrix 1 1 (\<lambda>_ _. 1))"

definition tiny_norm :: "string \<Rightarrow> state_dict" where
  "tiny_norm name = map (\<lambda>s. (name @ ''.'' @ s, tiny_vector)) [''weight'', ''bias'', ''running_mean'', ''running_var'']"

definition tiny_state :: state_dict where
  "tiny_state =
     [(''input_layer.weight'', CkTensor (Matrix 1 2 (\<lambda>i j. of_nat j))), (''hidden_layer.weight'', tiny_matrix),
      (''output_layer.weight'', tiny_matrix), (''output_layer.bias'', tiny_vector),
      (''residual_blocks.0.fc1.weight'', tiny_matrix), (''residual_blocks.0.fc2.weight'', tiny_matrix)]
     @ tiny_norm ''bn1'' @ tiny_norm ''bn2'' @ tiny_norm ''residual_blocks.0.bn1'' @ tiny_norm ''residual_blocks.0.bn2''"

lemma tiny_strip: "strip_orig_mod tiny_state = tiny_state"
  by (simp add: strip_orig_mod_def tiny_state_def tiny_norm_def dict_update_def)

lemma tiny_unwrap: "unwrap_state_dict (CkDict tiny_state) = Inr tiny_state"
  by (simp add: unwrap_state_dict_def wrapper_keys_def tiny_state_def tiny_norm_def)

lemma tiny_blocks: "infer_residual_count tiny_state = Inr 1"
proof -
  have "List.map_filter (\<lambda>(k, _). block_index k) tiny_state = [0]" by code_simp
  then show ?thesis by (auto simp: infer_residual_count_def)
qed

lemma tiny_dimensions: "pilgrim_dimensions tiny_state 2 1 1 1 1"
proof -
  have "block_prefix 0 = ''residual_blocks.0''" by code_simp
  then show ?thesis
    by (simp add: pilgrim_dimensions_def block_dimensions_def linear_dimensions_def affine_dimensions_def tiny_state_def
        tiny_norm_def tiny_matrix_def tiny_vector_def)
qed

lemma export_exact_witness:
  "\<exists>blobs manifest sh. export_batchnorm_folded (\<lambda>_. 1) ''w.pt'' ''fp16'' 2 (CkDict tiny_state) = Inr (blobs, manifest)
    \<and> read_shape manifest = Inr sh
    \<and> mlp_forward (\<lambda>k. the (map_of blobs k)) sh [1] = reference (\<lambda>_. 1) tiny_state 2 2 1 1 1 1 [1]"
  using export_exact [OF tiny_unwrap, of 1 2 1 1 1 1 "[1]" "\<lambda>_. 1" "''w.pt''" "''fp16''"] tiny_dimensions tiny_blocks
  unfolding tiny_strip by auto

end
