(* ===== verification/Cluster.thy ===== *)
theory Cluster
  imports Texts
begin

text \<open>
  Ranks across machines: the block layout of \<open>cluster.py\<close>, the assignment a scheduler passes in the
  environment, one scheduled worker with its failure marker, and the single-host launcher of
  \<open>local_launcher.py\<close>. The file system the ranks share, the clock and the child processes are observed
  through parameters.
\<close>

section \<open>The cluster plan\<close>

definition max_world_size :: nat where
  "max_world_size = 128"

record rank_placement =
  pl_global :: nat
  pl_node :: nat
  pl_local :: nat

record cluster_plan =
  cp_ranks :: "rank_placement list"
  cp_requested :: int
  cp_effective :: int
  cp_alignment :: int
  cp_capacity :: int
  cp_shards :: int

fun place_ranks :: "nat \<Rightarrow> nat \<Rightarrow> nat list \<Rightarrow> rank_placement list" where
  "place_ranks g node [] = []"
| "place_ranks g node (count' # counts) =
     map (\<lambda>l. \<lparr>pl_global = g + l, pl_node = node, pl_local = l\<rparr>) [0..<count'] @ place_ranks (g + count') (Suc node) counts"

definition gpu_count :: "pyval \<Rightarrow> nat result" where
  "gpu_count v =
     (case v of
        PInt n \<Rightarrow> if 0 < n then Inr (nat n) else Inl (ValueError ''each node must have a positive GPU count'')
      | _ \<Rightarrow> Inl (ValueError ''each node must have a positive GPU count''))"

definition positive_uint :: "pyval \<Rightarrow> nat \<Rightarrow> int result" where
  "positive_uint v bits =
     (case v of
        PInt n \<Rightarrow> if 0 < n \<and> n < 2 ^ bits then Inr n else Inl (ValueError ''must be a positive uint'')
      | _ \<Rightarrow> Inl (ValueError ''must be a positive uint''))"

definition plan_cluster :: "pyval list \<Rightarrow> pyval \<Rightarrow> pyval \<Rightarrow> pyval \<Rightarrow> cluster_plan result" where
  "plan_cluster gpu_list beam_width shard_count batch_alignment =
     ebind (raise_if (gpu_list = []) (ValueError ''each node must have a positive GPU count'')) (\<lambda>_.
     ebind (emap gpu_count gpu_list) (\<lambda>counts.
     let world = sum_list counts in
     ebind (raise_if (max_world_size < world) (ValueError ''native final exchange supports at most 128 ranks'')) (\<lambda>_.
     ebind (positive_uint beam_width 64) (\<lambda>beam.
     ebind (positive_uint shard_count 32) (\<lambda>shards.
     ebind (positive_uint batch_alignment 32) (\<lambda>batch.
     let alignment = int world * shards * batch; capacity = (beam + int world - 1) div int world in
     if 2 ^ 64 \<le> alignment \<or> 2 ^ 32 \<le> capacity
     then Inl (ValueError ''native alignment or rank-local frontier index overflows'')
     else Inr \<lparr>cp_ranks = place_ranks 0 0 counts, cp_requested = beam, cp_effective = beam, cp_alignment = alignment,
               cp_capacity = capacity, cp_shards = shards\<rparr>))))))"

section \<open>The scheduler's assignment\<close>

record scheduled_rank = rank_placement +
  sr_world :: nat
  sr_local_world :: nat

definition cuda_ordinal :: "scheduled_rank \<Rightarrow> pyval \<Rightarrow> nat result" where
  "cuda_ordinal r visible =
     (case visible of
        PInt n \<Rightarrow>
          if n \<le> 0 then Inl (ValueError ''no visible CUDA devices'')
          else if n = 1 then Inr 0
          else if n \<le> int (pl_local r) then Inl (ValueError ''LOCAL_RANK exceeds the visible CUDA devices'')
          else Inr (pl_local r)
      | _ \<Rightarrow> Inl (ValueError ''no visible CUDA devices''))"

type_synonym environ = "(string, string) dict"

definition env_get :: "environ \<Rightarrow> string \<Rightarrow> string \<Rightarrow> string" where
  "env_get env name def = (case map_of env name of Some v \<Rightarrow> v | None \<Rightarrow> def)"

text \<open>\<open>_number\<close>: one to ten digits.\<close>

definition scheduler_number :: "environ \<Rightarrow> string \<Rightarrow> nat result" where
  "scheduler_number env name =
     (let v = env_get env name [] in
      if list_all is_digit v \<and> 1 \<le> length v \<and> length v \<le> 10 then Inr (nat_of_digits v)
      else Inl (ValueError ''missing or invalid scheduler variable''))"

text \<open>One item of a tasks-per-node list: \<open>8\<close> or \<open>8(x2)\<close>, both numbers below 1000 and without leading zeros.\<close>

definition small_number :: "string \<Rightarrow> bool" where
  "small_number s \<longleftrightarrow> s \<noteq> [] \<and> length s \<le> 3 \<and> list_all is_digit s \<and> hd s \<noteq> CHR ''0''"

definition slurm_part :: "string \<Rightarrow> (nat \<times> nat) option" where
  "slurm_part part =
     (let a = takeWhile (\<lambda>c. c \<noteq> CHR ''('') part; b = dropWhile (\<lambda>c. c \<noteq> CHR ''('') part;
          repeat = butlast (drop 2 b) in
      if \<not> small_number a then None
      else if b = [] then Some (nat_of_digits a, 1)
      else if prefix ''(x'' b \<and> 3 \<le> length b \<and> last b = CHR '')'' \<and> small_number repeat
      then Some (nat_of_digits a, nat_of_digits repeat)
      else None)"

definition add_counts :: "nat list \<Rightarrow> string \<Rightarrow> nat list result" where
  "add_counts counts part =
     (case slurm_part part of
        None \<Rightarrow> Inl (ValueError ''invalid Slurm tasks-per-node list'')
      | Some (count', repeat) \<Rightarrow>
          if max_world_size < length counts + repeat then Inl (ValueError ''invalid Slurm node count'')
          else Inr (counts @ replicate repeat count'))"

definition slurm_counts :: "string \<Rightarrow> nat list result" where
  "slurm_counts s = efold add_counts [] (split_on CHR '','' s)"

definition ranked :: "nat \<Rightarrow> nat \<Rightarrow> nat \<Rightarrow> nat \<Rightarrow> nat \<Rightarrow> scheduled_rank result" where
  "ranked rank node local world local_size =
     (if \<not> (1 \<le> world \<and> world \<le> max_world_size) \<or> world \<le> rank \<or> local_size \<le> local
      then Inl (ValueError ''invalid rank or world size (maximum 128)'')
      else Inr \<lparr>pl_global = rank, pl_node = node, pl_local = local, sr_world = world, sr_local_world = local_size\<rparr>)"

definition torchrun_rank :: "environ \<Rightarrow> scheduled_rank result" where
  "torchrun_rank env =
     ebind (scheduler_number env ''WORLD_SIZE'') (\<lambda>world.
     ebind (scheduler_number env ''RANK'') (\<lambda>rank.
     ebind (scheduler_number env ''LOCAL_WORLD_SIZE'') (\<lambda>local_size.
     ebind (scheduler_number env ''LOCAL_RANK'') (\<lambda>local.
     ebind (scheduler_number env ''GROUP_RANK'') (\<lambda>node.
     if local_size = 0 \<or> world mod local_size \<noteq> 0 \<or> world div local_size \<le> node
     then Inl (ValueError ''invalid torchrun node or local group size'')
     else ranked rank node local world local_size)))))"

definition has_key :: "environ \<Rightarrow> string \<Rightarrow> bool" where
  "has_key env name = (map_of env name \<noteq> None)"

definition slurm_rank :: "environ \<Rightarrow> scheduled_rank result" where
  "slurm_rank env =
     ebind (scheduler_number env (if has_key env ''SLURM_STEP_NUM_TASKS'' then ''SLURM_STEP_NUM_TASKS'' else ''SLURM_NTASKS'')) (\<lambda>world.
     ebind (scheduler_number env ''SLURM_PROCID'') (\<lambda>rank.
     ebind (scheduler_number env ''SLURM_LOCALID'') (\<lambda>local.
     ebind (scheduler_number env ''SLURM_NODEID'') (\<lambda>node.
     ebind (slurm_counts (env_get env ''SLURM_STEP_TASKS_PER_NODE'' (env_get env ''SLURM_TASKS_PER_NODE'' []))) (\<lambda>counts.
     if sum_list counts \<noteq> world \<or> length counts \<le> node
     then Inl (ValueError ''Slurm node counts disagree with the current step'')
     else ranked rank node local world (counts ! node))))))"

definition scheduler_rank :: "environ \<Rightarrow> scheduled_rank result" where
  "scheduler_rank env =
     (if has_key env ''TORCHELASTIC_RUN_ID'' \<or> \<not> has_key env ''SLURM_PROCID'' then torchrun_rank env else slurm_rank env)"

section \<open>One scheduled worker\<close>

datatype child = NotStarted | Running | Exited | Terminated | Killed

text \<open>
  What the worker observes: directory creation, the marker of a failed peer (before the launch, then at each
  poll), the exit code of its child and the time since the launch at each poll, and whether writing the
  launch record, starting the child or writing the marker raises.
\<close>

record cluster_host =
  ch_resolve :: "string \<Rightarrow> string"
  ch_which :: "string \<Rightarrow> string option \<Rightarrow> string option"
  ch_mkdir :: "string \<Rightarrow> exn option"
  ch_failed :: "nat \<Rightarrow> bool"
  ch_code :: "nat \<Rightarrow> int option"
  ch_clock :: "nat \<Rightarrow> rat"
  ch_launch :: "exn option"
  ch_obeys :: bool
  ch_mark :: "exn option"

record cluster_state =
  cl_dirs :: "string list"
  cl_marker :: bool
  cl_child :: child
  cl_env :: environ

definition run_id_char :: "char \<Rightarrow> bool" where
  "run_id_char c \<longleftrightarrow> is_digit c \<or> c \<in> set ''ABCDEFGHIJKLMNOPQRSTUVWXYZabcdefghijklmnopqrstuvwxyz''"

definition valid_run_id :: "string \<Rightarrow> bool" where
  "valid_run_id s \<longleftrightarrow>
     s \<noteq> ''none'' \<and> s \<noteq> [] \<and> length s \<le> 128 \<and> run_id_char (hd s)
     \<and> list_all (\<lambda>c. run_id_char c \<or> c \<in> set ''._-'') (tl s)"

definition choose_run_id :: "string option \<Rightarrow> environ \<Rightarrow> string option" where
  "choose_run_id run_id env =
     (case run_id of
        Some s \<Rightarrow> Some s
      | None \<Rightarrow>
          if env_get env ''TORCHELASTIC_RUN_ID'' [] \<noteq> [] then Some (env_get env ''TORCHELASTIC_RUN_ID'' [])
          else if env_get env ''SLURM_JOB_ID'' [] \<noteq> [] \<and> env_get env ''SLURM_STEP_ID'' [] \<noteq> []
          then Some (''slurm-'' @ env_get env ''SLURM_JOB_ID'' [] @ ''-'' @ env_get env ''SLURM_STEP_ID'' [])
          else map_of env ''TORCHELASTIC_RUN_ID'')"

text \<open>Input paths are made absolute before the working directory changes; absent or empty ones are left alone.\<close>

definition input_paths :: "(string \<times> string option) list" where
  "input_paths =
     [(''BEAM_PUZZLE_INFO_JSON'', Some ''data/puzzle_info.json''), (''BEAM_TEST_CSV'', Some ''data/test.csv''),
      (''BEAM_WEIGHT_DIR'', Some ''stream1_weights''), (''BEAM_GENERATOR_PATH'', None), (''BEAM_BLEND_DIR'', None),
      (''BEAM_START_STATE_FILE'', None), (''BEAM_TARGET_STATE_FILE'', None)]"

definition resolve_input :: "(string \<Rightarrow> string) \<Rightarrow> string \<times> string option \<Rightarrow> environ \<Rightarrow> environ" where
  "resolve_input resolve p env =
     (case (map_of env (fst p), snd p) of
        (Some v, _) \<Rightarrow> if v = [] then env else dict_set (fst p) (resolve v) env
      | (None, Some d) \<Rightarrow> dict_set (fst p) (resolve d) env
      | (None, None) \<Rightarrow> env)"

definition set_default :: "string \<Rightarrow> string \<Rightarrow> environ \<Rightarrow> environ" where
  "set_default k v env = (if has_key env k then env else dict_set k v env)"

definition rank_environment :: "(string \<Rightarrow> string) \<Rightarrow> scheduled_rank \<Rightarrow> string \<Rightarrow> string \<Rightarrow> string \<Rightarrow> environ \<Rightarrow> environ" where
  "rank_environment resolve r run_id base directory env =
     (let env1 = dict_update env
        [(''RANK'', str_nat (pl_global r)), (''WORLD_SIZE'', str_nat (sr_world r)), (''GROUP_RANK'', str_nat (pl_node r)),
         (''LOCAL_RANK'', str_nat (pl_local r)), (''LOCAL_WORLD_SIZE'', str_nat (sr_local_world r)),
         (''BEAM_NCCL_ID_FILE'', base @ ''/nccl-id.bin''), (''BEAM_NCCL_RUN_ID'', run_id), (''BEAM_CLUSTER_LAUNCH'', ''1'')];
          env2 = fold (resolve_input resolve) input_paths env1 in
      set_default ''BEAM_HISTORY_DIR'' (directory @ ''/history'') (set_default ''BEAM_HISTORY_MODE'' ''disk'' env2))"

text \<open>The polling loop: exit code, then a peer's marker, then the deadline.\<close>

partial_function (option) watch_rank :: "cluster_host \<Rightarrow> string \<Rightarrow> rat \<Rightarrow> nat \<Rightarrow> (string result \<times> nat) option" where
  "watch_rank host directory timeout i =
     (case ch_code host i of
        Some code \<Rightarrow> if code \<noteq> 0 then Some (Inl (RuntimeError ''native rank exited''), i) else Some (Inr directory, i)
      | None \<Rightarrow>
          if ch_failed host (Suc i) then Some (Inl (RuntimeError ''a peer failed''), i)
          else if timeout - ch_clock host i \<le> 0 then Some (Inl (RuntimeError ''native rank timed out''), i)
          else watch_rank host directory timeout (Suc i))"

text \<open>The \<open>finally\<close> clause after poll \<open>i\<close>: a child without an exit code is terminated, or killed when it does not obey.\<close>

definition reap :: "cluster_host \<Rightarrow> nat \<Rightarrow> cluster_state \<Rightarrow> cluster_state" where
  "reap host i s =
     (if cl_child s \<noteq> Running then s
      else if ch_code host i \<noteq> None \<or> ch_code host (Suc i) \<noteq> None then s\<lparr>cl_child := Exited\<rparr>
      else if ch_obeys host then s\<lparr>cl_child := Terminated\<rparr> else s\<lparr>cl_child := Killed\<rparr>)"

definition add_dir :: "string \<Rightarrow> cluster_state \<Rightarrow> cluster_state" where
  "add_dir d s = s\<lparr>cl_dirs := cl_dirs s @ [d]\<rparr>"

text \<open>The body of the \<open>try\<close>: the slot of this node, the peers' marker, the environment, the child.\<close>

definition attempt_rank ::
  "cluster_host \<Rightarrow> scheduled_rank \<Rightarrow> string \<Rightarrow> string \<Rightarrow> string \<Rightarrow> string list \<Rightarrow> rat \<Rightarrow> environ \<Rightarrow> cluster_state
     \<Rightarrow> (string result \<times> nat \<times> cluster_state) option" where
  "attempt_rank host r run_id base directory command timeout env s =
     (let slot = base @ ''/node-'' @ str_nat (pl_node r) @ ''-local-'' @ str_nat (pl_local r) in
      case ch_mkdir host slot of
        Some e \<Rightarrow> Some (Inl e, 0, s)
      | None \<Rightarrow>
          let s1 = add_dir slot s; env' = rank_environment (ch_resolve host) r run_id base directory env in
          if ch_failed host 0 then Some (Inl (RuntimeError ''a peer failed''), 0, s1)
          else
            (case ch_which host (hd command) (map_of env' ''PATH'') of
               None \<Rightarrow> Some (Inl (OSError ''cannot find native executable''), 0, s1)
             | Some executable \<Rightarrow>
                 (case ch_launch host of
                    Some e \<Rightarrow> Some (Inl e, 0, s1)
                  | None \<Rightarrow> map_option (\<lambda>(res, i). (res, i, s1\<lparr>cl_child := Running, cl_env := env'\<rparr>))
                              (watch_rank host directory timeout 0))))"

text \<open>The \<open>except\<close> clause publishes the failure unless a peer already did; then the child is reaped.\<close>

definition finish_rank :: "cluster_host \<Rightarrow> string result \<times> nat \<times> cluster_state \<Rightarrow> string result \<times> cluster_state" where
  "finish_rank host a =
     (case a of (res, i, s) \<Rightarrow>
        case res of
          Inr d \<Rightarrow> (Inr d, reap host i s)
        | Inl e \<Rightarrow>
            (case ch_mark host of
               Some e' \<Rightarrow> (Inl e', reap host i s)
             | None \<Rightarrow> (Inl e, reap host i (s\<lparr>cl_marker := True\<rparr>))))"

definition rank_inputs ::
  "environ \<Rightarrow> string list \<Rightarrow> pyfloat \<Rightarrow> string option \<Rightarrow> (scheduled_rank \<times> rat \<times> string \<times> nat) result" where
  "rank_inputs env command timeout run_id =
     ebind (scheduler_rank env) (\<lambda>r.
     case (command, timeout) of
       (_ # _, Fin t) \<Rightarrow>
         if t \<le> 0 then Inl (ValueError ''a native argument vector and a positive finite timeout are required'')
         else
           (case choose_run_id run_id env of
              None \<Rightarrow> Inl (ValueError ''supply a unique --run-id shared by all nodes'')
            | Some s \<Rightarrow>
                if \<not> valid_run_id s then Inl (ValueError ''supply a unique --run-id shared by all nodes'')
                else
                  ebind (if has_key env ''TORCHELASTIC_RESTART_COUNT'' then scheduler_number env ''TORCHELASTIC_RESTART_COUNT''
                         else Inr 0) (\<lambda>attempt. Inr (r, t, s, attempt)))
     | _ \<Rightarrow> Inl (ValueError ''a native argument vector and a positive finite timeout are required''))"

definition attempt_dir :: "cluster_host \<Rightarrow> string \<Rightarrow> string \<Rightarrow> nat \<Rightarrow> string" where
  "attempt_dir host shared run_id attempt = ch_resolve host shared @ ''/'' @ run_id @ ''/attempt-'' @ str_nat attempt"

definition run_cluster_rank ::
  "cluster_host \<Rightarrow> string list \<Rightarrow> string \<Rightarrow> string option \<Rightarrow> pyfloat \<Rightarrow> environ \<Rightarrow> cluster_state
     \<Rightarrow> (string result \<times> cluster_state) option" where
  "run_cluster_rank host command shared run_id timeout env s =
     (case rank_inputs env command timeout run_id of
        Inl e \<Rightarrow> Some (Inl e, s)
      | Inr (r, t, ident, attempt) \<Rightarrow>
          let base = attempt_dir host shared ident attempt; directory = base @ ''/rank-'' @ str_nat (pl_global r) in
          case (ch_mkdir host base, ch_mkdir host directory) of
            (Some e, _) \<Rightarrow> Some (Inl e, s)
          | (None, Some e) \<Rightarrow> Some (Inl e, add_dir base s)
          | (None, None) \<Rightarrow>
              map_option (finish_rank host)
                (attempt_rank host r ident base directory command t env (add_dir directory (add_dir base s))))"

text \<open>The command line of \<open>cluster_worker.py\<close>: the child's arguments after \<open>--\<close>, and the exit status.\<close>

definition worker_command :: "string list \<Rightarrow> string list option" where
  "worker_command args =
     (let command = (if take 1 args = [''--''] then drop 1 args else args) in if command = [] then None else Some command)"

definition worker_status :: "string result \<Rightarrow> nat result" where
  "worker_status res =
     (case res of
        Inr d \<Rightarrow> Inr 0
      | Inl e \<Rightarrow>
          (case e of
             OSError m \<Rightarrow> Inr 1
           | TimeoutError m \<Rightarrow> Inr 1
           | _ \<Rightarrow> if is_value_error e \<or> is_runtime_error e then Inr 1 else Inl e))"

section \<open>Local ranks\<close>

text \<open>What the launcher of \<open>local_launcher.py\<close> observes: preparing and starting a rank, its exit code and the clock at
  each poll, and whether stopping a rank's process tree raises.\<close>

record launcher_host =
  lh_prepare :: "exn option"
  lh_spawn :: "nat \<Rightarrow> exn option"
  lh_code :: "nat \<Rightarrow> nat \<Rightarrow> int option"
  lh_elapsed :: "nat \<Rightarrow> rat"
  lh_stop :: "nat \<Rightarrow> exn option"

text \<open>Ranks are started in order; the first failure ends the launch with the ranks before it running.\<close>

fun spawn_ranks :: "launcher_host \<Rightarrow> nat list \<Rightarrow> nat list \<Rightarrow> exn option \<times> nat list" where
  "spawn_ranks host [] started = (None, started)"
| "spawn_ranks host (rank # ranks) started =
     (case lh_spawn host rank of
        Some e \<Rightarrow> (Some e, started)
      | None \<Rightarrow> spawn_ranks host ranks (started @ [rank]))"

partial_function (option) poll_ranks :: "launcher_host \<Rightarrow> nat \<Rightarrow> rat \<Rightarrow> nat \<Rightarrow> rat result option" where
  "poll_ranks host world timeout i =
     (let codes = map (lh_code host i) [0..<world] in
      if list_ex (\<lambda>code. code \<noteq> None \<and> code \<noteq> Some 0) codes then Some (Inl (NativeBackendError ''native local rank failed''))
      else if list_all (\<lambda>code. code = Some 0) codes then Some (Inr (lh_elapsed host i))
      else if timeout \<le> lh_elapsed host i then Some (Inl (NativeBackendError ''native local ranks timed out''))
      else poll_ranks host world timeout (Suc i))"

text \<open>The \<open>finally\<close> loop stops the ranks in order; a stop that raises ends it.\<close>

fun stop_ranks :: "launcher_host \<Rightarrow> nat list \<Rightarrow> exn option \<times> nat list" where
  "stop_ranks host [] = (None, [])"
| "stop_ranks host (rank # ranks) =
     (case lh_stop host rank of
        Some e \<Rightarrow> (Some e, [])
      | None \<Rightarrow> (case stop_ranks host ranks of (e, stopped) \<Rightarrow> (e, rank # stopped)))"

record launch_report =
  lr_result :: "rat result"
  lr_started :: "nat list"
  lr_stopped :: "nat list"

definition finish_launch :: "launcher_host \<Rightarrow> nat list \<Rightarrow> rat result \<Rightarrow> launch_report" where
  "finish_launch host started res =
     (case stop_ranks host started of
        (e, stopped) \<Rightarrow> \<lparr>lr_result = (case e of Some e' \<Rightarrow> Inl e' | None \<Rightarrow> res), lr_started = started, lr_stopped = stopped\<rparr>)"

definition run_local_ranks :: "launcher_host \<Rightarrow> pyval \<Rightarrow> rat \<Rightarrow> launch_report option" where
  "run_local_ranks host world_size timeout =
     (let refuse = (\<lambda>e. Some \<lparr>lr_result = Inl e, lr_started = [], lr_stopped = []\<rparr>) in
      case world_size of
        PInt n \<Rightarrow>
          if n < 2 \<or> timeout \<le> 0 then refuse (ValueError ''invalid local rank launch geometry or timeout'')
          else
            (case (lh_prepare host, spawn_ranks host [0..<nat n] []) of
               (Some e, _) \<Rightarrow> refuse e
             | (None, Some e, started) \<Rightarrow> Some (finish_launch host started (Inl e))
             | (None, None, started) \<Rightarrow> map_option (finish_launch host started) (poll_ranks host (nat n) timeout 0))
      | _ \<Rightarrow> refuse (ValueError ''invalid local rank launch geometry or timeout''))"

section \<open>The layout of the plan\<close>

lemma length_place_ranks [simp]: "length (place_ranks g node counts) = sum_list counts"
  by (induction g node counts rule: place_ranks.induct) auto

lemma place_ranks_nth: "i < sum_list counts \<Longrightarrow> pl_global (place_ranks g node counts ! i) = g + i"
  by (induction g node counts arbitrary: i rule: place_ranks.induct) (auto simp: nth_append)

lemma place_ranks_mem:
  "r \<in> set (place_ranks g node counts) \<Longrightarrow>
     node \<le> pl_node r \<and> pl_node r < node + length counts \<and> pl_local r < counts ! (pl_node r - node)
     \<and> g \<le> pl_global r \<and> pl_global r < g + sum_list counts"
proof (induction g node counts rule: place_ranks.induct)
  case (2 g node c counts)
  show ?case
  proof (cases "r \<in> set (place_ranks (g + c) (Suc node) counts)")
    case True
    from 2(1) [OF True] have "pl_node r - node = Suc (pl_node r - Suc node)" by linarith
    with 2(1) [OF True] show ?thesis by simp
  next
    case False
    with 2(2) show ?thesis by auto
  qed
qed simp

definition plan_ok :: "nat list \<Rightarrow> cluster_plan \<Rightarrow> bool" where
  "plan_ok counts p \<longleftrightarrow>
     cp_ranks p = place_ranks 0 0 counts \<and> 1 \<le> sum_list counts \<and> sum_list counts \<le> max_world_size
     \<and> cp_requested p \<le> cp_capacity p * int (sum_list counts) \<and> (cp_capacity p - 1) * int (sum_list counts) < cp_requested p
     \<and> cp_capacity p < 2 ^ 32 \<and> cp_alignment p < 2 ^ 64"

lemma ceil_capacity:
  assumes "0 < (w :: int)"
  shows "b \<le> (b + w - 1) div w * w" "((b + w - 1) div w - 1) * w < b"
proof -
  have "(b + w - 1) div w * w = b + w - 1 - (b + w - 1) mod w" by (simp add: minus_mod_eq_div_mult)
  moreover have "0 \<le> (b + w - 1) mod w" "(b + w - 1) mod w < w" using assms by simp_all
  ultimately show "b \<le> (b + w - 1) div w * w" "((b + w - 1) div w - 1) * w < b" by (simp_all add: left_diff_distrib)
qed

lemma gpu_count_Inr: "gpu_count v = Inr n \<longleftrightarrow> v = PInt (int n) \<and> 0 < n"
  by (auto simp: gpu_count_def split: pyval.splits if_splits)

lemma plan_cluster_ok:
  assumes "plan_cluster gpu_list beam shards batch = Inr p"
  obtains counts where "gpu_list = map (\<lambda>n. PInt (int n)) counts" "\<forall>n \<in> set counts. 0 < n" "plan_ok counts p"
proof -
  from assms obtain counts b where gl: "gpu_list \<noteq> []" and c: "emap gpu_count gpu_list = Inr counts"
    and w: "sum_list counts \<le> max_world_size" and beam: "positive_uint beam 64 = Inr b"
    and p: "cp_ranks p = place_ranks 0 0 counts" "cp_requested p = b"
      "cp_capacity p = (b + int (sum_list counts) - 1) div int (sum_list counts)" "cp_capacity p < 2 ^ 32" "cp_alignment p < 2 ^ 64"
    by (auto simp: plan_cluster_def ebind_Inr_iff Let_def raise_if_iff split: if_splits)
  have all: "list_all2 (\<lambda>v n. v = PInt (int n) \<and> 0 < n) gpu_list counts"
    using c by (simp add: emap_Inr_iff gpu_count_Inr)
  then have "gpu_list = map (\<lambda>n. PInt (int n)) counts" and pos: "\<forall>n \<in> set counts. 0 < n"
    by (induction rule: list_all2_induct) auto
  moreover have "1 \<le> sum_list counts"
    using gl all pos by (cases counts) auto
  ultimately show thesis
    using that [of counts] w p ceil_capacity [of "int (sum_list counts)" b] by (simp add: plan_ok_def)
qed

section \<open>Task counts as Slurm writes them\<close>

definition slurm_item :: "nat \<times> nat \<Rightarrow> string" where
  "slurm_item g = str_nat (fst g) @ (if snd g = 1 then [] else ''(x'' @ str_nat (snd g) @ '')'')"

definition slurm_text :: "(nat \<times> nat) list \<Rightarrow> string" where
  "slurm_text groups = join_with CHR '','' (map slurm_item groups)"

definition expand_groups :: "(nat \<times> nat) list \<Rightarrow> nat list" where
  "expand_groups groups = concat (map (\<lambda>(c, r). replicate r c) groups)"

lemma str_nat_head: "0 < n \<Longrightarrow> hd (str_nat n) \<noteq> CHR ''0''"
proof (induction n rule: str_nat.induct)
  case (1 n)
  show ?case
  proof (cases "n < 10")
    case True
    have "digit_char n \<noteq> CHR ''0''"
    proof
      assume "digit_char n = CHR ''0''"
      then have "digit_value (digit_char n) = digit_value CHR ''0''" by (rule arg_cong)
      moreover have "digit_value CHR ''0'' = 0" by (simp add: digit_value_def)
      ultimately show False using 1(2) digit_char_simps(2) [OF True] by linarith
    qed
    then show ?thesis using True by (subst str_nat.simps) simp
  next
    case False
    with 1 have "hd (str_nat (n div 10)) \<noteq> CHR ''0''" by simp
    then show ?thesis using False by (subst str_nat.simps) simp
  qed
qed

lemma str_nat_length: "n < 10 ^ Suc k \<Longrightarrow> length (str_nat n) \<le> Suc k"
proof (induction k arbitrary: n)
  case 0
  then show ?case by (subst str_nat.simps) simp
next
  case (Suc k)
  then have "n div 10 < 10 ^ Suc k" by (simp add: less_mult_imp_div_less)
  from Suc.IH [OF this] show ?case by (subst str_nat.simps) simp
qed

lemma small_str_nat: "0 < n \<Longrightarrow> n < 1000 \<Longrightarrow> small_number (str_nat n)"
  using str_nat_head [of n] str_nat_length [of n 2] str_nat_digits [of n] by (simp add: small_number_def)

lemma expand_groups_mem: "(c, k) \<in> set groups \<Longrightarrow> 0 < k \<Longrightarrow> c \<in> set (expand_groups groups)"
  by (force simp: expand_groups_def)

lemma slurm_part_item:
  assumes "0 < c" "c < 1000" "0 < r" "r < 1000"
  shows "slurm_part (slurm_item (c, r)) = Some (c, r)"
proof -
  have digits: "\<forall>x \<in> set (str_nat c). x \<noteq> CHR ''(''"
    using str_nat_digits [of c] by (auto simp: list_all_iff is_digit_def)
  then have "takeWhile (\<lambda>x. x \<noteq> CHR ''('') (str_nat c @ s) = str_nat c @ takeWhile (\<lambda>x. x \<noteq> CHR ''('') s"
    "dropWhile (\<lambda>x. x \<noteq> CHR ''('') (str_nat c @ s) = dropWhile (\<lambda>x. x \<noteq> CHR ''('') s" for s
    by (simp_all add: takeWhile_append2 dropWhile_append2)
  moreover have "takeWhile (\<lambda>x. x \<noteq> CHR ''('') (str_nat c) = str_nat c" "dropWhile (\<lambda>x. x \<noteq> CHR ''('') (str_nat c) = []"
    using digits by (simp_all add: takeWhile_eq_all_conv dropWhile_eq_Nil_conv)
  ultimately show ?thesis
    using small_str_nat assms by (simp add: slurm_part_def slurm_item_def nat_of_digits_str_nat)
qed

lemma slurm_item_no_comma: "CHR '','' \<notin> set (slurm_item g)"
proof -
  have "CHR '','' \<notin> set (str_nat n)" for n
    using str_nat_digits [of n] by (auto simp: list_all_iff is_digit_def)
  then show ?thesis by (simp add: slurm_item_def)
qed

lemma add_counts_items:
  assumes "\<forall>(c, r) \<in> set groups. 0 < c \<and> c < 1000 \<and> 0 < r" "length counts + length (expand_groups groups) \<le> max_world_size"
  shows "efold add_counts counts (map slurm_item groups) = Inr (counts @ expand_groups groups)"
  using assms
proof (induction groups arbitrary: counts)
  case (Cons g groups)
  obtain c r where g: "g = (c, r)" by (cases g)
  from Cons.prems g have "0 < c" "c < 1000" "0 < r" "r < 1000" by (auto simp: expand_groups_def max_world_size_def)
  from slurm_part_item [OF this] Cons g show ?case
    by (auto simp: add_counts_def expand_groups_def)
qed (simp add: expand_groups_def)

lemma slurm_counts_text:
  assumes "\<forall>(c, r) \<in> set groups. 0 < c \<and> c < 1000 \<and> 0 < r" "length (expand_groups groups) \<le> max_world_size" "groups \<noteq> []"
  shows "slurm_counts (slurm_text groups) = Inr (expand_groups groups)"
  using add_counts_items [of groups "[]"] assms slurm_item_no_comma
  by (simp add: slurm_counts_def slurm_text_def split_join)

lemma scheduler_number_str:
  assumes "map_of env name = Some (str_nat n)" "n < 10 ^ 10"
  shows "scheduler_number env name = Inr n"
  using assms str_nat_length [of n 9] str_nat_digits [of n]
  by (cases "str_nat n") (auto simp: scheduler_number_def env_get_def Let_def nat_of_digits_str_nat dest: sym)

text \<open>The variables of a Slurm step for one task of a placement.\<close>

definition slurm_environ :: "rank_placement \<Rightarrow> nat \<Rightarrow> (nat \<times> nat) list \<Rightarrow> environ" where
  "slurm_environ r world groups =
     [(''SLURM_PROCID'', str_nat (pl_global r)), (''SLURM_LOCALID'', str_nat (pl_local r)), (''SLURM_NODEID'', str_nat (pl_node r)),
      (''SLURM_STEP_NUM_TASKS'', str_nat world), (''SLURM_STEP_TASKS_PER_NODE'', slurm_text groups)]"

lemma slurm_rank_placed:
  assumes "plan_ok counts p" "r \<in> set (cp_ranks p)" "expand_groups groups = counts" "\<forall>(c, k) \<in> set groups. 0 < c \<and> 0 < k"
  shows "scheduler_rank (slurm_environ r (sum_list counts) groups)
    = Inr \<lparr>pl_global = pl_global r, pl_node = pl_node r, pl_local = pl_local r, sr_world = sum_list counts,
           sr_local_world = counts ! pl_node r\<rparr>"
proof -
  let ?env = "slurm_environ r (sum_list counts) groups"
  from assms(1,2) have mem: "pl_node r < length counts" "pl_local r < counts ! pl_node r" "pl_global r < sum_list counts"
    and world: "1 \<le> sum_list counts" "sum_list counts \<le> max_world_size"
    using place_ranks_mem [of r 0 0 counts] by (simp_all add: plan_ok_def)
  have pos: "\<forall>n \<in> set counts. 0 < n" using assms(3,4) by (auto simp: expand_groups_def)
  have "\<forall>n \<in> set counts. n \<le> sum_list counts" by (simp add: member_le_sum_list)
  moreover have "length counts \<le> sum_list counts" using pos by (induction counts) auto
  ultimately have small: "length counts \<le> max_world_size" "\<forall>n \<in> set counts. n < 1000"
    using world(2) by (auto simp: max_world_size_def)
  have groups: "\<forall>(c, k) \<in> set groups. 0 < c \<and> c < 1000 \<and> 0 < k"
    using assms(3,4) small(2) by (fastforce simp: expand_groups_def)
  have "groups \<noteq> []" using world(1) assms(3) by (auto simp: expand_groups_def)
  with slurm_counts_text [OF groups] small(1) assms(3) have counts: "slurm_counts (slurm_text groups) = Inr counts" by simp
  have local: "pl_local r < 1000" using mem(1,2) small(2) by (meson less_trans nth_mem)
  have "scheduler_number ?env ''SLURM_STEP_NUM_TASKS'' = Inr (sum_list counts)" "scheduler_number ?env ''SLURM_PROCID'' = Inr (pl_global r)"
    "scheduler_number ?env ''SLURM_LOCALID'' = Inr (pl_local r)" "scheduler_number ?env ''SLURM_NODEID'' = Inr (pl_node r)"
    by (rule scheduler_number_str; use mem world small(1) local in \<open>simp add: slurm_environ_def max_world_size_def\<close>)+
  moreover have "has_key ?env ''SLURM_STEP_NUM_TASKS''" "\<not> has_key ?env ''TORCHELASTIC_RUN_ID''" "has_key ?env ''SLURM_PROCID''"
    by (simp_all add: slurm_environ_def has_key_def)
  moreover have "env_get ?env ''SLURM_STEP_TASKS_PER_NODE'' d = slurm_text groups" for d
    by (simp add: slurm_environ_def env_get_def)
  ultimately show ?thesis
    using mem world counts by (simp add: scheduler_rank_def slurm_rank_def ranked_def)
qed

text \<open>C37. The rank a Slurm step assigns is the rank the cluster plan places. A planned layout numbers its ranks
  consecutively, at most 128 of them; the local frontiers of all ranks hold the requested beam and would not
  with one entry less, within 32-bit indices and a 64-bit alignment; and for every planned rank, the worker
  that reads the variables of its Slurm step (with the node sizes in the compressed notation
  \<open>8(x2),4\<close>, in any grouping) recovers exactly its global, node and local number.\<close>

theorem scheduled_rank_matches_plan:
  assumes "plan_cluster (map (\<lambda>n. PInt (int n)) (expand_groups groups)) beam shards batch = Inr p"
    and "r \<in> set (cp_ranks p)" "\<forall>(c, k) \<in> set groups. 0 < k"
  shows "(\<forall>i < length (cp_ranks p). pl_global (cp_ranks p ! i) = i) \<and> length (cp_ranks p) \<le> 128
    \<and> cp_requested p \<le> cp_capacity p * int (length (cp_ranks p))
    \<and> (cp_capacity p - 1) * int (length (cp_ranks p)) < cp_requested p
    \<and> cp_capacity p < 2 ^ 32 \<and> cp_alignment p < 2 ^ 64
    \<and> scheduler_rank (slurm_environ r (length (cp_ranks p)) groups)
      = Inr \<lparr>pl_global = pl_global r, pl_node = pl_node r, pl_local = pl_local r, sr_world = length (cp_ranks p),
             sr_local_world = expand_groups groups ! pl_node r\<rparr>"
proof -
  obtain counts where c: "map (\<lambda>n. PInt (int n)) (expand_groups groups) = map (\<lambda>n. PInt (int n)) counts"
    "\<forall>n \<in> set counts. 0 < n" and ok: "plan_ok counts p"
    by (rule plan_cluster_ok [OF assms(1)]) (rule that; assumption)
  have "inj (\<lambda>n. PInt (int n))" by (simp add: inj_def)
  then have groups: "expand_groups groups = counts" using c(1) by (rule iffD1 [OF inj_map_eq_map])
  have "\<forall>(c, k) \<in> set groups. 0 < c \<and> 0 < k"
    using c(2) assms(3) expand_groups_mem groups by blast
  from slurm_rank_placed [OF ok assms(2) groups this] ok show ?thesis
    using place_ranks_nth [of _ counts 0 0] by (simp add: plan_ok_def groups max_world_size_def)
qed

lemma scheduled_rank_matches_plan_witness:
  "scheduler_rank (slurm_environ \<lparr>pl_global = 3, pl_node = 1, pl_local = 1\<rparr> 5 [(2, 2), (1, 1)])
    = Inr \<lparr>pl_global = 3, pl_node = 1, pl_local = 1, sr_world = 5, sr_local_world = 2\<rparr>"
proof -
  let ?groups = "[(2, 2), (1, 1)] :: (nat \<times> nat) list"
  let ?p = "\<lparr>cp_ranks = place_ranks 0 0 [2, 2, 1], cp_requested = 1000, cp_effective = 1000, cp_alignment = 5 * 16 * 1024,
    cp_capacity = 200, cp_shards = 16\<rparr>"
  have groups: "expand_groups ?groups = [2, 2, 1]" by (simp add: expand_groups_def numeral_2_eq_2)
  have ranks: "place_ranks 0 0 [2, 2, 1] = map (\<lambda>(g, n, l). \<lparr>pl_global = g, pl_node = n, pl_local = l\<rparr>)
    [(0, 0, 0), (1, 0, 1), (2, 1, 0), (3, 1, 1), (4, 2, 0)]"
    by (simp add: upt_rec)
  have "plan_cluster (map (\<lambda>n. PInt (int n)) (expand_groups ?groups)) (PInt 1000) (PInt 16) (PInt 1024) = Inr ?p"
    unfolding groups by (simp add: plan_cluster_def gpu_count_def positive_uint_def raise_if_def max_world_size_def Let_def)
  moreover have "\<lparr>pl_global = 3, pl_node = 1, pl_local = 1\<rparr> \<in> set (cp_ranks ?p)" by (simp add: ranks)
  ultimately have "scheduler_rank (slurm_environ \<lparr>pl_global = 3, pl_node = 1, pl_local = 1\<rparr> (length (cp_ranks ?p)) ?groups)
      = Inr \<lparr>pl_global = 3, pl_node = 1, pl_local = 1, sr_world = length (cp_ranks ?p), sr_local_world = expand_groups ?groups ! 1\<rparr>"
    using scheduled_rank_matches_plan [of ?groups "PInt 1000" "PInt 16" "PInt 1024" ?p "\<lparr>pl_global = 3, pl_node = 1, pl_local = 1\<rparr>"]
    by simp
  moreover have "expand_groups ?groups ! 1 = 2" unfolding groups by simp
  ultimately show ?thesis by (simp add: ranks)
qed

section \<open>The end of a worker\<close>

lemma watch_rank_returns:
  assumes "timeout \<le> ch_clock host (i + k)"
  shows "watch_rank host directory timeout i \<noteq> None"
  using assms
proof (induction k arbitrary: i)
  case 0
  then show ?case by (subst watch_rank.simps) (simp split: option.splits)
next
  case (Suc k)
  from Suc.IH [of "Suc i"] Suc.prems have "watch_rank host directory timeout (Suc i) \<noteq> None" by simp
  then show ?case by (subst watch_rank.simps) (simp split: option.splits)
qed

definition watch_ended :: "cluster_host \<Rightarrow> string \<Rightarrow> rat \<Rightarrow> string result \<Rightarrow> nat \<Rightarrow> bool" where
  "watch_ended host directory timeout res j \<longleftrightarrow>
     (case res of
        Inr d \<Rightarrow> d = directory \<and> ch_code host j = Some 0
      | Inl e \<Rightarrow> (\<exists>code. ch_code host j = Some code \<and> code \<noteq> 0) \<or> ch_failed host (Suc j) \<or> timeout \<le> ch_clock host j)"

lemma watch_rank_ended:
  assumes ret: "watch_rank host directory timeout i = Some a"
  shows "watch_ended host directory timeout (fst a) (snd a)
    \<and> (\<forall>m. ch_failed host (Suc m) \<and> i \<le> m \<and> (\<forall>n \<le> m. ch_code host n = None) \<longrightarrow> (\<exists>e. fst a = Inl e))"
proof (rule watch_rank.raw_induct [where P = "\<lambda>host directory timeout i a. watch_ended host directory timeout (fst a) (snd a)
    \<and> (\<forall>m. ch_failed host (Suc m) \<and> i \<le> m \<and> (\<forall>n \<le> m. ch_code host n = None) \<longrightarrow> (\<exists>e. fst a = Inl e))", OF _ ret])
  fix f host directory timeout i a
  assume IH: "\<And>host directory timeout i a. f host directory timeout i = Some a \<Longrightarrow>
      watch_ended host directory timeout (fst a) (snd a)
      \<and> (\<forall>m. ch_failed host (Suc m) \<and> i \<le> m \<and> (\<forall>n \<le> m. ch_code host n = None) \<longrightarrow> (\<exists>e. fst a = Inl e))"
  assume step: "(case ch_code host i of
        Some code \<Rightarrow> if code \<noteq> 0 then Some (Inl (RuntimeError ''native rank exited''), i) else Some (Inr directory, i)
      | None \<Rightarrow>
          if ch_failed host (Suc i) then Some (Inl (RuntimeError ''a peer failed''), i)
          else if timeout - ch_clock host i \<le> 0 then Some (Inl (RuntimeError ''native rank timed out''), i)
          else f host directory timeout (Suc i)) = Some a"
  show "watch_ended host directory timeout (fst a) (snd a)
    \<and> (\<forall>m. ch_failed host (Suc m) \<and> i \<le> m \<and> (\<forall>n \<le> m. ch_code host n = None) \<longrightarrow> (\<exists>e. fst a = Inl e))"
  proof (cases "ch_code host i = None \<and> \<not> ch_failed host (Suc i) \<and> \<not> timeout - ch_clock host i \<le> 0")
    case True
    with step have "f host directory timeout (Suc i) = Some a" by simp
    from IH [OF this] True show ?thesis by (metis Suc_leI le_neq_implies_less)
  next
    case False
    with step show ?thesis by (auto simp: watch_ended_def split: option.splits if_splits)
  qed
qed

lemma reap_not_running: "cl_child (reap host i s) \<noteq> Running"
  by (simp add: reap_def)

lemma reap_marker [simp]: "cl_marker (reap host i s) = cl_marker s"
  by (simp add: reap_def)

text \<open>What the body of the \<open>try\<close> hands to the clauses after it.\<close>

definition attempt_ok :: "cluster_host \<Rightarrow> string result \<times> nat \<times> cluster_state \<Rightarrow> bool" where
  "attempt_ok host a \<longleftrightarrow>
     (case a of (res, i, s) \<Rightarrow>
        (\<forall>d. res = Inr d \<longrightarrow> ch_code host i = Some 0 \<and> cl_child s = Running)
        \<and> (\<forall>m. ch_failed host (Suc m) \<and> (\<forall>n \<le> m. ch_code host n = None) \<longrightarrow> (\<exists>e. res = Inl e)))"

lemma attempt_rank_ok:
  assumes "t \<le> ch_clock host k" "cl_child s = NotStarted"
  shows "\<exists>a. attempt_rank host r ident base directory command t env s = Some a \<and> attempt_ok host a"
proof -
  from watch_rank_returns [of t host 0 k directory] assms(1) obtain res i where
    w: "watch_rank host directory t 0 = Some (res, i)" by auto
  from watch_rank_ended [OF w] have end': "watch_ended host directory t res i"
    "\<And>m. ch_failed host (Suc m) \<Longrightarrow> \<forall>n \<le> m. ch_code host n = None \<Longrightarrow> \<exists>e. res = Inl e" by auto
  have "attempt_ok host (res, i, s\<lparr>cl_child := Running, cl_env := e\<rparr>)" for s e
    using end' unfolding attempt_ok_def by (auto simp: watch_ended_def)
  then show ?thesis
    by (auto simp: attempt_rank_def Let_def w attempt_ok_def split: option.splits)
qed

lemma finish_rank_ok:
  assumes "attempt_ok host a" "finish_rank host a = (res, s')"
  shows "cl_child s' \<noteq> Running \<and> (\<forall>d. res = Inr d \<longrightarrow> (\<exists>j. ch_code host j = Some 0) \<and> cl_child s' = Exited)
    \<and> (\<forall>e. res = Inl e \<and> ch_mark host = None \<longrightarrow> cl_marker s')
    \<and> (\<forall>m. ch_failed host (Suc m) \<and> (\<forall>n \<le> m. ch_code host n = None) \<longrightarrow> (\<exists>e. res = Inl e))"
proof -
  obtain r i s where a: "a = (r, i, s)" by (cases a)
  show ?thesis
  proof (cases r)
    case (Inr d)
    with assms a have ok: "ch_code host i = Some 0" "cl_child s = Running"
      "\<not> (\<exists>m. ch_failed host (Suc m) \<and> (\<forall>n \<le> m. ch_code host n = None))" by (auto simp: attempt_ok_def)
    from assms(2) a Inr have "res = Inr d" "s' = reap host i s" by (simp_all add: finish_rank_def)
    with ok show ?thesis by (auto simp: reap_def)
  next
    case (Inl e)
    with assms(2) a show ?thesis
      using reap_not_running by (auto simp: finish_rank_def split: option.splits)
  qed
qed

text \<open>C38. A scheduled worker ends, cleans up and tells its peers. Once its deadline has passed the worker has
  returned, and its child is never left running. It returns the rank's directory only after its child exited
  with code zero. Any failure after the directory of the rank was created leaves the marker \<open>FAILED\<close> for the
  peers (unless writing the marker itself fails), and a marker that a peer published while the child was
  still running makes this worker fail too.\<close>

theorem cluster_rank_outcome:
  assumes "t \<le> ch_clock host k" "cl_child s = NotStarted"
  shows "\<exists>res s'. run_cluster_rank host command shared run_id (Fin t) env s = Some (res, s') \<and> cl_child s' \<noteq> Running
    \<and> (\<forall>d. res = Inr d \<longrightarrow> (\<exists>j. ch_code host j = Some 0) \<and> cl_child s' = Exited)
    \<and> (\<forall>e r t' ident attempt. res = Inl e \<and> rank_inputs env command (Fin t) run_id = Inr (r, t', ident, attempt)
          \<and> ch_mkdir host (attempt_dir host shared ident attempt) = None
          \<and> ch_mkdir host (attempt_dir host shared ident attempt @ ''/rank-'' @ str_nat (pl_global r)) = None
          \<and> ch_mark host = None \<longrightarrow> cl_marker s')
    \<and> (\<forall>m. ch_failed host (Suc m) \<and> (\<forall>n \<le> m. ch_code host n = None) \<longrightarrow> (\<exists>e. res = Inl e))"
proof (cases "rank_inputs env command (Fin t) run_id")
  case (Inl e)
  with assms(2) show ?thesis by (simp add: run_cluster_rank_def)
next
  case (Inr q)
  obtain r t' ident attempt where q: "q = (r, t', ident, attempt)" by (cases q) blast
  have t': "t' = t" using Inr unfolding q rank_inputs_def
    by (cases command) (auto simp: ebind_Inr_iff split: option.splits if_splits)
  let ?base = "attempt_dir host shared ident attempt"
  let ?dir = "?base @ ''/rank-'' @ str_nat (pl_global r)"
  let ?s = "add_dir ?dir (add_dir ?base s)"
  show ?thesis
  proof (cases "ch_mkdir host ?base = None \<and> ch_mkdir host ?dir = None")
    case False
    with assms(2) Inr q show ?thesis
      by (auto simp: run_cluster_rank_def Let_def add_dir_def split: option.splits)
  next
    case True
    obtain a where a: "attempt_rank host r ident ?base ?dir command t env ?s = Some a" and ok: "attempt_ok host a"
      using attempt_rank_ok [of t host k ?s r ident ?base ?dir command env] assms by (auto simp: add_dir_def)
    from True Inr q t' a have run: "run_cluster_rank host command shared run_id (Fin t) env s = Some (finish_rank host a)"
      by (simp add: run_cluster_rank_def Let_def)
    show ?thesis
      unfolding run using finish_rank_ok [OF ok] Inr q by (cases "finish_rank host a") auto
  qed
qed

text \<open>A single worker of a torchrun group whose child exits at the second poll.\<close>

definition lone_environ :: environ where
  "lone_environ = map (\<lambda>(k, v). (k, v))
     [(''TORCHELASTIC_RUN_ID'', ''job7''), (''WORLD_SIZE'', ''1''), (''RANK'', ''0''), (''LOCAL_WORLD_SIZE'', ''1''), (''LOCAL_RANK'', ''0''),
      (''GROUP_RANK'', ''0'')]"

definition lone_host :: cluster_host where
  "lone_host = \<lparr>ch_resolve = (\<lambda>p. ''/shared/'' @ p), ch_which = (\<lambda>name path. Some name), ch_mkdir = (\<lambda>_. None),
     ch_failed = (\<lambda>_. False), ch_code = (\<lambda>i. if i < 1 then None else Some 0), ch_clock = (\<lambda>i. of_nat i), ch_launch = None,
     ch_obeys = True, ch_mark = None\<rparr>"

definition fresh_state :: cluster_state where
  "fresh_state = \<lparr>cl_dirs = [], cl_marker = False, cl_child = NotStarted, cl_env = []\<rparr>"

lemma cluster_rank_outcome_witness:
  "\<exists>res s'. run_cluster_rank lone_host [''runner''] ''out'' None (Fin 60) lone_environ fresh_state = Some (res, s') \<and> cl_child s' \<noteq> Running"
proof -
  have "60 \<le> ch_clock lone_host 60" "cl_child fresh_state = NotStarted" by (simp_all add: lone_host_def fresh_state_def)
  from cluster_rank_outcome [OF this, of "[''runner'']" "''out''" None lone_environ] show ?thesis
    by (elim exE conjE) (intro exI conjI)
qed

section \<open>The end of a local launch\<close>

lemma spawn_ranks_started: "spawn_ranks host ranks started = (e, out) \<Longrightarrow> e = None \<Longrightarrow> out = started @ ranks"
proof (induction ranks arbitrary: started)
  case (Cons a ranks)
  then show ?case using Cons.IH [of "started @ [a]"] by (simp split: option.splits)
qed simp

lemma stop_ranks_stopped: "snd (stop_ranks host ranks) = takeWhile (\<lambda>r. lh_stop host r = None) ranks"
  by (induction ranks) (auto split: option.splits prod.splits)

lemma stop_ranks_error: "fst (stop_ranks host ranks) = None \<longleftrightarrow> (\<forall>r \<in> set ranks. lh_stop host r = None)"
  by (induction ranks) (auto split: option.splits prod.splits)

lemma poll_ranks_returns:
  assumes "timeout \<le> lh_elapsed host (i + k)"
  shows "poll_ranks host world timeout i \<noteq> None"
  using assms
proof (induction k arbitrary: i)
  case 0
  then show ?case by (subst poll_ranks.simps) (simp add: Let_def)
next
  case (Suc k)
  from Suc.IH [of "Suc i"] Suc.prems have "poll_ranks host world timeout (Suc i) \<noteq> None" by simp
  then show ?case by (subst poll_ranks.simps) (simp add: Let_def)
qed

lemma poll_ranks_sound:
  assumes ret: "poll_ranks host world timeout i = Some res"
  shows "\<forall>d. res = Inr d \<longrightarrow> (\<exists>j. d = lh_elapsed host j \<and> (\<forall>r < world. lh_code host j r = Some 0))"
proof (rule poll_ranks.raw_induct [where P = "\<lambda>host world (timeout :: rat) (i :: nat) res.
    \<forall>d. res = Inr d \<longrightarrow> (\<exists>j. d = lh_elapsed host j \<and> (\<forall>r < world. lh_code host j r = Some 0))", OF _ ret])
  fix f host world i res and timeout :: rat
  assume IH: "\<And>host world (timeout :: rat) (i :: nat) (res :: rat result). f host world timeout i = Some res \<Longrightarrow>
      \<forall>d. res = Inr d \<longrightarrow> (\<exists>j. d = lh_elapsed host j \<and> (\<forall>r < world. lh_code host j r = Some 0))"
  assume "(let codes = map (lh_code host i) [0..<world] in
      if list_ex (\<lambda>code. code \<noteq> None \<and> code \<noteq> Some 0) codes then Some (Inl (NativeBackendError ''native local rank failed''))
      else if list_all (\<lambda>code. code = Some 0) codes then Some (Inr (lh_elapsed host i))
      else if timeout \<le> lh_elapsed host i then Some (Inl (NativeBackendError ''native local ranks timed out''))
      else f host world timeout (Suc i)) = Some res"
  then show "\<forall>d. res = Inr d \<longrightarrow> (\<exists>j. d = lh_elapsed host j \<and> (\<forall>r < world. lh_code host j r = Some 0))"
    using IH by (auto simp: Let_def list_all_iff split: if_splits)
qed

text \<open>C39. A local launch returns once its timeout has passed, and accounts for every rank it started: it
  succeeds only when all ranks had exited with code zero at one poll, and then started all of them. Started
  ranks are stopped in order up to the first whose stop raises; when no stop raises every started rank is
  stopped, on success, failure, timeout and a failed start alike.\<close>

theorem local_ranks_outcome:
  assumes "timeout \<le> lh_elapsed host k"
  shows "\<exists>report. run_local_ranks host (PInt n) timeout = Some report
    \<and> lr_stopped report = takeWhile (\<lambda>r. lh_stop host r = None) (lr_started report)
    \<and> (\<forall>d. lr_result report = Inr d \<longrightarrow> lr_started report = [0..<nat n] \<and> lr_stopped report = lr_started report
          \<and> (\<exists>j. d = lh_elapsed host j \<and> (\<forall>r < nat n. lh_code host j r = Some 0)))"
proof (cases "2 \<le> n \<and> 0 < timeout \<and> lh_prepare host = None")
  case False
  then show ?thesis by (auto simp: run_local_ranks_def Let_def not_le split: option.splits prod.splits)
next
  case True
  obtain e started where sp: "spawn_ranks host [0..<nat n] [] = (e, started)" by (cases "spawn_ranks host [0..<nat n] []")
  obtain res where p: "poll_ranks host (nat n) timeout 0 = Some res"
    using poll_ranks_returns [of timeout host 0 k "nat n"] assms by auto
  let ?res = "case e of Some e' \<Rightarrow> Inl e' | None \<Rightarrow> res"
  have run: "run_local_ranks host (PInt n) timeout = Some (finish_launch host started ?res)"
    using True p sp by (simp add: run_local_ranks_def Let_def split: option.splits)
  obtain x stopped where st: "stop_ranks host started = (x, stopped)" by (cases "stop_ranks host started")
  have stopped: "stopped = takeWhile (\<lambda>r. lh_stop host r = None) started" "x = None \<longleftrightarrow> (\<forall>r \<in> set started. lh_stop host r = None)"
    using stop_ranks_stopped [of host started] stop_ranks_error [of host started] st by simp_all
  have "started = [0..<nat n] \<and> stopped = started \<and> (\<exists>j. d = lh_elapsed host j \<and> (\<forall>r < nat n. lh_code host j r = Some 0))"
    if "lr_result (finish_launch host started ?res) = Inr d" for d
  proof -
    from that st have "x = None" "e = None" "res = Inr d" by (auto simp: finish_launch_def split: option.splits)
    with spawn_ranks_started [OF sp] stopped poll_ranks_sound [OF p] show ?thesis by (simp add: takeWhile_eq_all_conv)
  qed
  then show ?thesis unfolding run by (simp add: finish_launch_def st stopped(1))
qed

lemma local_ranks_outcome_witness:
  "\<exists>report. run_local_ranks \<lparr>lh_prepare = None, lh_spawn = (\<lambda>_. None), lh_code = (\<lambda>i r. if i < r then None else Some 0),
       lh_elapsed = (\<lambda>i. of_nat i), lh_stop = (\<lambda>r. if r = 1 then Some (TimeoutError ''wait'') else None)\<rparr> (PInt 3) 10 = Some report
    \<and> lr_stopped report = takeWhile (\<lambda>r. r \<noteq> 1) (lr_started report)"
proof -
  let ?host = "\<lparr>lh_prepare = None, lh_spawn = (\<lambda>_. None), lh_code = (\<lambda>i r. if i < r then None else Some 0),
       lh_elapsed = (\<lambda>i. of_nat i), lh_stop = (\<lambda>r. if r = 1 then Some (TimeoutError ''wait'') else None)\<rparr>"
  have "10 \<le> lh_elapsed ?host 10" by simp
  moreover have "(\<lambda>r. lh_stop ?host r = None) = (\<lambda>r. r \<noteq> 1)" by (auto simp: fun_eq_iff)
  ultimately show ?thesis using local_ranks_outcome [of 10 ?host 10 3] by auto
qed

end
