(* ===== verification/Autotune.thy ===== *)
theory Autotune
  imports Admission Texts Contracts
begin

text \<open>
  The inference calibration (\<open>autotune.py\<close>): the batches that are tried, the bounded loop that measures
  them on all selected GPUs, the selection of the winner and the check of a cached profile. The
  measurement of one batch, the clock and the seeded shuffle are parameters. The list of candidates
  grows once and may shrink while the loop runs, so the loop is a recursion on an index with its
  own termination argument.
\<close>

section \<open>Batches\<close>

definition batch_powers :: "int list" where
  "batch_powers = [32, 64, 128, 256, 512, 1024, 2048, 4096, 8192, 16384, 32768, 65536]"

definition coarse_batches :: "(int list \<Rightarrow> int list) \<Rightarrow> pyval \<Rightarrow> int list result" where
  "coarse_batches shuffle cap =
     (if \<not> (is_int cap \<and> 1 \<le> the_int cap \<and> the_int cap \<le> 65536) then Inl (ValueError ''inference cap must be in [1,65536]'')
      else
        let c = the_int cap; baseline = min 256 c;
            values0 = filter (\<lambda>x. x \<le> c \<and> x \<noteq> baseline) batch_powers;
            values = (if c \<noteq> baseline \<and> c \<notin> set values0 then values0 @ [c] else values0);
            larger = shuffle (filter (\<lambda>x. baseline \<le> x \<and> x \<noteq> c) values);
            smaller = shuffle (filter (\<lambda>x. x < baseline) values) in
        Inr ([baseline] @ (if c \<noteq> baseline then [c] else []) @ larger @ smaller))"

text \<open>\<open>max\<close> of the finite seconds of a row; an infinite or undefined time is not a number here.\<close>

definition finite_seconds :: "inference_row \<Rightarrow> rat list" where
  "finite_seconds r = concat (map (\<lambda>v. case v of Fin x \<Rightarrow> [x] | _ \<Rightarrow> []) (ir_seconds r))"

definition probe_time_allowance :: "inference_row list \<Rightarrow> rat" where
  "probe_time_allowance records =
     (let estimates = map (\<lambda>r. 10 * Max (set (finite_seconds r)) + 3) (filter (\<lambda>r. finite_seconds r \<noteq> []) records) in
      Max (insert 12 (set estimates)))"

definition refinement_ratios :: "(int \<times> int) list" where
  "refinement_ratios = [(5, 8), (3, 4), (7, 8), (9, 8), (5, 4), (3, 2)]"

definition near_batches :: "int \<Rightarrow> int list" where
  "near_batches winner =
     (let grain = max 1 (min 32 (winner div 8)) in
      map (\<lambda>(n, d). ((winner * n + d * grain div 2) div (d * grain)) * grain) refinement_ratios)"

definition refinement_batches :: "(int list \<Rightarrow> int list) \<Rightarrow> int \<Rightarrow> int \<Rightarrow> int list \<Rightarrow> int list result" where
  "refinement_batches shuffle winner cap visited =
     (if \<not> (1 \<le> winner \<and> winner \<le> cap) then Inl (ValueError ''inference winner must fit its cap'')
      else Inr (shuffle (sort (remdups (filter (\<lambda>b. 1 \<le> b \<and> b \<le> cap \<and> b \<notin> set visited) (near_batches winner))))))"

section \<open>The winner\<close>

text \<open>Every profile whose estimate is valid; the reasons of the others.\<close>

fun stable_profiles ::
  "resampler \<Rightarrow> measurement list \<Rightarrow> string list \<Rightarrow> (string, string) dict \<Rightarrow> (estimate_row list \<times> (string, string) dict) result" where
  "stable_profiles resample samples [] rejected = Inr ([], rejected)"
| "stable_profiles resample samples (p # ps) rejected =
     (case estimate resample default_options p samples of
        Inr e \<Rightarrow> ebind (stable_profiles resample samples ps rejected) (\<lambda>(valid, rejected'). Inr (e # valid, rejected'))
      | Inl e \<Rightarrow>
          if is_value_error e then stable_profiles resample samples ps (dict_set p (exn_message e) rejected) else Inl e)"

definition inference_baseline ::
  "resampler \<Rightarrow> measurement list \<Rightarrow> string \<Rightarrow> (string \<times> (string, string) dict) result" where
  "inference_baseline resample samples baseline =
     (case estimate resample default_options baseline samples of
        Inr _ \<Rightarrow> Inr (baseline, [])
      | Inl e \<Rightarrow>
          if \<not> is_value_error e then Inl e
          else
            ebind (stable_profiles resample samples
                     (filter (\<lambda>p. p \<noteq> baseline) (sort_strings (remdups (map m_profile samples)))) [(baseline, exn_message e)])
              (\<lambda>(valid, rejected).
                 case py_min e_median valid of
                   None \<Rightarrow> Inl (NativeBackendError ''no stable complete inference candidate'')
                 | Some row \<Rightarrow> Inr (e_profile row, rejected)))"

definition select_inference ::
  "resampler \<Rightarrow> measurement list \<Rightarrow> string \<Rightarrow> (estimate_row \<times> (string, string) dict) result" where
  "select_inference resample samples baseline =
     ebind (inference_baseline resample samples baseline) (\<lambda>(baseline', rejected).
     ebind (select resample default_options (1 / 50) baseline' samples) (\<lambda>(winner, others).
     Inr (winner, dict_update rejected others)))"


section \<open>Calibration states\<close>

text \<open>A random walk of 16 moves per recorded state; \<open>pick\<close> is the seeded choice of the i-th move.\<close>

fun walk_moves :: "nat list list \<Rightarrow> (nat \<Rightarrow> nat) \<Rightarrow> nat \<Rightarrow> nat \<Rightarrow> int list \<Rightarrow> int list result" where
  "walk_moves gens pick i 0 state = Inr state"
| "walk_moves gens pick i (Suc k) state =
     (if length gens \<le> pick i then Inl IndexError
      else walk_moves gens pick (Suc i) k (gather state (gens ! pick i)))"

fun graph_samples :: "nat list list \<Rightarrow> (nat \<Rightarrow> nat) \<Rightarrow> nat \<Rightarrow> nat \<Rightarrow> int list \<Rightarrow> int list list result" where
  "graph_samples gens pick i 0 state = Inr []"
| "graph_samples gens pick i (Suc k) state =
     ebind (walk_moves gens pick i 16 state) (\<lambda>state'.
     ebind (graph_samples gens pick (i + 16) k state') (\<lambda>rest. Inr (state' # rest)))"

section \<open>Cached profiles\<close>

definition strip_gpu :: "string \<Rightarrow> string" where
  "strip_gpu s = (let low = map lower_char s in case after_prefix ''gpu-'' low of Some r \<Rightarrow> r | None \<Rightarrow> low)"

definition memory_line :: "string \<Rightarrow> (string \<times> int) result" where
  "memory_line line =
     (case split_on CHR '','' line of
        [uuid, free] \<Rightarrow> ebind (py_int (py_strip free)) (\<lambda>n. Inr (strip_gpu (py_strip uuid), n))
      | _ \<Rightarrow> Inl (ValueError ''not enough values to unpack''))"

text \<open>
  \<open>None\<close> for every failure the code catches. \<open>query\<close> is the output of \<open>nvidia-smi\<close>, when the command ran.
\<close>

definition free_memory_snapshot :: "string list option \<Rightarrow> string list \<Rightarrow> int \<Rightarrow> (string, int) dict option" where
  "free_memory_snapshot query gpu_uuids world =
     (case query of
        None \<Rightarrow> None
      | Some lines \<Rightarrow>
          (case emap memory_line lines of
             Inl _ \<Rightarrow> None
           | Inr rows \<Rightarrow>
               let observed = dict_update [] rows; uuids = map strip_gpu gpu_uuids in
               if int (length (remdups uuids)) \<noteq> world then None
               else (case emap (\<lambda>u. ebind (dict_item observed u) (\<lambda>n. Inr (u, n))) uuids of
                       Inl _ \<Rightarrow> None | Inr found \<Rightarrow> Some (dict_update [] found))))"

definition capacity_cache_reusable :: "bool \<Rightarrow> (string, int) dict option \<Rightarrow> (string, int) dict option \<Rightarrow> bool" where
  "capacity_cache_reusable limited previous current =
     (if \<not> limited then True
      else
        (case (previous, current) of
           (Some before, Some now) \<Rightarrow>
             before \<noteq> [] \<and> now \<noteq> [] \<and> set (map fst before) = set (map fst now)
             \<and> list_all (\<lambda>(uuid, free). case map_of now uuid of Some n \<Rightarrow> n \<le> free + 32 | None \<Rightarrow> False) before
         | _ \<Rightarrow> False))"

record cached_profile =
  cp_same_signature :: bool
  cp_phase :: "pyval option"
  cp_parent_batch :: "pyval option"
  cp_reserve :: "pyval option"
  cp_records :: "inference_row list option"
  cp_telemetry :: "(string, telemetry_receipt) dict option"

text \<open>\<open>throttled is not False\<close> for every observed row; a receipt without samples raises \<open>KeyError\<close>.\<close>

definition unthrottled :: "telemetry_receipt \<Rightarrow> bool" where
  "unthrottled t =
     (tr_throttled t = Some (PBool False)
      \<and> (case tr_samples t of
           Some samples \<Rightarrow> list_all (list_all (\<lambda>row. t_throttled row = Some (PBool False))) samples
         | None \<Rightarrow> False))"

definition cached_telemetry_ok :: "cached_profile \<Rightarrow> cohort_signature \<Rightarrow> int \<Rightarrow> int \<Rightarrow> bool" where
  "cached_telemetry_ok data sig schema batch =
     (schema \<ge> 3 \<longrightarrow>
        (case cp_telemetry data of
           None \<Rightarrow> False
         | Some ts \<Rightarrow>
             (case map_of ts (str_int batch) of
                None \<Rightarrow> False
              | Some t \<Rightarrow> (schema \<ge> 6 \<longrightarrow> verified_telemetry t sig) \<and> unthrottled t)))"

definition enough_timings :: "inference_row \<Rightarrow> bool" where
  "enough_timings r = (5 \<le> length (ir_seconds r) \<and> None \<notin> set (map positive_part (ir_seconds r)))"

definition same_positive_parents :: "inference_row list \<Rightarrow> bool" where
  "same_positive_parents rows =
     (rows \<noteq> [] \<and> list_all (\<lambda>r. py_eq (ir_parents r) (ir_parents (hd rows))) rows
      \<and> is_int (ir_parents (hd rows)) \<and> 0 < the_int (ir_parents (hd rows)))"

definition expected_reserve :: "inference_row list \<Rightarrow> rat option" where
  "expected_reserve rows =
     (let peaks = map (\<lambda>r. case ir_reserved r of Some v \<Rightarrow> numeric_value v | None \<Rightarrow> None) rows in
      if None \<in> set peaks \<or> rows = [] then None else Some (Max (set (map the peaks)) + 536870912))"

definition cached_rows :: "cached_profile \<Rightarrow> int \<Rightarrow> inference_row list option" where
  "cached_rows data batch = map_option (filter (\<lambda>r. py_eq (ir_batch r) (PInt batch))) (cp_records data)"

definition valid_cached_profile :: "cached_profile \<Rightarrow> cohort_signature \<Rightarrow> int \<Rightarrow> int \<Rightarrow> bool" where
  "valid_cached_profile data sig schema max_batch =
     (case (cp_parent_batch data, cp_reserve data) of
        (Some (PInt batch), Some (PInt reserve)) \<Rightarrow>
          cp_same_signature data \<and> cp_phase data = Some (PStr ''inference_verified'')
          \<and> 0 < batch \<and> batch \<le> max_batch \<and> 0 < reserve
          \<and> cached_telemetry_ok data sig schema batch
          \<and> (case cached_rows data batch of
               None \<Rightarrow> False
             | Some rows \<Rightarrow>
                 complete_ranks (cs_world sig) rows \<and> same_positive_parents rows
                 \<and> list_all (\<lambda>r. clean_readout r \<and> enough_timings r) rows
                 \<and> expected_reserve rows = Some (of_int reserve))
      | _ \<Rightarrow> False)"


section \<open>The bounded search\<close>

text \<open>What the probe of one batch gives: the rows of the ranks that passed, why it was rejected, which failures
  were failures of CUDA capacity, and the telemetry.\<close>

record probe_reply =
  rp_rows :: "inference_row list"
  rp_rejected :: "string option"
  rp_capacity :: "bool list"
  rp_telemetry :: telemetry_receipt

text \<open>The one-shot helper: its exit code and the parsed rows of its log decide.\<close>

definition oneshot_row :: "int \<Rightarrow> inference_row list \<Rightarrow> bool \<Rightarrow> (inference_row, bool) sum" where
  "oneshot_row code parsed out_of_memory =
     (case parsed of
        [row] \<Rightarrow>
          if code \<noteq> 0 \<or> \<not> (case ir_correct row of Some v \<Rightarrow> v \<noteq> PNone \<and> \<not> py_eq v (PInt 0) | None \<Rightarrow> False)
               \<or> (case ir_numeric row of Some v \<Rightarrow> v \<noteq> PNone \<and> \<not> py_eq v (PInt 0) | None \<Rightarrow> False) \<or> length (ir_seconds row) < 5
          then Inr (code \<noteq> 0 \<and> out_of_memory) else Inl row
      | _ \<Rightarrow> Inr (code \<noteq> 0 \<and> out_of_memory))"

definition oneshot_reply :: "(int \<times> inference_row list \<times> bool) list \<Rightarrow> telemetry_receipt \<Rightarrow> probe_reply" where
  "oneshot_reply ranks telemetry =
     (let verdicts = map (\<lambda>(code, parsed, oom). oneshot_row code parsed oom) ranks in
      \<lparr>rp_rows = concat (map (\<lambda>v. case v of Inl row \<Rightarrow> [row] | Inr _ \<Rightarrow> []) verdicts),
       rp_rejected = (if list_ex (\<lambda>v. \<not> isl v) verdicts then Some ''rank failed admission or timed out'' else None),
       rp_capacity = concat (map (\<lambda>v. case v of Inl _ \<Rightarrow> [] | Inr b \<Rightarrow> [b]) verdicts),
       rp_telemetry = telemetry\<rparr>)"

record tuning_setup =
  tu_resample :: resampler
  tu_shuffle :: "int list \<Rightarrow> int list"
  tu_probe :: "nat \<Rightarrow> int \<Rightarrow> probe_reply result"
  tu_sig :: cohort_signature
  tu_world :: nat
  tu_parents :: int
  tu_cap :: int
  tu_baseline :: int
  tu_bootstrap :: bool
  tu_shared :: "int option"
  tu_late :: "nat \<Rightarrow> bool"
  tu_left :: "nat \<Rightarrow> rat"
  tu_coarse_over :: "nat \<Rightarrow> bool"
  tu_still_time :: "nat \<Rightarrow> bool"

record tuning_state =
  ts_candidates :: "int list"
  ts_coarse :: "int list"
  ts_refined :: "int list"
  ts_queued :: bool
  ts_samples :: "measurement list"
  ts_records :: "inference_row list"
  ts_rejected :: "(string, string) dict"
  ts_reserves :: "(string, rat) dict"
  ts_telemetry :: "(string, telemetry_receipt) dict"
  ts_limited :: bool
  ts_shared_used :: bool

text \<open>The local refinement around the winner so far is queued once.\<close>

definition queue_refinement :: "tuning_setup \<Rightarrow> tuning_state \<Rightarrow> tuning_state result" where
  "queue_refinement tu st =
     (if ts_queued st then Inr st
      else
        ebind (select_inference (tu_resample tu) (ts_samples st) (str_int (tu_baseline tu))) (\<lambda>(winner, _).
        ebind (py_int (e_profile winner)) (\<lambda>best.
        ebind (refinement_batches (tu_shuffle tu) best (tu_cap tu) (ts_candidates st)) (\<lambda>refined.
        Inr (st\<lparr>ts_refined := refined, ts_candidates := ts_candidates st @ refined, ts_queued := True\<rparr>)))))"

definition cohort_samples :: "tuning_setup \<Rightarrow> int \<Rightarrow> bool \<Rightarrow> inference_row list \<Rightarrow> measurement list" where
  "cohort_samples tu batch verified rows =
     map (\<lambda>i. \<lparr>m_profile = str_int batch, m_parents = PInt (tu_parents tu * int (tu_world tu)),
               m_seconds = map (\<lambda>r. ir_seconds r ! i) rows, m_correct = True, m_admitted = True, m_throttled = \<not> verified\<rparr>)
       [0..<Min (set (map (length \<circ> ir_seconds) rows))]"

definition record_reply :: "int \<Rightarrow> probe_reply \<Rightarrow> tuning_state \<Rightarrow> tuning_state" where
  "record_reply batch reply st =
     st\<lparr>ts_records := ts_records st @ rp_rows reply,
        ts_telemetry := dict_set (str_int batch) (rp_telemetry reply) (ts_telemetry st),
        ts_rejected := (case rp_rejected reply of Some r \<Rightarrow> dict_set (str_int batch) r (ts_rejected st) | None \<Rightarrow> ts_rejected st),
        ts_limited := ts_limited st \<or> list_ex id (rp_capacity reply)\<rparr>"

definition record_cohort :: "tuning_setup \<Rightarrow> int \<Rightarrow> probe_reply \<Rightarrow> tuning_state \<Rightarrow> tuning_state result" where
  "record_cohort tu batch reply st =
     (let verified = verified_telemetry (rp_telemetry reply) (tu_sig tu) in
      case expected_reserve (rp_rows reply) of
        None \<Rightarrow> Inl (KeyError ''torch_reserved_peak_bytes'')
      | Some reserve \<Rightarrow>
          Inr (st\<lparr>ts_rejected := (if verified then ts_rejected st
                    else dict_set (str_int batch) ''GPU telemetry missing, incomplete or throttled'' (ts_rejected st)),
                  ts_samples := ts_samples st @ cohort_samples tu batch verified (rp_rows reply),
                  ts_reserves := dict_set (str_int batch) reserve (ts_reserves st)\<rparr>))"

datatype 'a loop_step = Break 'a | Continue 'a

definition stable_estimate :: "tuning_setup \<Rightarrow> int \<Rightarrow> tuning_state \<Rightarrow> bool result" where
  "stable_estimate tu batch st =
     (case estimate (tu_resample tu) default_options (str_int batch) (ts_samples st) of
        Inr _ \<Rightarrow> Inr True
      | Inl e \<Rightarrow> if is_value_error e then Inr False else Inl e)"

definition after_probe :: "tuning_setup \<Rightarrow> nat \<Rightarrow> tuning_state \<Rightarrow> tuning_state loop_step result" where
  "after_probe tu index st =
     (if Suc index = length (ts_coarse st) \<and> \<not> ts_queued st \<and> tu_still_time tu index
      then ebind (queue_refinement tu st) (\<lambda>st'. Inr (Continue st')) else Inr (Continue st))"

definition full_cohort :: "tuning_setup \<Rightarrow> nat \<Rightarrow> int \<Rightarrow> probe_reply \<Rightarrow> tuning_state \<Rightarrow> tuning_state loop_step result" where
  "full_cohort tu index batch reply st =
     ebind (record_cohort tu batch reply st) (\<lambda>st1.
     if tu_shared tu = Some batch \<and> index = 0
     then ebind (stable_estimate tu batch st1) (\<lambda>stable.
       if stable then Inr (Break (st1\<lparr>ts_shared_used := True\<rparr>)) else after_probe tu index st1)
     else if tu_bootstrap tu
     then ebind (stable_estimate tu batch st1) (\<lambda>stable. Inr (if stable then Break st1 else Continue st1))
     else after_probe tu index st1)"

text \<open>A capacity failure of the baseline on every failing rank leaves only the smaller batches.\<close>

definition failed_baseline :: "tuning_setup \<Rightarrow> nat \<Rightarrow> int \<Rightarrow> probe_reply \<Rightarrow> tuning_state \<Rightarrow> tuning_state loop_step result" where
  "failed_baseline tu index batch reply st =
     (if rp_capacity reply = [] \<or> \<not> list_all id (rp_capacity reply)
      then Inl (NativeBackendError ''baseline inference calibration failed'')
      else
        let cs = ts_candidates st;
            kept = take (Suc index) cs @ rev (sort (remdups (filter (\<lambda>v. v < batch) (drop (Suc index) cs)))) in
        after_probe tu index (st\<lparr>ts_limited := True, ts_candidates := kept, ts_coarse := kept\<rparr>))"

definition probe_step :: "tuning_setup \<Rightarrow> nat \<Rightarrow> int \<Rightarrow> probe_reply \<Rightarrow> tuning_state \<Rightarrow> tuning_state loop_step result" where
  "probe_step tu index batch reply st =
     (if length (rp_rows reply) = tu_world tu then full_cohort tu index batch reply st
      else if batch = tu_baseline tu \<and> \<not> (tu_shared tu \<noteq> None \<and> index = 0) then failed_baseline tu index batch reply st
      else after_probe tu index st)"

definition tune_step :: "tuning_setup \<Rightarrow> nat \<Rightarrow> tuning_state \<Rightarrow> tuning_state loop_step result" where
  "tune_step tu index st =
     (let batch = ts_candidates st ! index in
      if tu_late tu index then Inr (Break st)
      else if 0 < index \<and> tu_left tu index < probe_time_allowance (ts_records st) then Inr (Break st)
      else if ts_samples st \<noteq> [] \<and> index < length (ts_coarse st) \<and> 0 < index \<and> tu_coarse_over tu index
      then ebind (queue_refinement tu st) (\<lambda>st'. Inr (Continue st'))
      else ebind (tu_probe tu index batch) (\<lambda>reply. probe_step tu index batch reply (record_reply batch reply st)))"

text \<open>A step either queues the refinement, which happens once, or leaves no more candidates than before.\<close>

definition step_bounded :: "tuning_state \<Rightarrow> tuning_state \<Rightarrow> bool" where
  "step_bounded st st' \<longleftrightarrow>
     (ts_queued st' \<and> \<not> ts_queued st)
     \<or> (ts_queued st' = ts_queued st \<and> length (ts_candidates st') \<le> length (ts_candidates st))"

lemma queue_refinement_bounded: "queue_refinement tu st = Inr st' \<Longrightarrow> step_bounded st st'"
  by (auto simp: queue_refinement_def step_bounded_def ebind_Inr_iff split: if_splits)

lemma after_probe_bounded:
  "after_probe tu index st = Inr (Continue st') \<Longrightarrow> step_bounded st st'"
  by (auto simp: after_probe_def ebind_Inr_iff step_bounded_def dest: queue_refinement_bounded split: if_splits)

lemma step_bounded_trans:
  "ts_queued st1 = ts_queued st \<Longrightarrow> length (ts_candidates st1) \<le> length (ts_candidates st) \<Longrightarrow> step_bounded st1 st' \<Longrightarrow> step_bounded st st'"
  by (auto simp: step_bounded_def)

lemma record_cohort_same:
  "record_cohort tu batch reply st = Inr st' \<Longrightarrow> ts_queued st' = ts_queued st \<and> ts_candidates st' = ts_candidates st \<and> ts_coarse st' = ts_coarse st"
  by (auto simp: record_cohort_def Let_def split: option.splits)

lemma full_cohort_bounded:
  assumes "full_cohort tu index batch reply st = Inr (Continue st')"
  shows "step_bounded st st'"
proof -
  from assms obtain st1 where st1: "record_cohort tu batch reply st = Inr st1"
    and rest: "after_probe tu index st1 = Inr (Continue st') \<or> st' = st1"
    by (auto simp: full_cohort_def ebind_Inr_iff split: if_splits)
  have "step_bounded st1 st'" using rest after_probe_bounded by (auto simp: step_bounded_def)
  with record_cohort_same [OF st1] show ?thesis by (auto intro: step_bounded_trans)
qed

lemma failed_baseline_bounded:
  assumes "failed_baseline tu index batch reply st = Inr (Continue st')" "index < length (ts_candidates st)"
  shows "step_bounded st st'"
proof -
  let ?cs = "ts_candidates st"
  let ?kept = "take (Suc index) ?cs @ rev (sort (remdups (filter (\<lambda>v. v < batch) (drop (Suc index) ?cs))))"
  from assms(1) have after: "after_probe tu index (st\<lparr>ts_limited := True, ts_candidates := ?kept, ts_coarse := ?kept\<rparr>) = Inr (Continue st')"
    by (auto simp: failed_baseline_def Let_def split: if_splits)
  have len: "length ?kept \<le> length ?cs"
  proof -
    have "length (remdups (filter (\<lambda>v. v < batch) (drop (Suc index) ?cs))) \<le> length (drop (Suc index) ?cs)"
      by (rule order_trans [OF length_remdups_leq length_filter_le])
    then show ?thesis using assms(2) by simp
  qed
  show ?thesis by (rule step_bounded_trans [OF _ _ after_probe_bounded [OF after]]) (use len in simp_all)
qed

lemma probe_step_bounded:
  assumes "probe_step tu index batch reply st = Inr (Continue st')" "index < length (ts_candidates st)"
  shows "step_bounded st st'"
proof (cases "length (rp_rows reply) = tu_world tu")
  case True
  with assms(1) show ?thesis by (auto simp: probe_step_def intro: full_cohort_bounded)
next
  case False
  with assms show ?thesis
    by (cases "batch = tu_baseline tu \<and> \<not> (tu_shared tu \<noteq> None \<and> index = 0)")
      (auto simp: probe_step_def intro: failed_baseline_bounded after_probe_bounded)
qed

lemma record_reply_same [simp]:
  "ts_candidates (record_reply batch reply st) = ts_candidates st" "ts_queued (record_reply batch reply st) = ts_queued st"
  "ts_coarse (record_reply batch reply st) = ts_coarse st" "ts_samples (record_reply batch reply st) = ts_samples st"
  "ts_reserves (record_reply batch reply st) = ts_reserves st" "ts_shared_used (record_reply batch reply st) = ts_shared_used st"
  by (simp_all add: record_reply_def)

lemma tune_step_cases:
  assumes "tune_step tu index st = Inr step"
  obtains "step = Break st"
    | st' where "queue_refinement tu st = Inr st'" "step = Continue st'"
    | reply where "tu_probe tu index (ts_candidates st ! index) = Inr reply"
        "probe_step tu index (ts_candidates st ! index) reply (record_reply (ts_candidates st ! index) reply st) = Inr step"
  using assms unfolding tune_step_def Let_def by (auto simp: ebind_Inr_iff split: if_splits)

lemma tune_step_bounded:
  assumes "tune_step tu index st = Inr (Continue st')" "index < length (ts_candidates st)"
  shows "step_bounded st st'"
  using assms(1)
proof (cases rule: tune_step_cases)
  case (2 st1)
  then show ?thesis using queue_refinement_bounded by simp
next
  case (3 reply)
  from probe_step_bounded [OF 3(2)] assms(2) show ?thesis by (simp add: step_bounded_def)
qed simp

function tune_loop :: "tuning_setup \<Rightarrow> nat \<Rightarrow> tuning_state \<Rightarrow> tuning_state result" where
  "tune_loop tu index st =
     (if length (ts_candidates st) \<le> index then Inr st
      else
        (case tune_step tu index st of
           Inl e \<Rightarrow> Inl e
         | Inr (Break st') \<Rightarrow> Inr st'
         | Inr (Continue st') \<Rightarrow> tune_loop tu (Suc index) st'))"
  by pat_completeness auto
termination
proof (relation "measures [\<lambda>(_, _, st). if ts_queued st then 0 else 1, \<lambda>(_, index, st). length (ts_candidates st) - index]")
  fix tu :: tuning_setup and index st step st'
  assume "\<not> length (ts_candidates st) \<le> index" "tune_step tu index st = Inr step" "step = Continue st'"
  then have "step_bounded st st'" "index < length (ts_candidates st)" by (auto intro: tune_step_bounded)
  then show "((tu, Suc index, st'), tu, index, st)
      \<in> measures [\<lambda>(_, _, st). if ts_queued st then 0 else 1, \<lambda>(_, index, st). length (ts_candidates st) - index]"
    by (auto simp: step_bounded_def)
qed simp

declare tune_loop.simps [simp del]


section \<open>The calibration\<close>

record tuning_request =
  tq_helper_ok :: bool
  tq_verified :: "unit result"
  tq_verified_again :: "unit result"
  tq_cached :: "cached_profile result option"
  tq_schema :: int
  tq_limited :: bool
  tq_previous :: "(string, int) dict option"
  tq_query :: "string list option"
  tq_uuids :: "string list"
  tq_beam :: int
  tq_world :: nat
  tq_max_batch :: int
  tq_bootstrap :: bool
  tq_shared :: "int option"

datatype inference_choice =
    Cached cached_profile
  | Measured int rat estimate_row tuning_state

definition request_cap :: "tuning_request \<Rightarrow> int" where
  "request_cap rq =
     min (if tq_bootstrap rq then min 32 (tq_max_batch rq) else tq_max_batch rq)
       (max 1 (ceil_div (tq_beam rq) (int (tq_world rq))))"

definition workspace_capacity :: "tuning_request \<Rightarrow> int" where
  "workspace_capacity rq = min (tq_max_batch rq) (max 1 (ceil_div (tq_beam rq) (int (tq_world rq))))"

definition first_candidates :: "(int list \<Rightarrow> int list) \<Rightarrow> tuning_request \<Rightarrow> int list result" where
  "first_candidates shuffle rq =
     (let cap = request_cap rq in
      if tq_bootstrap rq then Inr (cap # filter (\<lambda>x. x < cap) [16, 8, 4, 2, 1]) else coarse_batches shuffle (PInt cap))"

text \<open>A shared profile goes first when its batch fits.\<close>

definition proposed_batch :: "tuning_request \<Rightarrow> int option" where
  "proposed_batch rq =
     (case tq_shared rq of
        Some b \<Rightarrow> if \<not> tq_bootstrap rq \<and> b \<le> request_cap rq then Some b else None
      | None \<Rightarrow> None)"

definition cached_choice :: "tuning_request \<Rightarrow> cohort_signature \<Rightarrow> cached_profile option result" where
  "cached_choice rq sig =
     (case tq_cached rq of
        None \<Rightarrow> Inr None
      | Some (Inl e) \<Rightarrow> (case e of OSError _ \<Rightarrow> Inr None | _ \<Rightarrow> if is_value_error e then Inr None else Inl e)
      | Some (Inr data) \<Rightarrow>
          Inr (if valid_cached_profile data sig (tq_schema rq) (tq_max_batch rq)
                 \<and> capacity_cache_reusable (tq_limited rq) (tq_previous rq) (free_memory_snapshot (tq_query rq) (tq_uuids rq) (cs_world sig))
               then Some data else None))"

definition tuning_start :: "int list \<Rightarrow> bool \<Rightarrow> tuning_state" where
  "tuning_start candidates queued =
     \<lparr>ts_candidates = candidates, ts_coarse = candidates, ts_refined = [], ts_queued = queued, ts_samples = [], ts_records = [],
      ts_rejected = [], ts_reserves = [], ts_telemetry = [], ts_limited = False, ts_shared_used = False\<rparr>"

definition measured_choice :: "tuning_setup \<Rightarrow> unit result \<Rightarrow> tuning_state \<Rightarrow> inference_choice result" where
  "measured_choice tu verified_again st =
     ebind (select_inference (tu_resample tu) (ts_samples st) (str_int (tu_baseline tu))) (\<lambda>(winner, _).
     ebind verified_again (\<lambda>_.
     ebind (py_int (e_profile winner)) (\<lambda>batch.
     ebind (dict_item (ts_reserves st) (e_profile winner)) (\<lambda>reserve. Inr (Measured batch reserve winner st)))))"

text \<open>
  The setup of the caller gives the measurement, the clock and the seeds; the bounds, the baseline and the
  shared proposal come from the request.
\<close>

definition setup_of :: "tuning_setup \<Rightarrow> tuning_request \<Rightarrow> int list \<Rightarrow> tuning_setup" where
  "setup_of tu rq candidates =
     tu\<lparr>tu_world := tq_world rq, tu_cap := request_cap rq, tu_baseline := hd candidates, tu_bootstrap := tq_bootstrap rq,
        tu_shared := proposed_batch rq,
        tu_parents := min (ceil_div (tq_beam rq) (int (tq_world rq))) (max 8192 (workspace_capacity rq))\<rparr>"

definition tune_inference :: "tuning_setup \<Rightarrow> tuning_request \<Rightarrow> inference_choice result" where
  "tune_inference tu rq =
     (if \<not> tq_helper_ok rq
      then Inl (NativeBackendError ''verified Stream1 calibration executable is required for autotuning'')
      else
        ebind (tq_verified rq) (\<lambda>_.
        ebind (cached_choice rq (tu_sig tu)) (\<lambda>cached.
        case cached of
          Some data \<Rightarrow> Inr (Cached data)
        | None \<Rightarrow>
            ebind (first_candidates (tu_shuffle tu) rq) (\<lambda>candidates.
            let start = (case proposed_batch rq of Some b \<Rightarrow> b # filter (\<lambda>v. v \<noteq> b) candidates | None \<Rightarrow> candidates);
                tu' = setup_of tu rq candidates in
            ebind (tune_loop tu' 0 (tuning_start start (tq_bootstrap rq))) (measured_choice tu' (tq_verified_again rq))))))"


section \<open>The chosen batch was measured\<close>

lemma select_genuine:
  assumes "select resample opts thr baseline samples = Inr (w, rejected)"
  shows "estimate resample opts (e_profile w) samples = Inr w"
proof -
  let ?ps = "filter (\<lambda>p. p \<noteq> baseline) (sort_strings (remdups (map m_profile samples)))"
  from assms obtain base valid rej where base: "estimate resample opts baseline samples = Inr base"
    and ch: "estimate_challengers resample opts samples ?ps ([], []) = Inr (valid, rej)"
    and fg: "first_gain (e_low base * (1 - thr)) base (sort_key e_median valid) rej = (w, rejected)"
    by (auto simp: select_def ebind_Inr_iff split: if_splits)
  have "sorted (map e_median (sort_key e_median valid))" by simp
  from first_gain_spec [OF fg this] have "w = base \<or> w \<in> set valid" by auto
  with base estimate_challengers_spec [OF ch] obtain p where p: "estimate resample opts p samples = Inr w" by auto
  with estimate_profile [OF p] show ?thesis by simp
qed

lemma select_inference_genuine:
  "select_inference resample samples baseline = Inr (w, rejected) \<Longrightarrow> estimate resample default_options (e_profile w) samples = Inr w"
  by (auto simp: select_inference_def ebind_Inr_iff dest: select_genuine)

lemma estimate_uses:
  assumes "estimate resample default_options p samples = Inr e"
  shows "5 \<le> length (filter (\<lambda>m. m_profile m = p) samples)
    \<and> (\<forall>m \<in> set samples. m_profile m = p \<longrightarrow> m_correct m \<and> m_admitted m \<and> \<not> m_throttled m)"
  using assms by (auto simp: estimate_def Let_def default_options_def list_all_iff split: if_splits)

text \<open>A sample of a cohort: all ranks answered a probe of a batch within the cap.\<close>

definition cohort_of :: "tuning_setup \<Rightarrow> measurement \<Rightarrow> bool" where
  "cohort_of tu m \<longleftrightarrow>
     (\<exists>index batch reply. tu_probe tu index batch = Inr reply \<and> 1 \<le> batch \<and> batch \<le> tu_cap tu
       \<and> length (rp_rows reply) = tu_world tu
       \<and> m \<in> set (cohort_samples tu batch (verified_telemetry (rp_telemetry reply) (tu_sig tu)) (rp_rows reply)))"

definition reserve_of :: "tuning_setup \<Rightarrow> string \<Rightarrow> rat \<Rightarrow> bool" where
  "reserve_of tu key reserve \<longleftrightarrow>
     (\<exists>index batch reply. tu_probe tu index batch = Inr reply \<and> key = str_int batch
       \<and> length (rp_rows reply) = tu_world tu \<and> expected_reserve (rp_rows reply) = Some reserve)"

definition calibrated_ok :: "tuning_setup \<Rightarrow> tuning_state \<Rightarrow> bool" where
  "calibrated_ok tu st \<longleftrightarrow>
     (\<forall>b \<in> set (ts_candidates st). 1 \<le> b \<and> b \<le> tu_cap tu) \<and> (\<forall>m \<in> set (ts_samples st). cohort_of tu m)
     \<and> (\<forall>(key, reserve) \<in> set (ts_reserves st). reserve_of tu key reserve)"

lemma refinement_in_cap:
  assumes "refinement_batches shuffle winner cap visited = Inr bs" "\<And>xs. set (shuffle xs) = set xs"
  shows "\<forall>b \<in> set bs. 1 \<le> b \<and> b \<le> cap"
  using assms by (auto simp: refinement_batches_def Let_def split: if_splits)

lemma queue_refinement_ok:
  assumes "queue_refinement tu st = Inr st'" "calibrated_ok tu st" "\<And>xs. set (tu_shuffle tu xs) = set xs"
  shows "calibrated_ok tu st'"
proof (cases "ts_queued st")
  case True
  with assms show ?thesis by (simp add: queue_refinement_def)
next
  case False
  with assms(1) obtain best refined where r: "refinement_batches (tu_shuffle tu) best (tu_cap tu) (ts_candidates st) = Inr refined"
    and st': "st' = st\<lparr>ts_refined := refined, ts_candidates := ts_candidates st @ refined, ts_queued := True\<rparr>"
    by (auto simp: queue_refinement_def ebind_Inr_iff)
  from refinement_in_cap [OF r assms(3)] assms(2) show ?thesis by (auto simp: calibrated_ok_def st')
qed

fun loop_state :: "'a loop_step \<Rightarrow> 'a" where
  "loop_state (Break x) = x"
| "loop_state (Continue x) = x"

lemma after_probe_ok:
  assumes "after_probe tu index st = Inr step" "calibrated_ok tu st" "\<And>xs. set (tu_shuffle tu xs) = set xs"
  shows "calibrated_ok tu (loop_state step)"
  using assms by (auto simp: after_probe_def ebind_Inr_iff intro: queue_refinement_ok split: if_splits)

lemma record_cohort_ok:
  assumes "record_cohort tu batch reply st = Inr st'" "calibrated_ok tu st" "tu_probe tu index batch = Inr reply"
    "1 \<le> batch" "batch \<le> tu_cap tu" "length (rp_rows reply) = tu_world tu"
  shows "calibrated_ok tu st'"
proof -
  let ?verified = "verified_telemetry (rp_telemetry reply) (tu_sig tu)"
  from assms(1) obtain reserve where r: "expected_reserve (rp_rows reply) = Some reserve"
    and samples: "ts_samples st' = ts_samples st @ cohort_samples tu batch ?verified (rp_rows reply)"
    and reserves: "ts_reserves st' = dict_set (str_int batch) reserve (ts_reserves st)"
    and cands: "ts_candidates st' = ts_candidates st"
    by (auto simp: record_cohort_def Let_def split: option.splits)
  have "cohort_of tu m" if "m \<in> set (cohort_samples tu batch ?verified (rp_rows reply))" for m
    using that assms(3-6) unfolding cohort_of_def by blast
  moreover have "reserve_of tu (str_int batch) reserve" using r assms(3,6) unfolding reserve_of_def by blast
  moreover have "(key, r') \<in> set (ts_reserves st) \<or> (key, r') = (str_int batch, reserve)"
    if "(key, r') \<in> set (ts_reserves st')" for key r'
    using that dict_set_mem unfolding reserves by metis
  ultimately show ?thesis
    using assms(2) unfolding calibrated_ok_def samples cands by fastforce
qed

lemma full_cohort_ok:
  assumes "full_cohort tu index batch reply st = Inr step" "calibrated_ok tu st" "tu_probe tu index batch = Inr reply"
    "1 \<le> batch" "batch \<le> tu_cap tu" "length (rp_rows reply) = tu_world tu" "\<And>xs. set (tu_shuffle tu xs) = set xs"
  shows "calibrated_ok tu (loop_state step)"
proof -
  from assms(1) obtain st1 where st1: "record_cohort tu batch reply st = Inr st1"
    and step: "(if tu_shared tu = Some batch \<and> index = 0
     then ebind (stable_estimate tu batch st1) (\<lambda>stable.
       if stable then Inr (Break (st1\<lparr>ts_shared_used := True\<rparr>)) else after_probe tu index st1)
     else if tu_bootstrap tu
     then ebind (stable_estimate tu batch st1) (\<lambda>stable. Inr (if stable then Break st1 else Continue st1))
     else after_probe tu index st1) = Inr step"
    unfolding full_cohort_def ebind_Inr_iff by blast
  have rest: "after_probe tu index st1 = Inr step \<or> (ts_candidates (loop_state step) = ts_candidates st1
      \<and> ts_samples (loop_state step) = ts_samples st1 \<and> ts_reserves (loop_state step) = ts_reserves st1)"
    using step by (auto simp: ebind_Inr_iff split: if_splits)
  have ok: "calibrated_ok tu st1" by (rule record_cohort_ok [OF st1 assms(2-6)])
  from rest show ?thesis
  proof (elim disjE)
    assume "after_probe tu index st1 = Inr step"
    then show ?thesis using ok assms(7) by (rule after_probe_ok)
  qed (use ok in \<open>simp add: calibrated_ok_def\<close>)
qed

lemma failed_baseline_ok:
  assumes "failed_baseline tu index batch reply st = Inr step" "calibrated_ok tu st" "\<And>xs. set (tu_shuffle tu xs) = set xs"
  shows "calibrated_ok tu (loop_state step)"
proof -
  let ?cs = "ts_candidates st"
  define kept where "kept = take (Suc index) ?cs @ rev (sort (remdups (filter (\<lambda>v. v < batch) (drop (Suc index) ?cs))))"
  from assms(1) have after: "after_probe tu index (st\<lparr>ts_limited := True, ts_candidates := kept, ts_coarse := kept\<rparr>) = Inr step"
    by (simp add: failed_baseline_def Let_def kept_def split: if_splits)
  have kept: "set kept \<subseteq> set ?cs" by (auto simp: kept_def dest: in_set_takeD in_set_dropD)
  have "calibrated_ok tu (st\<lparr>ts_limited := True, ts_candidates := kept, ts_coarse := kept\<rparr>)"
    using assms(2) kept by (auto simp: calibrated_ok_def)
  from after_probe_ok [OF after this assms(3)] show ?thesis .
qed


lemma tune_step_ok:
  assumes "tune_step tu index st = Inr step" "calibrated_ok tu st" "index < length (ts_candidates st)" "\<And>xs. set (tu_shuffle tu xs) = set xs"
  shows "calibrated_ok tu (loop_state step)"
  using assms(1)
proof (cases rule: tune_step_cases)
  case 1
  with assms(2) show ?thesis by simp
next
  case (2 st')
  with queue_refinement_ok [OF 2(1) assms(2,4)] show ?thesis by simp
next
  case (3 reply)
  let ?batch = "ts_candidates st ! index"
  let ?st1 = "record_reply ?batch reply st"
  have ok: "calibrated_ok tu ?st1" using assms(2) by (simp add: calibrated_ok_def)
  have "?batch \<in> set (ts_candidates st)" using assms(3) by simp
  then have batch: "1 \<le> ?batch" "?batch \<le> tu_cap tu" using assms(2) unfolding calibrated_ok_def by blast+
  consider "length (rp_rows reply) = tu_world tu" "full_cohort tu index ?batch reply ?st1 = Inr step"
    | "failed_baseline tu index ?batch reply ?st1 = Inr step" | "after_probe tu index ?st1 = Inr step"
    using 3(2) unfolding probe_step_def by presburger
  then show ?thesis
  proof cases
    case 1
    from full_cohort_ok [OF 1(2) ok 3(1) batch 1(1) assms(4)] show ?thesis .
  next
    case 2
    from failed_baseline_ok [OF 2 ok assms(4)] show ?thesis .
  next
    case 3
    from after_probe_ok [OF 3 ok assms(4)] show ?thesis .
  qed
qed

lemma tune_loop_ok:
  assumes "tune_loop tu index st = Inr st'" "calibrated_ok tu st" "\<And>xs. set (tu_shuffle tu xs) = set xs"
  shows "calibrated_ok tu st'"
  using assms
proof (induction tu index st rule: tune_loop.induct)
  case (1 tu index st)
  show ?case
  proof (cases "length (ts_candidates st) \<le> index")
    case True
    with 1(2,3) show ?thesis by (subst (asm) tune_loop.simps) simp
  next
    case False
    with 1(2) obtain step where step: "tune_step tu index st = Inr step"
      by (subst (asm) tune_loop.simps) (auto split: sum.splits)
    from tune_step_ok [OF step 1(3) _ 1(4)] False have ok: "calibrated_ok tu (loop_state step)" by simp
    show ?thesis
    proof (cases step)
      case (Break x)
      with step 1(2) False ok show ?thesis by (subst (asm) tune_loop.simps) simp
    next
      case (Continue x)
      with step 1(2) False have "tune_loop tu (Suc index) x = Inr st'" by (subst (asm) tune_loop.simps) simp
      from 1(1) [OF False step Continue this _ 1(4)] ok Continue show ?thesis by simp
    qed
  qed
qed

lemma coarse_in_cap:
  assumes "coarse_batches shuffle (PInt cap) = Inr bs" "\<And>xs. set (shuffle xs) = set xs"
  shows "\<forall>b \<in> set bs. 1 \<le> b \<and> b \<le> cap"
proof -
  have pos: "\<forall>x \<in> set batch_powers. 1 \<le> x" by (simp add: batch_powers_def)
  show ?thesis using assms pos by (auto simp: coarse_batches_def Let_def split: if_splits)
qed

lemma first_candidates_in_cap:
  assumes "first_candidates shuffle rq = Inr bs" "\<And>xs. set (shuffle xs) = set xs" "0 < tq_max_batch rq"
  shows "\<forall>b \<in> set bs. 1 \<le> b \<and> b \<le> request_cap rq"
proof (cases "tq_bootstrap rq")
  case True
  have "1 \<le> request_cap rq" using assms(3) by (simp add: request_cap_def)
  with True assms(1) show ?thesis by (auto simp: first_candidates_def Let_def split: if_splits)
next
  case False
  with assms coarse_in_cap show ?thesis by (simp add: first_candidates_def)
qed

text \<open>C34. A measured inference batch is genuine: it lies between 1 and the cap (the options' limit and the parents of
  one rank), its estimate is the one of at least five samples of the calibration, each of which comes from a probe
  that all ranks answered under verified, unthrottled telemetry, and its reserve is the peak that the ranks of such a
  probe reported plus the fixed margin. The loop itself always ends.\<close>

theorem tuned_inference_genuine:
  assumes "tune_inference tu rq = Inr (Measured batch reserve e st)"
    and "\<And>xs. set (tu_shuffle tu xs) = set xs" and "0 < tq_max_batch rq" and "\<And>b. tq_shared rq = Some b \<Longrightarrow> 1 \<le> b"
  shows "1 \<le> batch \<and> batch \<le> request_cap rq
    \<and> estimate (tu_resample tu) default_options (str_int batch) (ts_samples st) = Inr e
    \<and> 5 \<le> length (filter (\<lambda>m. m_profile m = str_int batch) (ts_samples st))
    \<and> (\<forall>m \<in> set (ts_samples st). m_profile m = str_int batch \<longrightarrow>
         (\<exists>index reply. tu_probe tu index batch = Inr reply \<and> length (rp_rows reply) = tq_world rq
            \<and> verified_telemetry (rp_telemetry reply) (tu_sig tu)))
    \<and> (\<exists>index reply. tu_probe tu index batch = Inr reply \<and> length (rp_rows reply) = tq_world rq
         \<and> expected_reserve (rp_rows reply) = Some reserve)"
proof -
  from assms(1) obtain candidates start where cands: "first_candidates (tu_shuffle tu) rq = Inr candidates"
    and start: "start = (case proposed_batch rq of Some b \<Rightarrow> b # filter (\<lambda>v. v \<noteq> b) candidates | None \<Rightarrow> candidates)"
    and run: "ebind (tune_loop (setup_of tu rq candidates) 0 (tuning_start start (tq_bootstrap rq)))
        (measured_choice (setup_of tu rq candidates) (tq_verified_again rq)) = Inr (Measured batch reserve e st)"
    by (auto simp: tune_inference_def ebind_Inr_iff Let_def split: if_splits option.splits)
  define tu' where "tu' = setup_of tu rq candidates"
  have tu': "tu_shuffle tu' = tu_shuffle tu" "tu_cap tu' = request_cap rq" "tu_resample tu' = tu_resample tu"
    "tu_probe tu' = tu_probe tu" "tu_world tu' = tq_world rq" "tu_sig tu' = tu_sig tu"
    by (simp_all add: tu'_def setup_of_def)
  from run obtain st' where loop: "tune_loop tu' 0 (tuning_start start (tq_bootstrap rq)) = Inr st'"
    and choice: "measured_choice tu' (tq_verified_again rq) st' = Inr (Measured batch reserve e st)"
    by (auto simp: tu'_def ebind_Inr_iff)
  from choice obtain rejected where st: "st' = st" and win: "select_inference (tu_resample tu') (ts_samples st) (str_int (tu_baseline tu')) = Inr (e, rejected)"
    and batch: "py_int (e_profile e) = Inr batch" and reserve: "dict_item (ts_reserves st) (e_profile e) = Inr reserve"
    by (auto simp: measured_choice_def ebind_Inr_iff)
  have "calibrated_ok tu' (tuning_start start (tq_bootstrap rq))"
    using first_candidates_in_cap [OF cands assms(2,3)] assms(4)
    by (auto simp: calibrated_ok_def tuning_start_def tu' start proposed_batch_def split: option.splits if_splits)
  from tune_loop_ok [OF loop this] assms(2) have ok: "calibrated_ok tu' st" by (simp add: tu' st)
  note est = select_inference_genuine [OF win]
  note uses = estimate_uses [OF est]
  have origin: "\<exists>index b reply. tu_probe tu index b = Inr reply \<and> e_profile e = str_int b \<and> 1 \<le> b \<and> b \<le> request_cap rq
      \<and> length (rp_rows reply) = tq_world rq \<and> verified_telemetry (rp_telemetry reply) (tu_sig tu)"
    if m: "m \<in> set (ts_samples st)" "m_profile m = e_profile e" for m
  proof -
    from ok m(1) have "cohort_of tu' m" by (simp add: calibrated_ok_def)
    then obtain index b reply where c: "tu_probe tu index b = Inr reply" "1 \<le> b" "b \<le> request_cap rq" "length (rp_rows reply) = tq_world rq"
      and mem: "m \<in> set (cohort_samples tu' b (verified_telemetry (rp_telemetry reply) (tu_sig tu)) (rp_rows reply))"
      unfolding cohort_of_def tu' by blast
    from mem have "m_profile m = str_int b" "m_throttled m = (\<not> verified_telemetry (rp_telemetry reply) (tu_sig tu))"
      by (auto simp: cohort_samples_def)
    with uses m c show ?thesis by (intro exI [of _ index] exI [of _ b] exI [of _ reply]) auto
  qed
  have "filter (\<lambda>m. m_profile m = e_profile e) (ts_samples st) \<noteq> []" using uses by auto
  then obtain m where "m \<in> set (ts_samples st)" "m_profile m = e_profile e" by (auto simp: filter_empty_conv)
  from origin [OF this] batch have prof: "e_profile e = str_int batch" and cap: "1 \<le> batch" "batch \<le> request_cap rq" by auto
  have "(e_profile e, reserve) \<in> set (ts_reserves st)" using reserve by (auto simp: dict_item_Inr_iff dest: map_of_SomeD)
  with ok have "reserve_of tu' (e_profile e) reserve" by (auto simp: calibrated_ok_def)
  then have "\<exists>index reply. tu_probe tu index batch = Inr reply \<and> length (rp_rows reply) = tq_world rq
      \<and> expected_reserve (rp_rows reply) = Some reserve"
    by (auto simp: reserve_of_def prof tu' str_int_eq_iff)
  with est uses origin cap show ?thesis by (auto simp: prof tu' str_int_eq_iff)
qed


section \<open>A concrete calibration\<close>

lemma steady_estimate:
  assumes "filter (\<lambda>m. m_profile m = p) samples = replicate 5 m" "seconds_per_parent m = Inr c"
    "m_correct m" "m_admitted m" "\<not> m_throttled m"
  shows "\<exists>e. estimate resample default_options p samples = Inr e"
proof -
  have "0 < c" by (rule seconds_per_parent_pos [OF assms(2)])
  have five': "replicate 5 x = [x, x, x, x, x]" for x :: rat by (simp add: numeral_eq_Suc)
  have "emap seconds_per_parent (replicate 5 m) = Inr (replicate 5 c)" using assms(2) by (simp add: numeral_eq_Suc)
  moreover have "median (replicate 5 c) = c" for c by (simp add: median_def five' Let_def)
  moreover have "length (cohorts (replicate 5 m)) = 1" by (simp add: cohorts_def numeral_eq_Suc)
  ultimately show ?thesis
    using assms(1,3-5) \<open>0 < c\<close> unfolding estimate_def Let_def by (simp add: default_options_def map_replicate_const list_all_iff)
qed

definition steady_row :: inference_row where
  "steady_row = \<lparr>ir_batch = PInt 1, ir_device = PInt 0, ir_correct = Some (PBool True), ir_numeric = Some (PInt 0), ir_parents = PInt 1,
     ir_reserved = Some (PInt 1024), ir_seconds = [Fin 1, Fin 1, Fin 1, Fin 1, Fin 1]\<rparr>"

definition steady_reply :: probe_reply where
  "steady_reply = \<lparr>rp_rows = [steady_row], rp_rejected = None, rp_capacity = [],
     rp_telemetry = \<lparr>tr_samples = Some [[quiet_row 0], [quiet_row 0]], tr_errors = [], tr_throttled = Some (PBool False)\<rparr>\<rparr>"

definition steady_setup :: tuning_setup where
  "steady_setup = \<lparr>tu_resample = (\<lambda>vs _. vs), tu_shuffle = id, tu_probe = (\<lambda>_ _. Inr steady_reply),
     tu_sig = \<lparr>cs_uuids = [], cs_world = 1, cs_devices = Some [PInt 0]\<rparr>, tu_world = 1, tu_parents = 1, tu_cap = 1, tu_baseline = 1,
     tu_bootstrap = False, tu_shared = None, tu_late = (\<lambda>_. False), tu_left = (\<lambda>_. 90), tu_coarse_over = (\<lambda>_. False),
     tu_still_time = (\<lambda>_. False)\<rparr>"

definition steady_request :: tuning_request where
  "steady_request = \<lparr>tq_helper_ok = True, tq_verified = Inr (), tq_verified_again = Inr (), tq_cached = None, tq_schema = 9,
     tq_limited = False, tq_previous = None, tq_query = None, tq_uuids = [], tq_beam = 1, tq_world = 1, tq_max_batch = 1,
     tq_bootstrap = False, tq_shared = None\<rparr>"


lemma steady_verified: "verified_telemetry (rp_telemetry steady_reply) (tu_sig steady_setup)"
  by (simp add: verified_telemetry_def telemetry_check_def telemetry_identity_def sample_verified_def observed_rows_def quiet_row_def
      steady_reply_def steady_setup_def Let_def dict_update_def)

lemma steady_candidates: "first_candidates id steady_request = Inr [1]"
  by code_simp

lemma steady_setup_of: "setup_of steady_setup steady_request [1] = steady_setup"
  by (simp add: setup_of_def steady_setup_def steady_request_def request_cap_def proposed_batch_def workspace_capacity_def ceil_div_def)

lemma steady_name: "str_int 1 = ''1''"
  by code_simp

lemma steady_cohort:
  "cohort_samples steady_setup 1 True [steady_row]
     = replicate 5 \<lparr>m_profile = ''1'', m_parents = PInt 1, m_seconds = [Fin 1], m_correct = True, m_admitted = True, m_throttled = False\<rparr>"
  by (simp add: cohort_samples_def steady_setup_def steady_row_def steady_name numeral_eq_Suc upt_rec)

lemma steady_loop:
  "\<exists>st. tune_loop steady_setup 0 (tuning_start [1] False) = Inr st
     \<and> ts_samples st = replicate 5 \<lparr>m_profile = ''1'', m_parents = PInt 1, m_seconds = [Fin 1], m_correct = True, m_admitted = True, m_throttled = False\<rparr>
     \<and> map_of (ts_reserves st) ''1'' = Some 536871936"
proof -
  have reserve: "expected_reserve [steady_row] = Some 536871936" by (simp add: expected_reserve_def steady_row_def)
  note name = steady_name
  have reply: "tu_probe steady_setup 0 1 = Inr steady_reply" "rp_rows steady_reply = [steady_row]" "tu_world steady_setup = 1"
    "\<not> tu_late steady_setup 0" "tu_shared steady_setup = None" "\<not> tu_bootstrap steady_setup" "\<not> tu_still_time steady_setup 0"
    by (simp_all add: steady_setup_def steady_reply_def)
  have step: "\<exists>st. tune_step steady_setup 0 (tuning_start [1] False) = Inr (Continue st) \<and> length (ts_candidates st) = 1
     \<and> ts_samples st = replicate 5 \<lparr>m_profile = ''1'', m_parents = PInt 1, m_seconds = [Fin 1], m_correct = True, m_admitted = True, m_throttled = False\<rparr>
     \<and> map_of (ts_reserves st) ''1'' = Some 536871936"
    using steady_verified
    by (simp add: tune_step_def tuning_start_def reply probe_step_def full_cohort_def record_cohort_def reserve steady_cohort name
        after_probe_def record_reply_def Let_def)
  then obtain st where st: "tune_step steady_setup 0 (tuning_start [1] False) = Inr (Continue st)" "length (ts_candidates st) = 1"
     "ts_samples st = replicate 5 \<lparr>m_profile = ''1'', m_parents = PInt 1, m_seconds = [Fin 1], m_correct = True, m_admitted = True, m_throttled = False\<rparr>"
     "map_of (ts_reserves st) ''1'' = Some 536871936" by blast
  have "tune_loop steady_setup (Suc 0) st = Inr st" using st(2) by (subst tune_loop.simps) simp
  moreover have "\<not> length (ts_candidates (tuning_start [1] False)) \<le> 0" by (simp add: tuning_start_def)
  ultimately have "tune_loop steady_setup 0 (tuning_start [1] False) = Inr st"
    using st(1) by (subst tune_loop.simps) simp
  with st(3,4) show ?thesis by blast
qed

lemma tuned_inference_genuine_witness:
  "\<exists>e st. tune_inference steady_setup steady_request = Inr (Measured 1 536871936 e st)
     \<and> 5 \<le> length (filter (\<lambda>m. m_profile m = str_int 1) (ts_samples st))"
proof -
  let ?m = "\<lparr>m_profile = ''1'', m_parents = PInt 1, m_seconds = [Fin 1], m_correct = True, m_admitted = True, m_throttled = False\<rparr>"
  from steady_loop obtain st where loop: "tune_loop steady_setup 0 (tuning_start [1] False) = Inr st"
    and samples: "ts_samples st = replicate 5 ?m" and reserves: "map_of (ts_reserves st) ''1'' = Some 536871936" by blast
  note name = steady_name
  have "seconds_per_parent ?m = Inr 1" by (simp add: seconds_per_parent_def)
  then obtain e where est: "estimate (\<lambda>vs _. vs) default_options ''1'' (replicate 5 ?m) = Inr e"
    using steady_estimate [of "''1''" "replicate 5 ?m" ?m 1] by auto
  note prof = estimate_profile [OF est]
  have "length (cohorts (replicate 5 ?m)) = 1" by (simp add: cohorts_def numeral_eq_Suc)
  moreover have "filter (\<lambda>p. p \<noteq> ''1'') (sort_strings (remdups (map m_profile (replicate 5 ?m)))) = []"
    by (simp add: filter_empty_conv)
  ultimately have "select (\<lambda>vs _. vs) default_options (1 / 50) ''1'' (replicate 5 ?m) = Inr (e, [])"
    using est by (simp add: select_def)
  then have win: "\<exists>r. select_inference (\<lambda>vs _. vs) (replicate 5 ?m) ''1'' = Inr (e, r)"
    using est by (simp add: select_inference_def inference_baseline_def)
  have fixed: "tu_resample steady_setup = (\<lambda>vs _. vs)" "tu_baseline steady_setup = 1" "tu_shuffle steady_setup = id"
    "tq_verified_again steady_request = Inr ()" "tq_helper_ok steady_request" "tq_verified steady_request = Inr ()"
    "proposed_batch steady_request = None" "\<not> tq_bootstrap steady_request" "cached_choice steady_request sig = Inr None" for sig
    by (simp_all add: steady_setup_def steady_request_def proposed_batch_def cached_choice_def)
  have batch: "py_int ''1'' = Inr 1" using py_int_str_int [of 1] by (simp add: name)
  have "\<exists>r. measured_choice steady_setup (Inr ()) st = Inr (Measured 1 536871936 e st)"
    using win by (auto simp: measured_choice_def fixed samples name prof batch dict_item_def reserves)
  then have run: "tune_inference steady_setup steady_request = Inr (Measured 1 536871936 e st)"
    by (simp add: tune_inference_def fixed steady_candidates steady_setup_of loop)
  from tuned_inference_genuine [OF run] show ?thesis
    using run by (simp add: fixed steady_request_def)
qed

end
