(* ===== verification/Receipts.thy ===== *)
theory Receipts
  imports Autotune
begin

text \<open>
  Cached profiles: the receipts of measured pipelines (\<open>pipeline_cache.py\<close>) and the profiles that a source
  checkout shares (\<open>shared_profiles.py\<close>). A cached receipt only proposes an environment: it is reused
  after a fresh admission on all ranks with the recorded geometry.
\<close>

section \<open>Identities\<close>

record identity =
  ci_full :: bool
  ci_batch :: int
  ci_reserve :: int
  ci_world :: int
  ci_beam :: pyval
  ci_policy :: "string option"
  ci_context :: "(string, pyval) dict option"
  ci_environment :: "(string, string) dict"

definition ends_with_any :: "string list \<Rightarrow> string \<Rightarrow> bool" where
  "ends_with_any ends k = list_ex (\<lambda>e. suffix e k) ends"

text \<open>Settings that change what is measured; run identifiers, inputs and locations do not.\<close>

definition policy_environment :: "(string, string) dict \<Rightarrow> (string, string) dict" where
  "policy_environment env =
     filter (\<lambda>(k, v). (prefix ''BEAM_'' k \<or> prefix ''NCCL_'' k)
       \<and> k \<notin> {''BEAM_NCCL_RUN_ID'', ''BEAM_PUZZLE_INFO_JSON'', ''BEAM_TEST_CSV''}
       \<and> \<not> ends_with_any [''_PATH'', ''_FILE'', ''_DIR''] k) env"

definition cache_identity ::
  "cached_profile \<Rightarrow> cohort_signature \<Rightarrow> pyval option \<Rightarrow> int \<Rightarrow> int \<Rightarrow> string \<Rightarrow> (string, string) dict \<Rightarrow> pyval \<Rightarrow> int \<Rightarrow> bool
     \<Rightarrow> identity option" where
  "cache_identity inference sig sig_beam schema max_batch policy env beam world full =
     (if sig_beam \<noteq> Some beam \<or> cs_world sig \<noteq> world \<or> \<not> valid_cached_profile inference sig schema max_batch then None
      else
        (case (cp_parent_batch inference, cp_reserve inference) of
           (Some (PInt batch), Some (PInt reserve)) \<Rightarrow>
             Some \<lparr>ci_full = full, ci_batch = batch, ci_reserve = reserve, ci_world = world, ci_beam = beam,
                   ci_policy = Some policy, ci_context = None, ci_environment = policy_environment env\<rparr>
         | _ \<Rightarrow> None))"

section \<open>Receipts\<close>

text \<open>The fields of a parsed receipt; \<open>None\<close> where a key is missing.\<close>

record rank_row =
  rw_rank :: "pyval option"
  rw_correct :: "pyval option"
  rw_full_step :: "pyval option"
  rw_capacity :: "pyval option"
  rw_stages :: "(string, pyfloat list) dict"
  rw_transport :: "(pyval \<times> pyfloat list) list option"

record tested_row =
  ts_name :: "string option"
  ts_env :: "pyval option"
  ts_plans :: "plan list option"
  ts_ranks :: "rank_row list option"

record adaptive_search =
  as_context :: "(string, pyval) dict option"
  as_stop :: "string option"
  as_coarse :: "string list option"
  as_rounds :: "string list list option"

record receipt =
  rc_identity :: "identity option"
  rc_phase :: "string option"
  rc_pipeline :: "pyval option"
  rc_env :: "pyval option"
  rc_selection :: "string option"
  rc_tested :: "tested_row list option"
  rc_beam :: "pyval option"
  rc_effective :: "pyval option"
  rc_scope :: "string option"
  rc_grid :: "pyval option"
  rc_samples :: "measurement list option"
  rc_search :: "adaptive_search option"
  rc_full_tested :: "string list option"
  rc_estimate :: "estimate_row option"
  rc_measurements :: "measurement list option"

definition field :: "string \<Rightarrow> 'a option \<Rightarrow> 'a result" where
  "field key v = (case v of Some x \<Rightarrow> Inr x | None \<Rightarrow> Inl (KeyError key))"

text \<open>\<open>if not check: return False\<close>, one after the other.\<close>

fun require_all :: "(unit \<Rightarrow> bool result) list \<Rightarrow> bool result" where
  "require_all [] = Inr True"
| "require_all (check # checks) = ebind (check ()) (\<lambda>ok. if ok then require_all checks else Inr False)"

definition cache_keys :: "string set" where
  "cache_keys = insert ''BEAM_ENSEMBLE_INFERENCE_MICRO'' (set tunable_keys)"

text \<open>\<open>set(env)-KEYS\<close> and \<open>env.get\<close>: a list or a string has elements but no \<open>get\<close>.\<close>

definition allowed_item :: "pyval \<Rightarrow> bool" where
  "allowed_item v = (case v of PStr s \<Rightarrow> s \<in> cache_keys | _ \<Rightarrow> False)"

definition hashable :: "pyval \<Rightarrow> bool" where
  "hashable v = (case v of PList _ \<Rightarrow> False | PDict _ \<Rightarrow> False | _ \<Rightarrow> True)"

definition environment_keys :: "pyval \<Rightarrow> (string, pyval) dict option result" where
  "environment_keys env =
     (case env of
        PDict d \<Rightarrow> if set (map fst d) \<subseteq> cache_keys then Inr (Some d) else Inr None
      | PList xs \<Rightarrow>
          if \<not> list_all hashable xs then Inl (TypeError ''unhashable type'')
          else if list_all allowed_item xs then Inl (AttributeError ''get'') else Inr None
      | PStr s \<Rightarrow> if s = [] then Inl (AttributeError ''get'') else Inr None
      | _ \<Rightarrow> Inl (TypeError ''object is not iterable''))"

definition setting_ok :: "pyval \<Rightarrow> bool" where
  "setting_ok v =
     (case v of
        PStr s \<Rightarrow> s \<noteq> [] \<and> list_all is_digit s \<and> 0 < nat_of_digits s \<and> nat_of_digits s \<le> 2 ^ 40
      | _ \<Rightarrow> False)"

definition check_environment :: "pyval \<Rightarrow> int \<Rightarrow> bool result" where
  "check_environment env micro =
     ebind (environment_keys env) (\<lambda>d.
     case d of
       None \<Rightarrow> Inr False
     | Some d \<Rightarrow> Inr (map_of d ''BEAM_ENSEMBLE_INFERENCE_MICRO'' = Some (PStr (str_int micro)) \<and> list_all (setting_ok \<circ> snd) d))"

definition five_positive :: "pyfloat list \<Rightarrow> bool" where
  "five_positive vs = (5 \<le> length vs \<and> None \<notin> set (map positive_part vs))"

definition stage_keys :: "string list" where
  "stage_keys = [''stream3_seconds'', ''stream4_group_seconds'', ''union_seconds'']"

definition check_rank_row :: "plan list \<Rightarrow> rank_row \<Rightarrow> bool result" where
  "check_rank_row plans row =
     require_all
       [\<lambda>_. Inr (rw_correct row = Some (PBool True) \<and> rw_full_step row = Some (PBool False)),
        \<lambda>_. ebind (field ''shard_capacity'' (rw_capacity row)) (\<lambda>c. ebind (field ''rank'' (rw_rank row)) (\<lambda>r.
             ebind (dict_item (plans ! nat (the_int r)) ''SHARD_CAPACITY_CANDIDATES'') (\<lambda>p. Inr (py_eq c p)))),
        \<lambda>_. require_all (map (\<lambda>k _. ebind (dict_item (rw_stages row) k) (\<lambda>vs. Inr (five_positive vs))) stage_keys),
        \<lambda>_. ebind (field ''transport'' (rw_transport row)) (\<lambda>ts.
             Inr (list_all (\<lambda>(items, vs). is_int items \<and> 0 < the_int items \<and> five_positive vs) ts))]"

definition ranks_complete :: "int \<Rightarrow> rank_row list \<Rightarrow> bool result" where
  "ranks_complete world rows =
     (if int (length rows) \<noteq> world then Inr False
      else ebind (emap (\<lambda>r. field ''rank'' (rw_rank r)) rows) (\<lambda>ranks.
        Inr (list_all is_int ranks \<and> set (map the_int ranks) = {0..<world})))"

text \<open>The part of a receipt that every phase has.\<close>

definition chosen_rows :: "receipt \<Rightarrow> tested_row list result" where
  "chosen_rows data =
     ebind (field ''tested'' (rc_tested data)) (\<lambda>rows.
     ebind (emap (\<lambda>r. ebind (field ''name'' (ts_name r)) (\<lambda>n. ebind (field ''selection'' (rc_selection data)) (\<lambda>sel.
       Inr (n = sel, r)))) rows) (\<lambda>named.
     Inr (map snd (filter fst named))))"

definition check_chosen :: "receipt \<Rightarrow> identity \<Rightarrow> pyval \<Rightarrow> tested_row \<Rightarrow> bool result" where
  "check_chosen data ident env row =
     ebind (field ''environment'' (ts_env row)) (\<lambda>e.
     if e \<noteq> env then Inr False
     else
       ebind (field ''plans'' (ts_plans row)) (\<lambda>plans.
       ebind (validate_rank_plans plans) (\<lambda>_.
       ebind (dict_item (hd plans) ''GLOBAL_BEAM_WIDTH_EFFECTIVE'') (\<lambda>effective.
       require_all
         [\<lambda>_. Inr (int (length plans) = ci_world ident),
          \<lambda>_. ebind (field ''requested_beam_width'' (rc_beam data)) (\<lambda>b. Inr (b = ci_beam ident)),
          \<lambda>_. ebind (field ''requested_beam_effective'' (rc_effective data)) (\<lambda>b. Inr (effective = b)),
          \<lambda>_. ebind (field ''requested_beam_width'' (rc_beam data)) (\<lambda>b. Inr (effective = b)),
          \<lambda>_. ebind (field ''rank_measurements'' (ts_ranks row)) (\<lambda>rows.
               require_all [\<lambda>_. ranks_complete (ci_world ident) rows,
                            \<lambda>_. require_all (map (\<lambda>r _. check_rank_row plans r) rows)])]))))"

definition check_base :: "receipt \<Rightarrow> identity \<Rightarrow> bool result" where
  "check_base data ident =
     require_all
       [\<lambda>_. ebind (field ''cache_identity'' (rc_identity data)) (\<lambda>i. Inr (i = ident)),
        \<lambda>_. ebind (field ''phase'' (rc_phase data)) (\<lambda>p.
             Inr (p = (if ci_full ident then ''pipeline_measured'' else ''component_calibrated''))),
        \<lambda>_. Inr (rc_pipeline data = Some (PBool (ci_full ident))),
        \<lambda>_. ebind (field ''environment'' (rc_env data)) (\<lambda>env.
             require_all
               [\<lambda>_. check_environment env (ci_batch ident),
                \<lambda>_. ebind (chosen_rows data) (\<lambda>chosen.
                     case chosen of [row] \<Rightarrow> check_chosen data ident env row | _ \<Rightarrow> Inr False)])]"

text \<open>The comparison of complete steps that a receipt of the full frontier carries.\<close>

definition adaptive_policies :: "string list" where
  "adaptive_policies = [''hardware-coarse-fine-v1'', ''service-guided-shortlist-v2'']"

definition stop_reasons :: "string list" where
  "stop_reasons = [''round_limit'', ''no_new_admissible_neighbors'', ''no_statistically_separated_gain'']"

definition traced_names :: "receipt \<Rightarrow> identity \<Rightarrow> string set \<Rightarrow> string set option result" where
  "traced_names data ident names =
     (if \<not> (case ci_policy ident of Some p \<Rightarrow> p \<in> set adaptive_policies | None \<Rightarrow> False) then Inr (Some names)
      else
        ebind (field ''adaptive_search'' (rc_search data)) (\<lambda>search.
        ebind (field ''context'' (as_context search)) (\<lambda>context'.
        ebind (field ''adaptive_context'' (ci_context ident)) (\<lambda>expected.
        if context' \<noteq> expected then Inr None
        else
          ebind (field ''stop_reason'' (as_stop search)) (\<lambda>stop.
          if stop \<notin> set stop_reasons then Inr None
          else
            ebind (field ''full_tested'' (rc_full_tested data)) (\<lambda>measured.
            ebind (field ''coarse_full_tested'' (as_coarse search)) (\<lambda>coarse.
            ebind (field ''rounds'' (as_rounds search)) (\<lambda>rounds.
            if measured \<noteq> coarse @ concat rounds \<or> ''baseline'' \<notin> set measured \<or> \<not> distinct measured
               \<or> \<not> set measured \<subset> names
            then Inr None else Inr (Some (set measured))))))))))"

definition tested_names :: "tested_row list \<Rightarrow> string list result" where
  "tested_names rows =
     emap (\<lambda>r. field ''name'' (ts_name r)) (filter (\<lambda>r. ts_plans r \<noteq> None \<and> ts_env r \<noteq> None) rows)"

definition check_winner :: "resampler \<Rightarrow> receipt \<Rightarrow> measurement list \<Rightarrow> bool result" where
  "check_winner resample data samples =
     ebind (select resample default_options (1 / 50) ''baseline'' samples) (\<lambda>(winner, _).
     require_all
       [\<lambda>_. ebind (field ''selection'' (rc_selection data)) (\<lambda>s. Inr (e_profile winner = s)),
        \<lambda>_. ebind (field ''estimate'' (rc_estimate data)) (\<lambda>e. Inr (winner = e)),
        \<lambda>_. ebind (field ''measurements'' (rc_measurements data)) (\<lambda>ms.
             Inr (ms = filter (\<lambda>m. m_profile m = e_profile winner) samples))])"

definition check_full :: "resampler \<Rightarrow> receipt \<Rightarrow> identity \<Rightarrow> bool result" where
  "check_full resample data ident =
     (if rc_scope data \<noteq> Some ''full_requested_frontier'' \<or> rc_grid data \<noteq> Some (PBool True) then Inr False
      else
        ebind (field ''full_comparison_measurements'' (rc_samples data)) (\<lambda>samples.
        ebind (field ''tested'' (rc_tested data)) (\<lambda>rows.
        ebind (tested_names rows) (\<lambda>named.
        ebind (traced_names data ident (set named)) (\<lambda>names.
        case names of
          None \<Rightarrow> Inr False
        | Some names \<Rightarrow>
            if set (map m_profile samples) \<noteq> names then Inr False
            else
              ebind (field ''requested_beam_effective'' (rc_effective data)) (\<lambda>effective.
              if list_ex (\<lambda>m. m_parents m \<noteq> effective \<or> int (length (m_seconds m)) \<noteq> ci_world ident) samples then Inr False
              else check_winner resample data samples))))))"

text \<open>\<open>except (KeyError, ValueError, TypeError, OverflowError): return False\<close>; other exceptions pass.\<close>

definition malformed :: "exn \<Rightarrow> bool" where
  "malformed e = (is_value_error e \<or> (case e of KeyError _ \<Rightarrow> True | TypeError _ \<Rightarrow> True | OverflowError _ \<Rightarrow> True | _ \<Rightarrow> False))"

definition valid_receipt :: "resampler \<Rightarrow> receipt \<Rightarrow> identity \<Rightarrow> bool result" where
  "valid_receipt resample data ident =
     (case require_all ([\<lambda>_. check_base data ident] @ (if ci_full ident then [\<lambda>_. check_full resample data ident] else [])) of
        Inr b \<Rightarrow> Inr b
      | Inl e \<Rightarrow> if malformed e then Inr False else Inl e)"

section \<open>Reading and writing\<close>

definition geometry_keys :: "string list" where
  "geometry_keys =
     [''GLOBAL_BEAM_WIDTH_EFFECTIVE'', ''frontier_state_capacity'', ''B_MICRO'', ''WORLD_SIZE'', ''SHARD_COUNT'',
      ''SHARD_CAPACITY_CANDIDATES'', ''STREAM3_RING_SLOTS'', ''RING_COUNT'', ''STREAM4_ACTIVE_SORT_SLOTS'',
      ''STREAM4_BATCH_CANDIDATES'', ''STREAM4_BATCH_ALIGNMENT'']"

definition same_item :: "plan \<Rightarrow> plan \<Rightarrow> string \<Rightarrow> bool result" where
  "same_item a b key = ebind (dict_item a key) (\<lambda>x. ebind (dict_item b key) (\<lambda>y. Inr (x = y)))"

definition same_geometry :: "plan list \<Rightarrow> plan list \<Rightarrow> bool result" where
  "same_geometry old new =
     require_all (concat (map (\<lambda>(a, b). map (\<lambda>k _. same_item a b k) geometry_keys) (zip old new)))"

definition row_factor :: "identity \<Rightarrow> pyval" where
  "row_factor ident =
     (case ci_context ident of
        Some c \<Rightarrow> (case map_of c ''outer_rows_per_parent'' of Some v \<Rightarrow> v | None \<Rightarrow> PInt 1)
      | None \<Rightarrow> PInt 1)"

definition fresh_checks :: "identity \<Rightarrow> receipt \<Rightarrow> (string, pyval) dict \<Rightarrow> plan list \<Rightarrow> plan list \<Rightarrow> bool result" where
  "fresh_checks ident data env old plans =
     require_all
       [\<lambda>_. ebind (dict_item (hd plans) ''GLOBAL_BEAM_WIDTH_EFFECTIVE'') (\<lambda>w.
             ebind (field ''requested_beam_effective'' (rc_effective data)) (\<lambda>b. Inr (w = b))),
        \<lambda>_. ebind (dict_item (hd plans) ''B_MICRO'') (\<lambda>m. ebind (dict_item env ''BEAM_B_MICRO'') (\<lambda>v.
             Inr (is_int m \<and> is_int (row_factor ident)
                  \<and> (case v of PStr s \<Rightarrow> int (nat_of_digits s) = the_int m * the_int (row_factor ident) | _ \<Rightarrow> False)))),
        \<lambda>_. same_geometry old plans,
        \<lambda>_. Inr (length plans = length old)]"

record reuse =
  ru_receipt :: receipt
  ru_plans :: "plan list"

definition reuse_receipt ::
  "resampler \<Rightarrow> identity \<Rightarrow> ((string, pyval) dict \<Rightarrow> plan list result) \<Rightarrow> receipt \<Rightarrow> reuse option result" where
  "reuse_receipt resample ident admit data =
     ebind (valid_receipt resample data ident) (\<lambda>ok.
     if \<not> ok then Inr None
     else
       (case (rc_env data, chosen_rows data) of
          (Some (PDict env), Inr (row # _)) \<Rightarrow>
            ebind (admit env) (\<lambda>plans.
            ebind (validate_rank_plans plans) (\<lambda>_.
            ebind (field ''plans'' (ts_plans row)) (\<lambda>old.
            ebind (fresh_checks ident data env old plans) (\<lambda>same.
            Inr (if same then Some \<lparr>ru_receipt = data, ru_plans = plans\<rparr> else None)))))
        | (_, Inl e) \<Rightarrow> Inl e
        | _ \<Rightarrow> Inr None))"

definition unreadable :: "exn \<Rightarrow> bool" where
  "unreadable e =
     (is_value_error e \<or> (case e of OSError _ \<Rightarrow> True | TimeoutError _ \<Rightarrow> True | KeyError _ \<Rightarrow> True | TypeError _ \<Rightarrow> True | _ \<Rightarrow> False))"

definition read_cached_profile ::
  "resampler \<Rightarrow> receipt result \<Rightarrow> identity \<Rightarrow> ((string, pyval) dict \<Rightarrow> plan list result) \<Rightarrow> reuse option result" where
  "read_cached_profile resample file ident admit =
     (case ebind file (reuse_receipt resample ident admit) of
        Inr r \<Rightarrow> Inr r
      | Inl e \<Rightarrow> if unreadable e then Inr None else Inl e)"

text \<open>What \<open>write_cached_profile\<close> stores: the record with its identity, when it is a valid receipt.\<close>

definition write_cached_profile :: "resampler \<Rightarrow> identity \<Rightarrow> receipt \<Rightarrow> receipt option result" where
  "write_cached_profile resample ident data =
     (let record' = data\<lparr>rc_identity := Some ident\<rparr> in
      ebind (valid_receipt resample record' ident) (\<lambda>ok. Inr (if ok then Some record' else None)))"

section \<open>What a reused receipt guarantees\<close>

lemma require_all_iff: "require_all checks = Inr True \<longleftrightarrow> (\<forall>check \<in> set checks. check () = Inr True)"
proof (induction checks)
  case (Cons check checks)
  show ?case
  proof (cases "check ()")
    case (Inr ok)
    then show ?thesis using Cons by (cases ok) auto
  qed simp
qed simp

declare require_all.simps [simp del]

lemma field_Inr_iff [simp]: "field key v = Inr x \<longleftrightarrow> v = Some x"
  by (simp add: field_def split: option.splits)

lemma check_base_True:
  assumes "check_base data ident = Inr True"
  obtains env row where "rc_env data = Some env" "check_environment env (ci_batch ident) = Inr True"
    "chosen_rows data = Inr [row]" "check_chosen data ident env row = Inr True"
proof -
  from assms obtain env rows where e: "rc_env data = Some env" "check_environment env (ci_batch ident) = Inr True"
    and c: "chosen_rows data = Inr rows" "(case rows of [row] \<Rightarrow> check_chosen data ident env row | _ \<Rightarrow> Inr False) = Inr True"
    unfolding check_base_def require_all_iff by (auto simp: ebind_Inr_iff require_all_iff)
  from c(2) obtain row where "rows = [row]" "check_chosen data ident env row = Inr True"
    by (cases rows rule: remdups_adj.cases) auto
  then show thesis using that e c(1) by simp
qed

lemma valid_receipt_base: "valid_receipt resample data ident = Inr True \<Longrightarrow> check_base data ident = Inr True"
proof -
  assume "valid_receipt resample data ident = Inr True"
  then have "require_all ([\<lambda>_. check_base data ident] @ (if ci_full ident then [\<lambda>_. check_full resample data ident] else [])) = Inr True"
    unfolding valid_receipt_def by (simp only: split: sum.splits if_splits) simp_all
  then show ?thesis by (simp only: require_all_iff) simp
qed

lemma check_chosen_True:
  assumes "check_chosen data ident env row = Inr True"
  obtains plans where "ts_plans row = Some plans" "validate_rank_plans plans = Inr ()" "int (length plans) = ci_world ident"
    "rc_effective data = Some (ci_beam ident)"
proof -
  from assms obtain plans effective where p: "ts_plans row = Some plans" "validate_rank_plans plans = Inr ()"
    and all: "int (length plans) = ci_world ident" "rc_beam data = Some (ci_beam ident)" "rc_effective data = Some effective"
      "rc_beam data = Some effective"
    unfolding check_chosen_def by (auto simp: ebind_Inr_iff require_all_iff split: if_splits)
  then show thesis using that by simp
qed

lemma check_environment_True:
  assumes "check_environment env micro = Inr True"
  obtains d where "env = PDict d" "set (map fst d) \<subseteq> cache_keys"
    "map_of d ''BEAM_ENSEMBLE_INFERENCE_MICRO'' = Some (PStr (str_int micro))" "list_all (setting_ok \<circ> snd) d"
  using assms unfolding check_environment_def environment_keys_def
  by (auto simp: ebind_Inr_iff split: option.splits pyval.splits if_splits)

lemma chosen_rows_mem:
  assumes "chosen_rows data = Inr rows" "row \<in> set rows"
  shows "\<exists>tested. rc_tested data = Some tested \<and> row \<in> set tested \<and> ts_name row = rc_selection data"
proof -
  from assms(1) obtain tested named where t: "rc_tested data = Some tested"
    and n: "list_all2 (\<lambda>r p. ebind (field ''name'' (ts_name r)) (\<lambda>n. ebind (field ''selection'' (rc_selection data)) (\<lambda>sel.
       Inr (n = sel, r))) = Inr p) tested named" and rows: "rows = map snd (filter fst named)"
    unfolding chosen_rows_def by (auto simp: ebind_Inr_iff emap_Inr_iff)
  from assms(2) rows have "(True, row) \<in> set named" by auto
  then obtain i where i: "i < length named" "named ! i = (True, row)" by (auto simp: in_set_conv_nth)
  with list_all2_nthD2 [OF n i(1)] list_all2_lengthD [OF n] show ?thesis
    by (auto simp: ebind_Inr_iff t in_set_conv_nth)
qed

lemma same_geometry_True:
  assumes "same_geometry old new = Inr True" "i < length old" "i < length new" "k \<in> set geometry_keys"
  shows "map_of (old ! i) k = map_of (new ! i) k \<and> map_of (old ! i) k \<noteq> None"
proof -
  have "(old ! i, new ! i) \<in> set (zip old new)" using assms(2,3) by (auto simp: set_zip)
  then have "same_item (old ! i) (new ! i) k = Inr True"
    using assms(1,4) unfolding same_geometry_def require_all_iff by force
  then show ?thesis by (auto simp: same_item_def ebind_Inr_iff dict_item_Inr_iff)
qed

lemma fresh_checks_True:
  assumes "fresh_checks ident data env old plans = Inr True"
  shows "map_of (hd plans) ''GLOBAL_BEAM_WIDTH_EFFECTIVE'' = rc_effective data" "rc_effective data \<noteq> None"
    "same_geometry old plans = Inr True" "length plans = length old"
  using assms unfolding fresh_checks_def require_all_iff
  by (auto simp: ebind_Inr_iff dict_item_Inr_iff)


text \<open>A receipt of one rank, calibrated on its components only.\<close>

definition solo_plan :: plan where
  "solo_plan =
     map (\<lambda>k. (k, PInt 8)) (filter (\<lambda>k. k \<noteq> ''WORLD_SIZE'') geometry_keys)
     @ [(''WORLD_SIZE'', PInt 1), (''BEAM_WIDTH_ALIGNMENT'', PInt 8), (''estimated_required_device_bytes'', PInt 1),
        (''gpu_budget_bytes'', PInt 2)]"

definition solo_env :: "(string, pyval) dict" where
  "solo_env = [(''BEAM_ENSEMBLE_INFERENCE_MICRO'', PStr ''8''), (''BEAM_B_MICRO'', PStr ''8'')]"

definition solo_identity :: identity where
  "solo_identity = \<lparr>ci_full = False, ci_batch = 8, ci_reserve = 1, ci_world = 1, ci_beam = PInt 8, ci_policy = None,
     ci_context = None, ci_environment = []\<rparr>"

definition solo_rank :: rank_row where
  "solo_rank = \<lparr>rw_rank = Some (PInt 0), rw_correct = Some (PBool True), rw_full_step = Some (PBool False),
     rw_capacity = Some (PInt 8), rw_stages = map (\<lambda>k. (k, replicate 5 (Fin 1))) stage_keys, rw_transport = Some []\<rparr>"

definition solo_row :: tested_row where
  "solo_row = \<lparr>ts_name = Some ''baseline'', ts_env = Some (PDict solo_env), ts_plans = Some [solo_plan], ts_ranks = Some [solo_rank]\<rparr>"

definition solo_receipt :: "pyval \<Rightarrow> receipt" where
  "solo_receipt env = \<lparr>rc_identity = Some solo_identity, rc_phase = Some ''component_calibrated'', rc_pipeline = Some (PBool False),
     rc_env = Some env, rc_selection = Some ''baseline'', rc_tested = Some [solo_row], rc_beam = Some (PInt 8),
     rc_effective = Some (PInt 8), rc_scope = None, rc_grid = None, rc_samples = None, rc_search = None, rc_full_tested = None,
     rc_estimate = None, rc_measurements = None\<rparr>"

lemma solo_plans: "validate_rank_plans [solo_plan] = Inr ()"
  by (simp add: validate_rank_plans_def solo_plan_def geometry_keys_def common_keys_def same_value_def dict_item_def raise_if_def
      memory_ok_def)

lemma solo_checks:
  "check_environment (PDict solo_env) 8 = Inr True"
  "chosen_rows (solo_receipt env) = Inr [solo_row]"
  "check_rank_row [solo_plan] solo_rank = Inr True"
proof -
  have "str_int 8 = ''8''" by code_simp
  moreover have "nat_of_digits ''8'' = 8" by code_simp
  ultimately show "check_environment (PDict solo_env) 8 = Inr True"
    by (simp add: check_environment_def environment_keys_def solo_env_def cache_keys_def tunable_keys_def setting_ok_def
        is_digit_def)
  show "chosen_rows (solo_receipt env) = Inr [solo_row]"
    by (simp add: chosen_rows_def solo_receipt_def solo_row_def field_def)
  show "check_rank_row [solo_plan] solo_rank = Inr True"
    by (simp add: check_rank_row_def require_all.simps solo_rank_def field_def solo_plan_def geometry_keys_def dict_item_def py_eq_def
        stage_keys_def five_positive_def numeric_value.simps)
qed

lemma solo_valid: "valid_receipt resample (solo_receipt (PDict solo_env)) solo_identity = Inr True"
proof -
  have "check_chosen (solo_receipt (PDict solo_env)) solo_identity (PDict solo_env) solo_row = Inr True"
  proof -
    have "ranks_complete 1 [solo_rank] = Inr True" by (auto simp: ranks_complete_def solo_rank_def field_def)
    moreover have "dict_item solo_plan ''GLOBAL_BEAM_WIDTH_EFFECTIVE'' = Inr (PInt 8)"
      by (simp add: dict_item_def solo_plan_def geometry_keys_def)
    ultimately show ?thesis
      using solo_plans solo_checks(3)
      by (simp add: check_chosen_def require_all.simps solo_row_def solo_receipt_def solo_identity_def field_def)
  qed
  then have "check_base (solo_receipt (PDict solo_env)) solo_identity = Inr True"
    using solo_checks(1) solo_checks(2) [of "PDict solo_env"]
    by (simp add: check_base_def require_all.simps field_def) (simp add: solo_receipt_def solo_identity_def require_all.simps)
  then show ?thesis by (simp add: valid_receipt_def require_all.simps solo_identity_def)
qed


text \<open>
  A receipt whose environment is an empty list is malformed, but reading it raises: the list has no \<open>get\<close>, and
  neither the check nor the reader catches that exception.
\<close>

lemma list_environment_escapes:
  "read_cached_profile resample (Inr (solo_receipt (PList []))) solo_identity admit = Inl (AttributeError ''get'')"
proof -
  have "check_base (solo_receipt (PList [])) solo_identity = Inl (AttributeError ''get'')"
    by (simp add: check_base_def require_all.simps field_def check_environment_def environment_keys_def)
      (simp add: solo_receipt_def solo_identity_def require_all.simps)
  then have "valid_receipt resample (solo_receipt (PList [])) solo_identity = Inl (AttributeError ''get'')"
    by (simp add: valid_receipt_def require_all.simps malformed_def)
  then show ?thesis by (simp add: read_cached_profile_def reuse_receipt_def unreadable_def)
qed

section \<open>Shared profiles\<close>

text \<open>
  The registry of a source checkout: an index of compatibilities with digests, and one record per digest. The
  file system, the digest and the JSON parser are parameters; a missing index entry or field raises.
\<close>

record shared_profile =
  sp_schema :: "pyval option"
  sp_compatibility :: "pyval option"
  sp_status :: "pyval option"
  sp_commit :: "pyval option"
  sp_batch :: "pyval option"
  sp_env :: "pyval option"

record shared_entry =
  se_compatibility :: "pyval option"
  se_digest :: "pyval option"

record registry_file =
  rf_plain :: bool
  rf_size :: int
  rf_payload :: string

record registry =
  rg_schema :: "pyval option"
  rg_profiles :: "shared_entry list option"
  rg_file :: "string \<Rightarrow> registry_file result"
  rg_digest :: "string \<Rightarrow> string"
  rg_parse :: "string \<Rightarrow> shared_profile result"

definition max_record_bytes :: int where
  "max_record_bytes = 2 * 2 ^ 20"

definition hex_digest :: "pyval \<Rightarrow> string option" where
  "hex_digest v =
     (case v of
        PStr s \<Rightarrow> if length s = 64 \<and> list_all (\<lambda>c. c \<in> set ''0123456789abcdef'') s then Some s else None
      | _ \<Rightarrow> None)"

definition verified_profile :: "pyval \<Rightarrow> shared_profile \<Rightarrow> bool" where
  "verified_profile ident p =
     (sp_schema p = Some (PInt 1) \<and> sp_compatibility p = Some ident \<and> sp_status p = Some (PStr ''verified'')
      \<and> (case sp_commit p of Some (PStr _) \<Rightarrow> True | _ \<Rightarrow> False)
      \<and> (case sp_batch p of Some (PInt b) \<Rightarrow> 1 \<le> b \<and> b \<le> 65536 | _ \<Rightarrow> False))"

text \<open>One entry: \<open>None\<close> is \<open>continue\<close>.\<close>

definition entry_profile :: "registry \<Rightarrow> pyval \<Rightarrow> shared_entry \<Rightarrow> (shared_profile \<times> string) option result" where
  "entry_profile rg ident entry =
     (if se_compatibility entry \<noteq> Some ident then Inr None
      else
        ebind (field ''sha256'' (se_digest entry)) (\<lambda>d.
        case hex_digest d of
          None \<Rightarrow> Inr None
        | Some digest \<Rightarrow>
            ebind (rg_file rg digest) (\<lambda>f.
            if \<not> rf_plain f \<or> max_record_bytes < rf_size f \<or> rg_digest rg (rf_payload f) \<noteq> digest then Inr None
            else
              ebind (rg_parse rg (rf_payload f)) (\<lambda>p.
              if verified_profile ident p then Inr (Some (p, digest)) else Inr None))))"

fun scan_entries :: "registry \<Rightarrow> pyval \<Rightarrow> shared_entry list \<Rightarrow> (shared_profile \<times> string) option result" where
  "scan_entries rg ident [] = Inr None"
| "scan_entries rg ident (entry # entries) =
     ebind (entry_profile rg ident entry) (\<lambda>found. case found of Some x \<Rightarrow> Inr (Some x) | None \<Rightarrow> scan_entries rg ident entries)"

definition find_profile :: "registry option \<Rightarrow> pyval \<Rightarrow> (shared_profile \<times> string) option" where
  "find_profile source ident =
     (case source of
        None \<Rightarrow> None
      | Some rg \<Rightarrow>
          if rg_schema rg \<noteq> Some (PInt 1) then None
          else
            (case rg_profiles rg of
               None \<Rightarrow> None
             | Some entries \<Rightarrow>
                 if 1024 < length entries then None
                 else (case scan_entries rg ident entries of Inr r \<Rightarrow> r | Inl _ \<Rightarrow> None)))"

text \<open>The environment a shared profile proposes for a batch.\<close>

definition positive_setting :: "pyval \<Rightarrow> bool" where
  "positive_setting v = (case v of PStr s \<Rightarrow> s \<noteq> [] \<and> list_all is_digit s \<and> 0 < nat_of_digits s | _ \<Rightarrow> False)"

definition pipeline_environment :: "shared_profile \<Rightarrow> int \<Rightarrow> (string, pyval) dict option" where
  "pipeline_environment p batch =
     (if sp_batch p \<noteq> Some (PInt batch) then None
      else
        (case sp_env p of
           Some (PDict d) \<Rightarrow>
             if d = [] \<or> \<not> set (map fst d) \<subseteq> cache_keys \<or> \<not> list_all (positive_setting \<circ> snd) d
                \<or> map_of d ''BEAM_ENSEMBLE_INFERENCE_MICRO'' \<noteq> Some (PStr (str_int batch))
             then None else Some d
         | _ \<Rightarrow> None))"

lemma scan_entries_sound:
  assumes "scan_entries rg ident entries = Inr (Some (p, digest))"
  shows "\<exists>f. rg_file rg digest = Inr f \<and> rf_plain f \<and> rf_size f \<le> max_record_bytes \<and> rg_digest rg (rf_payload f) = digest
    \<and> rg_parse rg (rf_payload f) = Inr p \<and> verified_profile ident p"
  using assms
proof (induction entries)
  case (Cons entry entries)
  then obtain found where e: "entry_profile rg ident entry = Inr found" by (auto simp: ebind_Inr_iff)
  show ?case
  proof (cases found)
    case None
    with Cons e show ?thesis by simp
  next
    case (Some x)
    with Cons.prems e have "entry_profile rg ident entry = Inr (Some (p, digest))" by simp
    then show ?thesis by (auto simp: entry_profile_def ebind_Inr_iff not_less split: option.splits if_splits)
  qed
qed simp

lemma find_profile_sound:
  assumes "find_profile (Some rg) ident = Some (p, digest)"
  shows "\<exists>f. rg_file rg digest = Inr f \<and> rf_plain f \<and> rf_size f \<le> max_record_bytes \<and> rg_digest rg (rf_payload f) = digest
    \<and> rg_parse rg (rf_payload f) = Inr p \<and> verified_profile ident p"
  using assms by (intro scan_entries_sound [of rg ident "the (rg_profiles rg)"])
    (auto simp: find_profile_def split: option.splits sum.splits if_splits)

end
