(* ===== verification/Results.thy ===== *)
theory Results
  imports Contracts
begin

text \<open>
  Result validation (\<open>results.py\<close>): the resolution of paths given by move numbers or names, and the
  replay checks that \<open>save_result\<close> makes before it writes the record. The record is modelled up to
  the file that holds it; the atomic write of the JSON file is not.
\<close>

section \<open>Resolving a path\<close>

definition resolve_move :: "graph_contract \<Rightarrow> pyval \<Rightarrow> nat result" where
  "resolve_move c move =
     (case move of
        PInt m \<Rightarrow> if 0 \<le> m \<and> m < int (move_count c) then Inr (nat m)
                  else Inl (ValueError ''invalid move in solution path'')
      | PStr name \<Rightarrow>
          (case index_of (generator_names c) name of
             Some i \<Rightarrow> Inr i
           | None \<Rightarrow> Inl (ValueError ''invalid move in solution path''))
      | _ \<Rightarrow> Inl (ValueError ''invalid move in solution path''))"

definition path_items :: "pyval \<Rightarrow> pyval list option" where
  "path_items path =
     (case path of
        PStr s \<Rightarrow> Some (map PStr (filter (\<lambda>w. w \<noteq> []) (split_on CHR ''.'' s)))
      | _ \<Rightarrow> sequence_items path)"

definition resolve_moves :: "graph_contract \<Rightarrow> pyval \<Rightarrow> nat list result" where
  "resolve_moves c path =
     (case path_items path of
        None \<Rightarrow> Inl (ValueError ''solution path must be a sequence of move indices or names'')
      | Some moves \<Rightarrow>
          if \<not> distinct (generator_names c)
          then Inl (ValueError ''graph move names must be unique to resolve named paths'')
          else emap (resolve_move c) moves)"

definition resolve_move_path ::
    "(nat list list \<Rightarrow> int list \<Rightarrow> string) \<Rightarrow> graph_definition option \<Rightarrow> pyval \<Rightarrow> nat list result"
where
  "resolve_move_path fingerprint defn path =
     (case defn of
        None \<Rightarrow> Inl (AttributeError ''definition'')
      | Some d \<Rightarrow> ebind (from_graph fingerprint defn (central_state d)) (\<lambda>c. resolve_moves c path))"

definition replay_path ::
    "(nat list list \<Rightarrow> int list \<Rightarrow> string) \<Rightarrow> graph_definition option \<Rightarrow> pyval \<Rightarrow> pyval \<Rightarrow> bool result"
where
  "replay_path fingerprint defn start_state path =
     ebind (from_graph fingerprint defn start_state) (\<lambda>c.
     ebind (resolve_move_path fingerprint defn path) (\<lambda>ms. Inr (replay c (py_path ms))))"

lemma resolve_move_ok:
  assumes "length (generator_names c) = move_count c" "resolve_move c v = Inr m"
  shows "m < move_count c"
  using assms index_of_Some [of "generator_names c"]
  by (auto simp: resolve_move_def nat_less_iff split: pyval.splits if_splits option.splits)

lemma resolve_moves_path_ok:
  assumes "length (generator_names c) = move_count c" "resolve_moves c p = Inr ms"
  shows "path_ok c ms"
proof -
  from assms(2) obtain vs where "list_all2 (\<lambda>v m. resolve_move c v = Inr m) vs ms"
    by (auto simp: resolve_moves_def result_simps split: option.splits if_splits)
  then have "ms ! i < move_count c" if "i < length ms" for i
    using that by (intro resolve_move_ok [OF assms(1), of "vs ! i"]) (simp add: list_all2_conv_all_nth)
  then show ?thesis
    by (auto simp: path_ok_def in_set_conv_nth)
qed

section \<open>Saving a result\<close>

text \<open>The attributes of the result object; a missing attribute takes the given default.\<close>

record result_attributes =
  raw_path :: "pyval option"
  raw_path_found :: "pyval option"
  raw_solutions :: "pyval list"
  raw_metadata :: "pyval option"

record saved_record =
  saved_graph_hash :: string
  saved_start :: "int list"
  saved_target :: "int list"
  saved_found :: bool
  saved_path :: "nat list option"
  saved_replay_valid :: "bool option"
  saved_solutions :: "nat list list"
  saved_metadata :: "pyval option"

definition resolve_optional ::
    "(pyval \<Rightarrow> nat list result) \<Rightarrow> pyval option \<Rightarrow> nat list option result" where
  "resolve_optional resolve raw =
     (case raw of
        None \<Rightarrow> Inr None
      | Some PNone \<Rightarrow> Inr None
      | Some v \<Rightarrow> ebind (resolve v) (\<lambda>ms. Inr (Some ms)))"

definition found_flag :: "pyval option \<Rightarrow> bool \<Rightarrow> bool result" where
  "found_flag raw dflt =
     (case raw of
        None \<Rightarrow> Inr dflt
      | Some (PBool b) \<Rightarrow> Inr b
      | Some _ \<Rightarrow> Inl (ValueError ''result.path_found must be a boolean''))"

fun collect_solutions ::
    "graph_contract \<Rightarrow> (pyval \<Rightarrow> nat list result) \<Rightarrow> nat list list \<Rightarrow> pyval list \<Rightarrow> nat list list result"
where
  "collect_solutions c resolve acc [] = Inr acc"
| "collect_solutions c resolve acc (candidate # rest) =
     ebind (resolve candidate) (\<lambda>resolved.
       if \<not> replay c (py_path resolved)
       then Inl (ValueError ''collected solution does not replay to the graph's central state'')
       else collect_solutions c resolve
              (if resolved \<in> set acc then acc else acc @ [resolved]) rest)"

definition save_record ::
    "(nat list list \<Rightarrow> int list \<Rightarrow> string) \<Rightarrow> graph_definition option \<Rightarrow> pyval \<Rightarrow> result_attributes
     \<Rightarrow> saved_record result"
where
  "save_record fingerprint defn start_state res =
     ebind (from_graph fingerprint defn start_state) (\<lambda>c.
     ebind (resolve_optional (resolve_move_path fingerprint defn) (raw_path res)) (\<lambda>path.
     ebind (found_flag (raw_path_found res) (path \<noteq> None)) (\<lambda>path_found.
     ebind (raise_if (path_found \<and> path = None)
             (ValueError ''search returned a solution without a replayable path'')) (\<lambda>_.
     ebind (raise_if (\<not> path_found \<and> path \<noteq> None)
             (ValueError ''search returned a path while path_found is false'')) (\<lambda>_.
     ebind (raise_if (case path of None \<Rightarrow> False | Some ms \<Rightarrow> \<not> replay c (py_path ms))
             (ValueError ''solution path does not replay to the graph's central state'')) (\<lambda>_.
     ebind (collect_solutions c (resolve_move_path fingerprint defn) [] (raw_solutions res)) (\<lambda>sols.
       Inr \<lparr>saved_graph_hash = graph_hash c, saved_start = start c, saved_target = center c,
            saved_found = path_found, saved_path = path,
            saved_replay_valid = (case path of None \<Rightarrow> None | Some _ \<Rightarrow> Some True),
            saved_solutions =
              (case path of
                 Some ms \<Rightarrow> if ms \<notin> set sols then ms # sols else sols
               | None \<Rightarrow> sols),
            saved_metadata = raw_metadata res\<rparr>)))))))"

lemma collect_solutions_sound:
  assumes "collect_solutions c resolve acc vs = Inr sols"
    and "\<forall>ms \<in> set acc. solves c ms" "distinct acc"
  shows "(\<forall>ms \<in> set sols. solves c ms) \<and> distinct sols \<and> set acc \<subseteq> set sols"
  using assms
proof (induction vs arbitrary: acc)
  case (Cons v vs)
  from Cons.prems(1) obtain ms where ms: "solves c ms"
    and rest: "collect_solutions c resolve (if ms \<in> set acc then acc else acc @ [ms]) vs = Inr sols"
    by (auto simp: ebind_Inr_iff split: if_splits)
  show ?case
  proof (cases "ms \<in> set acc")
    case True
    with Cons.IH [OF rest] Cons.prems(2,3) show ?thesis by simp
  next
    case False
    with Cons.IH [OF rest] Cons.prems(2,3) ms show ?thesis by simp
  qed
qed auto

section \<open>What is saved has been replayed\<close>

text \<open>C4. A record that \<open>save_result\<close> accepts holds only verified data: the path, when there is one,
  and every collected solution replay from the recorded start state to the recorded centre, the path
  is among the solutions, no solution is listed twice, and \<open>path_found\<close> says whether there is a path.\<close>

theorem save_record_verified:
  assumes "save_record fp defn start_state res = Inr r"
    and "from_graph fp defn start_state = Inr c"
  shows "saved_start r = start c \<and> saved_target r = center c
    \<and> (\<forall>ms \<in> set (saved_solutions r). solves c ms) \<and> distinct (saved_solutions r)
    \<and> saved_found r = (saved_path r \<noteq> None)
    \<and> (\<forall>ms. saved_path r = Some ms \<longrightarrow> solves c ms \<and> ms \<in> set (saved_solutions r))"
proof -
  from assms obtain sols where
    sols: "collect_solutions c (resolve_move_path fp defn) [] (raw_solutions res) = Inr sols"
    and fields: "saved_start r = start c" "saved_target r = center c"
      "saved_found r = (saved_path r \<noteq> None)"
      "\<forall>ms. saved_path r = Some ms \<longrightarrow> solves c ms"
      "saved_solutions r = (case saved_path r of
         Some ms \<Rightarrow> if ms \<notin> set sols then ms # sols else sols | None \<Rightarrow> sols)"
    by (auto simp: save_record_def ebind_Inr_iff split: option.splits)
  have "(\<forall>ms \<in> set sols. solves c ms) \<and> distinct sols"
    using collect_solutions_sound [OF sols] by simp
  with fields show ?thesis by (auto split: option.splits)
qed

definition lrx_result :: result_attributes where
  "lrx_result = \<lparr>raw_path = Some (PStr ''R''), raw_path_found = Some (PBool True),
     raw_solutions = [PList [PInt 0, PInt 0], PStr ''R.''], raw_metadata = None\<rparr>"

lemma save_record_lrx:
  "save_record (\<lambda>_ _. []) (Some lrx_definition) (PList [PInt 1, PInt 2, PInt 0]) lrx_result =
     Inr \<lparr>saved_graph_hash = [], saved_start = [1, 2, 0], saved_target = [0, 1, 2],
       saved_found = True, saved_path = Some [1], saved_replay_valid = Some True,
       saved_solutions = [[0, 0], [1]], saved_metadata = None\<rparr>"
proof -
  have center: "from_graph (\<lambda>_ _. []) (Some lrx_definition) (central_state lrx_definition)
      = Inr (lrx_contract\<lparr>start := [0, 1, 2]\<rparr>)"
    by (simp add: from_graph_def lrx_definition_def lrx_contract_def check_size_def integers_def
        first_row_def coercion_free_def value_max_def raise_if_def Let_def upt_rec)
  show ?thesis
    unfolding save_record_def
    by (simp add: from_graph_lrx lrx_result_def resolve_optional_def resolve_move_path_def center
        resolve_moves_def path_items_def resolve_move_def lrx_contract_def found_flag_def
        raise_if_def solves_def path_ok_def move_count_def gather_def)
qed

lemma save_record_verified_witness:
  "solves lrx_contract [1] \<and> solves lrx_contract [0, 0]"
  using save_record_verified [OF save_record_lrx from_graph_lrx] by simp

end
