(* ===== verification/Reflection.thy ===== *)
theory Reflection
  imports Results
begin

text \<open>
  Solution-based reflection (\<open>reflection.py\<close>): a verified solution maps the puzzle to its inverse
  problem, the search runs again on the reflected start state, and every reflected path is turned
  back (reversed, each move replaced by its inverse) and replayed in the caller's frame. The search
  itself is the callback \<open>search\<close>, a function of the start state it is given.
\<close>

section \<open>Inverse generators\<close>

text \<open>\<open>inverse[value] = i\<close> for the positions of the generator in order.\<close>

definition inverse_perm :: "nat list \<Rightarrow> nat list" where
  "inverse_perm g = fold (\<lambda>i inv. inv[g ! i := i]) [0..<length g] (replicate (length g) 0)"

text \<open>\<open>generators.index(inverse)\<close> for every generator; a missing inverse raises.\<close>

definition inverse_moves :: "nat list list \<Rightarrow> nat list result" where
  "inverse_moves gens =
     emap (\<lambda>g. case index_of gens (inverse_perm g) of
               Some i \<Rightarrow> Inr i
             | None \<Rightarrow> Inl (ValueError ''reflection requires inverse-closed generators'')) gens"

definition convert_path :: "nat list \<Rightarrow> nat list \<Rightarrow> nat list" where
  "convert_path inverses path = map (\<lambda>m. inverses ! m) (rev path)"

section \<open>The search outcome and its rows\<close>

text \<open>
  A row of \<open>collected_solutions\<close>: the path, the frame it is valid in, and what else the row carries.
  Of the metadata dictionary only the keys that this function reads or writes are kept.
\<close>

record solution_row =
  row_path :: "nat list"
  final_orientation :: string
  row_extra :: "(string \<times> pyval) list"

record search_outcome =
  path_found :: bool
  path :: "nat list option"
  path_length :: nat
  solutions :: "nat list list"
  collected_solutions :: "solution_row list"
  reflect_mode :: "string option"
  replay_valid :: "bool option"

record search_kwargs =
  kw_start_state :: pyval
  kw_reflect_mode :: "pyval option"
  kw_reflection_source :: "pyval option"
  kw_return_path :: "pyval option"

definition orient :: "string \<Rightarrow> solution_row \<Rightarrow> solution_row" where
  "orient frame row = row\<lparr>final_orientation := frame\<rparr>"

text \<open>The rows of the search in the original frame.\<close>

definition original_rows :: "search_outcome option \<Rightarrow> solution_row list result" where
  "original_rows original =
     (case original of
        None \<Rightarrow> Inr []
      | Some r \<Rightarrow>
          (let rows = map (orient ''original'') (collected_solutions r) in
           if path_found r \<and> rows = []
           then (case path r of
                   None \<Rightarrow> Inl (TypeError ''NoneType object is not iterable'')
                 | Some p \<Rightarrow> Inr [\<lparr>row_path = p, final_orientation = ''original'', row_extra = []\<rparr>])
           else Inr rows))"

definition reflected_row :: "graph_contract \<Rightarrow> nat list \<Rightarrow> nat list \<Rightarrow> nat list \<Rightarrow> solution_row result" where
  "reflected_row c inverses source p =
     (let converted = convert_path inverses p in
      if \<not> replay c (py_path converted)
      then Inl (ValueError ''reflected solution does not replay in the original frame'')
      else Inr \<lparr>row_path = converted, final_orientation = ''reflected'',
                row_extra = [(''searched_path'', PList (map (PInt \<circ> int) p)),
                             (''reflected_source_path'', PList (map (PInt \<circ> int) source))]\<rparr>)"

text \<open>The dictionary keyed by path: a later row replaces an earlier one in place.\<close>

definition unique_rows :: "solution_row list \<Rightarrow> (nat list, solution_row) dict" where
  "unique_rows rows = fold (\<lambda>row d. dict_set (row_path row) row d) rows []"

text \<open>The source path must be a sequence of proper integers in range that solves the puzzle.\<close>

definition check_source :: "graph_contract \<Rightarrow> pyval \<Rightarrow> nat list result" where
  "check_source c source =
     (case iter_items source of
        None \<Rightarrow> Inl (TypeError ''object is not iterable'')
      | Some moves \<Rightarrow>
          if \<not> list_all (\<lambda>m. is_int m \<and> 0 \<le> the_int m \<and> the_int m < int (move_count c)) moves
             \<or> \<not> replay c (PTuple moves)
          then Inl (ValueError ''reflection_source does not solve the original puzzle'')
          else Inr (map (nat \<circ> the_int) moves))"

definition merge_outcomes ::
    "string \<Rightarrow> search_outcome \<Rightarrow> solution_row list \<Rightarrow> search_outcome" where
  "merge_outcomes mode reflected rows =
     (let unique = unique_rows rows;
          best = py_min length (map fst unique) in
      reflected\<lparr>path_found := (best \<noteq> None), path := best,
                path_length := (case best of None \<Rightarrow> 0 | Some p \<Rightarrow> length p),
                solutions := map fst unique,
                collected_solutions := map snd unique,
                reflect_mode := Some mode,
                replay_valid := (if best \<noteq> None then Some True else None)\<rparr>)"

definition reflect_from ::
    "(pyval \<Rightarrow> search_outcome result) \<Rightarrow> graph_contract \<Rightarrow> string \<Rightarrow> nat list
     \<Rightarrow> search_outcome option \<Rightarrow> pyval \<Rightarrow> search_outcome result"
where
  "reflect_from search c mode inverses original source_value =
     ebind (check_source c source_value) (\<lambda>source.
     let state = act (generators c) (center c) source in
     ebind (search (PList (map PInt state))) (\<lambda>reflected.
     ebind (original_rows original) (\<lambda>rows.
     ebind (emap (reflected_row c inverses source) (solutions reflected)) (\<lambda>more.
       Inr (merge_outcomes mode reflected (rows @ more))))))"

fun given :: "pyval option \<Rightarrow> pyval option" where
  "given (Some PNone) = None"
| "given v = v"

definition reflected_search ::
    "(pyval \<Rightarrow> search_outcome result) \<Rightarrow> (nat list list \<Rightarrow> int list \<Rightarrow> string)
     \<Rightarrow> graph_definition option \<Rightarrow> search_kwargs \<Rightarrow> string \<Rightarrow> search_outcome result"
where
  "reflected_search search fingerprint defn kwargs backend =
     (let mode = (case kw_reflect_mode kwargs of None \<Rightarrow> PStr ''off'' | Some v \<Rightarrow> v);
          source = given (kw_reflection_source kwargs) in
      if mode \<notin> {PStr ''off'', PStr ''after_original'', PStr ''only''}
      then Inl (ValueError ''reflect_mode must be off, after_original or only'')
      else if mode = PStr ''off'' then search (kw_start_state kwargs)
      else if backend \<noteq> ''native'' then Inl (ValueError ''reflection requires backend=native'')
      else if kw_return_path kwargs \<noteq> Some (PBool True)
      then Inl (ValueError ''reflection requires return_path=True'')
      else
        ebind (from_graph fingerprint defn (kw_start_state kwargs)) (\<lambda>c.
        ebind (inverse_moves (generators c)) (\<lambda>inverses.
        ebind (if mode = PStr ''after_original''
               then ebind (search (kw_start_state kwargs)) (\<lambda>r. Inr (Some r))
               else Inr None) (\<lambda>original.
        let chosen =
          (case source of
             Some v \<Rightarrow> Some v
           | None \<Rightarrow>
               (case original of
                  Some r \<Rightarrow> if path_found r
                            then map_option (\<lambda>p. PList (map (PInt \<circ> int) p)) (path r) else None
                | None \<Rightarrow> None)) in
        case chosen of
          Some v \<Rightarrow> reflect_from search c (str_of mode) inverses original v
        | None \<Rightarrow>
            (case original of
               Some r \<Rightarrow> Inr r
             | None \<Rightarrow> Inl (ValueError ''reflect_mode=only requires a verified reflection_source path''))))))"

section \<open>Inverse permutations undo gathers\<close>

lemma fold_update_length: "length (fold (\<lambda>i inv. inv[g ! i := i]) is acc) = length acc"
  by (induction "is" arbitrary: acc) simp_all

lemma fold_update_nth:
  assumes "distinct (map (\<lambda>i. g ! i) is)" "i \<in> set is" "\<forall>i \<in> set is. g ! i < length acc"
  shows "fold (\<lambda>i inv. inv[g ! i := i]) is acc ! (g ! i) = i"
  using assms
proof (induction "is" arbitrary: acc rule: rev_induct)
  case (snoc j js)
  show ?case
  proof (cases "i = j")
    case True
    with snoc.prems show ?thesis by (simp add: fold_update_length)
  next
    case False
    with snoc.prems have "i \<in> set js" "g ! i \<noteq> g ! j" by (auto simp: image_iff)
    with snoc show ?thesis by simp
  qed
qed simp

lemma length_inverse_perm [simp]: "length (inverse_perm g) = length g"
  by (simp add: inverse_perm_def fold_update_length)

lemma inverse_perm_nth:
  assumes "is_perm n g" "i < n"
  shows "inverse_perm g ! (g ! i) = i"
proof -
  have n: "length g = n" using assms(1) by (rule is_perm_length)
  have "map (\<lambda>i. g ! i) [0..<length g] = g" by (rule map_nth)
  then have "distinct (map (\<lambda>i. g ! i) [0..<length g])"
    using assms(1) by (simp add: is_perm_iff)
  moreover have "\<forall>j \<in> set [0..<length g]. g ! j < length (replicate (length g) (0::nat))"
    using assms(1) n by (simp add: is_perm_nth_less)
  ultimately show ?thesis
    unfolding inverse_perm_def using assms(2) n by (intro fold_update_nth) auto
qed

lemma inverse_perm_right:
  assumes "is_perm n g" "j < n"
  shows "inverse_perm g ! j < n \<and> g ! (inverse_perm g ! j) = j"
proof -
  from assms have "j \<in> set g" by (simp add: is_perm_iff)
  then obtain i where "i < n" "g ! i = j"
    using assms(1) by (metis in_set_conv_nth is_perm_length)
  with inverse_perm_nth [OF assms(1)] show ?thesis by auto
qed

lemma gather_inverse:
  assumes "is_perm n g" "length s = n"
  shows "gather (gather s g) (inverse_perm g) = s"
proof (rule nth_equalityI)
  show "length (gather (gather s g) (inverse_perm g)) = length s"
    using assms by (simp add: is_perm_length)
next
  fix i assume "i < length (gather (gather s g) (inverse_perm g))"
  then have i: "i < n" using assms(1) by (simp add: is_perm_length)
  with inverse_perm_right [OF assms(1) i] assms(1)
  show "gather (gather s g) (inverse_perm g) ! i = s ! i" by (simp add: is_perm_length)
qed

text \<open>Gathering by a generator is injective on states of full length.\<close>

lemma gather_cancel:
  assumes "is_perm n g" "length s = n" "length t = n" "gather s g = gather t g"
  shows "s = t"
  using assms gather_inverse by metis

section \<open>Path actions as permutations\<close>

lemma act_gather:
  assumes "\<forall>g \<in> set gens. is_perm n g" "\<forall>m \<in> set ms. m < length gens" "length h = n"
  shows "act gens (gather s h) ms = gather s (act gens h ms)"
  using assms(2,3)
proof (induction ms arbitrary: h)
  case (Cons m ms)
  then have g: "is_perm n (gens ! m)" using assms(1) by simp
  then have "gather (gather s h) (gens ! m) = gather s (gather h (gens ! m))"
    using Cons.prems by (intro gather_gather) (simp add: is_perm_iff)
  with Cons g show ?case by (simp add: is_perm_length)
qed simp

lemma act_as_gather:
  assumes "\<forall>g \<in> set gens. is_perm n g" "\<forall>m \<in> set ms. m < length gens" "length s = n"
  shows "act gens s ms = gather s (act gens [0..<n] ms)"
  using act_gather [OF assms(1,2), of "[0..<n]" s] assms(3) by (simp add: gather_id)

text \<open>A path that fixes one state with distinct colours fixes every state.\<close>

lemma act_fixes_all:
  assumes gens: "\<forall>g \<in> set gens. is_perm n g" and ms: "\<forall>m \<in> set ms. m < length gens"
    and t: "length t = n" "distinct t" "act gens t ms = t"
    and s: "length s = n"
  shows "act gens s ms = s"
proof -
  let ?q = "act gens [0..<n] ms"
  have q: "mset ?q = mset [0..<n]" "length ?q = n"
    using act_mset [OF gens ms, of "[0..<n]"] by simp_all
  have "gather t ?q = t" using act_as_gather [OF gens ms t(1)] t(3) by simp
  then have "t ! (?q ! i) = t ! i" if "i < n" for i
    using gather_nth [of i ?q t] q(2) that by simp
  moreover have "?q ! i < n" if "i < n" for i
    using that q by (metis atLeastLessThan_iff nth_mem set_mset_mset set_upt)
  ultimately have "?q ! i = i" if "i < n" for i
    using that t(1,2) by (simp add: nth_eq_iff_index_eq)
  then have "?q = [0..<n]" using q(2) by (intro nth_equalityI) simp_all
  then show ?thesis using act_as_gather [OF gens ms s] s by (simp add: gather_id)
qed

lemma inverse_moves_iff:
  assumes "inverse_moves gens = Inr inverses"
  shows "length inverses = length gens"
    and "m < length gens \<Longrightarrow> inverses ! m < length gens \<and> gens ! (inverses ! m) = inverse_perm (gens ! m)"
proof -
  from assms have all: "list_all2 (\<lambda>g i. index_of gens (inverse_perm g) = Some i) gens inverses"
    by (auto simp: inverse_moves_def emap_Inr_iff elim!: list_all2_mono split: option.splits)
  then show "length inverses = length gens" by (simp add: list_all2_lengthD)
  assume "m < length gens"
  with all have "index_of gens (inverse_perm (gens ! m)) = Some (inverses ! m)"
    by (simp add: list_all2_conv_all_nth)
  from index_of_Some [OF this]
  show "inverses ! m < length gens \<and> gens ! (inverses ! m) = inverse_perm (gens ! m)" by simp
qed

lemma convert_path_ok:
  assumes "inverse_moves (generators c) = Inr inverses" "path_ok c p"
  shows "path_ok c (convert_path inverses p)"
  using assms inverse_moves_iff [OF assms(1)]
  by (auto simp: path_ok_def convert_path_def move_count_def)

text \<open>The converted path undoes the path it was made from.\<close>

lemma convert_path_undoes:
  assumes inv: "inverse_moves gens = Inr inverses" and gens: "\<forall>g \<in> set gens. is_perm n g"
    and "\<forall>m \<in> set p. m < length gens" "length s = n"
  shows "act gens (act gens s p) (convert_path inverses p) = s"
  using assms(3,4)
proof (induction p arbitrary: s)
  case (Cons m p)
  then have g: "is_perm n (gens ! m)" using gens by simp
  have m: "gens ! (inverses ! m) = inverse_perm (gens ! m)"
    using inverse_moves_iff(2) [OF inv] Cons.prems by simp
  have "act gens (act gens s (m # p)) (convert_path inverses (m # p))
      = act gens (act gens (act gens (gather s (gens ! m)) p) (convert_path inverses p)) [inverses ! m]"
    by (simp add: convert_path_def act_append)
  also have "\<dots> = act gens (gather s (gens ! m)) [inverses ! m]"
    using Cons g by (simp add: is_perm_length)
  also have "\<dots> = s" using gather_inverse [OF g Cons.prems(2)] m by simp
  finally show ?case .
qed (simp add: convert_path_def)

section \<open>Reflected paths solve the original puzzle\<close>


lemma inverse_lrx: "inverse_moves (generators lrx_contract) = Inr [1, 0, 2]"
  by (simp add: inverse_moves_def lrx_contract_def inverse_perm_def upt_rec)


section \<open>Everything published replays in the caller's frame\<close>

definition outcome_sound :: "graph_contract \<Rightarrow> search_outcome \<Rightarrow> bool" where
  "outcome_sound c r \<longleftrightarrow>
     (\<forall>p. path r = Some p \<longrightarrow> solves c p)
     \<and> (\<forall>p \<in> set (solutions r). solves c p)
     \<and> (\<forall>row \<in> set (collected_solutions r). solves c (row_path row))"

lemma unique_rows_map_of:
  "map_of (fold (\<lambda>row d. dict_set (row_path row) row d) rows d) p = Some row
     \<Longrightarrow> map_of d p = Some row \<or> row \<in> set rows \<and> row_path row = p"
proof (induction rows arbitrary: d)
  case (Cons a rows)
  have "map_of (dict_set (row_path a) a d) p = Some row \<or> row \<in> set rows \<and> row_path row = p"
    by (rule Cons.IH) (use Cons.prems in simp)
  then show ?case by (auto split: if_splits)
qed simp

lemma unique_rows_keys:
  "fst ` set (fold (\<lambda>row d. dict_set (row_path row) row d) rows d) = fst ` set d \<union> row_path ` set rows"
  by (induction rows arbitrary: d) auto

lemma unique_rows_distinct:
  "distinct (map fst d) \<Longrightarrow> distinct (map fst (fold (\<lambda>row d. dict_set (row_path row) row d) rows d))"
  by (induction rows arbitrary: d) auto

lemma unique_rows_members:
  assumes "(p, row) \<in> set (unique_rows rows)"
  shows "row \<in> set rows \<and> row_path row = p"
proof -
  have "distinct (map fst (unique_rows rows))"
    unfolding unique_rows_def by (rule unique_rows_distinct) simp
  with assms have "map_of (unique_rows rows) p = Some row" by simp
  then show ?thesis unfolding unique_rows_def using unique_rows_map_of by fastforce
qed

lemma merge_outcomes_sound:
  assumes "\<forall>row \<in> set rows. solves c (row_path row)"
  shows "outcome_sound c (merge_outcomes mode r rows)"
proof -
  let ?u = "unique_rows rows"
  have "solves c p \<and> solves c (row_path row)" if "(p, row) \<in> set ?u" for p row
    using unique_rows_members [OF that] assms by auto
  then have keys: "\<forall>p \<in> set (map fst ?u). solves c p"
    and vals: "\<forall>row \<in> set (map snd ?u). solves c (row_path row)"
    by auto
  have "solves c p" if "py_min length (map fst ?u) = Some p" for p
    using keys py_min_Some [OF that] by blast
  with keys vals show ?thesis
    unfolding outcome_sound_def merge_outcomes_def Let_def by simp
qed

lemma original_rows_sound:
  assumes "original_rows original = Inr rows" "\<forall>r. original = Some r \<longrightarrow> outcome_sound c r"
  shows "\<forall>row \<in> set rows. solves c (row_path row)"
  using assms
  by (auto simp: original_rows_def Let_def orient_def outcome_sound_def
      split: option.splits if_splits)

lemma reflect_from_sound:
  assumes "reflect_from search c mode inverses original v = Inr r"
    and "\<forall>o'. original = Some o' \<longrightarrow> outcome_sound c o'"
  shows "outcome_sound c r"
proof -
  from assms(1) obtain source reflected rows more where
    rows: "original_rows original = Inr rows"
    and more: "emap (reflected_row c inverses source) (solutions reflected) = Inr more"
    and r: "r = merge_outcomes mode reflected (rows @ more)"
    by (auto simp: reflect_from_def Let_def ebind_Inr_iff)
  have "\<forall>row \<in> set more. solves c (row_path row)"
    using more by (auto elim!: emap_member simp: reflected_row_def Let_def split: if_splits)
  then show ?thesis
    using original_rows_sound [OF rows assms(2)] unfolding r
    by (intro merge_outcomes_sound) auto
qed

text \<open>C2. Whatever the search returns for the reflected start state, every path that a reflecting
  call publishes (the best path, the solutions and the rows) solves the puzzle from the caller's own
  start state, provided only that the search from that start state is itself sound.\<close>

theorem reflected_search_sound:
  assumes "reflected_search search fp defn kwargs backend = Inr r"
    and "from_graph fp defn (kw_start_state kwargs) = Inr c"
    and "\<And>o'. search (kw_start_state kwargs) = Inr o' \<Longrightarrow> outcome_sound c o'"
  shows "outcome_sound c r"
  using assms reflect_from_sound
  by (auto simp: reflected_search_def Let_def result_simps split: if_splits option.splits)

definition lrx_kwargs :: search_kwargs where
  "lrx_kwargs = \<lparr>kw_start_state = PList [PInt 1, PInt 2, PInt 0],
     kw_reflect_mode = Some (PStr ''only''), kw_reflection_source = Some (PList [PInt 1]),
     kw_return_path = Some (PBool True)\<rparr>"

text \<open>A search that answers the reflected problem with the move \<open>L\<close> and any other with the move \<open>R\<close>.\<close>

definition lrx_search :: "pyval \<Rightarrow> search_outcome result" where
  "lrx_search v =
     (let p = (if v = PList [PInt 2, PInt 0, PInt 1] then [0] else [1]) in
      Inr \<lparr>path_found = True, path = Some p, path_length = 1, solutions = [p],
           collected_solutions = [], reflect_mode = None, replay_valid = Some True\<rparr>)"

lemma lrx_search_reflected:
  "reflected_search lrx_search (\<lambda>_ _. []) (Some lrx_definition) lrx_kwargs ''native''
     = Inr \<lparr>path_found = True, path = Some [1], path_length = 1, solutions = [[1]],
         collected_solutions = [\<lparr>row_path = [1], final_orientation = ''reflected'',
           row_extra = [(''searched_path'', PList [PInt 0]), (''reflected_source_path'', PList [PInt 1])]\<rparr>],
         reflect_mode = Some ''only'', replay_valid = Some True\<rparr>"
  unfolding reflected_search_def
  by (simp add: from_graph_lrx lrx_kwargs_def [THEN arg_cong, of kw_start_state]
      lrx_kwargs_def [THEN arg_cong, of kw_reflect_mode]
      lrx_kwargs_def [THEN arg_cong, of kw_reflection_source]
      lrx_kwargs_def [THEN arg_cong, of kw_return_path]
      lrx_contract_def inverse_moves_def inverse_perm_def upt_rec
      reflect_from_def check_source_def move_count_def gather_def replay_def lrx_search_def Let_def
      original_rows_def reflected_row_def convert_path_def py_path_def merge_outcomes_def
      unique_rows_def py_min_def)

lemma reflected_search_sound_witness:
  "outcome_sound lrx_contract
     \<lparr>path_found = True, path = Some [1], path_length = 1, solutions = [[1]],
      collected_solutions = [\<lparr>row_path = [1], final_orientation = ''reflected'',
        row_extra = [(''searched_path'', PList [PInt 0]), (''reflected_source_path'', PList [PInt 1])]\<rparr>],
      reflect_mode = Some ''only'', replay_valid = Some True\<rparr>"
proof (rule reflected_search_sound [OF lrx_search_reflected])
  show "from_graph (\<lambda>_ _. []) (Some lrx_definition) (kw_start_state lrx_kwargs) = Inr lrx_contract"
    using from_graph_lrx by (simp add: lrx_kwargs_def lrx_contract_def)
  fix o' assume "lrx_search (kw_start_state lrx_kwargs) = Inr o'"
  then show "outcome_sound lrx_contract o'"
    by (auto simp: lrx_search_def lrx_kwargs_def outcome_sound_def Let_def solves_def path_ok_def
        move_count_def lrx_contract_def gather_def)
qed

end
