(* ===== verification/Frontiers.thy ===== *)
theory Frontiers
  imports Admission
begin

text \<open>
  The maximum frontier of a model and GPU cohort (\<open>maximum_beam.py\<close>) and the choice of a working
  width with stable throughput (\<open>working_capacity.py\<close>). The native planner, the inference tuner, the
  capacity discovery inside the refinement and the full-step measurement are parameters.
\<close>

section \<open>Discovery of the largest frontier\<close>

text \<open>The fastest verified batch is reserved before the frontier is sized.\<close>

definition capacity_seed :: "resampler \<Rightarrow> inference_calibration \<Rightarrow> (inference_calibration \<times> int) result" where
  "capacity_seed resample c =
     ebind (measured_candidates resample c) (\<lambda>cs.
     case py_min (\<lambda>a. e_median (ac_estimate a)) cs of
       None \<Rightarrow> Inl (CapacityRejected ''no verified inference batch for maximum frontier'')
     | Some a \<Rightarrow> Inr (c\<lparr>ic_parent_batch := ac_batch a, ic_reserve_bytes := ac_reserve a, ic_estimate := ac_estimate a\<rparr>,
                      ic_parent_batch c))"

text \<open>The number of arrangements of the solved state bounds the frontier; the solved states of the
  calibration fixture (the centre and its predecessors) are excluded.\<close>

definition state_bound :: "'a list \<Rightarrow> int" where
  "state_bound center =
     fold (\<lambda>v bound. bound div fact (count_list center v)) (remdups center) (fact (length center))"

definition inverse_of :: "nat list \<Rightarrow> nat list" where
  "inverse_of g = fold (\<lambda>i acc. acc[g ! i := i]) [0..<length g] (replicate (length g) 0)"

definition excluded_states :: "'a list \<Rightarrow> nat list list \<Rightarrow> 'a list list" where
  "excluded_states center generators =
     remdups (center # map (\<lambda>g. map (\<lambda>i. center ! i) (inverse_of g)) generators)"

definition frontier_ceiling :: "int list \<Rightarrow> int \<Rightarrow> 'a list \<Rightarrow> nat list list \<Rightarrow> int" where
  "frontier_ceiling memories storage center generators =
     min (Min (set memories) * int (length memories) div storage)
         (max 0 (state_bound center - int (length (excluded_states center generators))))"

definition plan_number :: "plan \<Rightarrow> string \<Rightarrow> int result" where
  "plan_number row key =
     ebind (dict_item row key) (\<lambda>v.
     case v of PInt i \<Rightarrow> Inr i | PStr s \<Rightarrow> py_int s | _ \<Rightarrow> Inl (TypeError ''int()''))"

definition memory_profile :: "string \<Rightarrow> int \<Rightarrow> int \<Rightarrow> env" where
  "memory_profile micro shards align =
     [(''BEAM_B_MICRO'', micro), (''BEAM_SHARD_COUNT'', str_int shards), (''BEAM_STREAM3_RING_SLOTS'', ''2''),
      (''BEAM_STREAM4_ACTIVE_SORT_SLOTS'', ''1''), (''BEAM_STREAM4_BATCH_CANDIDATES'', str_int (align * 8))]"

text \<open>A flush of at least one survivor slab.\<close>

definition working_flush :: "int \<Rightarrow> int list \<Rightarrow> int" where
  "working_flush align capacities = max (8 * align) (round_up (Max (set capacities)) align)"

definition working_profile :: "capacity_result \<Rightarrow> int \<Rightarrow> env result" where
  "working_profile r align =
     ebind (emap (\<lambda>p. plan_number p ''SHARD_CAPACITY_CANDIDATES'') (cap_plans r)) (\<lambda>capacities.
     Inr (dict_set ''BEAM_STREAM4_BATCH_CANDIDATES'' (str_int (working_flush align capacities)) (cap_profile r)))"

record discovery =
  dv_best :: "capacity_result option"
  dv_memory :: "capacity_result option"
  dv_probes :: nat
  dv_complete :: bool
  dv_rejected :: "(int \<times> bool) list"

definition larger :: "capacity_result option \<Rightarrow> capacity_result \<Rightarrow> capacity_result option" where
  "larger best r = (case best of None \<Rightarrow> Some r | Some b \<Rightarrow> if cap_beam r > cap_beam b then Some r else Some b)"

text \<open>A capacity rejection is recorded; the loop goes on with the next shard count.\<close>

definition unless_rejected ::
  "'a result \<Rightarrow> (string \<Rightarrow> 'b result) \<Rightarrow> ('a \<Rightarrow> 'b result) \<Rightarrow> 'b result" where
  "unless_rejected m rejected continue =
     (case m of Inl (CapacityRejected t) \<Rightarrow> rejected t | Inl e \<Rightarrow> Inl e | Inr x \<Rightarrow> continue x)"

text \<open>One shard count: the new state and whether the loop goes on.\<close>

definition finish_shards :: "capacity_result \<Rightarrow> discovery \<Rightarrow> (discovery \<times> bool) result" where
  "finish_shards r d =
     Inr (d\<lparr>dv_complete := dv_complete d \<and> cap_complete r, dv_best := larger (dv_best d) r\<rparr>, cap_complete r)"

definition reject_shards :: "int \<Rightarrow> bool \<Rightarrow> discovery \<Rightarrow> (discovery \<times> bool) result" where
  "reject_shards shards working d = Inr (d\<lparr>dv_rejected := dv_rejected d @ [(shards, working)]\<rparr>, True)"

definition discover_shards ::
  "(bool \<Rightarrow> clock) \<Rightarrow> admit \<Rightarrow> string \<Rightarrow> int \<Rightarrow> int \<Rightarrow> int \<Rightarrow> bool \<Rightarrow> int \<Rightarrow> discovery \<Rightarrow> (discovery \<times> bool) result" where
  "discover_shards clocks admit micro stride align most working shards d =
     (if stride > most then Inr (d, True)
      else unless_rejected
        (find_capacity (clocks False) admit None (PInt most) (PInt stride) [memory_profile micro shards align])
        (\<lambda>_. reject_shards shards False d)
        (\<lambda>r. let d' = d\<lparr>dv_probes := dv_probes d + cap_probes r, dv_memory := larger (dv_memory d) r\<rparr> in
          if \<not> working then finish_shards r d'
          else ebind (working_profile r align) (\<lambda>profile.
            unless_rejected
              (find_capacity (clocks True) admit None (PInt (cap_beam r)) (PInt stride) [profile])
              (\<lambda>_. reject_shards shards True d')
              (\<lambda>r'. finish_shards r' (d'\<lparr>dv_probes := dv_probes d' + cap_probes r'\<rparr>)))))"

fun discover_loop ::
  "(int \<Rightarrow> bool) \<Rightarrow> (int \<Rightarrow> bool \<Rightarrow> clock) \<Rightarrow> admit \<Rightarrow> env \<Rightarrow> int \<Rightarrow> int \<Rightarrow> int \<Rightarrow> bool \<Rightarrow> int list \<Rightarrow> discovery
    \<Rightarrow> discovery result" where
  "discover_loop late clocks admit environment world align most working [] d = Inr d"
| "discover_loop late clocks admit environment world align most working (shards # rest) d =
     (if late shards then Inr (d\<lparr>dv_complete := False\<rparr>)
      else
        ebind (dict_item environment ''BEAM_B_MICRO'') (\<lambda>micro.
        ebind (discover_shards (clocks shards) admit micro (world * shards * align) align most working shards d) (\<lambda>(d', go).
        if go then discover_loop late clocks admit environment world align most working rest d' else Inr d')))"

definition discover_capacity ::
  "(int \<Rightarrow> bool) \<Rightarrow> (int \<Rightarrow> bool \<Rightarrow> clock) \<Rightarrow> admit \<Rightarrow> string option \<Rightarrow> env \<Rightarrow> int list \<Rightarrow> int \<Rightarrow> 'a list \<Rightarrow> nat list list
    \<Rightarrow> bool \<Rightarrow> (capacity_result \<times> discovery) result" where
  "discover_capacity late clocks admit protocol environment memories storage center generators working =
     (if protocol \<noteq> Some ''json-session-v1''
      then Inl (RuntimeError ''maximum beam requires the verified persistent native planner'')
      else
        ebind (case map_of environment ''BEAM_STREAM4_BATCH_ALIGNMENT'' of None \<Rightarrow> Inr 1024 | Some v \<Rightarrow> py_int v) (\<lambda>align.
        ebind (discover_loop late clocks admit environment (int (length memories)) align
                 (frontier_ceiling memories storage center generators) working [1..128]
                 \<lparr>dv_best = None, dv_memory = None, dv_probes = 0, dv_complete = True, dv_rejected = []\<rparr>) (\<lambda>d.
        case dv_best d of
          None \<Rightarrow> Inl (CapacityRejected ''no model/GPU frontier was admitted'')
        | Some b \<Rightarrow> Inr (b\<lparr>cap_probes := dv_probes d, cap_complete := dv_complete d\<rparr>, d))))"

section \<open>Correctness of the discovery\<close>

definition frontier_real :: "admit \<Rightarrow> int \<Rightarrow> int \<Rightarrow> int \<Rightarrow> capacity_result option \<Rightarrow> bool" where
  "frontier_real admit world align most best \<longleftrightarrow>
     (case best of None \<Rightarrow> True
      | Some b \<Rightarrow> capacity_probe admit (cap_profile b) (cap_beam b) = Inr (Some (cap_plans b))
          \<and> 0 < cap_beam b \<and> cap_beam b \<le> most
          \<and> (\<exists>s \<in> {1..128}. world * s * align dvd cap_beam b))"

lemma frontier_real_larger:
  "frontier_real admit world align most best \<Longrightarrow> frontier_real admit world align most (Some r)
     \<Longrightarrow> frontier_real admit world align most (larger best r)"
  by (auto simp: larger_def split: option.splits)

lemma found_is_real:
  assumes "find_capacity expired admit verify (PInt upper) (PInt (world * s * align)) profiles = Inr r"
    "s \<in> {1..128}" "upper \<le> most"
  shows "frontier_real admit world align most (Some r)"
  using find_capacity_spec [OF assms(1)] assms(2,3) by (auto simp: frontier_real_def)

lemma unless_rejected_Inr:
  "unless_rejected m f g = Inr y \<longleftrightarrow> (\<exists>t. m = Inl (CapacityRejected t) \<and> f t = Inr y) \<or> (\<exists>x. m = Inr x \<and> g x = Inr y)"
  by (auto simp: unless_rejected_def split: sum.splits exn.splits)

lemma discover_shards_real:
  assumes "discover_shards clocks admit micro (world * s * align) align most working s d = Inr (d', go)"
    "s \<in> {1..128}" "frontier_real admit world align most (dv_best d)"
  shows "frontier_real admit world align most (dv_best d')"
proof -
  have real: "frontier_real admit world align most (Some r)"
    if "find_capacity c admit None (PInt u) (PInt (world * s * align)) ps = Inr r" "u \<le> most" for c u ps r
    by (rule found_is_real [OF that(1) assms(2) that(2)])
  from assms(1) consider "dv_best d' = dv_best d"
    | r where "find_capacity (clocks False) admit None (PInt most) (PInt (world * s * align)) [memory_profile micro s align] = Inr r"
        "dv_best d' = larger (dv_best d) r"
    | r r' p where "find_capacity (clocks False) admit None (PInt most) (PInt (world * s * align)) [memory_profile micro s align] = Inr r"
        "find_capacity (clocks True) admit None (PInt (cap_beam r)) (PInt (world * s * align)) [p] = Inr r'"
        "dv_best d' = larger (dv_best d) r'"
    unfolding discover_shards_def Let_def
    by (auto simp: unless_rejected_Inr ebind_Inr_iff finish_shards_def reject_shards_def split: if_splits)
  then show ?thesis
  proof cases
    case 1
    then show ?thesis using assms(3) by simp
  next
    case (2 r)
    then show ?thesis using frontier_real_larger [OF assms(3) real [OF 2(1)]] by simp
  next
    case (3 r r' p)
    have "cap_beam r \<le> most" using real [OF 3(1)] by (simp add: frontier_real_def)
    then show ?thesis using frontier_real_larger [OF assms(3) real [OF 3(2)]] 3(3) by simp
  qed
qed

lemma discover_loop_real:
  assumes "discover_loop late clocks admit environment world align most working shards d = Inr d'"
    "set shards \<subseteq> {1..128}" "frontier_real admit world align most (dv_best d)"
  shows "frontier_real admit world align most (dv_best d')"
  using assms
proof (induction shards arbitrary: d)
  case (Cons s shards)
  show ?case
  proof (cases "late s")
    case True
    then show ?thesis using Cons.prems by auto
  next
    case False
    with Cons.prems(1) obtain micro x go where
      step: "discover_shards (clocks s) admit micro (world * s * align) align most working s d = Inr (x, go)"
      and go: "(if go then discover_loop late clocks admit environment world align most working shards x else Inr x) = Inr d'"
      by (auto simp: ebind_Inr_iff)
    have "s \<in> {1..128}" using Cons.prems(2) by simp
    from discover_shards_real [OF step this Cons.prems(3)] go Cons.IH [of x] Cons.prems(2)
    show ?thesis by (auto split: if_splits)
  qed
qed simp

definition best_beam :: "capacity_result option \<Rightarrow> int" where
  "best_beam best = (case best of None \<Rightarrow> 0 | Some b \<Rightarrow> cap_beam b)"

lemma discover_shards_largest:
  assumes "discover_shards (\<lambda>_ _. False) admit micro stride align most False s d = Inr (d', go)"
    "frozen_admission admit [memory_profile micro s align]" "0 < stride"
  shows "go \<and> best_beam (dv_best d) \<le> best_beam (dv_best d')
    \<and> (\<forall>k \<ge> 1. k * stride \<le> most \<longrightarrow> admits admit (memory_profile micro s align) (k * stride)
         \<longrightarrow> k * stride \<le> best_beam (dv_best d'))"
proof -
  let ?find = "find_capacity (\<lambda>_. False) admit None (PInt most) (PInt stride) [memory_profile micro s align]"
  from assms(1) consider (skip) "stride > most" "d' = d" go
    | (none) m where "?find = Inl (CapacityRejected m)" "dv_best d' = dv_best d" go
    | (found) r where "?find = Inr r" "dv_best d' = larger (dv_best d) r" "go = cap_complete r"
    unfolding discover_shards_def Let_def
    by (auto simp: unless_rejected_Inr finish_shards_def reject_shards_def split: if_splits)
  then show ?thesis
  proof cases
    case skip
    have "\<not> k * stride \<le> most" if "1 \<le> k" for k
    proof -
      have "1 * stride \<le> k * stride" using that assms(3) by (intro mult_right_mono) simp_all
      then show ?thesis using skip(1) by simp
    qed
    then show ?thesis using skip by simp
  next
    case none
    then show ?thesis using find_capacity_none [OF none(1) _ assms(2)] by simp
  next
    case (found r)
    have "0 < cap_beam r" "cap_complete r" and best: "\<And>k. 1 \<le> k \<Longrightarrow> k * stride \<le> most
        \<Longrightarrow> admits admit (memory_profile micro s align) (k * stride) \<Longrightarrow> k * stride \<le> cap_beam r"
      using find_capacity_spec [OF found(1)] assms(2) by simp_all
    moreover have "best_beam (larger (dv_best d) r) = max (best_beam (dv_best d)) (cap_beam r)" if "0 < cap_beam r"
      using that by (auto simp: best_beam_def larger_def split: option.splits)
    ultimately show ?thesis using found(2,3) by (simp add: le_max_iff_disj)
  qed
qed

lemma discover_loop_largest:
  assumes "discover_loop (\<lambda>_. False) (\<lambda>_ _ _. False) admit environment world align most False shards d = Inr d'"
    and "\<And>s. s \<in> set shards \<Longrightarrow> frozen_admission admit [memory_profile micro s align] \<and> 0 < world * s * align"
    and "map_of environment ''BEAM_B_MICRO'' = Some micro"
  shows "best_beam (dv_best d) \<le> best_beam (dv_best d')
    \<and> (\<forall>s \<in> set shards. \<forall>k \<ge> 1. k * (world * s * align) \<le> most
         \<longrightarrow> admits admit (memory_profile micro s align) (k * (world * s * align))
         \<longrightarrow> k * (world * s * align) \<le> best_beam (dv_best d'))"
  using assms(1,2)
proof (induction shards arbitrary: d)
  case (Cons s shards)
  from Cons.prems(1) assms(3) obtain x go where
    step: "discover_shards (\<lambda>_ _. False) admit micro (world * s * align) align most False s d = Inr (x, go)"
    and go: "(if go then discover_loop (\<lambda>_. False) (\<lambda>_ _ _. False) admit environment world align most False shards x
              else Inr x) = Inr d'"
    by (auto simp: ebind_Inr_iff dict_item_def)
  have "frozen_admission admit [memory_profile micro s align]" "0 < world * s * align" using Cons.prems(2) [of s] by simp_all
  note one = discover_shards_largest [OF step this]
  with go have "discover_loop (\<lambda>_. False) (\<lambda>_ _ _. False) admit environment world align most False shards x = Inr d'" by simp
  from Cons.IH [OF this] Cons.prems(2)
  have rest: "best_beam (dv_best x) \<le> best_beam (dv_best d')"
    "\<And>t k. t \<in> set shards \<Longrightarrow> 1 \<le> k \<Longrightarrow> k * (world * t * align) \<le> most
       \<Longrightarrow> admits admit (memory_profile micro t align) (k * (world * t * align)) \<Longrightarrow> k * (world * t * align) \<le> best_beam (dv_best d')"
    by simp_all
  have here: "k * (world * s * align) \<le> best_beam (dv_best d')"
    if "1 \<le> k" "k * (world * s * align) \<le> most" "admits admit (memory_profile micro s align) (k * (world * s * align))" for k
    using one rest(1) that order_trans by blast
  show ?case using one rest here by auto
qed simp



section \<open>Refinement with the inference receipt\<close>

record refinement_row =
  rf_beam :: int
  rf_batch :: int
  rf_reserve :: int
  rf_readmitted :: bool

definition same_batch :: "inference_calibration \<Rightarrow> inference_calibration \<Rightarrow> bool" where
  "same_batch a b = (ic_parent_batch a = ic_parent_batch b \<and> ic_reserve_bytes a = ic_reserve_bytes b)"

text \<open>One round: tune the inference for the exact width, refuse a receipt for another width or without
  telemetry of the previous winner, and search the capacity again when the batch or its reserve changed.\<close>

fun refine_rounds ::
  "(int \<Rightarrow> nat \<Rightarrow> inference_calibration result) \<Rightarrow> (inference_calibration \<Rightarrow> nat \<Rightarrow> capacity_result result)
    \<Rightarrow> nat list \<Rightarrow> capacity_result \<Rightarrow> inference_calibration \<Rightarrow> refinement_row list
    \<Rightarrow> (capacity_result \<times> inference_calibration \<times> refinement_row list) result" where
  "refine_rounds tune discover [] capacity previous history =
     Inl (RuntimeError ''maximum frontier/inference calibration did not converge'')"
| "refine_rounds tune discover (i # rounds) capacity previous history =
     (let beam = cap_beam capacity in
      ebind (tune beam i) (\<lambda>c.
      if ic_requested_beam c \<noteq> Some beam
      then Inl (ValueError ''maximum inference receipt is not bound to the exact frontier'')
      else if sublist ''GPU telemetry''
          (case map_of (ic_rejected c) (str_int (ic_parent_batch previous)) of Some r \<Rightarrow> r | None \<Rightarrow> '''')
      then Inl (RuntimeError ''cannot confirm inference winner'')
      else
        let changed = \<not> same_batch c previous in
        ebind (if changed then discover c i else Inr capacity) (\<lambda>capacity'.
        let history' = history @ [\<lparr>rf_beam = beam, rf_batch = ic_parent_batch c, rf_reserve = ic_reserve_bytes c,
                                   rf_readmitted = changed\<rparr>] in
        if cap_beam capacity' = beam then Inr (capacity', c, history')
        else refine_rounds tune discover rounds capacity' c history')))"

definition refine_maximum ::
  "(int \<Rightarrow> nat \<Rightarrow> inference_calibration result) \<Rightarrow> (inference_calibration \<Rightarrow> nat \<Rightarrow> capacity_result result)
    \<Rightarrow> nat \<Rightarrow> capacity_result \<Rightarrow> inference_calibration
    \<Rightarrow> (capacity_result \<times> inference_calibration \<times> refinement_row list) result" where
  "refine_maximum tune discover max_rounds capacity inference =
     refine_rounds tune discover [0..<max_rounds] capacity inference []"

text \<open>A frontier is bound to a calibration when it was found for the same batch and reserve.\<close>

definition bound_to ::
  "(inference_calibration \<Rightarrow> nat \<Rightarrow> capacity_result result) \<Rightarrow> capacity_result \<Rightarrow> inference_calibration
    \<Rightarrow> capacity_result \<Rightarrow> inference_calibration \<Rightarrow> bool" where
  "bound_to discover capacity0 inference0 capacity c \<longleftrightarrow>
     (capacity = capacity0 \<and> same_batch c inference0)
     \<or> (\<exists>c' i. discover c' i = Inr capacity \<and> same_batch c c')"

lemma refine_rounds_spec:
  assumes "refine_rounds tune discover rounds capacity previous history = Inr (capacity', c, history')"
    "bound_to discover capacity0 inference0 capacity previous"
  shows "bound_to discover capacity0 inference0 capacity' c \<and> ic_requested_beam c = Some (cap_beam capacity')
    \<and> (\<exists>i \<in> set rounds. tune (cap_beam capacity') i = Inr c)
    \<and> (\<exists>rest. history' = history @ rest \<and> length rest \<le> length rounds \<and> rest \<noteq> []
         \<and> rf_beam (last rest) = cap_beam capacity')"
  using assms
proof (induction rounds arbitrary: capacity previous history)
  case (Cons i rounds)
  from Cons.prems(1) obtain x where x: "tune (cap_beam capacity) i = Inr x" "ic_requested_beam x = Some (cap_beam capacity)"
    by (auto simp: Let_def ebind_Inr_iff split: if_splits)
  let ?row = "\<lparr>rf_beam = cap_beam capacity, rf_batch = ic_parent_batch x, rf_reserve = ic_reserve_bytes x,
               rf_readmitted = \<not> same_batch x previous\<rparr>"
  from Cons.prems(1) x obtain cap2 where
    cap2: "(if \<not> same_batch x previous then discover x i else Inr capacity) = Inr cap2"
    and go: "(if cap_beam cap2 = cap_beam capacity then Inr (cap2, x, history @ [?row])
              else refine_rounds tune discover rounds cap2 x (history @ [?row])) = Inr (capacity', c, history')"
    by (auto simp: Let_def ebind_Inr_iff split: if_splits)
  have b: "bound_to discover capacity0 inference0 cap2 x"
    using cap2 Cons.prems(2) by (auto simp: bound_to_def same_batch_def split: if_splits)
  show ?case
  proof (cases "cap_beam cap2 = cap_beam capacity")
    case True
    then have "capacity' = cap2" "c = x" "history' = history @ [?row]" using go by auto
    then show ?thesis using b x True by auto
  next
    case False
    with go have "refine_rounds tune discover rounds cap2 x (history @ [?row]) = Inr (capacity', c, history')" by simp
    from Cons.IH [OF this b] show ?thesis by fastforce
  qed
qed simp

text \<open>When the refinement converges, its inference receipt is bound to exactly the frontier width it
  returns: it was tuned at that width, names it as its requested beam, and the frontier itself was
  found for the same inference batch and memory reserve (or is the initial frontier with the
  initial batch and reserve); at most \<open>max_rounds\<close> rounds were run.\<close>
theorem refine_maximum_bound:
  assumes "refine_maximum tune discover max_rounds capacity0 inference0 = Inr (capacity, c, history)"
  shows "ic_requested_beam c = Some (cap_beam capacity)
    \<and> (\<exists>i < max_rounds. tune (cap_beam capacity) i = Inr c)
    \<and> bound_to discover capacity0 inference0 capacity c
    \<and> history \<noteq> [] \<and> length history \<le> max_rounds \<and> rf_beam (last history) = cap_beam capacity"
proof -
  have "bound_to discover capacity0 inference0 capacity0 inference0" by (simp add: bound_to_def same_batch_def)
  from refine_rounds_spec [OF assms [unfolded refine_maximum_def] this] show ?thesis by auto
qed

lemma refine_maximum_bound_witness:
  "\<exists>capacity c history.
     refine_maximum (\<lambda>beam _. Inr (timed_calibration\<lparr>ic_requested_beam := Some beam, ic_parent_batch := 128\<rparr>))
       (\<lambda>_ _. Inr \<lparr>cap_beam = 512, cap_profile = [], cap_plans = [], cap_probes = 1, cap_rejected = None,
                    cap_complete = True, cap_verified = False\<rparr>) 3
       \<lparr>cap_beam = 1024, cap_profile = [], cap_plans = [], cap_probes = 1, cap_rejected = None,
        cap_complete = True, cap_verified = False\<rparr> timed_calibration = Inr (capacity, c, history)
     \<and> cap_beam capacity = 512 \<and> ic_requested_beam c = Some (cap_beam capacity) \<and> length history = 2"
proof -
  let ?tune = "\<lambda>beam (_ :: nat). Inr (timed_calibration\<lparr>ic_requested_beam := Some beam, ic_parent_batch := 128\<rparr>) :: inference_calibration result"
  let ?found = "\<lparr>cap_beam = 512, cap_profile = [], cap_plans = [], cap_probes = 1, cap_rejected = None,
                    cap_complete = True, cap_verified = False\<rparr> :: capacity_result"
  let ?first = "\<lparr>cap_beam = 1024, cap_profile = [], cap_plans = [], cap_probes = 1, cap_rejected = None,
        cap_complete = True, cap_verified = False\<rparr> :: capacity_result"
  have "[0..<3] = [0, 1, 2 :: nat]" by (simp add: upt_rec)
  then have "\<exists>capacity c history. refine_maximum ?tune (\<lambda>_ _. Inr ?found) 3 ?first timed_calibration = Inr (capacity, c, history)
      \<and> cap_beam capacity = 512 \<and> length history = 2"
    by (simp add: refine_maximum_def timed_calibration_def same_batch_def Let_def sublist_code)
  with refine_maximum_bound [of ?tune "\<lambda>_ _. Inr ?found" 3 ?first timed_calibration] show ?thesis by blast
qed

end
