(* ===== verification/Working.thy ===== *)
theory Working
  imports Admission
begin

text \<open>
  Full-step evidence and the choice of a working width (\<open>working_capacity.py\<close>): a width is kept
  when its measured full step retains at least 80 percent of the throughput of a smaller
  measured width; otherwise it is halved, a bounded number of times. Measurements and the
  stored receipts are parameters, in the order in which the code reads them.
\<close>

section \<open>Full-step receipts\<close>

record step_run =
  sn_phase :: "pyval option"
  sn_verified :: "pyval option"
  sn_scope :: "pyval option"
  sn_beam :: "pyval option"
  sn_median :: "pyfloat option"
  sn_selection :: string

record verification_plan =
  vp_predicted :: rat
  vp_budget :: rat
  vp_repeats :: int
  vp_fits :: bool

text \<open>\<open>math.isfinite\<close> and the sign test: the finite positive value, if it is one.\<close>

definition verification_cost :: "int \<Rightarrow> pyfloat \<Rightarrow> rat \<Rightarrow> int \<Rightarrow> bool \<Rightarrow> verification_plan result" where
  "verification_cost beam low seconds repeats include_reference =
     (case positive_part low of
        None \<Rightarrow> Inl (ValueError ''invalid verification budget or inference estimate'')
      | Some per_parent \<Rightarrow>
          if seconds \<le> 0 then Inl (ValueError ''invalid verification budget or inference estimate'')
          else
            let predicted = per_parent * of_int (beam + (if include_reference then beam div 2 else 0)) * of_int repeats in
            Inr \<lparr>vp_predicted = predicted, vp_budget = seconds, vp_repeats = repeats, vp_fits = predicted \<le> seconds\<rparr>)"

definition require_full_step :: "int \<Rightarrow> step_run \<Rightarrow> rat result" where
  "require_full_step beam pipeline =
     (if sn_phase pipeline \<noteq> Some (PStr ''pipeline_measured'') \<or> sn_verified pipeline \<noteq> Some (PBool True)
         \<or> sn_scope pipeline \<noteq> Some (PStr ''full_requested_frontier'')
         \<or> \<not> (case sn_beam pipeline of Some v \<Rightarrow> py_eq v (PInt beam) | None \<Rightarrow> False)
      then Inl (ValueError ''maximum frontier requires a verified full step at its exact width'')
      else (case positive_part (case sn_median pipeline of Some v \<Rightarrow> v | None \<Rightarrow> Fin 0) of
              None \<Rightarrow> Inl (ValueError ''maximum frontier has no valid full-step timing'')
            | Some v \<Rightarrow> Inr v))"

record width_reference =
  wr_beam :: int
  wr_seconds :: rat
  wr_profile :: string
  wr_receipt :: string

record evidence =
  ev_tested :: int
  ev_seconds :: rat
  ev_verified :: bool
  ev_near_linear :: bool
  ev_retention :: "rat option"
  ev_working :: "int option"
  ev_reference :: "width_reference option"

definition assess_efficiency :: "int \<Rightarrow> rat \<Rightarrow> width_reference option \<Rightarrow> evidence" where
  "assess_efficiency beam seconds reference =
     (case reference of
        None \<Rightarrow> \<lparr>ev_tested = beam, ev_seconds = seconds * of_int beam, ev_verified = False, ev_near_linear = False,
                 ev_retention = None, ev_working = None, ev_reference = None\<rparr>
      | Some r \<Rightarrow>
          let retention = wr_seconds r / seconds; near_linear = retention \<ge> 8 / 10 in
          \<lparr>ev_tested = beam, ev_seconds = seconds * of_int beam, ev_verified = True, ev_near_linear = near_linear,
           ev_retention = Some retention, ev_working = Some (if near_linear then beam else wr_beam r),
           ev_reference = Some r\<rparr>)"

section \<open>Stored evidence\<close>

text \<open>A stored receipt file: \<open>None\<close> stands for a file that cannot be read, parsed or that misses a key.\<close>

record stored_receipt =
  st_name :: string
  st_full_frontier :: bool
  st_valid :: bool
  st_batch :: int
  st_signature :: "(string, pyval) dict"
  st_width :: int
  st_run :: step_run

record inference_identity =
  ii_batch :: int
  ii_world :: int
  ii_signature :: "(string, pyval) dict"

definition evidence_keys :: "string list" where
  "evidence_keys = [''graph'', ''models'', ''inference_backend'', ''runner'', ''probe'', ''gpu_uuids'',
     ''world_size'', ''torch'', ''cuda'', ''precision'', ''topology_sha256'', ''hardware_sha256'']"

definition same_cohort :: "(string, pyval) dict \<Rightarrow> (string, pyval) dict \<Rightarrow> bool" where
  "same_cohort sig other =
     list_all (\<lambda>k. case map_of sig k of
                     None \<Rightarrow> False
                   | Some v \<Rightarrow> py_eq v (case map_of other k of Some w \<Rightarrow> w | None \<Rightarrow> PNone)) evidence_keys"

definition stored_match :: "int \<Rightarrow> inference_identity \<Rightarrow> stored_receipt \<Rightarrow> width_reference option" where
  "stored_match beam inference row =
     (if \<not> st_full_frontier row \<or> \<not> st_valid row \<or> st_batch row \<noteq> ii_batch inference
         \<or> \<not> same_cohort (ii_signature inference) (st_signature row) \<or> \<not> (0 < st_width row \<and> st_width row < beam)
      then None
      else (case require_full_step (st_width row) (st_run row) of
              Inl _ \<Rightarrow> None
            | Inr seconds \<Rightarrow> Some \<lparr>wr_beam = st_width row, wr_seconds = seconds, wr_profile = sn_selection (st_run row),
                                   wr_receipt = st_name row\<rparr>))"

definition stored_matches :: "int \<Rightarrow> inference_identity \<Rightarrow> stored_receipt option list \<Rightarrow> width_reference list" where
  "stored_matches beam inference files =
     List.map_filter (\<lambda>f. Option.bind f (stored_match beam inference)) (take 256 files)"

definition record_evidence :: "int \<Rightarrow> step_run \<Rightarrow> inference_identity \<Rightarrow> stored_receipt option list \<Rightarrow> evidence result" where
  "record_evidence beam pipeline inference files =
     ebind (require_full_step beam pipeline) (\<lambda>seconds.
     Inr (assess_efficiency beam seconds (py_min (\<lambda>r. - wr_beam r) (stored_matches beam inference files))))"

section \<open>Choosing a working width\<close>

definition measured_reference :: "int \<Rightarrow> rat \<Rightarrow> step_run \<Rightarrow> width_reference" where
  "measured_reference width lower run =
     \<lparr>wr_beam = width, wr_seconds = lower, wr_profile = sn_selection run,
      wr_receipt = ''working-reference-'' @ str_int width\<rparr>"

fun choose_rounds ::
  "inference_identity \<Rightarrow> stored_receipt option list \<Rightarrow> (int \<Rightarrow> step_run \<Rightarrow> step_run result) \<Rightarrow> nat
    \<Rightarrow> int \<Rightarrow> step_run \<Rightarrow> evidence list \<Rightarrow> (int \<times> step_run \<times> evidence \<times> evidence list) result" where
  "choose_rounds inference files probe_width 0 current pipeline history =
     Inl (ValueError ''bounded working-frontier comparison did not find stable scaling'')"
| "choose_rounds inference files probe_width (Suc n) current pipeline history =
     ebind (record_evidence current pipeline inference files) (\<lambda>evidence.
     if ev_verified evidence \<and> ev_near_linear evidence then Inr (current, pipeline, evidence, history)
     else
       let width = current div 2 in
       if width < ii_batch inference * ii_world inference
       then Inl (ValueError ''working boundary has no smaller saturated comparison'')
       else
         ebind (probe_width width pipeline) (\<lambda>reference.
         ebind (require_full_step width reference) (\<lambda>lower.
         ebind (require_full_step current pipeline) (\<lambda>seconds.
         let e = assess_efficiency current seconds
                   (Some (measured_reference width lower reference)) in
         if ev_near_linear e then Inr (current, pipeline, e, history @ [e])
         else choose_rounds inference files probe_width n width reference (history @ [e])))))"

definition choose_working_capacity ::
  "int \<Rightarrow> step_run \<Rightarrow> inference_identity \<Rightarrow> stored_receipt option list \<Rightarrow> (int \<Rightarrow> step_run \<Rightarrow> step_run result) \<Rightarrow> nat
    \<Rightarrow> (int \<times> step_run \<times> evidence \<times> evidence list) result" where
  "choose_working_capacity beam pipeline inference files probe_width max_rounds =
     choose_rounds inference files probe_width max_rounds beam pipeline []"

section \<open>Verification of the half-width reference\<close>

text \<open>The check that \<open>measure_reference\<close> applies to the texts of all ranks: six completed steps, the
  expected final frontier of each rank, and no runner error.\<close>

definition report_fields :: "string \<Rightarrow> (string, string) dict" where
  "report_fields text =
     dict_update [] (List.map_filter (\<lambda>line.
        if CHR ''='' \<in> set line \<and> CHR '' '' \<notin> set line
        then Some (takeWhile (\<lambda>c. c \<noteq> CHR ''='') line, tl (dropWhile (\<lambda>c. c \<noteq> CHR ''='') line))
        else None) (text_lines text))"

definition reference_verified :: "bool \<Rightarrow> string list \<Rightarrow> int list \<Rightarrow> bool result" where
  "reference_verified grow texts counts =
     all_verified (\<lambda>(text, expected).
        let f = report_fields text in
        if map_of f (if grow then ''calibration_saturated_steps'' else ''completed_depths'') \<noteq> Some ''6'' then Inr False
        else ebind (case map_of f ''last_final_frontier_size'' of None \<Rightarrow> Inr (-1) | Some v \<Rightarrow> py_int v) (\<lambda>v.
          Inr (v = expected \<and> \<not> sublist ''production_runner_error='' text)))
       (zip texts counts)"

section \<open>Correctness\<close>

lemma require_full_step_pos: "require_full_step beam p = Inr v \<Longrightarrow> 0 < v"
proof -
  have "positive_part f = Some v \<Longrightarrow> 0 < v" for f v by (cases f) (auto split: if_splits)
  then show "require_full_step beam p = Inr v \<Longrightarrow> 0 < v"
    by (auto simp: require_full_step_def split: if_splits option.splits)
qed

lemma assessed [simp]: "ev_tested (assess_efficiency beam v r) = beam"
  by (cases r) (simp_all add: assess_efficiency_def Let_def)

lemma record_evidence_verified:
  assumes "record_evidence beam p inference files = Inr e" "ev_verified e" "ev_near_linear e"
  shows "\<exists>v r. require_full_step beam p = Inr v \<and> ev_reference e = Some r \<and> 0 < wr_beam r \<and> wr_beam r < beam
    \<and> 8 / 10 * v \<le> wr_seconds r"
proof -
  let ?refs = "stored_matches beam inference files"
  from assms(1) obtain v where v: "require_full_step beam p = Inr v"
    and e: "e = assess_efficiency beam v (py_min (\<lambda>r. - wr_beam r) ?refs)" by (auto simp: record_evidence_def ebind_Inr_iff)
  from e assms(2) obtain r where r: "py_min (\<lambda>r. - wr_beam r) ?refs = Some r"
    by (auto simp: assess_efficiency_def split: option.splits)
  then have "r \<in> set ?refs" using py_min_Some [of "\<lambda>r. - wr_beam r" ?refs r] by auto
  then obtain row where "stored_match beam inference row = Some r"
    by (auto simp: stored_matches_def map_filter_def split: Option.bind_splits)
  then have "0 < wr_beam r" "wr_beam r < beam" by (auto simp: stored_match_def split: if_splits sum.splits)
  moreover have "8 / 10 \<le> wr_seconds r / v" using e r assms(3) by (simp add: assess_efficiency_def Let_def)
  then have "8 / 10 * v \<le> wr_seconds r" using require_full_step_pos [OF v] by (simp add: pos_le_divide_eq)
  ultimately show ?thesis using v e r by (auto simp: assess_efficiency_def Let_def)
qed

lemma choose_rounds_spec:
  assumes "choose_rounds inference files probe_width n current pipeline history = Inr (w, p, e, history')"
  shows "\<exists>k < n. w = current div 2 ^ k
    \<and> (k = 0 \<and> p = pipeline \<or> (\<exists>q. probe_width w q = Inr p))
    \<and> ev_near_linear e \<and> ev_tested e = w
    \<and> (\<exists>v r. require_full_step w p = Inr v \<and> ev_reference e = Some r \<and> 8 / 10 * v \<le> wr_seconds r
         \<and> (wr_beam r < w \<or> wr_beam r = w div 2))"
  using assms
proof (induction n arbitrary: current pipeline history)
  case (Suc n)
  from Suc.prems obtain e0 where e0: "record_evidence current pipeline inference files = Inr e0"
    by (auto simp: ebind_Inr_iff)
  show ?case
  proof (cases "ev_verified e0 \<and> ev_near_linear e0")
    case True
    then have "w = current" "p = pipeline" "e = e0" using Suc.prems e0 by auto
    moreover have "ev_tested e0 = current"
      using e0 by (auto simp: record_evidence_def ebind_Inr_iff)
    moreover obtain v r where "require_full_step current pipeline = Inr v" "ev_reference e0 = Some r"
      "wr_beam r < current" "8 / 10 * v \<le> wr_seconds r"
      using record_evidence_verified [OF e0] True by blast
    ultimately show ?thesis using True by (intro exI [of _ 0]) auto
  next
    case False
    let ?w = "current div 2"
    from Suc.prems e0 False obtain reference lower v where m: "probe_width ?w pipeline = Inr reference"
      "require_full_step ?w reference = Inr lower" "require_full_step current pipeline = Inr v"
      by (auto simp: ebind_Inr_iff Let_def split: if_splits)
    define r where "r = measured_reference ?w lower reference"
    define x where "x = assess_efficiency current v (Some r)"
    have x: "ev_tested x = current" "ev_reference x = Some r" "ev_near_linear x \<longleftrightarrow> 8 / 10 \<le> lower / v"
      by (simp_all add: x_def assess_efficiency_def Let_def r_def measured_reference_def)
    have go: "(if ev_near_linear x then Inr (current, pipeline, x, history @ [x])
               else choose_rounds inference files probe_width n ?w reference (history @ [x])) = Inr (w, p, e, history')"
      using Suc.prems e0 False m by (auto simp: Let_def x_def r_def split: if_splits)
    show ?thesis
    proof (cases "ev_near_linear x")
      case True
      then have "w = current" "p = pipeline" "e = x" using go by auto
      moreover have "8 / 10 * v \<le> lower" using True x(3) require_full_step_pos [OF m(3)] by (simp add: pos_le_divide_eq)
      ultimately show ?thesis using True x(1,2) m(3) by (intro exI [of _ 0]) (simp add: r_def measured_reference_def)
    next
      case steps: False
      with go have "choose_rounds inference files probe_width n ?w reference (history @ [x]) = Inr (w, p, e, history')" by simp
      from Suc.IH [OF this] obtain k where k: "k < n" "w = ?w div 2 ^ k"
        "k = 0 \<and> p = reference \<or> (\<exists>q. probe_width w q = Inr p)" "ev_near_linear e \<and> ev_tested e = w"
        "\<exists>v r. require_full_step w p = Inr v \<and> ev_reference e = Some r \<and> 8 / 10 * v \<le> wr_seconds r
           \<and> (wr_beam r < w \<or> wr_beam r = w div 2)" by auto
      have "w = current div 2 ^ Suc k" using k(2) by (simp add: zdiv_zmult2_eq [symmetric])
      moreover have "\<exists>q. probe_width w q = Inr p" using k(2,3) m(1) by auto
      ultimately show ?thesis using k(1,4,5) by (intro exI [of _ "Suc k"]) simp
    qed
  qed
qed simp


definition measured_run :: "int \<Rightarrow> rat \<Rightarrow> step_run" where
  "measured_run beam seconds = \<lparr>sn_phase = Some (PStr ''pipeline_measured''), sn_verified = Some (PBool True),
     sn_scope = Some (PStr ''full_requested_frontier''), sn_beam = Some (PInt beam), sn_median = Some (Fin seconds),
     sn_selection = ''baseline''\<rparr>"


end
