(* ===== verification/Proposals.thy ===== *)
theory Proposals
  imports Plans
begin

text \<open>
  Proposals for the component tuner: the schedule proxy and the shortlist guided by service pressure
  (\<open>profile_heuristics.py\<close>), and the bounded neighbourhood of a profile with its memory pruning and
  the Pareto shortlist (\<open>adaptive_profiles.py\<close>). Hardware properties are parameters.
\<close>

section \<open>Schedule proxy\<close>

record schedule =
  sc_outer_jobs :: int
  sc_forwards :: int
  sc_stream3_jobs :: int
  sc_sort_jobs :: int
  sc_parents :: int
  sc_candidates :: int
  sc_jobs_per_parent :: rat

definition job_counts :: "pyval list \<Rightarrow> schedule result" where
  "job_counts vals =
     (if length vals \<noteq> 7 then Inl (TypeError ''job_counts'')
      else if \<not> list_all (\<lambda>v. is_int v \<and> 0 < the_int v) vals
      then Inl (ValueError ''positive integer schedule dimensions required'')
      else
        let parents = the_int (vals ! 0); move_total = the_int (vals ! 1); outer_parents = the_int (vals ! 2);
            inference = the_int (vals ! 3); staging = the_int (vals ! 4); shards = the_int (vals ! 5);
            flush = the_int (vals ! 6); outer = ceil_div parents outer_parents;
            full = parents div outer_parents; tail = parents mod outer_parents in
        Inr \<lparr>sc_outer_jobs = outer,
             sc_forwards = full * ceil_div outer_parents inference + ceil_div tail inference,
             sc_stream3_jobs = ceil_div outer staging,
             sc_sort_jobs = shards * ceil_div (ceil_div (parents * move_total) shards) flush,
             sc_parents = parents, sc_candidates = parents * move_total,
             sc_jobs_per_parent = of_int outer / of_int parents\<rparr>)"

section \<open>Narrowing by service pressure\<close>

datatype regime = Inference_dominated | Sort_pressure | Transport_or_mixed | Unknown

record service_estimate =
  se_inference :: "pyfloat option"
  se_downstream :: "pyfloat option"
  se_stream4 :: "rat option"

definition service_ratio :: "service_estimate \<Rightarrow> (rat \<times> rat) option" where
  "service_ratio e =
     (case (finite_part (case se_inference e of Some v \<Rightarrow> v | None \<Rightarrow> Fin 0),
            finite_part (case se_downstream e of Some v \<Rightarrow> v | None \<Rightarrow> Fin (-1))) of
        (Some i, Some d) \<Rightarrow> if i > 0 \<and> d \<ge> 0 then Some (d / i, d) else None
      | _ \<Rightarrow> None)"

definition pressure_regime :: "service_estimate \<Rightarrow> regime" where
  "pressure_regime e =
     (case service_ratio e of
        None \<Rightarrow> Unknown
      | Some (ratio, downstream) \<Rightarrow>
          if ratio \<le> 5 / 100 then Inference_dominated
          else if (case se_stream4 e of Some v \<Rightarrow> v | None \<Rightarrow> 0) \<ge> downstream / 2 then Sort_pressure
          else Transport_or_mixed)"

fun priority :: "regime \<Rightarrow> string list" where
  "priority Inference_dominated = [''outer-'', ''staging-'', ''lanes-'', ''bulk'', ''shards-'', ''service'']"
| "priority Sort_pressure = [''bulk'', ''shards-'', ''lanes-'', ''outer-'', ''staging-'', ''service'']"
| "priority _ = [''outer-'', ''staging-'', ''bulk'', ''shards-'', ''lanes-'', ''service'']"

definition family_of :: "string list \<Rightarrow> string \<Rightarrow> string" where
  "family_of prio name = (case filter (\<lambda>p. prefix p name) prio of p # _ \<Rightarrow> p | [] \<Rightarrow> name)"

fun prefix_order :: "string list \<Rightarrow> string \<Rightarrow> nat" where
  "prefix_order [] name = 0"
| "prefix_order (p # ps) name = (if prefix p name then 0 else Suc (prefix_order ps name))"

definition max_component_challengers :: nat where
  "max_component_challengers = 4"

record narrowing =
  nw_selected :: "(string \<times> env) list"
  nw_omitted :: "(string \<times> string) list"
  nw_families :: "string list"

definition narrow_step :: "env \<Rightarrow> string list \<Rightarrow> narrowing \<Rightarrow> string \<times> env \<Rightarrow> narrowing result" where
  "narrow_step baseline prio st row =
     (let (name, e) = row in
      ebind (env_int e ''BEAM_STREAM4_BATCH_CANDIDATES'') (\<lambda>flush.
      ebind (env_int baseline ''BEAM_STREAM4_BATCH_CANDIDATES'') (\<lambda>base.
      if flush < base
      then Inr (st\<lparr>nw_omitted := nw_omitted st @ [(name, ''smaller flush repeats survivor sorting'')]\<rparr>)
      else
        let family = family_of prio name in
        if family \<in> set (nw_families st) \<or> length (nw_selected st) \<ge> max_component_challengers
        then Inr (st\<lparr>nw_omitted := nw_omitted st @ [(name, ''bounded complementary shortlist'')]\<rparr>)
        else Inr (st\<lparr>nw_selected := nw_selected st @ [(name, e)], nw_families := family # nw_families st\<rparr>))))"

definition schedule_of :: "plan \<Rightarrow> pyval \<Rightarrow> int \<Rightarrow> env \<Rightarrow> schedule result" where
  "schedule_of plan move_total row_factor e =
     ebind (dict_item plan ''frontier_state_capacity'') (\<lambda>parents.
     ebind (env_int e ''BEAM_B_MICRO'') (\<lambda>outer.
     if row_factor = 0 then Inl ZeroDivisionError
     else
       ebind (env_int e ''BEAM_ENSEMBLE_INFERENCE_MICRO'') (\<lambda>inference.
       ebind (env_int e ''BEAM_STREAM3_RING_SLOTS'') (\<lambda>staging.
       ebind (env_int e ''BEAM_SHARD_COUNT'') (\<lambda>shards.
       ebind (env_int e ''BEAM_STREAM4_BATCH_CANDIDATES'') (\<lambda>flush.
       job_counts [parents, move_total, PInt (outer div row_factor), PInt inference, PInt staging, PInt shards, PInt flush]))))))"

definition schedules ::
  "plan option \<Rightarrow> pyval \<Rightarrow> env \<Rightarrow> (string \<times> env) list \<Rightarrow> (string, schedule) dict result" where
  "schedules plan move_total baseline selected =
     (case plan of
        None \<Rightarrow> Inr []
      | Some p \<Rightarrow>
          ebind (env_int baseline ''BEAM_B_MICRO'') (\<lambda>outer.
          ebind (dict_item p ''B_MICRO'') (\<lambda>micro.
          if the_int micro = 0 then Inl ZeroDivisionError
          else
            efold (\<lambda>d (name, e). ebind (schedule_of p move_total (outer div the_int micro) e) (\<lambda>s. Inr (dict_set name s d)))
              [] ((''baseline'', baseline) # selected))))"

definition narrow ::
  "(string \<times> env) list \<Rightarrow> env \<Rightarrow> service_estimate \<Rightarrow> plan option \<Rightarrow> pyval
    \<Rightarrow> ((string \<times> env) list \<times> regime \<times> (string, schedule) dict \<times> (string \<times> string) list) result" where
  "narrow proposals baseline service plan move_total =
     (let r = pressure_regime service; prio = priority r in
      ebind (efold (narrow_step baseline prio) \<lparr>nw_selected = [], nw_omitted = [], nw_families = []\<rparr>
               (sort_key (\<lambda>(name, e). prefix_order prio name) proposals)) (\<lambda>st.
      ebind (schedules plan move_total baseline (nw_selected st)) (\<lambda>sched.
      Inr (nw_selected st, r, sched, nw_omitted st))))"

definition full_challengers :: "regime option \<Rightarrow> int" where
  "full_challengers r = (if r = Some Inference_dominated then 1 else 2)"

section \<open>The neighbourhood of a profile\<close>

record hardware_context =
  hc_budget :: int
  hc_sms :: "int list"
  hc_l2 :: "int list"
  hc_row_factor :: "int option"

text \<open>The budget is rounded down to 256 MiB, so that allocator jitter does not change it.\<close>

definition budget_bucket :: "int list \<Rightarrow> int" where
  "budget_bucket budgets = Min (set budgets) div 268435456 * 268435456"

definition profile_context :: "(int \<times> int) list \<Rightarrow> plan list \<Rightarrow> hardware_context result" where
  "profile_context hardware plans =
     ebind (emap (\<lambda>p. dict_item p ''gpu_budget_bytes'') plans) (\<lambda>budgets.
     if plans = [] then Inl (ValueError ''min() iterable argument is empty'')
     else Inr \<lparr>hc_budget = budget_bucket (map the_int budgets), hc_sms = map fst hardware,
               hc_l2 = map snd hardware, hc_row_factor = None\<rparr>)"

record neighbourhood =
  nb_outer :: int
  nb_shards :: int
  nb_staging :: int
  nb_lanes :: int
  nb_batch :: int
  nb_inference :: int

definition read_profile :: "env \<Rightarrow> neighbourhood result" where
  "read_profile e =
     ebind (env_int e ''BEAM_B_MICRO'') (\<lambda>outer.
     ebind (env_int e ''BEAM_SHARD_COUNT'') (\<lambda>shards.
     ebind (env_int e ''BEAM_STREAM3_RING_SLOTS'') (\<lambda>staging.
     ebind (env_int e ''BEAM_STREAM4_ACTIVE_SORT_SLOTS'') (\<lambda>lanes.
     ebind (env_int e ''BEAM_STREAM4_BATCH_CANDIDATES'') (\<lambda>batch.
     ebind (env_int e ''BEAM_ENSEMBLE_INFERENCE_MICRO'') (\<lambda>frozen.
     Inr \<lparr>nb_outer = outer, nb_shards = shards, nb_staging = staging, nb_lanes = lanes, nb_batch = batch,
          nb_inference = frozen\<rparr>))))))"

definition local_parents :: "shape \<Rightarrow> int" where
  "local_parents sh = ceil_div (requested_beam sh) (gpus sh)"

definition max_shards :: "shape \<Rightarrow> int" where
  "max_shards sh = min 128 (max 1 (ceil_div (local_parents sh) (alignment sh)))"

definition max_lanes :: "shape \<Rightarrow> int \<Rightarrow> int" where
  "max_lanes sh sms = max 1 (min (max_shards sh) (ceil_div sms 16))"

type_synonym updates = "(string \<times> int) list"

definition shard_updates :: "int \<Rightarrow> int \<Rightarrow> string \<times> updates" where
  "shard_updates lanes v = (''shards-'' @ str_int v,
     [(''BEAM_SHARD_COUNT'', v), (''BEAM_STREAM4_ACTIVE_SORT_SLOTS'', min lanes v)])"

definition one_update :: "string \<Rightarrow> string \<Rightarrow> int \<Rightarrow> string \<times> updates" where
  "one_update label key v = (label @ str_int v, [(key, v)])"

definition fine_pool :: "shape \<Rightarrow> int \<Rightarrow> int \<Rightarrow> int \<Rightarrow> neighbourhood \<Rightarrow> (string \<times> updates) list" where
  "fine_pool sh sms row_factor round_index b =
     (let step = max 1 (nb_shards b div (4 * (round_index + 1))); al = alignment sh;
          quantum = native_b_micro sh * row_factor in
      map (shard_updates (nb_lanes b)) [max 1 (nb_shards b - step), min (max_shards sh) (nb_shards b + step)]
      @ map (one_update ''lanes-'' ''BEAM_STREAM4_ACTIVE_SORT_SLOTS'')
          [max 1 (nb_lanes b - 1), min (max_lanes sh sms) (nb_lanes b + 1)]
      @ map (one_update ''staging-'' ''BEAM_STREAM3_RING_SLOTS'') [max 2 (nb_staging b - 1), min 8 (nb_staging b + 1)]
      @ map (one_update ''batch-'' ''BEAM_STREAM4_BATCH_CANDIDATES'')
          [max al (round_up (nb_batch b * 3 div 4) al), round_up (nb_batch b * 5 div 4) al]
      @ map (one_update ''outer-'' ''BEAM_B_MICRO'')
          (filter (\<lambda>v. v \<le> max (local_parents sh * row_factor) quantum)
            [max quantum (round_up (nb_outer b * 3 div 4) quantum), round_up (nb_outer b * 5 div 4) quantum]))"

text \<open>Shard counts whose named memory fits the budget, least memory first.\<close>

definition memory_seeds :: "shape \<Rightarrow> neighbourhood \<Rightarrow> int option \<Rightarrow> int \<Rightarrow> int list" where
  "memory_seeds sh b ring_limit budget =
     map snd (sort (List.map_filter (\<lambda>v. case geometry sh v (nb_staging b) (min (nb_lanes b) v) ring_limit of
                   Inl _ \<Rightarrow> None
                 | Inr g \<Rightarrow> if g_lower_bound g \<le> budget then Some (g_lower_bound g, v) else None)
               [1 .. max_shards sh]))"

definition service_pool :: "updates \<Rightarrow> (string \<times> updates) list result" where
  "service_pool service =
     (if service = [] then Inr []
      else ebind (dict_item service ''BEAM_STREAM4_BATCH_CANDIDATES'') (\<lambda>v.
        Inr [(''service'', service), (''service-batch'', [(''BEAM_STREAM4_BATCH_CANDIDATES'', v)])]))"

definition coarse_pool ::
  "shape \<Rightarrow> int \<Rightarrow> int \<Rightarrow> int \<Rightarrow> int \<Rightarrow> int option \<Rightarrow> neighbourhood \<Rightarrow> updates \<Rightarrow> (string \<times> updates) list result" where
  "coarse_pool sh sms l2 row_factor budget ring_limit b service =
     (let most = max_shards sh; lanes = nb_lanes b; shards = nb_shards b; staging = nb_staging b; outer = nb_outer b;
          al = alignment sh;
          shard_values = unique_in_order (take 2 (memory_seeds sh b ring_limit budget)
            @ [1, min most (ceil_div sms 8), min most (max 1 (shards * 2)), max 1 (shards div 2)]);
          lane_values = sort (remdups [1, max_lanes sh sms, min (max_lanes sh sms) (max 1 (lanes * 2))]);
          wanted = (case map_of service ''BEAM_STREAM3_RING_SLOTS'' of Some v \<Rightarrow> v | None \<Rightarrow> staging);
          staging_values = sort (remdups [2, min 8 (max staging wanted)]);
          factors = filter (\<lambda>f. outer * f \<le> local_parents sh * row_factor) [2, 4];
          bulk = round_up (max 1 (ceil_div (local_parents sh * moves sh) (shards * 4))) al in
      ebind (service_pool service) (\<lambda>services.
      if shards = 0 then Inl ZeroDivisionError
      else Inr (services @ map (shard_updates lanes) shard_values
        @ map (\<lambda>v. (''lanes-'' @ str_int v, [(''BEAM_STREAM4_ACTIVE_SORT_SLOTS'', min v shards)])) lane_values
        @ map (one_update ''staging-'' ''BEAM_STREAM3_RING_SLOTS'') staging_values
        @ map (\<lambda>f. (''outer-'' @ str_int (outer * f),
                    [(''BEAM_B_MICRO'', outer * f), (''BEAM_STREAM3_RING_SLOTS'', max 2 (ceil_div staging f))])) factors
        @ [(''bulk'', [(''BEAM_STREAM4_BATCH_CANDIDATES'', bulk)])]
        @ (if l2 \<noteq> 0 then [(''l2-batch'', [(''BEAM_STREAM4_BATCH_CANDIDATES'', round_up (max 1 (l2 div 32)) al)])] else []))))"

definition with_updates :: "env \<Rightarrow> updates \<Rightarrow> env" where
  "with_updates baseline u = dict_update baseline (map (\<lambda>(k, v). (k, str_int v)) u)"

text \<open>The check of one proposal: \<open>Inr None\<close> accepts it, \<open>Inr (Some reason)\<close> prunes it.\<close>

definition proposal_geometry :: "shape \<Rightarrow> int \<Rightarrow> int option \<Rightarrow> env \<Rightarrow> geometry_row result" where
  "proposal_geometry sh row_factor ring_limit e =
     ebind (env_int e ''BEAM_B_MICRO'') (\<lambda>outer.
     if row_factor = 0 then Inl ZeroDivisionError
     else if outer div row_factor \<le> 0 then Inl (ValueError ''native_b_micro must be a positive integer'')
     else
       ebind (env_int e ''BEAM_SHARD_COUNT'') (\<lambda>shards.
       ebind (env_int e ''BEAM_STREAM3_RING_SLOTS'') (\<lambda>staging.
       ebind (env_int e ''BEAM_STREAM4_ACTIVE_SORT_SLOTS'') (\<lambda>lanes.
       geometry (sh\<lparr>native_b_micro := outer div row_factor\<rparr>) shards staging lanes ring_limit))))"

definition proposal_check :: "shape \<Rightarrow> int \<Rightarrow> int option \<Rightarrow> int \<Rightarrow> env \<Rightarrow> string option result" where
  "proposal_check sh row_factor ring_limit budget e =
     (case ebind (proposal_geometry sh row_factor ring_limit e) (\<lambda>g.
             if g_lower_bound g > budget then Inr (Some ''named memory lower bound exceeds budget'')
             else ebind (env_int e ''BEAM_STREAM4_BATCH_CANDIDATES'') (\<lambda>flush.
               Inr (if flush > g_physical_capacity g then Some ''flush exceeds capacity'' else None))) of
        Inl x \<Rightarrow> if is_value_error x then Inr (Some (exn_message x)) else Inl x
      | Inr r \<Rightarrow> Inr r)"

record proposal_state =
  ps_used :: "env list"
  ps_accepted :: "(string \<times> env) list"
  ps_pruned :: "(string \<times> string) list"

definition proposal_step ::
  "(env \<Rightarrow> string option result) \<Rightarrow> int \<Rightarrow> proposal_state \<Rightarrow> string \<times> env \<Rightarrow> proposal_state result" where
  "proposal_step check frozen st row =
     (let (name, e) = row in
      if \<exists>u \<in> set (ps_used st). same_env u e then Inr st
      else
        let st' = st\<lparr>ps_used := e # ps_used st\<rparr> in
        ebind (check e) (\<lambda>r. case r of
          Some reason \<Rightarrow> Inr (st'\<lparr>ps_pruned := ps_pruned st' @ [(name, reason)]\<rparr>)
        | None \<Rightarrow>
            ebind (dict_item e ''BEAM_ENSEMBLE_INFERENCE_MICRO'') (\<lambda>v.
            if v \<noteq> str_int frozen then Inl AssertionError
            else Inr (st'\<lparr>ps_accepted := ps_accepted st' @ [(name, e)]\<rparr>))))"

definition max_coarse :: nat where "max_coarse = 16"
definition max_fine :: nat where "max_fine = 10"

record proposal_report =
  pr_generated :: nat
  pr_pruned :: "(string \<times> string) list"
  pr_truncated :: bool

definition proposals ::
  "shape \<Rightarrow> env \<Rightarrow> hardware_context \<Rightarrow> updates \<Rightarrow> bool \<Rightarrow> int \<Rightarrow> int option \<Rightarrow> env list
    \<Rightarrow> ((string \<times> env) list \<times> proposal_report) result" where
  "proposals sh baseline ctx service fine round_index ring_limit seen' =
     (if hc_sms ctx = [] then Inl (ValueError ''min() iterable argument is empty'')
      else
        let sms = Min (set (hc_sms ctx)); l2 = Min (set (hc_l2 ctx));
            row_factor = (case hc_row_factor ctx of Some f \<Rightarrow> f | None \<Rightarrow> 1) in
        ebind (read_profile baseline) (\<lambda>b.
        ebind (if fine then Inr (fine_pool sh sms row_factor round_index b)
               else coarse_pool sh sms l2 row_factor (hc_budget ctx) ring_limit b service) (\<lambda>pool.
        ebind (efold (proposal_step (proposal_check sh row_factor ring_limit (hc_budget ctx)) (nb_inference b))
                 \<lparr>ps_used = baseline # seen', ps_accepted = [], ps_pruned = []\<rparr>
                 (map (\<lambda>(name, u). (name, with_updates baseline u)) pool)) (\<lambda>st.
        let limit = (if fine then max_fine else max_coarse) in
        Inr (take limit (ps_accepted st),
             \<lparr>pr_generated = length pool, pr_pruned = ps_pruned st, pr_truncated = length (ps_accepted st) > limit\<rparr>)))))"

section \<open>The Pareto shortlist\<close>

record trial_row =
  tr_name :: string
  tr_downstream :: "rat option"
  tr_plans :: "plan list option"

definition trial_metrics :: "trial_row \<Rightarrow> rat \<times> int" where
  "trial_metrics r = (the (tr_downstream r),
     Max (set (map (\<lambda>p. plan_int p ''estimated_required_device_bytes'') (the (tr_plans r)))))"

definition dominated :: "trial_row list \<Rightarrow> trial_row \<Rightarrow> bool" where
  "dominated rows r = list_ex (\<lambda>other. fst (trial_metrics other) \<le> fst (trial_metrics r)
     \<and> snd (trial_metrics other) \<le> snd (trial_metrics r) \<and> trial_metrics other \<noteq> trial_metrics r) rows"

fun take_new :: "nat \<Rightarrow> trial_row list \<Rightarrow> trial_row list \<Rightarrow> trial_row list" where
  "take_new n selected [] = selected"
| "take_new n selected (r # rows) =
     (let s = (if r \<in> set selected then selected else selected @ [r]) in
      if length s \<ge> n then s else take_new n s rows)"

definition shortlist :: "trial_row list \<Rightarrow> bool \<Rightarrow> nat \<Rightarrow> trial_row list result" where
  "shortlist rows baseline count' =
     (let valid = filter (\<lambda>r. tr_downstream r \<noteq> None \<and> tr_plans r \<noteq> None) rows;
          ordered = sort_key trial_metrics valid;
          pareto = filter (\<lambda>r. \<not> dominated ordered r) ordered in
      if baseline
      then (case filter (\<lambda>r. tr_name r = ''baseline'') valid of
              [] \<Rightarrow> Inl StopIteration
            | r # _ \<Rightarrow> Inr (take_new (count' + 1) [r] (pareto @ ordered)))
      else Inr (take_new count' [] (pareto @ ordered)))"

section \<open>Correctness\<close>

lemma efold_narrow:
  assumes "efold (narrow_step baseline prio) st rows = Inr st'"
    "length (nw_selected st) \<le> max_component_challengers" "distinct (nw_families st)"
    "nw_families st = rev (map (family_of prio \<circ> fst) (nw_selected st))"
  shows "length (nw_selected st') \<le> max_component_challengers \<and> distinct (nw_families st')
    \<and> nw_families st' = rev (map (family_of prio \<circ> fst) (nw_selected st'))
    \<and> set (nw_selected st') \<subseteq> set (nw_selected st) \<union> set rows
    \<and> (\<forall>(name, e) \<in> set (nw_selected st') - set (nw_selected st). \<exists>flush base.
         env_int e ''BEAM_STREAM4_BATCH_CANDIDATES'' = Inr flush
         \<and> env_int baseline ''BEAM_STREAM4_BATCH_CANDIDATES'' = Inr base \<and> base \<le> flush)
    \<and> length (nw_selected st') + length (nw_omitted st') = length (nw_selected st) + length (nw_omitted st) + length rows"
  using assms
proof (induction rows arbitrary: st)
  case (Cons row rows)
  obtain name e where row: "row = (name, e)" by (cases row)
  from Cons.prems(1) obtain st1 where st1: "narrow_step baseline prio st (name, e) = Inr st1"
    and rest: "efold (narrow_step baseline prio) st1 rows = Inr st'" by (auto simp: row ebind_Inr_iff)
  from st1 obtain flush base where fb: "env_int e ''BEAM_STREAM4_BATCH_CANDIDATES'' = Inr flush"
    "env_int baseline ''BEAM_STREAM4_BATCH_CANDIDATES'' = Inr base" by (auto simp: narrow_step_def ebind_Inr_iff)
  from st1 fb consider (skip) reason where "st1 = st\<lparr>nw_omitted := nw_omitted st @ [(name, reason)]\<rparr>"
    | (take) "base \<le> flush" "family_of prio name \<notin> set (nw_families st)"
        "length (nw_selected st) < max_component_challengers"
        "st1 = st\<lparr>nw_selected := nw_selected st @ [(name, e)], nw_families := family_of prio name # nw_families st\<rparr>"
    by (auto simp: narrow_step_def Let_def not_le split: if_splits)
  then show ?case
  proof cases
    case skip
    then have "length (nw_selected st1) \<le> max_component_challengers" "distinct (nw_families st1)"
      "nw_families st1 = rev (map (family_of prio \<circ> fst) (nw_selected st1))" using Cons.prems by simp_all
    from Cons.IH [OF rest this] skip show ?thesis by auto
  next
    case take
    then have "length (nw_selected st1) \<le> max_component_challengers" "distinct (nw_families st1)"
      "nw_families st1 = rev (map (family_of prio \<circ> fst) (nw_selected st1))" using Cons.prems by simp_all
    note ih = Cons.IH [OF rest this]
    have "\<exists>flush base. env_int e' ''BEAM_STREAM4_BATCH_CANDIDATES'' = Inr flush
         \<and> env_int baseline ''BEAM_STREAM4_BATCH_CANDIDATES'' = Inr base \<and> base \<le> flush"
      if "(n', e') \<in> set (nw_selected st')" "(n', e') \<notin> set (nw_selected st)" for n' e'
    proof (cases "(n', e') = (name, e)")
      case True
      then show ?thesis using fb take(1) by auto
    next
      case False
      then show ?thesis using ih that take(4) by fastforce
    qed
    then show ?thesis using ih take(4) row by auto
  qed
qed simp

lemma narrow_bounded:
  assumes "narrow cands baseline service plan move_total = Inr (selected, r, sched, omitted)"
  shows "length selected \<le> 4 \<and> set selected \<subseteq> set cands \<and> distinct (map (family_of (priority r) \<circ> fst) selected)
    \<and> length selected + length omitted = length cands
    \<and> (\<forall>(name, e) \<in> set selected. \<exists>flush base. env_int e ''BEAM_STREAM4_BATCH_CANDIDATES'' = Inr flush
         \<and> env_int baseline ''BEAM_STREAM4_BATCH_CANDIDATES'' = Inr base \<and> base \<le> flush)"
proof -
  let ?rows = "sort_key (\<lambda>(name, e). prefix_order (priority r) name) cands"
  from assms obtain st where st: "efold (narrow_step baseline (priority r))
      \<lparr>nw_selected = [], nw_omitted = [], nw_families = []\<rparr> ?rows = Inr st"
    and out: "selected = nw_selected st" "omitted = nw_omitted st"
    by (auto simp: narrow_def Let_def ebind_Inr_iff)
  have "distinct (map (family_of (priority r) \<circ> fst) (nw_selected st))"
    using efold_narrow [OF st] by (metis distinct_rev distinct.simps(1) le0 list.size(3) narrowing.select_convs(1,3) rev.simps(1) list.simps(8))
  moreover have "length (nw_selected st) \<le> max_component_challengers"
    "set (nw_selected st) \<subseteq> set ?rows" "length (nw_selected st) + length (nw_omitted st) = length ?rows"
    "\<forall>(name, e) \<in> set (nw_selected st). \<exists>flush base. env_int e ''BEAM_STREAM4_BATCH_CANDIDATES'' = Inr flush
         \<and> env_int baseline ''BEAM_STREAM4_BATCH_CANDIDATES'' = Inr base \<and> base \<le> flush"
    using efold_narrow [OF st] by (simp_all add: max_component_challengers_def)
  ultimately show ?thesis using out by (simp add: max_component_challengers_def)
qed

text \<open>What the neighbourhood search keeps of its state.\<close>

definition proposals_ok :: "(env \<Rightarrow> string option result) \<Rightarrow> int \<Rightarrow> env list \<Rightarrow> proposal_state \<Rightarrow> bool" where
  "proposals_ok check frozen known st \<longleftrightarrow>
     (\<forall>(name, e) \<in> set (ps_accepted st). check e = Inr None
        \<and> map_of e ''BEAM_ENSEMBLE_INFERENCE_MICRO'' = Some (str_int frozen)
        \<and> e \<in> set (ps_used st) \<and> \<not> (\<exists>k \<in> set known. same_env k e))
     \<and> sorted_wrt (\<lambda>a b. \<not> same_env (snd a) (snd b)) (ps_accepted st)
     \<and> set known \<subseteq> set (ps_used st)"

lemma proposal_step_ok:
  assumes "proposal_step check frozen st row = Inr st'" "proposals_ok check frozen known st"
  shows "proposals_ok check frozen known st'"
proof -
  obtain name e where row: "row = (name, e)" by (cases row)
  show ?thesis
  proof (cases "\<exists>u \<in> set (ps_used st). same_env u e")
    case True
    then show ?thesis using assms row by (simp add: proposal_step_def)
  next
    case False
    with assms(1) row obtain r where r: "check e = Inr r" by (auto simp: proposal_step_def Let_def ebind_Inr_iff)
    show ?thesis
    proof (cases r)
      case (Some reason)
      then have "st' = st\<lparr>ps_used := e # ps_used st, ps_pruned := ps_pruned st @ [(name, reason)]\<rparr>"
        using assms(1) row r False by (auto simp: proposal_step_def Let_def)
      then show ?thesis using assms(2) by (auto simp: proposals_ok_def)
    next
      case None
      then have "map_of e ''BEAM_ENSEMBLE_INFERENCE_MICRO'' = Some (str_int frozen)"
        "st' = st\<lparr>ps_used := e # ps_used st, ps_accepted := ps_accepted st @ [(name, e)]\<rparr>"
        using assms(1) row r False
        by (auto simp: proposal_step_def Let_def ebind_Inr_iff dict_item_Inr_iff split: if_splits)
      then show ?thesis using assms(2) False None r by (auto simp: proposals_ok_def sorted_wrt_append)
    qed
  qed
qed

lemma proposal_check_None:
  assumes "proposal_check sh row_factor ring_limit budget e = Inr None"
  shows "\<exists>g flush. proposal_geometry sh row_factor ring_limit e = Inr g \<and> g_lower_bound g \<le> budget
    \<and> env_int e ''BEAM_STREAM4_BATCH_CANDIDATES'' = Inr flush \<and> flush \<le> g_physical_capacity g"
  using assms by (auto simp: proposal_check_def ebind_Inr_iff split: sum.splits if_splits)

text \<open>The proposals are a bounded set of new, affordable experiments: there are at most 16 (10 when
  refining), no two are the same environment and none was already tried, every one keeps the measured
  inference batch, and its geometry is valid with a named memory lower bound within the budget
  and a flush that fits the physical shard capacity.\<close>
theorem proposals_affordable:
  assumes "proposals sh baseline ctx service fine round_index ring_limit tried = Inr (cands, report)"
  shows "length cands \<le> (if fine then 10 else 16)
    \<and> sorted_wrt (\<lambda>a b. \<not> same_env (snd a) (snd b)) cands
    \<and> (\<forall>(name, e) \<in> set cands. \<not> (\<exists>k \<in> set (baseline # tried). same_env k e)
        \<and> (\<exists>frozen. env_int baseline ''BEAM_ENSEMBLE_INFERENCE_MICRO'' = Inr frozen
             \<and> map_of e ''BEAM_ENSEMBLE_INFERENCE_MICRO'' = Some (str_int frozen))
        \<and> (\<exists>g flush. proposal_geometry sh (case hc_row_factor ctx of Some f \<Rightarrow> f | None \<Rightarrow> 1) ring_limit e = Inr g
             \<and> g_lower_bound g \<le> hc_budget ctx
             \<and> env_int e ''BEAM_STREAM4_BATCH_CANDIDATES'' = Inr flush \<and> flush \<le> g_physical_capacity g))"
proof -
  let ?rf = "case hc_row_factor ctx of Some f \<Rightarrow> f | None \<Rightarrow> 1"
  let ?check = "proposal_check sh ?rf ring_limit (hc_budget ctx)"
  from assms obtain b pool st where b: "read_profile baseline = Inr b"
    and st: "efold (proposal_step ?check (nb_inference b)) \<lparr>ps_used = baseline # tried, ps_accepted = [], ps_pruned = []\<rparr>
               (map (\<lambda>(name, u). (name, with_updates baseline u)) pool) = Inr st"
    and cands: "cands = take (if fine then max_fine else max_coarse) (ps_accepted st)"
    by (auto simp: proposals_def Let_def ebind_Inr_iff split: if_splits)
  have "proposals_ok ?check (nb_inference b) (baseline # tried) st"
    by (rule efold_invariant [OF st]) (auto simp: proposals_ok_def [of _ _ _ "\<lparr>ps_used = _, ps_accepted = _, ps_pruned = _\<rparr>"]
        intro: proposal_step_ok)
  then have ok: "proposals_ok ?check (nb_inference b) (baseline # tried) st" .
  have frozen: "env_int baseline ''BEAM_ENSEMBLE_INFERENCE_MICRO'' = Inr (nb_inference b)"
    using b by (auto simp: read_profile_def ebind_Inr_iff)
  have "sorted_wrt (\<lambda>a b. \<not> same_env (snd a) (snd b)) cands"
    using ok unfolding cands proposals_ok_def by (intro sorted_wrt_take) simp
  moreover have "length cands \<le> (if fine then 10 else 16)" by (simp add: cands max_fine_def max_coarse_def)
  moreover have "\<not> (\<exists>k \<in> set (baseline # tried). same_env k e)
        \<and> map_of e ''BEAM_ENSEMBLE_INFERENCE_MICRO'' = Some (str_int (nb_inference b)) \<and> ?check e = Inr None"
    if "(name, e) \<in> set cands" for name e
    using ok in_set_takeD [OF that [unfolded cands]] unfolding proposals_ok_def by blast
  ultimately show ?thesis using frozen proposal_check_None by fastforce
qed

definition small_profile :: env where
  "small_profile = [(''BEAM_B_MICRO'', str_int 16), (''BEAM_SHARD_COUNT'', str_int 1),
     (''BEAM_STREAM3_RING_SLOTS'', str_int 2), (''BEAM_STREAM4_ACTIVE_SORT_SLOTS'', str_int 1),
     (''BEAM_STREAM4_BATCH_CANDIDATES'', str_int 1024), (''BEAM_ENSEMBLE_INFERENCE_MICRO'', str_int 16)]"

text \<open>Refining a readable profile always returns.\<close>

definition readable :: "env \<Rightarrow> bool" where
  "readable e \<longleftrightarrow> (\<forall>k \<in> set (''BEAM_ENSEMBLE_INFERENCE_MICRO'' # tunable_keys). \<exists>i. map_of e k = Some (str_int i))"

lemma readable_item:
  "readable e \<Longrightarrow> k \<in> set (''BEAM_ENSEMBLE_INFERENCE_MICRO'' # tunable_keys) \<Longrightarrow> \<exists>i. env_int e k = Inr i"
  by (force simp: readable_def env_int_def dict_item_def)

lemma readable_updates: "readable e \<Longrightarrow> readable (with_updates e u)"
proof -
  assume e: "readable e"
  have "\<exists>i. map_of (with_updates e u) k = Some (str_int i)" if "\<exists>i. map_of e k = Some (str_int i)" for k
  proof (cases "map_of (rev (map (\<lambda>(k, v). (k, str_int v)) u)) k")
    case None
    then show ?thesis using that by (simp add: with_updates_def map_of_dict_update map_add_def)
  next
    case (Some w)
    then have "(k, w) \<in> set (map (\<lambda>(k, v). (k, str_int v)) u)" by (auto dest: map_of_SomeD)
    then show ?thesis using Some by (auto simp: with_updates_def map_of_dict_update)
  qed
  with e show ?thesis by (simp add: readable_def)
qed

lemma untouched_update:
  "k \<notin> fst ` set u \<Longrightarrow> map_of (with_updates e u) k = map_of e k"
proof -
  assume "k \<notin> fst ` set u"
  then have "map_of (rev (map (\<lambda>(k, v). (k, str_int v)) u)) k = None"
    by (force simp: map_of_eq_None_iff)
  then show ?thesis by (simp add: with_updates_def map_of_dict_update map_add_def)
qed

lemma proposal_check_total:
  assumes "readable e"
  shows "\<exists>r. proposal_check sh 1 ring_limit budget e = Inr r"
proof -
  have keys: "''BEAM_B_MICRO'' \<in> set tunable_keys" "''BEAM_SHARD_COUNT'' \<in> set tunable_keys"
    "''BEAM_STREAM3_RING_SLOTS'' \<in> set tunable_keys" "''BEAM_STREAM4_ACTIVE_SORT_SLOTS'' \<in> set tunable_keys"
    "''BEAM_STREAM4_BATCH_CANDIDATES'' \<in> set tunable_keys" by (simp_all add: tunable_keys_def)
  obtain a b c d f where ok: "env_int e ''BEAM_B_MICRO'' = Inr a" "env_int e ''BEAM_SHARD_COUNT'' = Inr b"
    "env_int e ''BEAM_STREAM3_RING_SLOTS'' = Inr c" "env_int e ''BEAM_STREAM4_ACTIVE_SORT_SLOTS'' = Inr d"
    "env_int e ''BEAM_STREAM4_BATCH_CANDIDATES'' = Inr f"
    using readable_item [OF assms] keys by (metis list.set_intros(2))
  have geo: "is_value_error x" if "geometry sh' b c d ring_limit = Inl x" for sh' x
    using that by (auto simp: geometry_def split: if_splits option.splits)
  show ?thesis
    by (cases "geometry (sh\<lparr>native_b_micro := a\<rparr>) b c d ring_limit")
      (auto simp: proposal_check_def proposal_geometry_def ok dest: geo)
qed

lemma efold_total:
  "(\<And>s x. x \<in> set xs \<Longrightarrow> \<exists>s'. f s x = Inr s') \<Longrightarrow> \<exists>s'. efold f s xs = Inr s'"
proof (induction xs arbitrary: s)
  case (Cons x xs)
  from Cons.prems obtain s1 where "f s x = Inr s1" by fastforce
  moreover obtain s2 where "efold f s1 xs = Inr s2" using Cons.IH [of s1] Cons.prems by fastforce
  ultimately show ?case by simp
qed simp

lemma fine_proposals_total:
  assumes "readable baseline" "hc_sms ctx \<noteq> []" "hc_row_factor ctx = None"
    "map_of baseline ''BEAM_ENSEMBLE_INFERENCE_MICRO'' = Some (str_int frozen)"
  shows "\<exists>cands report. proposals sh baseline ctx service True i ring_limit tried = Inr (cands, report)"
proof -
  have keys: "k \<in> set (''BEAM_ENSEMBLE_INFERENCE_MICRO'' # tunable_keys) \<Longrightarrow> \<exists>i. env_int baseline k = Inr i" for k
    using readable_item [OF assms(1)] .
  have "\<exists>b. read_profile baseline = Inr b \<and> nb_inference b = frozen"
    using keys [of "''BEAM_B_MICRO''"] keys [of "''BEAM_SHARD_COUNT''"] keys [of "''BEAM_STREAM3_RING_SLOTS''"]
      keys [of "''BEAM_STREAM4_ACTIVE_SORT_SLOTS''"] keys [of "''BEAM_STREAM4_BATCH_CANDIDATES''"] assms(4)
    by (auto simp: read_profile_def tunable_keys_def env_int_def dict_item_def)
  then obtain b where b: "read_profile baseline = Inr b" "nb_inference b = frozen" by blast
  let ?pool = "fine_pool sh (Min (set (hc_sms ctx))) 1 i b"
  let ?check = "proposal_check sh 1 ring_limit (hc_budget ctx)"
  have untouched: "''BEAM_ENSEMBLE_INFERENCE_MICRO'' \<notin> fst ` set u" if "(n, u) \<in> set ?pool" for n u
    using that by (auto simp: fine_pool_def Let_def shard_updates_def one_update_def)
  have "\<exists>st'. proposal_step ?check frozen st row = Inr st'"
    if row: "row \<in> set (map (\<lambda>(n, u). (n, with_updates baseline u)) ?pool)" for st row
  proof -
    from row obtain n u where nu: "(n, u) \<in> set ?pool" "row = (n, with_updates baseline u)" by auto
    obtain r where "?check (with_updates baseline u) = Inr r"
      using proposal_check_total [OF readable_updates [OF assms(1)]] by blast
    then show ?thesis using untouched_update [OF untouched [OF nu(1)], of baseline] assms(4) nu(2)
      by (cases r) (auto simp: proposal_step_def Let_def dict_item_def)
  qed
  then obtain st where "efold (proposal_step ?check frozen) \<lparr>ps_used = baseline # tried, ps_accepted = [], ps_pruned = []\<rparr>
      (map (\<lambda>(n, u). (n, with_updates baseline u)) ?pool) = Inr st"
    using efold_total [of "map (\<lambda>(n, u). (n, with_updates baseline u)) ?pool" "proposal_step ?check frozen"] by blast
  then show ?thesis using b assms(2,3) by (simp add: proposals_def Let_def)
qed

lemma proposals_affordable_witness:
  "\<exists>cands report. proposals small_shape small_profile
       \<lparr>hc_budget = 1000000000, hc_sms = [80], hc_l2 = [0], hc_row_factor = None\<rparr> [] True 0 None [] = Inr (cands, report)
     \<and> length cands \<le> 10"
proof -
  let ?ctx = "\<lparr>hc_budget = 1000000000, hc_sms = [80], hc_l2 = [0], hc_row_factor = None\<rparr>"
  have "readable small_profile" by (simp add: readable_def small_profile_def tunable_keys_def) blast
  moreover have "map_of small_profile ''BEAM_ENSEMBLE_INFERENCE_MICRO'' = Some (str_int 16)" by (simp add: small_profile_def)
  ultimately obtain cands report where run: "proposals small_shape small_profile ?ctx [] True 0 None [] = Inr (cands, report)"
    using fine_proposals_total [of small_profile ?ctx 16 small_shape "[]" 0 None "[]"] by auto
  from proposals_affordable [OF run] run show ?thesis by auto
qed

text \<open>The Pareto shortlist only drops rows: every selected row was measured, the baseline comes first when
  it is asked for, and the bound on their number is kept.\<close>

lemma take_new_set: "set (take_new n selected rows) \<subseteq> set selected \<union> set rows"
  by (induction n selected rows rule: take_new.induct) (auto simp: Let_def)

lemma take_new_length: "length selected < n \<Longrightarrow> length (take_new n selected rows) \<le> n"
  by (induction n selected rows rule: take_new.induct) (auto simp: Let_def)

end
