(* ===== verification/Tuning.thy ===== *)
theory Tuning
  imports Plans
begin

text \<open>
  The coordinate search over full-step measurements and its bounded variant (\<open>tune_pipeline\<close> and
  \<open>_tune_shortlist\<close> of \<open>pipeline_profiles.py\<close>). Admission and measurement are callbacks; the clock
  says whether the deadline has passed at its n-th check. The bounded variant records the order of
  its calls, since it must release the planners before it measures.
\<close>

section \<open>The coordinate search\<close>

type_synonym admission = "env \<Rightarrow> plan list result"
type_synonym full_step = "env \<Rightarrow> plan list \<Rightarrow> measurement list result"

definition beam_of :: "plan list \<Rightarrow> pyval option" where
  "beam_of plans = map_of (hd plans) ''GLOBAL_BEAM_WIDTH_EFFECTIVE''"

definition relabel :: "string \<Rightarrow> measurement list \<Rightarrow> measurement list" where
  "relabel label rows = map (\<lambda>r. r\<lparr>m_profile := label\<rparr>) rows"

definition rows_match :: "pyval \<Rightarrow> nat \<Rightarrow> measurement list \<Rightarrow> bool" where
  "rows_match workload world rows =
     (rows \<noteq> [] \<and> list_all (\<lambda>r. m_parents r = workload \<and> length (m_seconds r) = world) rows)"

text \<open>\<open>except (ValueError, MemoryError)\<close>\<close>

definition recoverable :: "exn \<Rightarrow> bool" where
  "recoverable e = (is_value_error e \<or> e = MemoryError)"

text \<open>One candidate: admitted with the effective beam of the baseline, then measured on the same workload.\<close>

definition try_profile ::
  "admission \<Rightarrow> full_step \<Rightarrow> pyval option \<Rightarrow> pyval \<Rightarrow> nat \<Rightarrow> env \<Rightarrow> measurement list result" where
  "try_profile admit full_step effective workload world e =
     ebind (admit e) (\<lambda>plans.
     ebind (validate_rank_plans plans) (\<lambda>_.
     if beam_of plans \<noteq> effective
     then Inl (ValueError ''candidate changes effective beam; timing is not comparable'')
     else ebind (full_step e plans) (\<lambda>rows.
       if rows_match workload world rows then Inr rows
       else Inl (ValueError ''candidate changes workload or omits rank timing''))))"

record tuning =
  tu_profiles :: "(string, env) dict"
  tu_samples :: "measurement list"
  tu_rejected :: "(string, string) dict"
  tu_seen :: "env list"
  tu_checks :: nat

fun tune_candidates ::
  "(nat \<Rightarrow> bool) \<Rightarrow> (env \<Rightarrow> measurement list result) \<Rightarrow> nat \<Rightarrow> (string \<times> env) list \<Rightarrow> tuning \<Rightarrow> tuning result" where
  "tune_candidates expired attempt i [] st = Inr st"
| "tune_candidates expired attempt i ((name, e) # rest) st =
     (if \<exists>k \<in> set (tu_seen st). same_env k e then tune_candidates expired attempt i rest st
      else if expired (tu_checks st) then Inr (st\<lparr>tu_checks := tu_checks st + 1\<rparr>)
      else
        let st' = st\<lparr>tu_checks := tu_checks st + 1, tu_seen := e # tu_seen st\<rparr>;
            label = ''round-'' @ str_nat i @ ''-'' @ name in
        (case attempt e of
           Inl x \<Rightarrow>
             if recoverable x
             then tune_candidates expired attempt i rest (st'\<lparr>tu_rejected := dict_set label (exn_message x) (tu_rejected st')\<rparr>)
             else Inl x
         | Inr rows \<Rightarrow>
             tune_candidates expired attempt i rest
               (st'\<lparr>tu_profiles := dict_set label e (tu_profiles st'),
                    tu_samples := tu_samples st' @ relabel label rows\<rparr>)))"

record tuned =
  td_environment :: env
  td_estimate :: estimate_row
  td_rejected :: "(string, string) dict"
  td_effective :: "pyval option"
  td_workload :: pyval
  td_world :: nat
  td_samples :: "measurement list"

text \<open>A round generates the candidates around the current winner, selects again over all samples and stops
  when the winner stays or time is over.\<close>

fun tune_rounds ::
  "(nat \<Rightarrow> bool) \<Rightarrow> (env \<Rightarrow> measurement list result) \<Rightarrow> (env \<Rightarrow> (string \<times> env) list result)
    \<Rightarrow> (measurement list \<Rightarrow> (estimate_row \<times> (string, string) dict) result)
    \<Rightarrow> nat list \<Rightarrow> env \<Rightarrow> estimate_row \<Rightarrow> tuning \<Rightarrow> (env \<times> estimate_row \<times> tuning) result" where
  "tune_rounds expired attempt candidates pick [] current winner st = Inr (current, winner, st)"
| "tune_rounds expired attempt candidates pick (i # rounds) current winner st =
     ebind (candidates current) (\<lambda>cands.
     ebind (tune_candidates expired attempt i cands st) (\<lambda>st'.
     ebind (pick (tu_samples st')) (\<lambda>(winner', statistical).
     ebind (dict_item (tu_profiles st') (e_profile winner')) (\<lambda>current'.
     let st2 = st'\<lparr>tu_rejected := dict_update (tu_rejected st') statistical\<rparr> in
     if e_profile winner' = e_profile winner then Inr (current', winner', st2)
     else if expired (tu_checks st2) then Inr (current', winner', st2\<lparr>tu_checks := tu_checks st2 + 1\<rparr>)
     else tune_rounds expired attempt candidates pick rounds current' winner'
            (st2\<lparr>tu_checks := tu_checks st2 + 1\<rparr>)))))"

definition tune_coordinates ::
  "resampler \<Rightarrow> (nat \<Rightarrow> bool) \<Rightarrow> admission \<Rightarrow> full_step \<Rightarrow> pyval \<Rightarrow> env \<Rightarrow> int \<Rightarrow> int \<Rightarrow> bool \<Rightarrow> tuned result" where
  "tune_coordinates resample expired admit full_step micro baseline max_outer rounds tune_outer =
     ebind (pipeline_candidates micro baseline max_outer tune_outer) (\<lambda>cands.
     let fixed = snd (hd cands); pick = select resample default_options (2 / 100) ''baseline'' in
     ebind (admit fixed) (\<lambda>plans.
     ebind (validate_rank_plans plans) (\<lambda>_.
     let effective = beam_of plans; world = length plans in
     ebind (full_step fixed plans) (\<lambda>rows.
     let samples = relabel ''baseline'' rows in
     if samples = [] \<or> \<not> list_all (\<lambda>r. length (m_seconds r) = world) samples
     then Inl (ValueError ''baseline measurement is missing ranks'')
     else
       let workload = m_parents (hd samples) in
       if \<not> list_all (\<lambda>r. m_parents r = workload) samples
       then Inl (ValueError ''baseline workload changed between repeats'')
       else
         ebind (pick samples) (\<lambda>(winner, rejected).
         ebind (tune_rounds expired (try_profile admit full_step effective workload world)
                  (\<lambda>current. pipeline_candidates micro current max_outer tune_outer) pick
                  [0..<nat rounds] fixed winner
                  \<lparr>tu_profiles = [(''baseline'', fixed)], tu_samples = samples, tu_rejected = rejected,
                   tu_seen = [fixed], tu_checks = 0\<rparr>) (\<lambda>(current, winner', st).
         Inr \<lparr>td_environment = current, td_estimate = winner', td_rejected = tu_rejected st,
              td_effective = effective, td_workload = workload, td_world = world, td_samples = tu_samples st\<rparr>))))))"

section \<open>The bounded shortlist\<close>

datatype tuning_call = Admitting env | Finishing | Measuring env

record shortlist_state =
  sl_profiles :: "(string \<times> env \<times> plan list) list"
  sl_rejected :: "(string, string) dict"
  sl_effective :: "pyval option"
  sl_checks :: nat

definition admit_exact :: "admission \<Rightarrow> pyval option \<Rightarrow> env \<Rightarrow> plan list result" where
  "admit_exact admit effective e =
     ebind (admit e) (\<lambda>plans.
     ebind (validate_rank_plans plans) (\<lambda>_.
     if effective \<noteq> None \<and> beam_of plans \<noteq> effective then Inl (ValueError ''candidate changes exact frontier'')
     else Inr plans))"

fun admit_shortlist ::
  "(nat \<Rightarrow> bool) \<Rightarrow> admission \<Rightarrow> string \<Rightarrow> (string \<times> env) list \<Rightarrow> shortlist_state \<Rightarrow> tuning_call list
    \<Rightarrow> shortlist_state result \<times> tuning_call list" where
  "admit_shortlist expired admit micro [] st calls = (Inr st, calls)"
| "admit_shortlist expired admit micro ((name, e) # rest) st calls =
     (if name \<in> fst ` set (sl_profiles st) then (Inl (ValueError ''duplicate profile name''), calls)
      else if map_of e ''BEAM_ENSEMBLE_INFERENCE_MICRO'' \<noteq> Some micro
      then (Inl (ValueError ''downstream cannot change measured inference microbatch''), calls)
      else if expired (sl_checks st) then (Inr (st\<lparr>sl_checks := sl_checks st + 1\<rparr>), calls)
      else
        let st' = st\<lparr>sl_checks := sl_checks st + 1\<rparr>; calls' = calls @ [Admitting e] in
        (case admit_exact admit (sl_effective st) e of
           Inl x \<Rightarrow>
             if recoverable x \<and> name \<noteq> ''baseline''
             then admit_shortlist expired admit micro rest
                    (st'\<lparr>sl_rejected := dict_set name (exn_message x) (sl_rejected st')\<rparr>) calls'
             else (Inl x, calls')
         | Inr plans \<Rightarrow>
             admit_shortlist expired admit micro rest
               (st'\<lparr>sl_profiles := sl_profiles st' @ [(name, e, plans)], sl_effective := beam_of plans\<rparr>) calls'))"

text \<open>The measured rows of one admitted profile must be for the exact effective beam and all ranks.\<close>

definition measure_exact :: "full_step \<Rightarrow> pyval \<Rightarrow> nat \<Rightarrow> env \<Rightarrow> plan list \<Rightarrow> measurement list result" where
  "measure_exact full_step effective world e plans =
     ebind (full_step e plans) (\<lambda>rows.
     if rows_match effective world rows then Inr rows
     else Inl (ValueError ''full-step measurement does not match admitted frontier/cohort''))"

fun measure_shortlist ::
  "(nat \<Rightarrow> bool) \<Rightarrow> (env \<Rightarrow> plan list \<Rightarrow> measurement list result) \<Rightarrow> (string \<times> env \<times> plan list) list \<Rightarrow> nat
    \<Rightarrow> measurement list \<Rightarrow> (string, string) dict \<Rightarrow> tuning_call list
    \<Rightarrow> (measurement list \<times> (string, string) dict) result \<times> tuning_call list" where
  "measure_shortlist expired timed [] checks samples rejected calls = (Inr (samples, rejected), calls)"
| "measure_shortlist expired timed ((name, e, plans) # rest) checks samples rejected calls =
     (if name \<noteq> ''baseline'' \<and> expired checks then (Inr (samples, rejected), calls)
      else
        let checks' = (if name \<noteq> ''baseline'' then checks + 1 else checks); calls' = calls @ [Measuring e] in
        (case timed e plans of
           Inl x \<Rightarrow>
             if recoverable x \<and> name \<noteq> ''baseline''
             then measure_shortlist expired timed rest checks' samples (dict_set name (exn_message x) rejected) calls'
             else (Inl x, calls')
         | Inr rows \<Rightarrow>
             measure_shortlist expired timed rest checks' (samples @ relabel name rows) rejected calls'))"

definition shortlist_result ::
  "resampler \<Rightarrow> shortlist_state \<Rightarrow> nat \<Rightarrow> measurement list \<Rightarrow> (string, string) dict \<Rightarrow> tuned result" where
  "shortlist_result resample st world samples rejected =
     ebind (select resample default_options (2 / 100) ''baseline'' samples) (\<lambda>(winner, statistical).
     ebind (dict_item (sl_profiles st) (e_profile winner)) (\<lambda>(e, _).
     Inr \<lparr>td_environment = e, td_estimate = winner, td_rejected = dict_update rejected statistical,
          td_effective = sl_effective st, td_workload = the (sl_effective st), td_world = world, td_samples = samples\<rparr>))"

text \<open>The second stage, after the planners were released.\<close>

definition measure_stage ::
  "resampler \<Rightarrow> (nat \<Rightarrow> bool) \<Rightarrow> full_step \<Rightarrow> shortlist_state \<Rightarrow> tuning_call list \<Rightarrow> tuned result \<times> tuning_call list" where
  "measure_stage resample expired full_step st calls =
     (case map_of (sl_profiles st) ''baseline'' of
        None \<Rightarrow> (Inl (ValueError ''no admitted baseline within calibration deadline''), calls)
      | Some (e, plans) \<Rightarrow>
          let world = length plans;
              (m, calls') = measure_shortlist expired (measure_exact full_step (the (sl_effective st)) world)
                (sl_profiles st) (sl_checks st) [] (sl_rejected st) calls in
          (ebind m (\<lambda>(samples, rejected). shortlist_result resample st world samples rejected), calls'))"

definition tune_shortlist ::
  "resampler \<Rightarrow> (nat \<Rightarrow> bool) \<Rightarrow> admission \<Rightarrow> full_step \<Rightarrow> string \<Rightarrow> env \<Rightarrow> (string \<times> env) list
    \<Rightarrow> tuned result \<times> tuning_call list" where
  "tune_shortlist resample expired admit full_step micro baseline candidates =
     (if length candidates > 2
      then (Inl (ValueError ''fast downstream search permits baseline plus two candidates''), [])
      else
        (case admit_shortlist expired admit micro ((''baseline'', baseline) # candidates)
                \<lparr>sl_profiles = [], sl_rejected = [], sl_effective = None, sl_checks = 0\<rparr> [] of
           (Inl x, calls) \<Rightarrow> (Inl x, calls @ [Finishing])
         | (Inr st, calls) \<Rightarrow> measure_stage resample expired full_step st (calls @ [Finishing])))"

definition tune_pipeline ::
  "resampler \<Rightarrow> (nat \<Rightarrow> bool) \<Rightarrow> admission \<Rightarrow> full_step \<Rightarrow> pyval \<Rightarrow> env \<Rightarrow> int \<Rightarrow> pyval \<Rightarrow> bool
    \<Rightarrow> (string \<times> env) list option \<Rightarrow> tuned result" where
  "tune_pipeline resample expired admit full_step micro baseline max_outer rounds tune_outer candidates =
     (if \<not> (is_int rounds \<and> 1 \<le> the_int rounds \<and> the_int rounds \<le> 4)
      then Inl (ValueError ''pipeline search rounds must be in [1,4]'')
      else case candidates of
        None \<Rightarrow> tune_coordinates resample expired admit full_step micro baseline max_outer (the_int rounds) tune_outer
      | Some cs \<Rightarrow> fst (tune_shortlist resample expired admit full_step (str_int (the_int micro)) baseline cs))"

section \<open>What a tuned profile guarantees\<close>

text \<open>A profile is comparable when it was admitted with the baseline's effective beam, kept the measured
  inference batch, and its samples were taken on the baseline's workload over all ranks.\<close>

definition comparable :: "admission \<Rightarrow> pyval option \<Rightarrow> string \<Rightarrow> env \<Rightarrow> bool" where
  "comparable admit effective micro e \<longleftrightarrow>
     (\<exists>plans. admit e = Inr plans \<and> validate_rank_plans plans = Inr () \<and> beam_of plans = effective)
     \<and> map_of e ''BEAM_ENSEMBLE_INFERENCE_MICRO'' = Some micro"

definition same_workload :: "pyval \<Rightarrow> nat \<Rightarrow> measurement list \<Rightarrow> bool" where
  "same_workload workload world samples \<longleftrightarrow>
     (\<forall>r \<in> set samples. m_parents r = workload \<and> length (m_seconds r) = world)"

definition tuning_ok :: "admission \<Rightarrow> pyval option \<Rightarrow> string \<Rightarrow> pyval \<Rightarrow> nat \<Rightarrow> tuning \<Rightarrow> bool" where
  "tuning_ok admit effective micro workload world st \<longleftrightarrow>
     (\<forall>(label, e) \<in> set (tu_profiles st). comparable admit effective micro e)
     \<and> same_workload workload world (tu_samples st)"

lemma same_workload_simps [simp]:
  "same_workload workload world []"
  "same_workload workload world (xs @ ys) \<longleftrightarrow> same_workload workload world xs \<and> same_workload workload world ys"
  "same_workload workload world (relabel label rows) \<longleftrightarrow> same_workload workload world rows"
  by (auto simp: same_workload_def relabel_def)

lemma rows_match_same: "rows_match workload world rows \<Longrightarrow> same_workload workload world rows"
  by (simp add: rows_match_def same_workload_def list_all_iff)

lemma try_profile_ok:
  assumes "try_profile admit full_step effective workload world e = Inr rows"
  shows "\<exists>plans. admit e = Inr plans \<and> validate_rank_plans plans = Inr () \<and> beam_of plans = effective"
    and "same_workload workload world rows"
  using assms by (auto simp: try_profile_def ebind_Inr_iff rows_match_same split: if_splits)

lemma tune_candidates_ok:
  assumes "tune_candidates expired (try_profile admit full_step effective workload world) i cands st = Inr st'"
    "tuning_ok admit effective micro workload world st"
    "\<forall>(name, e) \<in> set cands. map_of e ''BEAM_ENSEMBLE_INFERENCE_MICRO'' = Some micro"
  shows "tuning_ok admit effective micro workload world st'"
  using assms
proof (induction cands arbitrary: st)
  case (Cons c cands)
  obtain name e where c: "c = (name, e)" by (cases c)
  let ?attempt = "try_profile admit full_step effective workload world"
  let ?st = "st\<lparr>tu_checks := tu_checks st + 1, tu_seen := e # tu_seen st\<rparr>"
  let ?label = "''round-'' @ str_nat i @ ''-'' @ name"
  have rest: "\<forall>(name, e) \<in> set cands. map_of e ''BEAM_ENSEMBLE_INFERENCE_MICRO'' = Some micro"
    and e: "map_of e ''BEAM_ENSEMBLE_INFERENCE_MICRO'' = Some micro" using Cons.prems(3) c by auto
  note IH = Cons.IH [OF _ _ rest]
  consider (skip) "tune_candidates expired ?attempt i cands st = Inr st'"
    | (stop) "st' = st\<lparr>tu_checks := tu_checks st + 1\<rparr>"
    | (rejected) d where "tune_candidates expired ?attempt i cands (?st\<lparr>tu_rejected := d\<rparr>) = Inr st'"
    | (kept) rows where "?attempt e = Inr rows" "tune_candidates expired ?attempt i cands
          (?st\<lparr>tu_profiles := dict_set ?label e (tu_profiles ?st), tu_samples := tu_samples ?st @ relabel ?label rows\<rparr>) = Inr st'"
    using Cons.prems(1) c by (simp add: Let_def split: if_splits sum.splits)
  then show ?case
  proof cases
    case skip
    then show ?thesis using IH Cons.prems(2) by blast
  next
    case stop
    then show ?thesis using Cons.prems(2) by (simp add: tuning_ok_def)
  next
    case (rejected d)
    from IH [OF rejected] Cons.prems(2) show ?thesis by (simp add: tuning_ok_def)
  next
    case (kept rows)
    have "comparable admit effective micro e" using try_profile_ok(1) [OF kept(1)] e by (simp add: comparable_def)
    then have "tuning_ok admit effective micro workload world
        (?st\<lparr>tu_profiles := dict_set ?label e (tu_profiles ?st), tu_samples := tu_samples ?st @ relabel ?label rows\<rparr>)"
      using Cons.prems(2) try_profile_ok(2) [OF kept(1)] by (auto simp: tuning_ok_def dest!: dict_set_mem)
    from IH [OF kept(2) this] show ?thesis .
  qed
qed simp

lemma tune_rounds_ok:
  assumes "tune_rounds expired (try_profile admit full_step effective workload world)
      (\<lambda>current. pipeline_candidates m current max_outer tune_outer) pick rounds current winner st = Inr (current', winner', st')"
    "tuning_ok admit effective (str_int (the_int m)) workload world st"
    "comparable admit effective (str_int (the_int m)) current"
    "pick (tu_samples st) = Inr (winner, rej)"
  shows "tuning_ok admit effective (str_int (the_int m)) workload world st'
    \<and> comparable admit effective (str_int (the_int m)) current'
    \<and> (\<exists>rej. pick (tu_samples st') = Inr (winner', rej))"
  using assms
proof (induction rounds arbitrary: current winner st rej)
  case Nil
  then show ?case by auto
next
  case (Cons i rounds)
  let ?ok = "tuning_ok admit effective (str_int (the_int m)) workload world"
  let ?attempt = "try_profile admit full_step effective workload world"
  from Cons.prems(1) obtain cands st1 w statistical cur where
    cands: "pipeline_candidates m current max_outer tune_outer = Inr cands"
    and st1: "tune_candidates expired ?attempt i cands st = Inr st1"
    and w: "pick (tu_samples st1) = Inr (w, statistical)"
    and cur: "map_of (tu_profiles st1) (e_profile w) = Some cur"
    and go: "(let st2 = st1\<lparr>tu_rejected := dict_update (tu_rejected st1) statistical\<rparr> in
       if e_profile w = e_profile winner then Inr (cur, w, st2)
       else if expired (tu_checks st2) then Inr (cur, w, st2\<lparr>tu_checks := tu_checks st2 + 1\<rparr>)
       else tune_rounds expired ?attempt (\<lambda>current. pipeline_candidates m current max_outer tune_outer) pick rounds cur w
              (st2\<lparr>tu_checks := tu_checks st2 + 1\<rparr>)) = Inr (current', winner', st')"
    by (auto simp: ebind_Inr_iff dict_item_Inr_iff)
  have "\<forall>(name, e) \<in> set cands. map_of e ''BEAM_ENSEMBLE_INFERENCE_MICRO'' = Some (str_int (the_int m))"
    using pipeline_candidates_spec [OF cands] by auto
  with tune_candidates_ok [OF st1 Cons.prems(2)] have ok1: "?ok st1" by blast
  have c1: "comparable admit effective (str_int (the_int m)) cur"
    using ok1 map_of_SomeD [OF cur] by (auto simp: tuning_ok_def)
  have ok2: "?ok (st1\<lparr>tu_rejected := r, tu_checks := n\<rparr>)" "?ok (st1\<lparr>tu_rejected := r\<rparr>)" for r n
    using ok1 by (simp_all add: tuning_ok_def)
  show ?case
  proof (cases "e_profile w = e_profile winner \<or> expired (tu_checks st1)")
    case True
    then show ?thesis using go ok2 c1 w by (auto simp: Let_def split: if_splits)
  next
    case False
    with go have "tune_rounds expired ?attempt (\<lambda>current. pipeline_candidates m current max_outer tune_outer) pick rounds cur w
        (st1\<lparr>tu_rejected := dict_update (tu_rejected st1) statistical, tu_checks := tu_checks st1 + 1\<rparr>)
        = Inr (current', winner', st')" by (simp add: Let_def)
    from Cons.IH [OF this ok2(1) c1] w show ?thesis by simp
  qed
qed

text \<open>The coordinate search never trades correctness for speed: the environment it returns was admitted
  natively with valid plans and the baseline's effective beam, keeps the measured inference batch,
  all samples behind the decision were taken on one workload over all ranks, and the estimate it
  reports is the one the statistical selection over exactly these samples picks.\<close>
theorem tuned_profile_comparable:
  assumes "tune_pipeline resample expired admit full_step micro baseline max_outer rounds tune_outer None = Inr r"
  shows "comparable admit (td_effective r) (str_int (the_int micro)) (td_environment r)
    \<and> same_workload (td_workload r) (td_world r) (td_samples r)
    \<and> (\<exists>rejected. select resample default_options (2 / 100) ''baseline'' (td_samples r) = Inr (td_estimate r, rejected))"
proof -
  let ?m = "str_int (the_int micro)"
  from assms have run: "tune_coordinates resample expired admit full_step micro baseline max_outer (the_int rounds) tune_outer = Inr r"
    by (simp add: tune_pipeline_def split: if_splits)
  from run obtain cands where cands: "pipeline_candidates micro baseline max_outer tune_outer = Inr cands"
    by (auto simp: tune_coordinates_def ebind_Inr_iff)
  define fixed where "fixed = snd (hd cands)"
  from run cands obtain plans rows winner rej current st workload where
    plans: "admit fixed = Inr plans" "validate_rank_plans plans = Inr ()"
    and samples: "list_all (\<lambda>r. length (m_seconds r) = length plans) (relabel ''baseline'' rows)"
      "list_all (\<lambda>r. m_parents r = workload) (relabel ''baseline'' rows)"
    and win: "select resample default_options (2 / 100) ''baseline'' (relabel ''baseline'' rows) = Inr (winner, rej)"
    and rounds: "tune_rounds expired (try_profile admit full_step (beam_of plans) workload (length plans))
        (\<lambda>current. pipeline_candidates micro current max_outer tune_outer)
        (select resample default_options (2 / 100) ''baseline'') [0..<nat (the_int rounds)] fixed winner
        \<lparr>tu_profiles = [(''baseline'', fixed)], tu_samples = relabel ''baseline'' rows, tu_rejected = rej,
         tu_seen = [fixed], tu_checks = 0\<rparr> = Inr (current, td_estimate r, st)"
    and r: "td_environment r = current" "td_effective r = beam_of plans" "td_workload r = workload"
      "td_world r = length plans" "td_samples r = tu_samples st"
    by (auto simp: tune_coordinates_def ebind_Inr_iff Let_def fixed_def split: if_splits)
  from pipeline_candidates_spec [OF cands] have "map_of fixed ''BEAM_ENSEMBLE_INFERENCE_MICRO'' = Some ?m"
    by (auto simp: fixed_def)
  then have fixed: "comparable admit (beam_of plans) ?m fixed" using plans by (simp add: comparable_def)
  have "same_workload workload (length plans) (relabel ''baseline'' rows)"
    using samples by (simp add: same_workload_def list_all_iff)
  with fixed have ok0: "tuning_ok admit (beam_of plans) ?m workload (length plans)
      \<lparr>tu_profiles = [(''baseline'', fixed)], tu_samples = relabel ''baseline'' rows, tu_rejected = rej,
       tu_seen = [fixed], tu_checks = 0\<rparr>" by (simp add: tuning_ok_def)
  from tune_rounds_ok [OF rounds ok0 fixed, of rej] win r show ?thesis
    by (auto simp: tuning_ok_def)
qed

text \<open>A measured example: every profile costs the same, so the baseline stays.\<close>

definition steady_rows :: "measurement list" where
  "steady_rows = replicate 5 (sample ''x'' 1)"

lemma five: "replicate 5 x = [x, x, x, x, x]"
  by (simp add: eval_nat_numeral)

lemma relabel_steady: "relabel ''baseline'' steady_rows = replicate 5 (sample ''baseline'' 1)"
  by (simp add: relabel_def steady_rows_def sample_def)

lemma steady_select:
  assumes "0 \<le> thr" "thr < 1"
  shows "\<exists>w. select (\<lambda>vs _. vs) default_options thr ''baseline'' (replicate 5 (sample ''baseline'' 1)) = Inr (w, [])
     \<and> e_profile w = ''baseline''
     \<and> estimate (\<lambda>vs _. vs) default_options ''baseline'' (replicate 5 (sample ''baseline'' 1)) = Inr w"
proof -
  have est: "\<exists>w. estimate (\<lambda>vs _. vs) default_options ''baseline'' (replicate 5 (sample ''baseline'' 1)) = Inr w"
    unfolding five
    by (simp add: estimate_def Let_def default_options_def cohorts_def seconds_per_parent_def median_def sample_def)
  then obtain w where w: "estimate (\<lambda>vs _. vs) default_options ''baseline'' (replicate 5 (sample ''baseline'' 1)) = Inr w" ..
  have "filter (\<lambda>p. p \<noteq> ''baseline'') (sort_strings (remdups (map m_profile (replicate 5 (sample ''baseline'' 1))))) = []"
    by (simp add: sample_def five sort_strings_def)
  moreover have "length (cohorts (replicate 5 (sample ''baseline'' 1))) = 1"
    by (simp add: cohorts_def sample_def five)
  ultimately show ?thesis using w estimate_profile [OF w] assms by (simp add: select_def)
qed

lemma tuned_profile_comparable_witness:
  "\<exists>r. tune_pipeline (\<lambda>vs _. vs) (\<lambda>_. True) (\<lambda>_. Inr [lone_plan 100]) (\<lambda>_ _. Inr steady_rows) (PInt 64) [] 65536
       (PInt 1) False None = Inr r
     \<and> td_effective r = Some (PInt 100) \<and> same_workload (td_workload r) (td_world r) (td_samples r)"
proof -
  let ?run = "tune_pipeline (\<lambda>vs _. vs) (\<lambda>_. True) (\<lambda>_. Inr [lone_plan 100]) (\<lambda>_ _. Inr steady_rows) (PInt 64) [] 65536
       (PInt 1) False None"
  let ?steady = "replicate 5 (sample ''baseline'' 1)"
  obtain w where w: "select (\<lambda>vs _. vs) default_options (2 / 100) ''baseline'' ?steady = Inr (w, [])"
    "e_profile w = ''baseline''" using steady_select [of "2 / 100"] by auto
  have cands: "\<exists>cs. pipeline_candidates (PInt 64) e 65536 False = Inr ((''baseline'', fixed_env e) # cs)"
    if "map_of e ''BEAM_B_MICRO'' = None \<or> map_of e ''BEAM_B_MICRO'' = Some (str_int 64)"
      "fixed_env = (\<lambda>e. dict_set ''BEAM_B_MICRO'' (str_int 64) (dict_set ''BEAM_ENSEMBLE_INFERENCE_MICRO'' (str_int 64) e))"
    for e fixed_env
    using that by (auto simp: pipeline_candidates_def Let_def candidate_list_def add_candidate_def tunable_keys_def)
  define f where "f = (\<lambda>e :: env. dict_set ''BEAM_B_MICRO'' (str_int 64) (dict_set ''BEAM_ENSEMBLE_INFERENCE_MICRO'' (str_int 64) e))"
  obtain cs where cs: "pipeline_candidates (PInt 64) [] 65536 False = Inr ((''baseline'', f []) # cs)"
    using cands [of "[]" f] by (auto simp: f_def)
  obtain cs' where cs': "pipeline_candidates (PInt 64) (f []) 65536 False = Inr ((''baseline'', f (f [])) # cs')"
    using cands [of "f []" f] by (auto simp: f_def)
  have stop: "\<exists>st'. tune_candidates (\<lambda>_. True) attempt i cands st = Inr st' \<and> tu_profiles st' = tu_profiles st
      \<and> tu_samples st' = tu_samples st" for attempt i cands st
    by (induction cands arbitrary: st) auto
  have "\<exists>r. ?run = Inr r \<and> td_effective r = Some (PInt 100)"
  proof -
    have rows: "list_all (\<lambda>r. length (m_seconds r) = 1) ?steady" "list_all (\<lambda>r. m_parents r = PInt 100) ?steady"
      "?steady \<noteq> []" "m_parents (hd ?steady) = PInt 100" by (simp_all add: sample_def five)
    let ?st = "\<lparr>tu_profiles = [(''baseline'', f [])], tu_samples = ?steady, tu_rejected = [], tu_seen = [f []], tu_checks = 0\<rparr>"
    obtain st' where "tune_candidates (\<lambda>_. True) (try_profile (\<lambda>_. Inr [lone_plan 100]) (\<lambda>_ _. Inr steady_rows)
        (beam_of [lone_plan 100]) (PInt 100) 1) 0 ((''baseline'', f (f [])) # cs') ?st = Inr st'"
      "tu_profiles st' = tu_profiles ?st" "tu_samples st' = tu_samples ?st" using stop by blast
    moreover have "beam_of [lone_plan 100] = Some (PInt 100)" by (simp add: beam_of_def lone_plan_def)
    ultimately show ?thesis using w cs cs' rows
      by (simp add: tune_pipeline_def tune_coordinates_def validate_lone_plan relabel_steady Let_def dict_item_def
          del: tune_candidates.simps)
  qed
  then obtain r where run: "?run = Inr r" "td_effective r = Some (PInt 100)" by blast
  from tuned_profile_comparable [OF run(1)] run show ?thesis by blast
qed

section \<open>The order of the calls of the bounded search\<close>

lemma admit_shortlist_calls:
  assumes "admit_shortlist expired admit micro cands st calls = (r, calls')"
  shows "\<exists>es. calls' = calls @ map Admitting es \<and> set es \<subseteq> snd ` set cands \<and> length es \<le> length cands
    \<and> (\<forall>e \<in> set es. map_of e ''BEAM_ENSEMBLE_INFERENCE_MICRO'' = Some micro)
    \<and> (\<forall>st'. r = Inr st' \<longrightarrow> (\<forall>(name, e, plans) \<in> set (sl_profiles st') - set (sl_profiles st). e \<in> set es \<and> admit e = Inr plans))"
  using assms
proof (induction cands arbitrary: st calls)
  case (Cons c cands)
  obtain name e where c: "c = (name, e)" by (cases c)
  let ?st = "st\<lparr>sl_checks := sl_checks st + 1\<rparr>"
  consider (stop) "calls' = calls" "\<forall>st'. r = Inr st' \<longrightarrow> sl_profiles st' = sl_profiles st"
    | (failed) x where "r = Inl x" "calls' = calls @ [Admitting e]"
        "map_of e ''BEAM_ENSEMBLE_INFERENCE_MICRO'' = Some micro"
    | (rejected) d where "map_of e ''BEAM_ENSEMBLE_INFERENCE_MICRO'' = Some micro"
        "admit_shortlist expired admit micro cands (?st\<lparr>sl_rejected := d\<rparr>) (calls @ [Admitting e]) = (r, calls')"
    | (kept) plans where "map_of e ''BEAM_ENSEMBLE_INFERENCE_MICRO'' = Some micro" "admit e = Inr plans"
        "admit_shortlist expired admit micro cands
           (?st\<lparr>sl_profiles := sl_profiles ?st @ [(name, e, plans)], sl_effective := beam_of plans\<rparr>) (calls @ [Admitting e]) = (r, calls')"
  proof (cases "name \<in> fst ` set (sl_profiles st) \<or> map_of e ''BEAM_ENSEMBLE_INFERENCE_MICRO'' \<noteq> Some micro \<or> expired (sl_checks st)")
    case True
    then show thesis using Cons.prems c that(1) by (auto split: if_splits)
  next
    case False
    show thesis
    proof (cases "admit_exact admit (sl_effective st) e")
      case (Inl x)
      show thesis
      proof (cases "recoverable x \<and> name \<noteq> ''baseline''")
        case True
        then show thesis using Inl Cons.prems c False that(3) [of "dict_set name (exn_message x) (sl_rejected st)"]
          by (simp add: Let_def)
      next
        case fatal: False
        have "(Inl x, calls @ [Admitting e]) = (r, calls')"
          using Cons.prems fatal Inl c False by (simp only: admit_shortlist.simps Let_def) (simp split: if_splits)
        then show thesis using that(2) False by auto
      qed
    next
      case (Inr plans)
      then have "admit e = Inr plans" by (auto simp: admit_exact_def ebind_Inr_iff split: if_splits)
      then show thesis using Inr Cons.prems c False that(4) by (simp add: Let_def)
    qed
  qed
  then show ?case
  proof cases
    case stop
    have "\<forall>(name, e, plans) \<in> set (sl_profiles st') - set (sl_profiles st). e \<in> set [] \<and> admit e = Inr plans"
      if "r = Inr st'" for st'
    proof -
      have "sl_profiles st' = sl_profiles st" using stop(2) that by blast
      then show ?thesis by simp
    qed
    then show ?thesis using stop(1) by (intro exI [of _ "[]"]) simp
  next
    case failed
    then show ?thesis using c by (intro exI [of _ "[e]"]) auto
  next
    case (rejected d)
    from Cons.IH [OF rejected(2)] obtain es where "calls' = (calls @ [Admitting e]) @ map Admitting es"
      "set es \<subseteq> snd ` set cands" "length es \<le> length cands"
      "\<forall>e \<in> set es. map_of e ''BEAM_ENSEMBLE_INFERENCE_MICRO'' = Some micro"
      "\<forall>st'. r = Inr st' \<longrightarrow> (\<forall>(name, e, plans) \<in> set (sl_profiles st') - set (sl_profiles st). e \<in> set es \<and> admit e = Inr plans)"
      by auto
    then show ?thesis using c rejected(1) by (intro exI [of _ "e # es"]) fastforce
  next
    case (kept plans)
    from Cons.IH [OF kept(3)] obtain es where "calls' = (calls @ [Admitting e]) @ map Admitting es"
      "set es \<subseteq> snd ` set cands" "length es \<le> length cands"
      "\<forall>e \<in> set es. map_of e ''BEAM_ENSEMBLE_INFERENCE_MICRO'' = Some micro"
      "\<forall>st'. r = Inr st' \<longrightarrow> (\<forall>(name', e', plans') \<in> set (sl_profiles st') - (set (sl_profiles st) \<union> {(name, e, plans)}).
         e' \<in> set es \<and> admit e' = Inr plans')"
      by auto
    then show ?thesis using c kept(1,2) by (intro exI [of _ "e # es"]) fastforce
  qed
qed (intro exI [of _ "[]"], auto)

lemma measure_shortlist_calls:
  assumes "measure_shortlist expired timed profiles checks samples rejected calls = (r, calls')"
  shows "\<exists>es. calls' = calls @ map Measuring es \<and> set es \<subseteq> (fst \<circ> snd) ` set profiles"
  using assms
proof (induction profiles arbitrary: checks samples rejected calls)
  case (Cons p profiles)
  obtain name e plans where p: "p = (name, e, plans)" by (cases p) auto
  consider "calls' = calls" | "calls' = calls @ [Measuring e]"
    | c s d where "measure_shortlist expired timed profiles c s d (calls @ [Measuring e]) = (r, calls')"
    using Cons.prems p by (auto simp: Let_def split: if_splits sum.splits)
  then show ?case
  proof cases
    case 1
    then show ?thesis by (intro exI [of _ "[]"]) simp
  next
    case 2
    then show ?thesis using p by (intro exI [of _ "[e]"]) simp
  next
    case (3 c s d)
    from Cons.IH [OF 3] obtain es where "calls' = (calls @ [Measuring e]) @ map Measuring es"
      "set es \<subseteq> (fst \<circ> snd) ` set profiles" by blast
    then show ?thesis using p by (intro exI [of _ "e # es"]) auto
  qed
qed simp

lemma measure_stage_calls:
  assumes "measure_stage resample expired full_step st calls = (r, calls')"
  shows "\<exists>es. calls' = calls @ map Measuring es \<and> set es \<subseteq> (fst \<circ> snd) ` set (sl_profiles st)"
proof (cases "map_of (sl_profiles st) ''baseline''")
  case None
  then show ?thesis using assms by (intro exI [of _ "[]"]) (simp add: measure_stage_def)
next
  case (Some p)
  obtain m calls2 where m: "measure_shortlist expired (measure_exact full_step (the (sl_effective st)) (length (snd p)))
      (sl_profiles st) (sl_checks st) [] (sl_rejected st) calls = (m, calls2)" by fastforce
  then have "calls' = calls2" using assms Some by (cases p) (simp add: measure_stage_def)
  then show ?thesis using measure_shortlist_calls [OF m] by simp
qed

text \<open>The bounded search releases the planners before it measures, on every path: its calls are at most
  three admissions, all with the measured inference batch, then exactly one release of the
  planners, then only measurements, and only profiles that the planner admitted are measured.\<close>
theorem shortlist_call_order:
  assumes "tune_shortlist resample expired admit full_step micro baseline candidates = (r, calls)"
    "length candidates \<le> 2"
  shows "\<exists>tried timed. calls = map Admitting tried @ [Finishing] @ map Measuring timed
    \<and> length tried \<le> 3
    \<and> (\<forall>e \<in> set tried. map_of e ''BEAM_ENSEMBLE_INFERENCE_MICRO'' = Some micro)
    \<and> set timed \<subseteq> {e \<in> set tried. \<exists>plans. admit e = Inr plans}"
proof -
  let ?st = "\<lparr>sl_profiles = [], sl_rejected = [], sl_effective = None, sl_checks = 0\<rparr> :: shortlist_state"
  let ?admit = "admit_shortlist expired admit micro ((''baseline'', baseline) # candidates) ?st []"
  obtain q c1 where q: "?admit = (q, c1)" by (cases "?admit")
  from admit_shortlist_calls [OF q] obtain tried where tried: "c1 = map Admitting tried"
    "length tried \<le> length candidates + 1"
    "\<forall>e \<in> set tried. map_of e ''BEAM_ENSEMBLE_INFERENCE_MICRO'' = Some micro"
    "\<forall>st'. q = Inr st' \<longrightarrow> (\<forall>(name, e, plans) \<in> set (sl_profiles st'). e \<in> set tried \<and> admit e = Inr plans)"
    by auto
  show ?thesis
  proof (cases q)
    case (Inl x)
    then have "calls = c1 @ [Finishing]" using assms q by (simp add: tune_shortlist_def)
    then show ?thesis using tried assms(2) by (intro exI [of _ tried] exI [of _ "[]"]) simp
  next
    case (Inr st)
    with assms q have "measure_stage resample expired full_step st (c1 @ [Finishing]) = (r, calls)"
      by (simp add: tune_shortlist_def)
    from measure_stage_calls [OF this] obtain es where
      "calls = c1 @ [Finishing] @ map Measuring es" "set es \<subseteq> (fst \<circ> snd) ` set (sl_profiles st)" by auto
    moreover from this(2) tried(4) Inr have "set es \<subseteq> {e \<in> set tried. \<exists>plans. admit e = Inr plans}" by fastforce
    ultimately show ?thesis using tried assms(2) by (intro exI [of _ tried] exI [of _ es]) simp
  qed
qed

lemma shortlist_call_order_witness:
  "\<exists>r. tune_shortlist (\<lambda>vs _. vs) (\<lambda>_. True) (\<lambda>_. Inr [lone_plan 100]) (\<lambda>_ _. Inr steady_rows) ''64''
      [(''BEAM_ENSEMBLE_INFERENCE_MICRO'', ''64'')] [] = (r, [Finishing])
    \<and> (\<exists>tried timed. [Finishing] = map Admitting tried @ [Finishing] @ map Measuring timed \<and> length tried \<le> 3)"
proof -
  let ?run = "tune_shortlist (\<lambda>vs _. vs) (\<lambda>_. True) (\<lambda>_. Inr [lone_plan 100]) (\<lambda>_ _. Inr steady_rows) ''64''
      [(''BEAM_ENSEMBLE_INFERENCE_MICRO'', ''64'')] []"
  have "\<exists>r. ?run = (r, [Finishing])" by (simp add: tune_shortlist_def measure_stage_def)
  then obtain r where run: "?run = (r, [Finishing])" ..
  have "length ([] :: (string \<times> env) list) \<le> 2" by simp
  from shortlist_call_order [OF run this] run show ?thesis by blast
qed

end
