(* ===== verification/Components.thy ===== *)
theory Components
  imports Proposals Tuning
begin

text \<open>
  The component tuner (\<open>component_autotune.py\<close>): the service envelope of a profile from isolated stage
  timings, the batch and staging depth derived from arrival and service rates, and the selection among
  profiles that the native planner admits for the exact frontier. Component measurements, the planner
  and the clock are parameters; timings are exact rationals.
\<close>

section \<open>Stage timings\<close>

record transport_probe =
  tp_items :: int
  tp_seconds :: "rat list"

record component_row =
  co_outer :: int
  co_capacity :: int
  co_jobs :: int
  co_stream3 :: "rat list"
  co_stream4 :: "rat list"
  co_union :: "rat list"
  co_transport :: "transport_probe list"

text \<open>Python's failure cases: the median of no data, subscripts out of range, division by zero.\<close>

definition py_median :: "rat list \<Rightarrow> rat result" where
  "py_median xs = (if xs = [] then Inl (ValueError ''no median for empty data'') else Inr (median xs))"

definition py_nth :: "'a list \<Rightarrow> nat \<Rightarrow> 'a result" where
  "py_nth xs i = (if i < length xs then Inr (xs ! i) else Inl IndexError)"

definition py_last :: "'a list \<Rightarrow> 'a result" where
  "py_last xs = (if xs = [] then Inl IndexError else Inr (last xs))"

definition py_div :: "rat \<Rightarrow> rat \<Rightarrow> rat result" where
  "py_div a b = (if b = 0 then Inl ZeroDivisionError else Inr (a / b))"

definition ceil_ratio :: "rat \<Rightarrow> rat \<Rightarrow> int result" where
  "ceil_ratio a b = ebind (py_div a b) (\<lambda>q. Inr \<lceil>q\<rceil>)"

definition py_max :: "rat list \<Rightarrow> rat result" where
  "py_max xs = (if xs = [] then Inl (ValueError ''max() iterable argument is empty'') else Inr (Max (set xs)))"

definition plan_item :: "plan \<Rightarrow> string \<Rightarrow> int result" where
  "plan_item p key = ebind (dict_item p key) (\<lambda>v. case v of PInt i \<Rightarrow> Inr i | _ \<Rightarrow> Inl (TypeError key))"

section \<open>The service envelope\<close>

record service_envelope =
  sv_envelope :: rat
  sv_work :: rat
  sv_downstream :: rat
  sv_inference :: rat
  sv_stream3 :: rat
  sv_stream4 :: rat
  sv_transport :: rat
  sv_union :: rat

text \<open>The slowest rank's median of one stage.\<close>

definition slow :: "component_row list \<Rightarrow> (component_row \<Rightarrow> rat list) \<Rightarrow> rat result" where
  "slow rows stage = ebind (emap (\<lambda>r. py_median (stage r)) rows) py_max"

definition transport_seconds :: "int \<Rightarrow> component_row list \<Rightarrow> rat result" where
  "transport_seconds gross rows =
     (case rows of
        [] \<Rightarrow> Inl IndexError
      | first # _ \<Rightarrow>
          if co_transport first = [] then Inr 0
          else ebind (emap (\<lambda>r. ebind (py_last (co_transport r)) (\<lambda>t.
                 ebind (ceil_ratio (of_int gross) (of_int (tp_items t))) (\<lambda>n.
                 ebind (py_median (tp_seconds t)) (\<lambda>s. Inr (of_int n * s))))) rows) py_max)"

definition service_envelope_of ::
  "component_row list \<Rightarrow> plan \<Rightarrow> int \<Rightarrow> rat \<Rightarrow> service_envelope result" where
  "service_envelope_of rows plan move_total inference_seconds =
     ebind (plan_item plan ''frontier_state_capacity'') (\<lambda>n.
     ebind (py_nth rows 0) (\<lambda>first.
     ebind (plan_item plan ''WORLD_SIZE'') (\<lambda>world.
     let gross = n * move_total; t1 = of_int n * of_int world * inference_seconds in
     ebind (ceil_ratio (of_int gross) (of_int (co_outer first))) (\<lambda>batches.
     ebind (slow rows co_stream3) (\<lambda>s3.
     ebind (plan_item plan ''STREAM4_BATCH_CANDIDATES'') (\<lambda>flush.
     ebind (plan_item plan ''SHARD_COUNT'') (\<lambda>shards.
     ebind (ceil_ratio (of_int gross) (of_int shards)) (\<lambda>per_shard.
     ebind (ceil_ratio (of_int per_shard) (of_int (min flush (co_capacity first)))) (\<lambda>sorts.
     ebind (ceil_ratio (of_int (shards * sorts)) (of_int (co_jobs first))) (\<lambda>groups.
     ebind (slow rows co_stream4) (\<lambda>s4.
     ebind (transport_seconds gross rows) (\<lambda>transport.
     ebind (slow rows co_union) (\<lambda>su.
     let t3 = of_int batches * s3; t4 = of_int groups * s4; u = of_int shards * su in
     Inr \<lparr>sv_envelope = max (max t1 t3) (max t4 transport) + u, sv_work = t1 + t3 + t4 + transport + u,
          sv_downstream = t3 + t4 + transport + u, sv_inference = t1, sv_stream3 = t3, sv_stream4 = t4,
          sv_transport = transport, sv_union = u\<rparr>)))))))))))))"

section \<open>Arrival and service bounds\<close>

definition fifth :: "rat list \<Rightarrow> rat result" where
  "fifth xs = py_nth (sort xs) 4"

definition release_latency :: "component_row list \<Rightarrow> rat result" where
  "release_latency rows =
     ebind (emap (\<lambda>r. ebind (fifth (co_stream3 r)) (\<lambda>a.
        if co_transport r = [] then Inr a
        else ebind (fifth (tp_seconds (last (co_transport r)))) (\<lambda>b. Inr (a + b)))) rows) py_max"

definition service_geometry ::
  "component_row list \<Rightarrow> plan \<Rightarrow> int \<Rightarrow> rat \<Rightarrow> int \<Rightarrow> (string \<times> string) list result" where
  "service_geometry rows plan move_total median_seconds parent_batch =
     ebind (plan_item plan ''WORLD_SIZE'') (\<lambda>world.
     ebind (py_div (of_int move_total) (median_seconds * of_int world)) (\<lambda>arrival.
     ebind (ebind (emap (\<lambda>r. ebind (py_median (co_stream4 r)) (\<lambda>s. py_div s (of_int (co_jobs r)))) rows) py_max) (\<lambda>sort_seconds.
     ebind (plan_item plan ''frontier_state_capacity'') (\<lambda>n.
     ebind (plan_item plan ''SHARD_COUNT'') (\<lambda>shards.
     ebind (ceil_ratio (of_int (n * move_total)) (of_int shards * 4)) (\<lambda>native_floor.
     ebind (plan_item plan ''SHARD_CAPACITY_CANDIDATES'') (\<lambda>capacity.
     ebind (plan_item plan ''STREAM4_BATCH_ALIGNMENT'') (\<lambda>al.
     if al = 0 then Inl ZeroDivisionError
     else
       let desired = min (min capacity native_floor) (max 1 \<lceil>arrival * sort_seconds / (8 / 10)\<rceil>);
           trigger = round_up desired al in
       ebind (release_latency rows) (\<lambda>release.
       ebind (staging_from_release_latency (Fin release) (Fin (of_int parent_batch * of_int world * median_seconds))) (\<lambda>staging.
       Inr [(''BEAM_STREAM4_BATCH_CANDIDATES'', str_int trigger),
            (''BEAM_STREAM3_RING_SLOTS'', str_int (min 8 staging))]))))))))))"

section \<open>Tuning\<close>

datatype trial =
    Tried string env "plan list" "component_row list" service_envelope
  | Refused string string

fun trial_name :: "trial \<Rightarrow> string" where
  "trial_name (Tried name _ _ _ _) = name"
| "trial_name (Refused name _) = name"

text \<open>One sample per repetition: every stage reduced to its value in that repetition.\<close>

definition repetition :: "nat \<Rightarrow> component_row \<Rightarrow> component_row result" where
  "repetition i r =
     ebind (py_nth (co_stream3 r) i) (\<lambda>a.
     ebind (py_nth (co_stream4 r) i) (\<lambda>b.
     ebind (py_nth (co_union r) i) (\<lambda>c.
     ebind (emap (\<lambda>t. ebind (py_nth (tp_seconds t) i) (\<lambda>s. Inr (t\<lparr>tp_seconds := [s]\<rparr>))) (co_transport r)) (\<lambda>ts.
     Inr (r\<lparr>co_stream3 := [a], co_stream4 := [b], co_union := [c], co_transport := ts\<rparr>)))))"

definition component_samples ::
  "string \<Rightarrow> pyval \<Rightarrow> component_row list \<Rightarrow> plan \<Rightarrow> int \<Rightarrow> rat \<Rightarrow> measurement list result" where
  "component_samples name beam rows plan move_total inference_seconds =
     emap (\<lambda>i. ebind (emap (repetition i) rows) (\<lambda>cohort.
               ebind (service_envelope_of cohort plan move_total inference_seconds) (\<lambda>v.
               Inr \<lparr>m_profile = name, m_parents = beam, m_seconds = [Fin (sv_downstream v)], m_correct = True,
                    m_admitted = True, m_throttled = False\<rparr>))) [0, 1, 2, 3, 4]"

definition bulk_batch :: "plan \<Rightarrow> int \<Rightarrow> int result" where
  "bulk_batch plan move_total =
     ebind (plan_item plan ''SHARD_CAPACITY_CANDIDATES'') (\<lambda>capacity.
     ebind (plan_item plan ''frontier_state_capacity'') (\<lambda>n.
     ebind (plan_item plan ''SHARD_COUNT'') (\<lambda>shards.
     ebind (ceil_ratio (of_int (n * move_total)) (of_int shards * 4)) (\<lambda>quarter.
     ebind (plan_item plan ''STREAM4_BATCH_ALIGNMENT'') (\<lambda>al.
     if al = 0 then Inl ZeroDivisionError else Inr (round_up (min capacity quarter) al))))))"

definition alternative_lanes :: "int \<Rightarrow> int \<Rightarrow> int" where
  "alternative_lanes shards lanes = (if lanes = 1 then min shards (lanes * 2) else max 1 (lanes div 2))"

text \<open>The profiles that the baseline measurement suggests.\<close>

definition baseline_proposals ::
  "env \<Rightarrow> (string \<times> env) list \<Rightarrow> (string \<times> string) list \<Rightarrow> plan \<Rightarrow> int \<Rightarrow> (string \<times> env) list result" where
  "baseline_proposals baseline candidates proposal plan move_total =
     ebind (dict_item proposal ''BEAM_STREAM4_BATCH_CANDIDATES'') (\<lambda>batch.
     ebind (dict_item proposal ''BEAM_STREAM3_RING_SLOTS'') (\<lambda>slots.
     ebind (bulk_batch plan move_total) (\<lambda>bulk.
     ebind (py_int batch) (\<lambda>batch_size.
     ebind (dict_item baseline ''BEAM_STREAM3_RING_SLOTS'') (\<lambda>old_slots.
     ebind (env_int baseline ''BEAM_B_MICRO'') (\<lambda>outer.
     ebind (plan_item plan ''frontier_state_capacity'') (\<lambda>n.
     ebind (if outer * 2 \<le> n then py_int old_slots else Inr 0) (\<lambda>staging.
     ebind (env_int baseline ''BEAM_STREAM4_ACTIVE_SORT_SLOTS'') (\<lambda>lanes.
     ebind (plan_item plan ''SHARD_COUNT'') (\<lambda>shards.
     let alternative = alternative_lanes shards lanes in
     Inr ([(''service-batch'', dict_set ''BEAM_STREAM4_BATCH_CANDIDATES'' batch baseline)]
       @ (if bulk > batch_size then [(''throughput-batch'', dict_set ''BEAM_STREAM4_BATCH_CANDIDATES'' (str_int bulk) baseline)] else [])
       @ (case candidates of
            (name, e) # _ \<Rightarrow> [(name, dict_update e proposal)]
          | [] \<Rightarrow> [(''service-staging'', dict_update baseline proposal)])
       @ (if slots \<noteq> old_slots then [(''staging-only'', dict_set ''BEAM_STREAM3_RING_SLOTS'' slots baseline)] else [])
       @ (if outer * 2 \<le> n
          then [(''outer-double'', dict_set ''BEAM_STREAM3_RING_SLOTS'' (str_int (max 2 ((staging + 1) div 2)))
                                    (dict_set ''BEAM_B_MICRO'' (str_int (outer * 2)) baseline))] else [])
       @ (if alternative \<noteq> lanes
          then [(''sort-lanes-'' @ str_int alternative,
                 dict_set ''BEAM_STREAM4_ACTIVE_SORT_SLOTS'' (str_int alternative) baseline)] else []))))))))))))"

text \<open>Admission of the proposals: only plans with the exact effective beam are kept; refusals are recorded.\<close>

fun admit_proposals ::
  "(env \<Rightarrow> plan list result) \<Rightarrow> pyval option \<Rightarrow> (string \<times> env) list
    \<Rightarrow> (string \<times> env \<times> plan list) list \<Rightarrow> trial list \<Rightarrow> ((string \<times> env \<times> plan list) list \<times> trial list) result" where
  "admit_proposals admit beam [] admitted tested = Inr (admitted, tested)"
| "admit_proposals admit beam ((name, e) # rest) admitted tested =
     (case ebind (admit e) (\<lambda>plans. if plans = [] then Inl IndexError
             else ebind (dict_item (hd plans) ''GLOBAL_BEAM_WIDTH_EFFECTIVE'') (\<lambda>v. Inr (plans, Some v = beam))) of
        Inl x \<Rightarrow>
          if is_value_error x then admit_proposals admit beam rest admitted (tested @ [Refused name (exn_message x)])
          else Inl x
      | Inr (plans, same) \<Rightarrow>
          admit_proposals admit beam rest (if same then admitted @ [(name, e, plans)] else admitted) tested)"

record component_tuning =
  ct_tested :: "trial list"
  ct_samples :: "measurement list"
  ct_admitted :: "(string \<times> env \<times> plan list) list"

text \<open>Timings vary, so the probe also takes the number of the measurement.\<close>

type_synonym component_probe = "nat \<Rightarrow> env \<Rightarrow> plan list \<Rightarrow> component_row list result"

definition try_component ::
  "component_probe \<Rightarrow> int \<Rightarrow> rat \<Rightarrow> pyval \<Rightarrow> nat \<Rightarrow> string \<times> env \<times> plan list
    \<Rightarrow> (component_row list \<times> service_envelope \<times> measurement list) result" where
  "try_component probe move_total inference_seconds beam n p =
     (let (name, e, target) = p in
      ebind (probe n e target) (\<lambda>rows.
      ebind (py_nth target 0) (\<lambda>plan.
      ebind (service_envelope_of rows plan move_total inference_seconds) (\<lambda>v.
      ebind (component_samples name beam rows plan move_total inference_seconds) (\<lambda>samples.
      Inr (rows, v, samples))))))"

text \<open>The admitted challengers, until time is over.\<close>

fun try_components ::
  "(nat \<Rightarrow> bool) \<Rightarrow> (nat \<Rightarrow> string \<times> env \<times> plan list \<Rightarrow> (component_row list \<times> service_envelope \<times> measurement list) result)
    \<Rightarrow> nat \<Rightarrow> (string \<times> env \<times> plan list) list \<Rightarrow> trial list \<Rightarrow> measurement list
    \<Rightarrow> (trial list \<times> measurement list) result" where
  "try_components expired attempt n [] tested samples = Inr (tested, samples)"
| "try_components expired attempt n ((name, e, target) # rest) tested samples =
     (if expired n then Inr (tested, samples)
      else
        (case attempt n (name, e, target) of
           Inl x \<Rightarrow>
             if is_value_error x
             then try_components expired attempt (n + 1) rest (tested @ [Refused name (exn_message x)]) samples
             else Inl x
         | Inr (rows, v, new) \<Rightarrow>
             try_components expired attempt (n + 1) rest (tested @ [Tried name e target rows v]) (samples @ new)))"

definition unstable :: "exn \<Rightarrow> bool" where
  "unstable e = (e = ValueError ''unstable timing samples'')"

record component_choice =
  cc_environment :: env
  cc_name :: string
  cc_beam :: pyval
  cc_tested :: "trial list"
  cc_estimate :: service_envelope
  cc_rejected :: "(string, string) dict"
  cc_retried :: bool

definition tried_named :: "string \<Rightarrow> trial list \<Rightarrow> trial option" where
  "tried_named name tested =
     (case filter (\<lambda>t. case t of Tried n _ _ _ _ \<Rightarrow> n = name | Refused _ _ \<Rightarrow> False) tested of
        [] \<Rightarrow> None | t # _ \<Rightarrow> Some t)"

fun replace_baseline :: "component_row list \<Rightarrow> service_envelope \<Rightarrow> trial list \<Rightarrow> trial list" where
  "replace_baseline rows v [] = []"
| "replace_baseline rows v (t # ts) =
     (if trial_name t = ''baseline''
      then (case t of Tried n e p _ _ \<Rightarrow> Tried n e p rows v | Refused n m \<Rightarrow> Refused n m) # ts
      else t # replace_baseline rows v ts)"

text \<open>An unstable baseline is measured once more; a second failure ends the calibration.\<close>

definition steady_baseline ::
  "resampler \<Rightarrow> bool \<Rightarrow> (string \<times> env \<times> plan list \<Rightarrow> (component_row list \<times> service_envelope \<times> measurement list) result)
    \<Rightarrow> trial list \<Rightarrow> measurement list \<Rightarrow> (trial list \<times> measurement list \<times> bool) result" where
  "steady_baseline resample late attempt tested samples =
     (case estimate resample default_options ''baseline'' samples of
        Inr _ \<Rightarrow> Inr (tested, samples, False)
      | Inl x \<Rightarrow>
          if \<not> unstable x then Inl x
          else if late then Inl (ValueError ''baseline component calibration unstable; retry skipped'')
          else (case tried_named ''baseline'' tested of
                  Some (Tried name e plans _ _) \<Rightarrow>
                    ebind (attempt (name, e, plans)) (\<lambda>(rows, v, again).
                    ebind (estimate resample default_options ''baseline'' again) (\<lambda>_.
                    Inr (replace_baseline rows v tested,
                         filter (\<lambda>m. m_profile m \<noteq> ''baseline'') samples @ again, True)))
                | _ \<Rightarrow> Inl (ValueError ''no baseline receipt is available for retry'')))"

definition component_result ::
  "pyval \<Rightarrow> trial list \<Rightarrow> string \<Rightarrow> (string, string) dict \<Rightarrow> bool \<Rightarrow> component_choice result" where
  "component_result beam tested winner rejected retried =
     (case tried_named winner tested of
        Some (Tried name e _ _ est) \<Rightarrow>
          Inr \<lparr>cc_environment = e, cc_name = name, cc_beam = beam, cc_tested = tested, cc_estimate = est,
               cc_rejected = rejected, cc_retried = retried\<rparr>
      | _ \<Rightarrow> Inl StopIteration)"

definition tune_components ::
  "resampler \<Rightarrow> (nat \<Rightarrow> bool) \<Rightarrow> component_probe \<Rightarrow> (env \<Rightarrow> plan list result)
    \<Rightarrow> (component_row list \<Rightarrow> plan \<Rightarrow> (string \<times> string) list \<Rightarrow> (string \<times> env) list result) option
    \<Rightarrow> plan list \<Rightarrow> env \<Rightarrow> (string \<times> env) list \<Rightarrow> int \<Rightarrow> rat \<Rightarrow> int \<Rightarrow> component_choice result" where
  "tune_components resample expired probe admit factory plans baseline candidates move_total median_seconds parent_batch =
     ebind (py_nth plans 0) (\<lambda>plan.
     ebind (dict_item plan ''GLOBAL_BEAM_WIDTH_EFFECTIVE'') (\<lambda>beam.
     if expired 0 then Inl (ValueError ''no verified component profile'')
     else
       let attempt = try_component probe move_total median_seconds beam in
       ebind (probe 0 baseline plans) (\<lambda>rows.
       ebind (service_envelope_of rows plan move_total median_seconds) (\<lambda>v.
       ebind (service_geometry rows plan move_total median_seconds parent_batch) (\<lambda>proposal.
       ebind (baseline_proposals baseline candidates proposal plan move_total) (\<lambda>default_proposals.
       ebind (case factory of Some f \<Rightarrow> f rows plan proposal | None \<Rightarrow> Inr default_proposals) (\<lambda>proposed.
       ebind (admit_proposals admit (Some beam) proposed [] [Tried ''baseline'' baseline plans rows v]) (\<lambda>(admitted, tested).
       ebind (component_samples ''baseline'' beam rows plan move_total median_seconds) (\<lambda>samples.
       ebind (try_components expired attempt 1 admitted tested samples) (\<lambda>(tested', samples').
       ebind (steady_baseline resample (expired (length admitted + 1)) (attempt (length admitted + 1)) tested' samples') (\<lambda>(tested2, samples2, retried).
       ebind (select resample default_options (5 / 100) ''baseline'' samples2) (\<lambda>(winner, rejected).
       component_result beam tested2 (e_profile winner) rejected retried))))))))))))"

section \<open>The chosen profile was admitted for the exact frontier\<close>

text \<open>A tested profile is genuine when it is the baseline itself or was admitted with the same beam, and its
  estimate is the service envelope of rows measured for exactly that profile.\<close>

definition admitted_for :: "(env \<Rightarrow> plan list result) \<Rightarrow> pyval option \<Rightarrow> env \<Rightarrow> plan list \<Rightarrow> bool" where
  "admitted_for admit beam e plans \<longleftrightarrow>
     admit e = Inr plans \<and> plans \<noteq> [] \<and> map_of (hd plans) ''GLOBAL_BEAM_WIDTH_EFFECTIVE'' = beam"

fun genuine ::
  "component_probe \<Rightarrow> int \<Rightarrow> rat \<Rightarrow> (env \<Rightarrow> plan list \<Rightarrow> bool) \<Rightarrow> trial \<Rightarrow> bool" where
  "genuine probe move_total seconds ok (Tried name e plans rows v) \<longleftrightarrow>
     ok e plans \<and> (\<exists>n. probe n e plans = Inr rows) \<and> service_envelope_of rows (hd plans) move_total seconds = Inr v"
| "genuine probe move_total seconds ok (Refused name reason) \<longleftrightarrow> True"

lemma try_component_genuine:
  assumes "try_component probe move_total seconds beam n (name, e, target) = Inr (rows, v, samples)"
  shows "probe n e target = Inr rows" "service_envelope_of rows (hd target) move_total seconds = Inr v"
  using assms by (auto simp: try_component_def ebind_Inr_iff py_nth_def hd_conv_nth split: if_splits)

lemma admit_proposals_sound:
  assumes "admit_proposals admit beam proposed admitted tested = Inr (admitted', tested')"
    "\<forall>(name, e, plans) \<in> set admitted. admitted_for admit beam e plans"
    "\<forall>t \<in> set tested. genuine probe move_total seconds ok t"
  shows "(\<forall>(name, e, plans) \<in> set admitted'. admitted_for admit beam e plans)
    \<and> (\<forall>t \<in> set tested'. genuine probe move_total seconds ok t)
    \<and> length admitted' \<le> length admitted + length proposed"
  using assms
proof (induction proposed arbitrary: admitted tested)
  case (Cons p proposed)
  obtain name e where p: "p = (name, e)" by (cases p)
  from Cons.prems(1) consider (refused) reason where
      "admit_proposals admit beam proposed admitted (tested @ [Refused name reason]) = Inr (admitted', tested')"
    | (skipped) "admit_proposals admit beam proposed admitted tested = Inr (admitted', tested')"
    | (kept) plans where "admitted_for admit beam e plans"
        "admit_proposals admit beam proposed (admitted @ [(name, e, plans)]) tested = Inr (admitted', tested')"
    unfolding p admitted_for_def
    by (auto simp: ebind_Inr_iff dict_item_Inr_iff split: sum.splits if_splits)
  then show ?case
  proof cases
    case refused
    from Cons.IH [OF refused] Cons.prems(2,3) show ?thesis by fastforce
  next
    case skipped
    from Cons.IH [OF skipped] Cons.prems(2,3) show ?thesis by fastforce
  next
    case (kept plans)
    from Cons.IH [OF kept(2)] kept(1) Cons.prems(2,3) show ?thesis by fastforce
  qed
qed simp

lemma admit_proposals_grow:
  "admit_proposals admit beam proposed admitted tested = Inr (admitted', tested') \<Longrightarrow> \<exists>more. tested' = tested @ more"
proof (induction proposed arbitrary: admitted tested)
  case (Cons p proposed)
  obtain name e where p: "p = (name, e)" by (cases p)
  from Cons.prems p consider a where "admit_proposals admit beam proposed a tested = Inr (admitted', tested')"
    | a x where "admit_proposals admit beam proposed a (tested @ [x]) = Inr (admitted', tested')"
    by (auto split: sum.splits if_splits)
  then show ?case
  proof cases
    case (1 a)
    from Cons.IH [OF 1] show ?thesis .
  next
    case (2 a x)
    from Cons.IH [OF 2] show ?thesis by auto
  qed
qed simp

lemma try_components_grow:
  "try_components expired attempt n admitted tested samples = Inr (tested', samples') \<Longrightarrow> \<exists>more. tested' = tested @ more"
proof (induction admitted arbitrary: n tested samples)
  case (Cons p admitted)
  obtain name e target where p: "p = (name, e, target)" by (cases p) auto
  from Cons.prems p consider "tested' = tested" | m more s where
      "try_components expired attempt m admitted (tested @ more) s = Inr (tested', samples')"
    by (auto split: sum.splits if_splits)
  then show ?case
  proof cases
    case 2
    from Cons.IH [OF 2] show ?thesis by auto
  qed simp
qed simp

lemma try_components_genuine:
  assumes "try_components expired (try_component probe move_total seconds beam) n admitted tested samples = Inr (tested', samples')"
    "\<forall>(name, e, plans) \<in> set admitted. ok e plans"
    "\<forall>t \<in> set tested. genuine probe move_total seconds ok t"
  shows "\<forall>t \<in> set tested'. genuine probe move_total seconds ok t"
  using assms
proof (induction admitted arbitrary: n tested samples)
  case (Cons p admitted)
  obtain name e target where p: "p = (name, e, target)" by (cases p) auto
  have ok: "ok e target" "\<forall>(name, e, plans) \<in> set admitted. ok e plans" using Cons.prems(2) p by auto
  from Cons.prems(1) p consider (stop) "tested' = tested"
    | (refused) reason where "try_components expired (try_component probe move_total seconds beam) (n + 1) admitted
        (tested @ [Refused name reason]) samples = Inr (tested', samples')"
    | (kept) rows v new where "try_component probe move_total seconds beam n (name, e, target) = Inr (rows, v, new)"
        "try_components expired (try_component probe move_total seconds beam) (n + 1) admitted
          (tested @ [Tried name e target rows v]) (samples @ new) = Inr (tested', samples')"
    by (auto split: if_splits sum.splits)
  then show ?case
  proof cases
    case stop
    then show ?thesis using Cons.prems(3) by simp
  next
    case refused
    from Cons.IH [OF refused ok(2)] Cons.prems(3) show ?thesis by simp
  next
    case (kept rows v new)
    from try_component_genuine [OF kept(1)] ok(1)
    have "genuine probe move_total seconds ok (Tried name e target rows v)" by auto
    with Cons.IH [OF kept(2) ok(2)] Cons.prems(3) show ?thesis by simp
  qed
qed simp

lemma tried_named_mem:
  "tried_named name tested = Some t \<Longrightarrow> t \<in> set tested \<and> (\<exists>e plans rows v. t = Tried name e plans rows v)"
proof -
  define P where "P = (\<lambda>t. case t of Tried n _ _ _ _ \<Rightarrow> n = name | Refused _ _ \<Rightarrow> False)"
  assume "tried_named name tested = Some t"
  then obtain ts where "filter P tested = t # ts" unfolding tried_named_def P_def [symmetric] by (cases "filter P tested") auto
  then have "t \<in> set (filter P tested)" by simp
  then have t: "t \<in> set tested" "P t" by simp_all
  have "\<exists>e plans rows v. t = Tried name e plans rows v" using t(2) by (cases t) (simp_all add: P_def)
  then show ?thesis using t(1) by blast
qed

lemma steady_baseline_genuine:
  assumes "steady_baseline resample late (try_component probe move_total seconds beam n) tested samples = Inr (tested', samples', again)"
    "\<forall>t \<in> set tested. genuine probe move_total seconds ok t" "tested = Tried ''baseline'' e0 p0 r0 v0 # rest"
  shows "\<forall>t \<in> set tested'. genuine probe move_total seconds ok t"
proof (cases "tested' = tested")
  case False
  have "tried_named ''baseline'' tested = Some (Tried ''baseline'' e0 p0 r0 v0)" by (simp add: tried_named_def assms(3))
  with assms(1) False obtain rows v new where
    a: "try_component probe move_total seconds beam n (''baseline'', e0, p0) = Inr (rows, v, new)"
    and t': "tested' = replace_baseline rows v tested"
    by (auto simp: steady_baseline_def ebind_Inr_iff split: sum.splits if_splits)
  have "ok e0 p0" using assms(2,3) by simp
  with try_component_genuine [OF a] have "genuine probe move_total seconds ok (Tried ''baseline'' e0 p0 rows v)" by auto
  with assms(2,3) t' show ?thesis by simp
qed (use assms in simp)

text \<open>C22. The tuned component profile is a genuine measurement of an admissible profile: it is the baseline,
  or a proposal that the native planner admitted with exactly the baseline's effective beam; its
  estimate is the service envelope of rows measured for exactly this profile and these plans,
  and so it is for every profile reported as tested.\<close>
theorem tuned_component_genuine:
  assumes "tune_components resample expired probe admit factory plans baseline candidates move_total seconds parent_batch = Inr c"
  shows "\<exists>plans' rows. Tried (cc_name c) (cc_environment c) plans' rows (cc_estimate c) \<in> set (cc_tested c)
    \<and> (\<forall>t \<in> set (cc_tested c). genuine probe move_total seconds
         (\<lambda>e ps. e = baseline \<and> ps = plans \<or> admitted_for admit (Some (cc_beam c)) e ps) t)
    \<and> map_of (hd plans) ''GLOBAL_BEAM_WIDTH_EFFECTIVE'' = Some (cc_beam c)"
proof -
  let ?ok = "\<lambda>beam e ps. e = baseline \<and> ps = plans \<or> admitted_for admit (Some beam) e ps"
  let ?attempt = "\<lambda>beam. try_component probe move_total seconds beam"
  from assms obtain plan beam rows v proposed admitted tested samples tested1 samples1 tested2 samples2 again winner rej where
    plan: "py_nth plans 0 = Inr plan" "map_of plan ''GLOBAL_BEAM_WIDTH_EFFECTIVE'' = Some beam"
    and rows: "probe 0 baseline plans = Inr rows" "service_envelope_of rows plan move_total seconds = Inr v"
    and adm: "admit_proposals admit (Some beam) proposed [] [Tried ''baseline'' baseline plans rows v] = Inr (admitted, tested)"
    and try_c: "try_components expired (?attempt beam) (Suc 0) admitted tested samples = Inr (tested1, samples1)"
    and steady: "steady_baseline resample (expired (Suc (length admitted))) (?attempt beam (Suc (length admitted))) tested1 samples1
        = Inr (tested2, samples2, again)"
    and pick: "component_result beam tested2 (e_profile (winner :: estimate_row)) rej again = Inr c"
    by (auto simp: tune_components_def Let_def ebind_Inr_iff dict_item_Inr_iff split: if_splits)
  have hd: "plan = hd plans" using plan(1) by (auto simp: py_nth_def hd_conv_nth split: if_splits)
  have base: "\<forall>t \<in> set [Tried ''baseline'' baseline plans rows v]. genuine probe move_total seconds (?ok beam) t"
    using rows hd by auto
  have none: "\<forall>(name, e, ps) \<in> set []. admitted_for admit (Some beam) e ps" by simp
  note ap = admit_proposals_sound [OF adm none base]
  obtain more where tested: "tested = Tried ''baseline'' baseline plans rows v # more"
    using admit_proposals_grow [OF adm] by auto
  have "\<forall>(name, e, ps) \<in> set admitted. ?ok beam e ps" using ap by fastforce
  note tc = try_components_genuine [OF try_c this]
  have g1: "\<forall>t \<in> set tested1. genuine probe move_total seconds (?ok beam) t" using tc ap by blast
  obtain more1 where tested1: "tested1 = Tried ''baseline'' baseline plans rows v # more1"
    using try_components_grow [OF try_c] tested by auto
  note g2 = steady_baseline_genuine [OF steady g1 tested1]
  from pick obtain name e ps rs est where t: "tried_named (e_profile winner) tested2 = Some (Tried name e ps rs est)"
    and c: "c = \<lparr>cc_environment = e, cc_name = name, cc_beam = beam, cc_tested = tested2, cc_estimate = est,
                cc_rejected = rej, cc_retried = again\<rparr>"
    by (auto simp: component_result_def split: option.splits trial.splits)
  have "Tried name e ps rs est \<in> set tested2" using tried_named_mem [OF t] by auto
  then show ?thesis using c g2 plan(2) hd by auto
qed

definition component_plan :: plan where
  "component_plan = [(''GLOBAL_BEAM_WIDTH_EFFECTIVE'', PInt 100), (''frontier_state_capacity'', PInt 100),
     (''WORLD_SIZE'', PInt 1), (''SHARD_COUNT'', PInt 1), (''STREAM4_BATCH_CANDIDATES'', PInt 100),
     (''SHARD_CAPACITY_CANDIDATES'', PInt 100), (''STREAM4_BATCH_ALIGNMENT'', PInt 1)]"

definition component_times :: component_row where
  "component_times = \<lparr>co_outer = 100, co_capacity = 100, co_jobs = 1,
     co_stream3 = [1/2, 1/2, 1/2, 1/2, 1/2], co_stream4 = [1/4, 1/4, 1/4, 1/4, 1/4],
     co_union = [1/4, 1/4, 1/4, 1/4, 1/4], co_transport = []\<rparr>"

lemma component_plan_items:
  "plan_item component_plan ''frontier_state_capacity'' = Inr 100" "plan_item component_plan ''WORLD_SIZE'' = Inr 1"
  "plan_item component_plan ''SHARD_COUNT'' = Inr 1" "plan_item component_plan ''STREAM4_BATCH_CANDIDATES'' = Inr 100"
  "plan_item component_plan ''SHARD_CAPACITY_CANDIDATES'' = Inr 100" "plan_item component_plan ''STREAM4_BATCH_ALIGNMENT'' = Inr 1"
  by (simp_all add: plan_item_def dict_item_def component_plan_def)

lemmas component_evaluation = component_plan_items ceil_ratio_def py_div_def slow_def py_median_def py_max_def
  transport_seconds_def py_nth_def median_def Let_def

lemma component_envelope:
  "\<exists>v. service_envelope_of [component_times] component_plan 1 1 = Inr v"
  "repetition i component_times = Inr r \<Longrightarrow> i < 5 \<Longrightarrow>
     \<exists>v. service_envelope_of [r] component_plan 1 1 = Inr v \<and> sv_downstream v = 1"
proof -
  show "\<exists>v. service_envelope_of [component_times] component_plan 1 1 = Inr v"
    by (simp add: service_envelope_of_def component_evaluation component_times_def)
  assume r: "repetition i component_times = Inr r" "i < 5"
  then have "i = 0 \<or> i = 1 \<or> i = 2 \<or> i = 3 \<or> i = 4" by linarith
  with r have "r = component_times\<lparr>co_stream3 := [1/2], co_stream4 := [1/4], co_union := [1/4]\<rparr>"
    by (auto simp: repetition_def component_times_def py_nth_def)
  then show "\<exists>v. service_envelope_of [r] component_plan 1 1 = Inr v \<and> sv_downstream v = 1"
    by (simp add: service_envelope_of_def component_evaluation component_times_def)
qed

lemma component_sampled:
  "component_samples ''baseline'' (PInt 100) [component_times] component_plan 1 1 = Inr (replicate 5 (sample ''baseline'' 1))"
proof -
  have rep: "\<exists>r. repetition i component_times = Inr r" if "i < 5" for i
    using that by (simp add: repetition_def component_times_def py_nth_def)
  have one: "ebind (emap (repetition i) [component_times]) (\<lambda>cohort. ebind (service_envelope_of cohort component_plan 1 1) (\<lambda>v.
      Inr \<lparr>m_profile = ''baseline'', m_parents = PInt 100, m_seconds = [Fin (sv_downstream v)], m_correct = True,
           m_admitted = True, m_throttled = False\<rparr>)) = Inr (sample ''baseline'' 1)" if "i < 5" for i
  proof -
    obtain r where r: "repetition i component_times = Inr r" using rep [OF \<open>i < 5\<close>] ..
    with component_envelope(2) [OF r \<open>i < 5\<close>] show ?thesis by (auto simp: sample_def)
  qed
  have "component_samples ''baseline'' (PInt 100) [component_times] component_plan 1 1
      = Inr (map (\<lambda>_. sample ''baseline'' 1) [0, 1, 2, 3, 4 :: nat])"
    unfolding component_samples_def by (rule emap_total, rule one) auto
  then show ?thesis by (simp add: five)
qed

lemma tuned_component_genuine_witness:
  "\<exists>c. tune_components (\<lambda>vs _. vs) (\<lambda>_. False) (\<lambda>_ _ _. Inr [component_times]) (\<lambda>_. Inl (CapacityRejected ''full'')) (Some (\<lambda>_ _ _. Inr []))
       [component_plan] small_profile [] 1 1 16 = Inr c
     \<and> map_of (hd [component_plan]) ''GLOBAL_BEAM_WIDTH_EFFECTIVE'' = Some (cc_beam c)"
proof -
  let ?run = "tune_components (\<lambda>vs _. vs) (\<lambda>_. False) (\<lambda>_ _ _. Inr [component_times]) (\<lambda>_. Inl (CapacityRejected ''full''))
      (Some (\<lambda>_ _ _. Inr [])) [component_plan] small_profile [] 1 1 16"
  obtain v where v: "service_envelope_of [component_times] component_plan 1 1 = Inr v" using component_envelope(1) by blast
  have geo: "service_geometry [component_times] component_plan 1 1 16
      = Inr [(''BEAM_STREAM4_BATCH_CANDIDATES'', str_int 1), (''BEAM_STREAM3_RING_SLOTS'', str_int 2)]"
    by (simp add: service_geometry_def component_evaluation component_times_def release_latency_def fifth_def
        staging_from_release_latency_def round_up_def ceil_div_def)
  have base: "\<exists>ps. baseline_proposals small_profile []
      [(''BEAM_STREAM4_BATCH_CANDIDATES'', str_int 1), (''BEAM_STREAM3_RING_SLOTS'', str_int 2)] component_plan 1 = Inr ps"
    by (simp add: baseline_proposals_def bulk_batch_def component_evaluation dict_item_def env_int_def small_profile_def)
  obtain w where w: "select (\<lambda>vs _. vs) default_options (1 / 20) ''baseline'' (replicate 5 (sample ''baseline'' 1)) = Inr (w, [])"
    "e_profile w = ''baseline''" "estimate (\<lambda>vs _. vs) default_options ''baseline'' (replicate 5 (sample ''baseline'' 1)) = Inr w"
    using steady_select [of "1 / 20"] by auto
  have beam: "dict_item component_plan ''GLOBAL_BEAM_WIDTH_EFFECTIVE'' = Inr (PInt 100)"
    by (simp add: dict_item_def component_plan_def)
  obtain ps where ps: "baseline_proposals small_profile []
      [(''BEAM_STREAM4_BATCH_CANDIDATES'', str_int 1), (''BEAM_STREAM3_RING_SLOTS'', str_int 2)] component_plan 1 = Inr ps"
    using base by blast
  have "\<exists>c. ?run = Inr c"
    unfolding tune_components_def Let_def
    by (simp add: py_nth_def beam v geo ps component_sampled w(3) w(1) w(2) steady_baseline_def component_result_def tried_named_def del: replicate_Suc)
  then obtain c where run: "?run = Inr c" ..
  from tuned_component_genuine [OF run] run show ?thesis by blast
qed

end
