(* ===== verification/Runtime.thy ===== *)
theory Runtime
  imports Texts Contracts
begin

text \<open>
  The preparation of a native run (\<open>backend.py\<close>): the touch-BFS budget and the depth budget, the choice of
  devices and of the inference executor, the private snapshots of runner and libraries, the environment of the child
  process, the row budget of small beams, the supervision of a process and the collection of rank
  logs; and the saturated depths that a run reports (\<open>runtime_report.py\<close>). The operating system, CUDA
  queries and file digests are parameters.
\<close>

section \<open>Search budgets\<close>

fun touch_loop :: "nat \<Rightarrow> int \<Rightarrow> int \<Rightarrow> int \<Rightarrow> int \<Rightarrow> int result" where
  "touch_loop 0 moves' most entries frontier = Inr entries"
| "touch_loop (Suc n) moves' most entries frontier =
     (let remaining = most - entries in
      if remaining < 0 \<or> frontier > remaining div moves'
      then Inl (NativeUnavailable ''native touch-BFS worst-case host allocation exceeds the entry budget'')
      else touch_loop n moves' most (entries + frontier * moves') (frontier * moves'))"

definition touch_bfs_worst_case_entries :: "pyval \<Rightarrow> pyval \<Rightarrow> pyval \<Rightarrow> int result" where
  "touch_bfs_worst_case_entries moves' radius most =
     (if \<not> (is_int moves' \<and> 0 < the_int moves')
      then Inl (NativeUnavailable ''native touch-BFS requires a positive generator count'')
      else if \<not> (is_int radius \<and> 0 \<le> the_int radius)
      then Inl (ValueError ''effective touch_bfs_radius must be a nonnegative integer'')
      else if \<not> (is_int most \<and> 0 < the_int most)
      then Inl (ValueError ''touch_bfs_max_entries must be a positive integer'')
      else touch_loop (nat (the_int radius)) (the_int moves') (the_int most) 1 1)"

definition validate_touch_bfs_contract :: "graph_contract \<Rightarrow> int \<Rightarrow> int \<Rightarrow> int result" where
  "validate_touch_bfs_contract c radius most =
     (if radius \<noteq> 0 \<and> move_count c > 32
      then Inl (NativeUnavailable ''native touch-BFS suffix packing supports at most 32 generators'')
      else touch_bfs_worst_case_entries (PInt (int (move_count c))) (PInt radius) (PInt most))"

definition native_depth_budget :: "pyval \<Rightarrow> pyval \<Rightarrow> (int \<times> int) result" where
  "native_depth_budget max_steps radius =
     (if \<not> (is_int max_steps \<and> 0 \<le> the_int max_steps)
      then Inl (ValueError ''max_steps must be a nonnegative integer'')
      else if \<not> (is_int radius \<and> 0 \<le> the_int radius)
      then Inl (ValueError ''touch_bfs_radius must be a nonnegative integer'')
      else if the_int max_steps = 0 then Inr (0, 0)
      else let effective = min (the_int radius) (the_int max_steps - 1) in
        Inr (the_int max_steps - effective, effective))"

lemma touch_loop_spec:
  assumes "0 < m" "0 < frontier"
  shows "touch_loop n m most entries frontier =
    (if n = 0 \<or> entries + (\<Sum>i=1..n. frontier * m ^ i) \<le> most
     then Inr (entries + (\<Sum>i=1..n. frontier * m ^ i))
     else Inl (NativeUnavailable ''native touch-BFS worst-case host allocation exceeds the entry budget''))"
  using assms(2)
proof (induction n arbitrary: entries frontier)
  case (Suc n)
  have shift: "(\<Sum>i=1..Suc k. frontier * m ^ i) = frontier * m + (\<Sum>i=1..k. frontier * m * m ^ i)" for k
    by (subst sum.atLeast_Suc_atMost, simp, subst sum.shift_bounds_cl_Suc_ivl) (simp add: mult.assoc)
  have nonneg: "0 \<le> (\<Sum>i=1..n. frontier * m * m ^ i)" using Suc.prems assms(1) by (intro sum_nonneg) simp
  have step: "frontier \<le> (most - entries) div m \<longleftrightarrow> frontier * m \<le> most - entries"
    using le_floor_div_iff [OF assms(1)] by blast
  show ?case
  proof (cases "most - entries < 0 \<or> frontier > (most - entries) div m")
    case True
    have "0 < frontier * m" using Suc.prems assms(1) by simp
    then have "\<not> entries + (frontier * m + (\<Sum>i=1..n. frontier * m * m ^ i)) \<le> most"
      using True step nonneg by linarith
    then show ?thesis using True by (simp only: shift touch_loop.simps Let_def) simp
  next
    case False
    then have "touch_loop (Suc n) m most entries frontier = touch_loop n m most (entries + frontier * m) (frontier * m)"
      by (simp add: Let_def)
    also have "\<dots> = (if n = 0 \<or> entries + frontier * m + (\<Sum>i=1..n. frontier * m * m ^ i) \<le> most
       then Inr (entries + frontier * m + (\<Sum>i=1..n. frontier * m * m ^ i))
       else Inl (NativeUnavailable ''native touch-BFS worst-case host allocation exceeds the entry budget''))"
      using Suc.prems assms(1) by (intro Suc.IH) simp
    also have "\<dots> = (if Suc n = 0 \<or> entries + (\<Sum>i=1..Suc n. frontier * m ^ i) \<le> most
       then Inr (entries + (\<Sum>i=1..Suc n. frontier * m ^ i))
       else Inl (NativeUnavailable ''native touch-BFS worst-case host allocation exceeds the entry budget''))"
      using False step unfolding shift by (auto simp: algebra_simps)
    finally show ?thesis .
  qed
qed simp

text \<open>The host allocation of touch-BFS is exactly the geometric sum of the generator count up to the
  effective radius: it is returned when it fits the entry budget and rejected as unavailable when it
  does not, and the depth budget splits the steps so that forward depth plus radius is the
  requested number and at least one forward step remains.\<close>
theorem touch_budget_exact:
  assumes "0 < m" "0 \<le> r" "1 \<le> most" "1 \<le> steps"
  shows "\<exists>forward radius. native_depth_budget (PInt steps) (PInt r) = Inr (forward, radius)
      \<and> forward + radius = steps \<and> 1 \<le> forward \<and> 0 \<le> radius \<and> radius \<le> r
      \<and> touch_bfs_worst_case_entries (PInt m) (PInt radius) (PInt most) =
        (if (\<Sum>i\<le>nat radius. m ^ i) \<le> most then Inr (\<Sum>i\<le>nat radius. m ^ i)
         else Inl (NativeUnavailable ''native touch-BFS worst-case host allocation exceeds the entry budget''))"
proof -
  define radius where "radius = min r (steps - 1)"
  have sum: "(\<Sum>i\<le>k. m ^ i) = 1 + (\<Sum>i=1..k. 1 * m ^ i)" for k :: nat
    by (simp add: atMost_atLeast0 sum.atLeast_Suc_atMost)
  have "touch_bfs_worst_case_entries (PInt m) (PInt radius) (PInt most) =
        (if (\<Sum>i\<le>nat radius. m ^ i) \<le> most then Inr (\<Sum>i\<le>nat radius. m ^ i)
         else Inl (NativeUnavailable ''native touch-BFS worst-case host allocation exceeds the entry budget''))"
    using assms touch_loop_spec [of m 1 "nat radius" most 1] unfolding sum
    by (simp add: touch_bfs_worst_case_entries_def radius_def)
  moreover have "native_depth_budget (PInt steps) (PInt r) = Inr (steps - radius, radius)"
    using assms by (simp add: native_depth_budget_def radius_def Let_def)
  ultimately show ?thesis using assms by (intro exI [of _ "steps - radius"] exI [of _ radius]) (auto simp: radius_def)
qed

lemma touch_budget_exact_witness:
  "\<exists>forward radius. native_depth_budget (PInt 10) (PInt 2) = Inr (forward, radius) \<and> forward + radius = 10"
  using touch_budget_exact [of 3 2 100 10] by auto

section \<open>Devices\<close>

text \<open>A configured device: its type and its index, when one is given.\<close>

record device_request =
  dr_devices :: "pyval list option"
  dr_num_gpus :: "int option"
  dr_configured :: "(string \<times> int option) list"

definition requested_devices :: "int \<Rightarrow> device_request \<Rightarrow> pyval list result" where
  "requested_devices visible r =
     (case dr_devices r of
        Some ds \<Rightarrow> Inr ds
      | None \<Rightarrow>
          (case dr_num_gpus r of
             Some n \<Rightarrow>
               if n > visible then Inl (NativeUnavailable ''num_gpus exceeds the number of visible CUDA devices'')
               else Inr (map PInt [0..n - 1])
           | None \<Rightarrow>
               let kinds = map fst (dr_configured r) in
               if list_all (\<lambda>k. k = ''cpu'') kinds then Inr (map PInt [0..visible - 1])
               else if list_ex (\<lambda>k. k \<noteq> ''cuda'') kinds
               then Inl (NativeUnavailable ''graph mixes CPU and CUDA devices; set explicit native devices'')
               else Inr (map (\<lambda>(_, i). PInt (case i of Some n \<Rightarrow> n | None \<Rightarrow> 0)) (dr_configured r))))"

definition rank_variables :: "string list" where
  "rank_variables = [''RANK'', ''LOCAL_RANK'', ''WORLD_SIZE'', ''TORCHELASTIC_RUN_ID'']"

definition runtime_devices ::
  "string \<Rightarrow> (string, string) dict \<Rightarrow> bool \<Rightarrow> int \<Rightarrow> device_request \<Rightarrow> int list result" where
  "runtime_devices system environ cuda visible r =
     (if system \<noteq> ''Linux'' then Inl (NativeUnavailable ''native beam currently requires Linux/CUDA/NCCL'')
      else if list_ex (\<lambda>k. map_of environ k \<noteq> None) rank_variables
      then Inl (NativeUnavailable ''native adapter cannot be invoked inside an existing torchrun rank'')
      else if \<not> cuda then Inl (NativeUnavailable ''native beam requires available CUDA devices'')
      else ebind (requested_devices visible r) (\<lambda>ds.
        if ds = [] \<or> \<not> distinct ds \<or> length ds > 128
           \<or> \<not> list_all (\<lambda>d. is_int d \<and> 0 \<le> the_int d \<and> the_int d < visible) ds
        then Inl (NativeUnavailable ''native devices must be distinct available CUDA indices (at most 128)'')
        else Inr (map the_int ds)))"

lemma runtime_devices_sound:
  assumes "runtime_devices system environ cuda visible r = Inr ds"
  shows "ds \<noteq> [] \<and> distinct ds \<and> length ds \<le> 128 \<and> (\<forall>d \<in> set ds. 0 \<le> d \<and> d < visible)
    \<and> (\<forall>ps. dr_devices r = Some ps \<longrightarrow> map PInt ds = ps)"
proof -
  from assms obtain ps where ps: "requested_devices visible r = Inr ps" "ds = map the_int ps" "ps \<noteq> []" "distinct ps"
    "length ps \<le> 128" "list_all (\<lambda>d. is_int d \<and> 0 \<le> the_int d \<and> the_int d < visible) ps"
    by (auto simp: runtime_devices_def ebind_Inr_iff not_less split: if_splits)
  then have inj: "map PInt ds = ps" by (auto simp: list_all_iff the_int_PInt intro!: map_idI)
  then have "distinct ds" using ps(4) by (metis distinct_map)
  then show ?thesis using ps inj by (auto simp: list_all_iff requested_devices_def)
qed

section \<open>The environment of the child\<close>

definition cuda_visibility :: "int list \<Rightarrow> (string, string) dict \<Rightarrow> string result" where
  "cuda_visibility devices environ =
     (case map_of environ ''CUDA_VISIBLE_DEVICES'' of
        None \<Rightarrow> Inr (join_with CHR '','' (map str_int devices))
      | Some inherited \<Rightarrow>
          let tokens = map py_strip (split_on CHR '','' inherited);
              token = (\<lambda>d. tokens ! nat d) in
          if list_ex (\<lambda>d. d \<ge> int (length tokens) \<or> token d = [] \<or> token d = ''-1'') devices
          then Inl (NativeUnavailable ''cannot map selected devices through inherited CUDA_VISIBLE_DEVICES'')
          else Inr (join_with CHR '','' (map token devices)))"

definition rank_keys :: "string list" where
  "rank_keys = [''RANK'', ''LOCAL_RANK'', ''WORLD_SIZE'', ''LOCAL_WORLD_SIZE'', ''GROUP_RANK'', ''ROLE_RANK'',
     ''ROLE_WORLD_SIZE'', ''MASTER_ADDR'', ''MASTER_PORT'', ''NODE_RANK'', ''OMP_NUM_THREADS'']"

definition dropped_prefixes :: "string list" where
  "dropped_prefixes = [''BEAM_'', ''TORCHELASTIC_'', ''TORCHRUN_'', ''CUDA_'', ''NCCL_'', ''PUBLISH_'', ''RESULTS_INGEST_'',
     ''SHARD_'', ''STREAM1_'', ''STREAM3_'', ''STREAM4_'', ''GLOBAL_'']"

definition inherited_key :: "string \<Rightarrow> bool" where
  "inherited_key k = (\<not> list_ex (\<lambda>p. prefix p k) dropped_prefixes \<and> k \<notin> set rank_keys)"

definition child_environment :: "int list \<Rightarrow> string \<Rightarrow> (string, string) dict \<Rightarrow> env result" where
  "child_environment devices run_dir environ =
     ebind (cuda_visibility devices environ) (\<lambda>visible.
     let e1 = dict_set ''CUDA_VISIBLE_DEVICES'' visible (filter (\<lambda>(k, v). inherited_key k) environ);
         e2 = (case map_of environ ''CUDA_DEVICE_ORDER'' of
                 Some v \<Rightarrow> dict_set ''CUDA_DEVICE_ORDER'' v e1 | None \<Rightarrow> e1) in
     Inr (dict_set ''BEAM_NCCL_ID_FILE'' (run_dir @ ''/nccl-id.bin'') e2))"

lemma child_environment_clean:
  assumes "child_environment devices run_dir environ = Inr e" "map_of e k = Some v"
  shows "k \<in> {''CUDA_VISIBLE_DEVICES'', ''CUDA_DEVICE_ORDER'', ''BEAM_NCCL_ID_FILE''}
    \<or> (inherited_key k \<and> k \<in> fst ` set environ)"
proof (rule ccontr)
  assume n: "\<not> ?thesis"
  from assms(1) obtain visible where "cuda_visibility devices environ = Inr visible"
    and e: "e = dict_set ''BEAM_NCCL_ID_FILE'' (run_dir @ ''/nccl-id.bin'')
      (case map_of environ ''CUDA_DEVICE_ORDER'' of
         Some v \<Rightarrow> dict_set ''CUDA_DEVICE_ORDER'' v (dict_set ''CUDA_VISIBLE_DEVICES'' visible (filter (\<lambda>(k, v). inherited_key k) environ))
       | None \<Rightarrow> dict_set ''CUDA_VISIBLE_DEVICES'' visible (filter (\<lambda>(k, v). inherited_key k) environ))"
    by (auto simp: child_environment_def ebind_Inr_iff Let_def)
  then have "map_of e k = map_of (filter (\<lambda>(k, v). inherited_key k) environ) k"
    using n by (simp split: option.splits)
  then have "map_of (filter (\<lambda>(k, v). inherited_key k) environ) k = Some v" using assms(2) by simp
  then have "(k, v) \<in> set (filter (\<lambda>(k, v). inherited_key k) environ)" by (rule map_of_SomeD)
  then show False using n by force
qed

section \<open>The row budget of small beams\<close>

record microbatch =
  mb_default_rows :: int
  mb_rows :: int
  mb_parents :: int
  mb_candidates :: int
  mb_logical_shard :: int
  mb_shard_storage :: int

definition microbatch_environment :: "int \<Rightarrow> bool \<Rightarrow> int \<Rightarrow> int \<Rightarrow> int \<Rightarrow> (env \<times> microbatch) result" where
  "microbatch_environment move_total scalar_rows beam_width world row_limit =
     (if world = 0 \<or> move_total = 0 then Inl ZeroDivisionError
      else
        let divisor = world * 4 * 1024;
            logical = ceil_div beam_width divisor * 1024;
            scaled = ceil_div (logical * 5) 4;
            storage = ceil_div scaled 1024 * 1024;
            per_parent = (if scalar_rows then move_total else 1);
            default_parents = row_limit div per_parent;
            parents = min default_parents (storage div move_total);
            rows = (if parents = default_parents then row_limit else parents * per_parent) in
        Inr (if rows = 8192 then [] else [(''BEAM_B_MICRO'', str_int rows)],
             \<lparr>mb_default_rows = row_limit, mb_rows = rows, mb_parents = parents, mb_candidates = parents * move_total,
              mb_logical_shard = logical, mb_shard_storage = storage\<rparr>))"

text \<open>The derived batch never overfills one shard, never raises the row budget, and the storage holds
  the beam with a quarter to spare.\<close>

lemma microbatch_bounds:
  assumes "microbatch_environment m scalar beam world limit = Inr (e, mb)" "0 < m" "0 < world" "0 \<le> limit" "0 < beam"
  shows "mb_candidates mb \<le> mb_shard_storage mb" "mb_rows mb \<le> limit" "5 * mb_logical_shard mb \<le> 4 * mb_shard_storage mb"
    "beam \<le> 4 * world * mb_logical_shard mb"
proof -
  define divisor where "divisor = world * 4 * 1024"
  define pp where "pp = (if scalar then m else 1)"
  define logical where "logical = ceil_div beam divisor * 1024"
  define scaled where "scaled = ceil_div (logical * 5) 4"
  define storage where "storage = ceil_div scaled 1024 * 1024"
  define dp where "dp = limit div pp"
  define parents where "parents = min dp (storage div m)"
  have mb: "mb_candidates mb = parents * m" "mb_shard_storage mb = storage" "mb_logical_shard mb = logical"
    "mb_rows mb = (if parents = dp then limit else parents * pp)"
    using assms(1,2,3)
    by (auto simp: microbatch_environment_def Let_def divisor_def pp_def logical_def scaled_def storage_def dp_def parents_def)
  have "storage div m * m \<le> storage" using le_floor_div_iff [OF assms(2)] by blast
  moreover have "parents * m \<le> storage div m * m" using assms(2) by (intro mult_right_mono) (simp_all add: parents_def)
  ultimately show "mb_candidates mb \<le> mb_shard_storage mb" unfolding mb by linarith
  have pp: "0 < pp" using assms(2) by (simp add: pp_def)
  have "dp * pp \<le> limit" unfolding dp_def using le_floor_div_iff [OF pp] by blast
  moreover have "parents * pp \<le> dp * pp" using pp by (intro mult_right_mono) (simp_all add: parents_def)
  ultimately show "mb_rows mb \<le> limit" unfolding mb by simp
  have "logical * 5 \<le> scaled * 4" unfolding scaled_def by (rule ceil_div_mult_ge) simp
  moreover have "scaled \<le> storage" unfolding storage_def by (rule ceil_div_mult_ge) simp
  ultimately show "5 * mb_logical_shard mb \<le> 4 * mb_shard_storage mb" unfolding mb by linarith
  have "beam \<le> ceil_div beam divisor * divisor" using assms(3) by (intro ceil_div_mult_ge) (simp add: divisor_def)
  then show "beam \<le> 4 * world * mb_logical_shard mb" unfolding mb by (simp add: logical_def divisor_def algebra_simps)
qed

end
