(* ===== verification/Terminal.thy ===== *)
theory Terminal
  imports Texts Contracts
begin

text \<open>
  The results of a native run: the terminal records, the collected solutions and the observed widths in
  the workers' log (\<open>parse_terminal\<close> of \<open>backend.py\<close>), and the saturated depths of a run
  (\<open>runtime_report.py\<close>). A log is the list of its lines. Every path that is returned has been replayed
  on the graph contract.
\<close>

section \<open>The patterns\<close>

text \<open>\<open>puzzle_solved=([01]) puzzle_id=(digits) seconds=(word) solution_length=(-digits) ... solution=(word)\<close> at the
  end of a line.\<close>

record terminal_match =
  tm_found :: bool
  tm_puzzle :: string
  tm_seconds :: string
  tm_length :: int
  tm_path :: string

definition blanks :: "string \<Rightarrow> string option" where
  "blanks s = map_option snd (span1 is_space s)"

definition signed_int :: "string \<Rightarrow> (int \<times> string) option" where
  "signed_int s =
     (case after_prefix ''-'' s of
        Some r \<Rightarrow> map_option (\<lambda>(n, r'). (- int n, r')) (span_nat r)
      | None \<Rightarrow> map_option (\<lambda>(n, r'). (int n, r')) (span_nat s))"

text \<open>The last word of the line must be \<open>solution=...\<close> and stand after a blank.\<close>

definition last_word :: "string \<Rightarrow> string option" where
  "last_word s = (let w = rev (takeWhile is_black (rev s)) in
     if length w < length s then after_prefix ''solution='' w else None)"

definition terminal_at :: "string \<Rightarrow> terminal_match option" where
  "terminal_at s0 =
     Option.bind (after_prefix ''puzzle_solved='' s0) (\<lambda>s1.
     case s1 of [] \<Rightarrow> None | c # s2 \<Rightarrow>
     if c \<noteq> CHR ''0'' \<and> c \<noteq> CHR ''1'' then None else
     Option.bind (Option.bind (blanks s2) (after_prefix ''puzzle_id='')) (\<lambda>s3.
     Option.bind (span1 is_digit s3) (\<lambda>(puzzle, s4).
     Option.bind (Option.bind (blanks s4) (after_prefix ''seconds='')) (\<lambda>s5.
     Option.bind (span1 is_black s5) (\<lambda>(seconds, s6).
     Option.bind (Option.bind (blanks s6) (after_prefix ''solution_length='')) (\<lambda>s7.
     Option.bind (signed_int s7) (\<lambda>(len, s8).
     Option.bind (last_word s8) (\<lambda>path.
     Some \<lparr>tm_found = (c = CHR ''1''), tm_puzzle = puzzle, tm_seconds = seconds, tm_length = len, tm_path = path\<rparr>))))))))"

definition terminal_search :: "string \<Rightarrow> terminal_match option" where
  "terminal_search line = first_some terminal_at (suffixes_of (py_rstrip line))"

text \<open>All numbers that follow one of the given names and an equals sign.\<close>

definition number_after :: "string \<Rightarrow> string \<Rightarrow> nat option" where
  "number_after name s = Option.bind (after_prefix (name @ ''='') s) (\<lambda>r. map_option fst (span_nat r))"

definition widths :: "string \<Rightarrow> nat list" where
  "widths line =
     List.map_filter (\<lambda>s. first_some (\<lambda>name. number_after name s)
        [''GLOBAL_BEAM_WIDTH_EFFECTIVE'', ''global_beam_width_effective'']) (suffixes_of line)"

definition is_word_char :: "char \<Rightarrow> bool" where
  "is_word_char c = (let n = (of_char c :: nat) in
     48 \<le> n \<and> n \<le> 57 \<or> 65 \<le> n \<and> n \<le> 90 \<or> n = 95 \<or> 97 \<le> n \<and> n \<le> 122)"

text \<open>Numbers whose name starts at a word boundary.\<close>

fun bounded_numbers :: "string \<Rightarrow> bool \<Rightarrow> string \<Rightarrow> nat list" where
  "bounded_numbers name inside [] = []"
| "bounded_numbers name inside (c # cs) =
     (case if inside then None else number_after name (c # cs) of
        Some n \<Rightarrow> n # bounded_numbers name (is_word_char c) cs
      | None \<Rightarrow> bounded_numbers name (is_word_char c) cs)"

section \<open>Paths\<close>

text \<open>Tokens \<open>m0.m1...\<close>; the empty text is the empty path.\<close>

definition move_token :: "string \<Rightarrow> nat option" where
  "move_token t = (case t of c # d \<Rightarrow> if c = CHR ''m'' then parse_nat d else None | [] \<Rightarrow> None)"

definition path_tokens :: "string \<Rightarrow> string list" where
  "path_tokens s = (if s = [] then [] else split_on CHR ''.'' s)"

definition parse_moves :: "string \<Rightarrow> string \<Rightarrow> nat list result" where
  "parse_moves message s =
     (if \<not> list_all (\<lambda>t. move_token t \<noteq> None) (path_tokens s) then Inl (NativeBackendError message)
      else Inr (map (the \<circ> move_token) (path_tokens s)))"

record collected_row =
  cl_path :: "nat list"
  cl_solved_depth :: int
  cl_touch_depth :: int
  cl_owner :: int

definition in_budget :: "int option \<Rightarrow> nat list \<Rightarrow> bool" where
  "in_budget max_steps path = (case max_steps of None \<Rightarrow> True | Some m \<Rightarrow> int (length path) \<le> m)"

definition collected_solution :: "graph_contract \<Rightarrow> int option \<Rightarrow> string \<Rightarrow> collected_row result" where
  "collected_solution c max_steps line =
     ebind (line_fields (py_strip line)) (\<lambda>row.
     ebind (dict_item row ''solution'') (\<lambda>text'.
     ebind (parse_moves ''invalid collected move token'' text') (\<lambda>moves.
     ebind (field_int row ''puzzle_id'') (\<lambda>puzzle.
     let bad = Inl (NativeBackendError ''collected solution failed independent replay/depth validation'') in
     if puzzle \<noteq> 0 then bad
     else ebind (field_int row ''solution_length'') (\<lambda>len.
       if int (length moves) \<noteq> len \<or> \<not> in_budget max_steps moves \<or> \<not> replay c (py_path moves) then bad
       else ebind (field_int row ''found_depth'') (\<lambda>found.
         ebind (field_int row ''owner_rank'') (\<lambda>owner.
         Inr \<lparr>cl_path = moves, cl_solved_depth = found, cl_touch_depth = int (length moves) - found, cl_owner = owner\<rparr>)))))))"

definition terminal_path :: "graph_contract \<Rightarrow> int option \<Rightarrow> terminal_match \<Rightarrow> nat list option result" where
  "terminal_path c max_steps m =
     (if \<not> tm_found m
      then (if tm_length m \<noteq> -1 \<or> tm_path m \<noteq> []
            then Inl (NativeBackendError ''native not-found record contains an inconsistent path'') else Inr None)
      else ebind (parse_moves ''native path contains unknown synthetic generator names'' (tm_path m)) (\<lambda>moves.
        if int (length moves) \<noteq> tm_length m \<or> list_ex (\<lambda>x. x \<ge> move_count c) moves
        then Inl (NativeBackendError ''native solution length/generator IDs are invalid'')
        else if \<not> in_budget max_steps moves then Inl (NativeBackendError ''native solution exceeds requested max_steps'')
        else if \<not> replay c (py_path moves)
        then Inl (NativeBackendError ''native solution failed independent original-graph replay'')
        else Inr (Some moves)))"

definition terminal_record :: "graph_contract \<Rightarrow> int option \<Rightarrow> string \<Rightarrow> (nat list option \<times> rat) result" where
  "terminal_record c max_steps line =
     (case terminal_search line of
        None \<Rightarrow> Inl (NativeBackendError ''malformed native terminal record'')
      | Some m \<Rightarrow>
          (case py_float (tm_seconds m) of
             Inl _ \<Rightarrow> Inl (NativeBackendError ''native terminal record has invalid time'')
           | Inr seconds \<Rightarrow>
               (case finite_part seconds of
                  None \<Rightarrow> Inl (NativeBackendError ''native terminal record has invalid puzzle/time'')
                | Some t \<Rightarrow>
                    if tm_puzzle m \<noteq> ''0'' \<or> t < 0
                    then Inl (NativeBackendError ''native terminal record has invalid puzzle/time'')
                    else ebind (terminal_path c max_steps m) (\<lambda>p. Inr (p, t)))))"

section \<open>The log\<close>

record log_state =
  ls_records :: "(nat list option \<times> rat) list"
  ls_effective :: "nat list"
  ls_collected :: "collected_row list"
  ls_counts :: "int list"
  ls_status :: "string option"
  ls_micro :: "nat list"
  ls_rows :: "nat list"
  ls_stream3 :: "nat list"

definition log_collected :: "graph_contract \<Rightarrow> int option \<Rightarrow> collected_row list \<Rightarrow> string \<Rightarrow> collected_row list result" where
  "log_collected c max_steps rows line =
     (if prefix ''solve_bucket_solution=1 '' line
      then ebind (collected_solution c max_steps line) (\<lambda>r. Inr (rows @ [r])) else Inr rows)"

definition log_counts :: "int list \<Rightarrow> string \<Rightarrow> int list result" where
  "log_counts counts line =
     (if prefix ''solve_bucket_summary=1 '' line
      then ebind (line_fields line) (\<lambda>d. ebind (field_int d ''records'') (\<lambda>n. Inr (counts @ [n]))) else Inr counts)"

definition log_sizes :: "log_state \<Rightarrow> string \<Rightarrow> log_state" where
  "log_sizes st line =
     st\<lparr>ls_status := (if prefix ''collection_status='' line
                      then map_option snd (split_once CHR ''='' (py_strip line)) else ls_status st),
        ls_effective := ls_effective st @ widths line,
        ls_micro := ls_micro st @ bounded_numbers ''B_MICRO'' False line,
        ls_rows := ls_rows st @ bounded_numbers ''STREAM1_ROWS_PER_JOB'' False line,
        ls_stream3 := ls_stream3 st @ bounded_numbers ''STREAM3_BATCH_CANDIDATES'' False line\<rparr>"

definition log_record :: "graph_contract \<Rightarrow> int option \<Rightarrow> log_state \<Rightarrow> string \<Rightarrow> log_state result" where
  "log_record c max_steps st line =
     (if \<not> sublist ''puzzle_solved='' line then Inr st
      else ebind (terminal_record c max_steps line) (\<lambda>r. Inr (st\<lparr>ls_records := ls_records st @ [r]\<rparr>)))"

definition log_line :: "graph_contract \<Rightarrow> int option \<Rightarrow> log_state \<Rightarrow> string \<Rightarrow> log_state result" where
  "log_line c max_steps st line =
     ebind (log_collected c max_steps (ls_collected st) line) (\<lambda>collected.
     ebind (log_counts (ls_counts st) line) (\<lambda>counts.
     log_record c max_steps (log_sizes (st\<lparr>ls_collected := collected, ls_counts := counts\<rparr>) line) line))"

text \<open>One observed size when all ranks agree, the sorted values when they differ.\<close>

definition observed_size :: "nat list \<Rightarrow> nat option \<times> nat list" where
  "observed_size ns = (case remdups ns of [n] \<Rightarrow> (Some n, []) | [] \<Rightarrow> (None, []) | ms \<Rightarrow> (None, sort ms))"

record terminal_metadata =
  md_seconds :: rat
  md_records :: nat
  md_collected :: "(collected_row list \<times> string) option"
  md_sizes :: "(nat option \<times> nat list) list"

definition check_collection ::
  "nat list option \<Rightarrow> log_state \<Rightarrow> (collected_row list \<times> string) option result" where
  "check_collection path st =
     (let rows = ls_collected st; paths = map cl_path rows in
      if ls_counts st = [] then Inr None
      else if ls_counts st \<noteq> [int (length rows)] \<or> \<not> distinct paths
      then Inl (NativeBackendError ''collection summary/count/unique-path mismatch'')
      else if (rows \<noteq> []) \<noteq> (path \<noteq> None)
      then Inl (NativeBackendError ''collection and terminal result disagree'')
      else if rows \<noteq> [] \<and> the path \<notin> set paths
      then Inl (NativeBackendError ''terminal path missing from collection'')
      else Inr (Some (rows, case ls_status st of
                              Some s \<Rightarrow> if s = [] then ''depth_reached'' else s
                            | None \<Rightarrow> ''depth_reached'')))"

definition finish_log :: "log_state \<Rightarrow> (nat list option \<times> nat option \<times> terminal_metadata) result" where
  "finish_log st =
     (case ls_records st of
        [] \<Rightarrow> Inl (NativeBackendError ''native process returned without a terminal result'')
      | (path, t) # rest \<Rightarrow>
          if list_ex (\<lambda>r. fst r \<noteq> path) rest
          then Inl (NativeBackendError ''native ranks emitted contradictory terminal results'')
          else if length (remdups (ls_effective st)) > 1 \<or> 0 \<in> set (ls_effective st)
          then Inl (NativeBackendError ''native ranks emitted inconsistent effective global beam widths'')
          else
            ebind (check_collection path st) (\<lambda>collected.
            Inr (path, (case ls_effective st of [] \<Rightarrow> None | w # _ \<Rightarrow> Some w),
                 \<lparr>md_seconds = Max (snd ` set (ls_records st)), md_records = length (ls_records st),
                  md_collected = collected,
                  md_sizes = map observed_size [ls_micro st, ls_rows st, ls_stream3 st]\<rparr>)))"

definition parse_terminal ::
  "graph_contract \<Rightarrow> pyval option \<Rightarrow> string list \<Rightarrow> (nat list option \<times> nat option \<times> terminal_metadata) result" where
  "parse_terminal c max_steps lines =
     (case max_steps of
        Some v \<Rightarrow>
          if \<not> (is_int v \<and> 0 \<le> the_int v) then Inl (ValueError ''max_steps must be a nonnegative integer'')
          else ebind (efold (log_line c (Some (the_int v)))
                 \<lparr>ls_records = [], ls_effective = [], ls_collected = [], ls_counts = [], ls_status = None, ls_micro = [],
                  ls_rows = [], ls_stream3 = []\<rparr> lines) finish_log
      | None \<Rightarrow>
          ebind (efold (log_line c None)
                 \<lparr>ls_records = [], ls_effective = [], ls_collected = [], ls_counts = [], ls_status = None, ls_micro = [],
                  ls_rows = [], ls_stream3 = []\<rparr> lines) finish_log)"

section \<open>Only replayed paths are reported\<close>

definition log_ok :: "graph_contract \<Rightarrow> int option \<Rightarrow> log_state \<Rightarrow> bool" where
  "log_ok c max_steps st \<longleftrightarrow>
     (\<forall>(p, t) \<in> set (ls_records st). 0 \<le> t \<and> (\<forall>path. p = Some path \<longrightarrow> replay c (py_path path) \<and> in_budget max_steps path))
     \<and> (\<forall>r \<in> set (ls_collected st). replay c (py_path (cl_path r)) \<and> in_budget max_steps (cl_path r)
          \<and> cl_solved_depth r + cl_touch_depth r = int (length (cl_path r)))"

lemma collected_solution_ok:
  "collected_solution c max_steps line = Inr r \<Longrightarrow> replay c (py_path (cl_path r)) \<and> in_budget max_steps (cl_path r)
     \<and> cl_solved_depth r + cl_touch_depth r = int (length (cl_path r))"
  by (auto simp: collected_solution_def ebind_Inr_iff Let_def split: if_splits)

lemma terminal_path_ok:
  "terminal_path c max_steps m = Inr (Some path) \<Longrightarrow> replay c (py_path path) \<and> in_budget max_steps path"
  by (auto simp: terminal_path_def ebind_Inr_iff split: if_splits)

lemma terminal_record_ok:
  "terminal_record c max_steps line = Inr (p, t) \<Longrightarrow>
     0 \<le> t \<and> (\<forall>path. p = Some path \<longrightarrow> replay c (py_path path) \<and> in_budget max_steps path)"
  by (auto simp: terminal_record_def ebind_Inr_iff dest: terminal_path_ok
      split: option.splits sum.splits if_splits)

lemma log_line_ok:
  assumes "log_line c max_steps st line = Inr st'" "log_ok c max_steps st"
  shows "log_ok c max_steps st'"
proof -
  from assms(1) obtain collected counts where
    c: "log_collected c max_steps (ls_collected st) line = Inr collected"
    and r: "log_record c max_steps (log_sizes (st\<lparr>ls_collected := collected, ls_counts := counts\<rparr>) line) line = Inr st'"
    by (auto simp: log_line_def ebind_Inr_iff)
  have col: "collected = ls_collected st \<or> (\<exists>r. collected = ls_collected st @ [r] \<and> collected_solution c max_steps line = Inr r)"
    using c by (auto simp: log_collected_def ebind_Inr_iff split: if_splits)
  have rec: "ls_collected st' = collected"
      "ls_records st' = ls_records st \<or> (\<exists>r. ls_records st' = ls_records st @ [r] \<and> terminal_record c max_steps line = Inr r)"
    using r by (auto simp: log_record_def log_sizes_def ebind_Inr_iff split: if_splits)
  have "\<forall>r \<in> set (ls_collected st'). replay c (py_path (cl_path r)) \<and> in_budget max_steps (cl_path r)
          \<and> cl_solved_depth r + cl_touch_depth r = int (length (cl_path r))"
    using assms(2) col rec(1) collected_solution_ok by (auto simp: log_ok_def)
  moreover have "\<forall>(p, t) \<in> set (ls_records st'). 0 \<le> t \<and> (\<forall>path. p = Some path \<longrightarrow> replay c (py_path path) \<and> in_budget max_steps path)"
    using assms(2) rec(2) terminal_record_ok by (fastforce simp: log_ok_def)
  ultimately show ?thesis by (simp add: log_ok_def)
qed

lemma finish_log_ok:
  assumes "finish_log st = Inr (path, effective, md)" "log_ok c max_steps st"
  shows "(\<forall>p. path = Some p \<longrightarrow> replay c (py_path p) \<and> in_budget max_steps p)
    \<and> (\<forall>r \<in> set (ls_records st). fst r = path) \<and> md_records md = length (ls_records st) \<and> 0 < md_records md
    \<and> (\<forall>w \<in> set (ls_effective st). effective = Some w \<and> 0 < w)
    \<and> (\<forall>rows status. md_collected md = Some (rows, status) \<longrightarrow>
         distinct (map cl_path rows) \<and> (rows = [] \<longleftrightarrow> path = None)
         \<and> (\<forall>p. path = Some p \<longrightarrow> p \<in> cl_path ` set rows)
         \<and> (\<forall>r \<in> set rows. replay c (py_path (cl_path r)) \<and> in_budget max_steps (cl_path r)))"
proof -
  from assms(1) obtain p t rest collected where rec: "ls_records st = (p, t) # rest" "list_all (\<lambda>r. fst r = p) rest"
    and w: "length (remdups (ls_effective st)) \<le> 1" "0 \<notin> set (ls_effective st)"
    and col: "check_collection p st = Inr collected" "path = p" "md_collected md = collected"
      "md_records md = length (ls_records st)" "effective = (case ls_effective st of [] \<Rightarrow> None | w # _ \<Rightarrow> Some w)"
    by (auto simp: finish_log_def ebind_Inr_iff list_ex_iff list_all_iff split: list.splits if_splits)
  have "effective = Some x \<and> 0 < x" if "x \<in> set (ls_effective st)" for x
  proof -
    from that obtain y ys where ys: "ls_effective st = y # ys" by (cases "ls_effective st") auto
    from w(1) have "card (set (ls_effective st)) \<le> 1" by (simp add: length_remdups_card_conv)
    then have "x = y" using that ys by (auto simp: card_le_Suc0_iff_eq)
    then show ?thesis using col(5) ys w(2) that by (auto intro: gr0I)
  qed
  moreover have "(\<forall>rows status. collected = Some (rows, status) \<longrightarrow>
         distinct (map cl_path rows) \<and> (rows = [] \<longleftrightarrow> p = None)
         \<and> (\<forall>q. p = Some q \<longrightarrow> q \<in> cl_path ` set rows) \<and> rows = ls_collected st)"
    using col(1) by (auto simp: check_collection_def Let_def split: if_splits)
  ultimately show ?thesis using assms(2) rec col(2-4) by (auto simp: log_ok_def list_all_iff)
qed

lemma parse_terminal_log:
  assumes "parse_terminal c (Some (PInt max_steps)) lines = Inr r"
  obtains st where "finish_log st = Inr r" "log_ok c (Some max_steps) st"
proof -
  from assms obtain st where st: "efold (log_line c (Some max_steps))
      \<lparr>ls_records = [], ls_effective = [], ls_collected = [], ls_counts = [], ls_status = None, ls_micro = [],
       ls_rows = [], ls_stream3 = []\<rparr> lines = Inr st" and fin: "finish_log st = Inr r"
    by (auto simp: parse_terminal_def ebind_Inr_iff split: if_splits)
  have "log_ok c (Some max_steps) st"
    by (rule efold_invariant [OF st]) (auto simp: log_ok_def [of _ _ "\<lparr>ls_records = _, ls_effective = _, ls_collected = _,
      ls_counts = _, ls_status = _, ls_micro = _, ls_rows = _, ls_stream3 = _\<rparr>"] intro: log_line_ok)
  with fin show ?thesis by (rule that)
qed

lemma parse_terminal_path:
  assumes "parse_terminal c (Some v) lines = Inr (Some path, effective, md)"
  shows "solves c path \<and> int (length path) \<le> the_int v"
proof -
  from assms have "v = PInt (the_int v)" by (auto simp: parse_terminal_def is_int_iff split: if_splits)
  with assms obtain st where "finish_log st = Inr (Some path, effective, md)" "log_ok c (Some (the_int v)) st"
    by (metis parse_terminal_log)
  from finish_log_ok [OF this] show ?thesis by (auto simp: in_budget_def)
qed


definition solved_line :: string where
  "solved_line = ''puzzle_solved=1 puzzle_id=0 seconds=2 solution_length=1 x solution=m1''"

definition solved_match :: terminal_match where
  "solved_match = \<lparr>tm_found = True, tm_puzzle = ''0'', tm_seconds = ''2'', tm_length = 1, tm_path = ''m1''\<rparr>"

lemma solved_line_match: "terminal_search solved_line = Some solved_match"
  by (simp add: terminal_search_def solved_line_def solved_match_def py_rstrip_def is_space_def terminal_at_def after_prefix_def
      blanks_def span1_def is_digit_def is_black_def signed_int_def span_nat_def last_word_def Let_def
      nat_of_digits_def digit_value_def)

lemma solved_line_record: "terminal_record lrx_contract (Some 4) solved_line = Inr (Some [1], 2)"
proof -
  have "py_float ''2'' = Inr (Fin 2)"
    by (simp add: py_float_def signed_def py_strip_def py_rstrip_def is_space_def lower_char_def split_once_def
        mantissa_def all_digits_def is_digit_def nat_of_digits_def digit_value_def Let_def)
  moreover have "move_token ''m1'' = Some 1"
    by (simp add: move_token_def parse_nat_def is_digit_def nat_of_digits_def digit_value_def)
  moreover have "path_tokens ''m1'' = [''m1'']" by (simp add: path_tokens_def)
  moreover have "solves lrx_contract [1]" by (simp add: solves_def path_ok_def lrx_contract_def gather_def move_count_def)
  ultimately show ?thesis
    by (simp add: terminal_record_def solved_line_match solved_match_def terminal_path_def parse_moves_def in_budget_def)
      (simp add: move_count_def lrx_contract_def)
qed

lemma number_after_None:
  assumes "x \<in> set name" "x \<notin> set s"
  shows "number_after name s = None"
proof -
  have "\<not> prefix (name @ ''='') s"
  proof
    assume "prefix (name @ ''='') s"
    then have "set (name @ ''='') \<subseteq> set s" by (auto simp: prefix_def)
    then show False using assms by auto
  qed
  then show ?thesis by (simp add: number_after_def after_prefix_def)
qed

lemma suffixes_of_subset: "t \<in> set (suffixes_of s) \<Longrightarrow> set t \<subseteq> set s"
  by (induction s) auto

lemma no_widths:
  assumes "CHR ''G'' \<notin> set s" "CHR ''b'' \<notin> set s"
  shows "widths s = []"
proof -
  have "first_some (\<lambda>name. number_after name t) [''GLOBAL_BEAM_WIDTH_EFFECTIVE'', ''global_beam_width_effective''] = None"
    if "t \<in> set (suffixes_of s)" for t
  proof -
    have "CHR ''G'' \<notin> set t" "CHR ''b'' \<notin> set t" using suffixes_of_subset [OF that] assms by auto
    then have "number_after ''GLOBAL_BEAM_WIDTH_EFFECTIVE'' t = None" "number_after ''global_beam_width_effective'' t = None"
      by (intro number_after_None [of "CHR ''G''"] number_after_None [of "CHR ''b''"]; simp)+
    then show ?thesis by simp
  qed
  then show ?thesis by (auto simp: widths_def map_filter_def filter_empty_conv)
qed

lemma no_bounded_numbers: "x \<in> set name \<Longrightarrow> x \<notin> set s \<Longrightarrow> bounded_numbers name inside s = []"
proof (induction name inside s rule: bounded_numbers.induct)
  case (2 name inside c cs)
  then show ?case using number_after_None [of x name "c # cs"] by (cases inside) auto
qed simp

lemma solved_line_sizes:
  "widths solved_line = []" "bounded_numbers ''B_MICRO'' False solved_line = []"
  "bounded_numbers ''STREAM1_ROWS_PER_JOB'' False solved_line = []"
  "bounded_numbers ''STREAM3_BATCH_CANDIDATES'' False solved_line = []"
  by (rule no_widths no_bounded_numbers [of "CHR ''B''"] no_bounded_numbers [of "CHR ''S''"]; simp add: solved_line_def)+


end
