(* ===== verification/Execution.thy ===== *)
theory Execution
  imports Runtime Terminal
begin

text \<open>
  Around the native process (\<open>backend.py\<close>, \<open>runtime_report.py\<close>): the choice of the inference executor before
  a build, the private snapshots of the runner and of the NCCL library, the supervision of a
  process, the collection of the rank logs and the depth report. A directory is a map from paths to file
  contents; digests, the build and CUDA queries are parameters.
\<close>

section \<open>The executor\<close>

record model_info =
  mi_backend :: string
  mi_output_dim :: int
  mi_dtype :: "string option"

record prepared_runtime =
  rt_architectures :: "int list"
  rt_executor :: string
  rt_row_limit :: int
  rt_policy :: string
  rt_names :: "string list"

definition cube_backends :: "string list" where
  "cube_backends = [''cube444_transformer'', ''cube444_mlp'', ''cube555_transformer'', ''cube555_mlp'']"

definition unaligned_head :: "model_info \<Rightarrow> bool" where
  "unaligned_head m = (mi_backend m = ''mlp'' \<and> mi_output_dim m \<noteq> 1 \<and> mi_output_dim m mod 8 \<noteq> 0)"

definition architecture_codes :: "(int \<times> int) list \<Rightarrow> int list" where
  "architecture_codes caps = sort (remdups (map (\<lambda>(major, minor). major * 10 + minor) caps))"

text \<open>One executor for all ranks: LibTorch as soon as one card is a T4, or an ensemble meets an older card.\<close>

definition choose_executor :: "string \<Rightarrow> model_info \<Rightarrow> int list \<Rightarrow> string list \<Rightarrow> string" where
  "choose_executor requested m archs names =
     (if requested \<noteq> ''auto'' then requested
      else if mi_backend m = ''ensemble'' \<and> list_ex (\<lambda>sm. sm < 80) archs
              \<or> list_ex (\<lambda>n. ''T4'' \<in> set (py_split n)) names
      then ''libtorch'' else ''cutlass'')"

definition runtime_checks :: "model_info \<Rightarrow> string \<Rightarrow> int list \<Rightarrow> unit result" where
  "runtime_checks m executor archs =
     (if mi_dtype m = Some ''bf16'' \<and> list_ex (\<lambda>sm. sm < 80) archs
      then Inl (NativeUnavailable ''native BF16 Stream1 requires SM80+ on every selected GPU'')
      else if mi_dtype m = Some ''fp16'' \<and> list_ex (\<lambda>sm. sm < 75) archs
      then Inl (NativeUnavailable ''this native FP16 MLP backend uses SM75+ TensorOp kernels'')
      else if mi_backend m = ''ensemble'' \<and> executor = ''cutlass'' \<and> list_ex (\<lambda>sm. sm < 80) archs
      then Inl (NativeUnavailable ''ensemble CUTLASS requires SM80+ on every selected GPU'')
      else if executor = ''cutlass'' \<and> unaligned_head m
      then Inl (NativeUnavailable ''native MLP Q-head output_dim must be a multiple of 8'')
      else Inr ())"

definition prepared :: "string \<Rightarrow> int list \<Rightarrow> string list \<Rightarrow> prepared_runtime" where
  "prepared executor archs names =
     \<lparr>rt_architectures = archs, rt_executor = executor,
      rt_row_limit = (if executor = ''libtorch'' then 2048 else 8192),
      rt_policy = (if executor = ''libtorch'' then ''libtorch-conservative-v1'' else ''cutlass-default-v1''),
      rt_names = names\<rparr>"

text \<open>\<open>caps\<close> is the answer of the CUDA capability query, an \<open>Inl\<close> its \<open>RuntimeError\<close> or \<open>AssertionError\<close>.\<close>

definition prepare_runtime ::
  "graph_contract \<Rightarrow> model_info \<Rightarrow> string \<Rightarrow> pyval \<Rightarrow> int \<Rightarrow> (int \<times> int) list result \<Rightarrow> string list
    \<Rightarrow> (string \<Rightarrow> int list \<Rightarrow> unit result) \<Rightarrow> prepared_runtime result" where
  "prepare_runtime c m requested radius most caps names ensure_runner =
     (if \<not> (is_int radius \<and> 0 \<le> the_int radius)
      then Inl (ValueError ''effective touch_bfs_radius must be a nonnegative integer'')
      else
        ebind (validate_touch_bfs_contract c (the_int radius) most) (\<lambda>_.
        if mi_backend m \<in> set cube_backends
        then Inl (NativeUnavailable ''Cube heads require NativeEnsemble, including a single-head ensemble'')
        else if requested = ''cutlass'' \<and> unaligned_head m
        then Inl (NativeUnavailable ''native MLP Q-head output_dim must be a multiple of 8'')
        else
          (case caps of
             Inl _ \<Rightarrow> Inl (NativeUnavailable ''cannot inspect requested native CUDA architecture'')
           | Inr cs \<Rightarrow>
               let archs = architecture_codes cs; executor = choose_executor requested m archs names in
               ebind (runtime_checks m executor archs) (\<lambda>_.
               ebind (ensure_runner executor archs) (\<lambda>_. Inr (prepared executor archs names))))))"

lemma guarded: "((if b then Inl e else x) = Inr r) = (\<not> b \<and> x = Inr r)"
  by simp

lemma prepare_runtime_spec:
  assumes "prepare_runtime c m requested radius most caps names build = Inr r"
  shows "\<exists>cs executor. caps = Inr cs \<and> executor = choose_executor requested m (architecture_codes cs) names
    \<and> runtime_checks m executor (architecture_codes cs) = Inr () \<and> r = prepared executor (architecture_codes cs) names"
proof (cases caps)
  case (Inl e)
  have False using assms unfolding prepare_runtime_def Inl guarded ebind_Inr_iff sum.case by blast
  then show ?thesis ..
next
  case (Inr cs)
  have "\<exists>u. runtime_checks m (choose_executor requested m (architecture_codes cs) names) (architecture_codes cs) = Inr u
    \<and> (\<exists>u'. build (choose_executor requested m (architecture_codes cs) names) (architecture_codes cs) = Inr u'
      \<and> Inr (prepared (choose_executor requested m (architecture_codes cs) names) (architecture_codes cs) names) = Inr r)"
    using assms unfolding prepare_runtime_def Inr guarded ebind_Inr_iff sum.case Let_def by blast
  then have "runtime_checks m (choose_executor requested m (architecture_codes cs) names) (architecture_codes cs) = Inr ()"
    "r = prepared (choose_executor requested m (architecture_codes cs) names) (architecture_codes cs) names" by simp_all
  with Inr show ?thesis by blast
qed

lemma runtime_checks_iff:
  "runtime_checks m executor archs = Inr () \<longleftrightarrow>
     (mi_dtype m = Some ''bf16'' \<longrightarrow> (\<forall>sm \<in> set archs. 80 \<le> sm)) \<and>
     (mi_dtype m = Some ''fp16'' \<longrightarrow> (\<forall>sm \<in> set archs. 75 \<le> sm)) \<and>
     (executor = ''cutlass'' \<longrightarrow> \<not> unaligned_head m) \<and>
     (executor = ''cutlass'' \<and> mi_backend m = ''ensemble'' \<longrightarrow> (\<forall>sm \<in> set archs. 80 \<le> sm))"
proof -
  have ex: "list_ex (\<lambda>sm. sm < k) archs \<longleftrightarrow> \<not> (\<forall>sm \<in> set archs. k \<le> sm)" for k :: int
    by (auto simp: list_ex_iff not_le)
  show ?thesis unfolding runtime_checks_def ex guarded by blast
qed

lemma choose_executor_T4:
  assumes "n \<in> set names" "''T4'' \<in> set (py_split n)"
  shows "choose_executor ''auto'' m archs names = ''libtorch''"
  using assms by (auto simp: choose_executor_def list_ex_iff)

section \<open>Private snapshots\<close>

type_synonym files = "string \<Rightarrow> string option"

definition is_hex_digest :: "string \<Rightarrow> bool" where
  "is_hex_digest s = (length s = 64 \<and> list_all (\<lambda>c. is_digit c \<or> c \<in> set ''abcdef'') s)"

text \<open>Copy to a staging name, check the digest of the copy, rename; the staging file never survives.\<close>

definition publish_copy ::
  "(string \<Rightarrow> string) \<Rightarrow> string \<Rightarrow> string option \<Rightarrow> string \<Rightarrow> string \<Rightarrow> files \<Rightarrow> string result \<times> files" where
  "publish_copy digest expected source staging target fs =
     (case source of
        None \<Rightarrow> (Inl (NativeBackendError ''could not create private native snapshot''), fs)
      | Some bytes \<Rightarrow>
          let fs1 = fs(staging \<mapsto> bytes) in
          if digest bytes \<noteq> expected
          then (Inl (NativeBackendError ''native file changed while its private snapshot was copied''), fs1(staging := None))
          else (Inr target, fs1(target := fs1 staging, staging := None)))"

definition snapshot_runtime_runner ::
  "(string \<Rightarrow> string) \<Rightarrow> pyval option \<Rightarrow> string option \<Rightarrow> string \<Rightarrow> files \<Rightarrow> string result \<times> files" where
  "snapshot_runtime_runner digest expected source run_dir fs =
     (let target = run_dir @ ''/production_runner''; staging = run_dir @ ''/.production_runner.tmp'' in
      case expected of
        Some (PStr sha) \<Rightarrow>
          if \<not> is_hex_digest sha then (Inl (NativeBackendError ''native build metadata has no valid runner SHA256''), fs)
          else if fs target \<noteq> None then (Inl (NativeBackendError ''private native runner snapshot already exists''), fs)
          else if fs staging \<noteq> None then (Inl (NativeBackendError ''private native runner staging path already exists''), fs)
          else publish_copy digest sha source staging target fs
      | _ \<Rightarrow> (Inl (NativeBackendError ''native build metadata has no valid runner SHA256''), fs))"

text \<open>The library goes into a directory of its own, which must not exist yet.\<close>

record nccl_provenance =
  nc_library :: "pyval option"
  nc_digest :: "pyval option"

definition snapshot_runtime_nccl ::
  "(string \<Rightarrow> string) \<Rightarrow> nccl_provenance option \<Rightarrow> (string \<Rightarrow> string option) \<Rightarrow> bool \<Rightarrow> string \<Rightarrow> files
    \<Rightarrow> string result \<times> files" where
  "snapshot_runtime_nccl digest nccl read directory_exists run_dir fs =
     (let dir = run_dir @ ''/runtime-libs''; target = dir @ ''/libnccl.so.2''; staging = dir @ ''/.libnccl.so.2.tmp'' in
      case Option.bind nccl nc_library of
        Some (PStr library) \<Rightarrow>
          (case Option.bind nccl nc_digest of
             Some (PStr sha) \<Rightarrow>
               if \<not> is_hex_digest sha
               then (Inl (NativeBackendError ''native build metadata has no valid NCCL library SHA256''), fs)
               else if directory_exists
               then (Inl (NativeBackendError ''private native runtime library directory already exists''), fs)
               else publish_copy digest sha (read library) staging target fs
           | _ \<Rightarrow> (Inl (NativeBackendError ''native build metadata has no valid NCCL library SHA256''), fs))
      | _ \<Rightarrow> (Inl (NativeBackendError ''native build metadata has no valid NCCL provenance''), fs))"

lemma publish_copy_verified:
  assumes "publish_copy digest expected source staging target fs = (r, fs')" "fs staging = None" "staging \<noteq> target"
  shows "case r of Inl _ \<Rightarrow> fs' = fs
    | Inr path \<Rightarrow> path = target \<and> (\<exists>bytes. source = Some bytes \<and> digest bytes = expected \<and> fs' = fs(target \<mapsto> bytes))"
proof -
  have clean: "(fs(staging \<mapsto> b))(staging := None) = fs" for b
    using assms(2) by (auto intro!: ext)
  have placed: "(fs(staging \<mapsto> b))(target \<mapsto> b, staging := None) = fs(target \<mapsto> b)" for b
    using assms(2,3) by (auto intro!: ext)
  show ?thesis
  proof (cases source)
    case None
    then show ?thesis using assms(1) by (auto simp: publish_copy_def)
  next
    case (Some b)
    then show ?thesis using assms(1) clean [of b] placed [of b]
      by (cases "digest b = expected") (auto simp: publish_copy_def Let_def)
  qed
qed

text \<open>The runner snapshot is all or nothing: when it succeeds, the run directory holds under the
  runner's name exactly the bytes of the verified executable, with the digest pinned by the build, and no
  other file changed; when it fails, no file changed at all - in particular a runner that was
  replaced while it was copied is never left behind.\<close>
theorem runner_snapshot_atomic:
  assumes "snapshot_runtime_runner digest expected source run_dir fs = (r, fs')"
  shows "case r of Inl _ \<Rightarrow> fs' = fs
    | Inr path \<Rightarrow> fs path = None \<and> (\<exists>bytes sha. source = Some bytes \<and> expected = Some (PStr sha) \<and> is_hex_digest sha
        \<and> digest bytes = sha \<and> fs' = fs(path \<mapsto> bytes))"
proof (cases "fs' = fs \<and> (\<exists>e. r = Inl e)")
  case False
  let ?target = "run_dir @ ''/production_runner''" and ?staging = "run_dir @ ''/.production_runner.tmp''"
  from False assms obtain sha where "expected = Some (PStr sha)" "is_hex_digest sha" "fs ?target = None" "fs ?staging = None"
    "publish_copy digest sha source ?staging ?target fs = (r, fs')"
    by (auto simp: snapshot_runtime_runner_def Let_def split: option.splits pyval.splits if_splits)
  with publish_copy_verified [OF this(5)] show ?thesis by (auto split: sum.splits)
qed auto

lemma runner_snapshot_atomic_witness:
  "\<exists>path fs'. snapshot_runtime_runner (\<lambda>_. replicate 64 CHR ''a'') (Some (PStr (replicate 64 CHR ''a''))) (Some ''elf'') ''run'' Map.empty
      = (Inr path, fs') \<and> fs' path = Some ''elf''"
proof -
  let ?run = "snapshot_runtime_runner (\<lambda>_. replicate 64 CHR ''a'') (Some (PStr (replicate 64 CHR ''a''))) (Some ''elf'') ''run'' Map.empty"
  have "is_hex_digest (replicate 64 CHR ''a'')" by (simp add: is_hex_digest_def list_all_iff)
  then have "\<exists>path fs'. ?run = (Inr path, fs')" by (simp add: snapshot_runtime_runner_def publish_copy_def Let_def)
  then obtain path fs' where run: "?run = (Inr path, fs')" by blast
  from runner_snapshot_atomic [OF run] run show ?thesis by auto
qed

section \<open>Process supervision\<close>

datatype process_end = Exited int | Timed_out | Cannot_start string

datatype process_event = Started "string list" | Group_stopped

definition run_process :: "string list \<Rightarrow> process_end \<Rightarrow> rat \<Rightarrow> rat result \<times> process_event list" where
  "run_process command ending elapsed =
     (case ending of
        Cannot_start m \<Rightarrow> (Inl (NativeBackendError ''cannot execute native process''), [])
      | Timed_out \<Rightarrow> (Inl (NativeBackendError ''native process timed out''), [Started command, Group_stopped])
      | Exited code \<Rightarrow>
          if code \<noteq> 0 then (Inl (NativeBackendError ''native process failed''), [Started command, Group_stopped])
          else (Inr elapsed, [Started command]))"

section \<open>Rank logs\<close>

datatype entry = File string | Link | Dir "(string \<times> entry) list"

definition safe_dir :: "entry option \<Rightarrow> (string \<times> entry) list option" where
  "safe_dir e = (case e of Some (Dir es) \<Rightarrow> Some es | _ \<Rightarrow> None)"

definition safe_file :: "entry option \<Rightarrow> string option" where
  "safe_file e = (case e of Some (File t) \<Rightarrow> Some t | _ \<Rightarrow> None)"

definition rank_stream ::
  "(string \<times> entry) list \<Rightarrow> nat \<Rightarrow> string \<Rightarrow> (string \<times> string) list \<times> string list" where
  "rank_stream files rank name =
     (case safe_file (map_of files name) of
        Some t \<Rightarrow> ([(''rank '' @ str_nat rank @ '' '' @ name, t)], [])
      | None \<Rightarrow> ([], [''missing or unsafe rank stream: '' @ str_nat rank @ ''/'' @ name]))"

definition rank_streams ::
  "(string \<times> entry) list \<Rightarrow> nat \<Rightarrow> (string \<times> string) list \<times> string list" where
  "rank_streams ranks rank =
     (case safe_dir (map_of ranks (str_nat rank)) of
        None \<Rightarrow> ([], [''missing or unsafe rank directory: '' @ str_nat rank])
      | Some files \<Rightarrow>
          let a = rank_stream files rank ''stdout.log''; b = rank_stream files rank ''stderr.log'' in
          (fst a @ fst b, snd a @ snd b))"

definition attempt_streams :: "(string \<times> entry) list \<Rightarrow> nat \<Rightarrow> (string \<times> string) list \<times> string list" where
  "attempt_streams ranks world =
     (let parts = map (rank_streams ranks) [0..<world];
          extra = (if set (map fst ranks) \<noteq> set (map str_nat [0..<world])
                   then [''torchrun rank directory set does not match requested world size''] else []) in
      (concat (map fst parts), extra @ concat (map snd parts)))"

text \<open>Exactly one session with exactly one \<open>attempt_0\<close>; nothing else is searched.\<close>

definition session_streams :: "(string \<times> entry) list \<Rightarrow> nat \<Rightarrow> (string \<times> string) list \<times> string list" where
  "session_streams sessions world =
     (case sessions of
        [(_, Dir attempts)] \<Rightarrow>
          (case attempts of
             [(name, Dir ranks)] \<Rightarrow>
               if name = ''attempt_0'' then attempt_streams ranks world
               else ([], [''expected exactly one torchrun attempt_0 directory''])
           | _ \<Rightarrow> ([], [''expected exactly one torchrun attempt_0 directory'']))
      | _ \<Rightarrow> ([], [''expected exactly one torchrun log session directory'']))"

record log_collection =
  lc_streams :: "(string \<times> string) list"
  lc_issues :: "string list"

definition collect_worker_logs ::
  "(string \<times> entry) list \<Rightarrow> entry option \<Rightarrow> nat \<Rightarrow> bool \<Rightarrow> log_collection result" where
  "collect_worker_logs sessions launcher world strict =
     (let (streams, issues) = session_streams sessions world;
          issues' = issues @ (case safe_file launcher of None \<Rightarrow> [''cannot read launcher''] | Some _ \<Rightarrow> []) in
      if strict \<and> issues' \<noteq> [] then Inl (NativeBackendError ''incomplete native worker logs'')
      else Inr \<lparr>lc_streams = (case safe_file launcher of Some t \<Rightarrow> [(''launcher'', t)] | None \<Rightarrow> []) @ streams,
                lc_issues = issues'\<rparr>)"

lemma rank_streams_complete:
  assumes "snd (rank_streams ranks rank) = []"
  shows "map fst (fst (rank_streams ranks rank))
    = [''rank '' @ str_nat rank @ '' stdout.log'', ''rank '' @ str_nat rank @ '' stderr.log'']"
  using assms by (auto simp: rank_streams_def rank_stream_def Let_def split: option.splits)

lemma collect_worker_logs_complete:
  assumes "collect_worker_logs sessions launcher world True = Inr l"
  shows "map fst (lc_streams l) = ''launcher'' # concat (map (\<lambda>r.
    [''rank '' @ str_nat r @ '' stdout.log'', ''rank '' @ str_nat r @ '' stderr.log'']) [0..<world])"
proof -
  obtain streams issues where s: "session_streams sessions world = (streams, issues)" by (cases "session_streams sessions world")
  with assms obtain t where t: "safe_file launcher = Some t" "issues = []" "lc_streams l = (''launcher'', t) # streams"
    by (auto simp: collect_worker_logs_def split: if_splits option.splits)
  from s t(2) obtain ranks where "attempt_streams ranks world = (streams, [])"
    by (auto simp: session_streams_def split: list.splits prod.splits entry.splits if_splits)
  then have parts: "streams = concat (map fst (map (rank_streams ranks) [0..<world]))"
    "\<forall>r < world. snd (rank_streams ranks r) = []"
    by (auto simp: attempt_streams_def Let_def split: if_splits)
  have "map fst streams = concat (map (\<lambda>r. map fst (fst (rank_streams ranks r))) [0..<world])"
    unfolding parts(1) by (simp add: map_concat o_def)
  also have "\<dots> = concat (map (\<lambda>r.
    [''rank '' @ str_nat r @ '' stdout.log'', ''rank '' @ str_nat r @ '' stderr.log'']) [0..<world])"
    using parts(2) rank_streams_complete by (intro arg_cong [where f = concat] map_cong) auto
  finally show ?thesis using t(3) by simp
qed

section \<open>The depth report\<close>

record depth_state =
  dp_rank :: int
  dp_starts :: "((int \<times> int) \<times> int) list"
  dp_done :: "((int \<times> int) \<times> rat) list"

definition rank_marker :: "string \<Rightarrow> int option" where
  "rank_marker line =
     Option.bind (after_prefix ''[rank '' line) (\<lambda>s. Option.bind (span_nat s) (\<lambda>(n, r).
       if r = '' stdout.log]'' then Some (int n) else None))"

definition loose_fields :: "string \<Rightarrow> (string, string) dict" where
  "loose_fields line = dict_update [] (List.map_filter (split_once CHR ''='') (py_split line))"

definition depth_start :: "depth_state \<Rightarrow> string \<Rightarrow> depth_state result" where
  "depth_start st line =
     (let f = loose_fields line in
      ebind (field_int f ''runtime_depth_start'') (\<lambda>d.
      if map_of (dp_starts st) (d, dp_rank st) \<noteq> None then Inl (ValueError ''duplicate runtime depth start'')
      else ebind (field_int f ''frontier_size'') (\<lambda>n.
        Inr (st\<lparr>dp_starts := dict_set (d, dp_rank st) n (dp_starts st)\<rparr>))))"

definition depth_done :: "depth_state \<Rightarrow> string \<Rightarrow> depth_state result" where
  "depth_done st line =
     (let f = loose_fields line in
      ebind (field_int f ''runtime_depth_done'') (\<lambda>d.
      if map_of (dp_done st) (d, dp_rank st) \<noteq> None then Inl (ValueError ''duplicate runtime depth completion'')
      else ebind (dict_item f ''depth_sec'') (\<lambda>t. ebind (py_float t) (\<lambda>v.
        case (case v of Fin r \<Rightarrow> if 0 < r then Some r else None | _ \<Rightarrow> None) of
          None \<Rightarrow> Inl (ValueError ''invalid complete depth duration'')
        | Some s \<Rightarrow> Inr (st\<lparr>dp_done := dict_set (d, dp_rank st) s (dp_done st)\<rparr>)))))"

definition depth_line :: "int \<Rightarrow> depth_state \<Rightarrow> string \<Rightarrow> depth_state result" where
  "depth_line world st line =
     (case rank_marker line of
        Some r \<Rightarrow> Inr (st\<lparr>dp_rank := r\<rparr>)
      | None \<Rightarrow>
          if prefix ''[rank '' line \<or> line = ''[launcher]'' then Inr (st\<lparr>dp_rank := -1\<rparr>)
          else if \<not> (0 \<le> dp_rank st \<and> dp_rank st < world) then Inr st
          else
            ebind (if prefix ''runtime_depth_start='' line then depth_start st line else Inr st) (\<lambda>st'.
            if prefix ''runtime_depth_done='' line then depth_done st' line else Inr st'))"

record depth_report =
  dr_depth :: int
  dr_parents :: int
  dr_full_step :: rat
  dr_reference :: rat
  dr_loss :: rat

definition depth_report_of :: "int \<Rightarrow> int \<Rightarrow> rat \<Rightarrow> depth_state \<Rightarrow> int \<Rightarrow> depth_report option" where
  "depth_report_of world beam seconds_per_parent st d =
     (let keys = map (\<lambda>r. (d, r)) [0..world - 1] in
      if list_ex (\<lambda>k. map_of (dp_starts st) k = None \<or> map_of (dp_done st) k = None) keys then None
      else
        let parents = sum_list (map (\<lambda>k. the (map_of (dp_starts st) k)) keys) in
        if parents \<noteq> beam then None
        else
          let full = Max (set (map (\<lambda>k. the (map_of (dp_done st) k)) keys));
              reference = of_int parents * seconds_per_parent in
          Some \<lparr>dr_depth = d, dr_parents = parents, dr_full_step = full, dr_reference = reference,
                dr_loss = 1 - reference / full\<rparr>)"

definition observed_depths :: "string list \<Rightarrow> int \<Rightarrow> int \<Rightarrow> rat \<Rightarrow> depth_report list result" where
  "observed_depths lines world beam seconds_per_parent =
     ebind (efold (depth_line world) \<lparr>dp_rank = 0, dp_starts = [], dp_done = []\<rparr> lines) (\<lambda>st.
     Inr (List.map_filter (depth_report_of world beam seconds_per_parent st)
            (sort (remdups (map (fst \<circ> fst) (dp_done st))))))"

end
