(* ===== verification/Options.thy ===== *)
theory Options
  imports Runtime
begin

text \<open>
  The options of a native search (\<open>options.py\<close>): the record with its defaults, and the validation that
  its constructor and every \<open>dataclasses.replace\<close> run. A field holds whatever the caller passed,
  so the checks are on dynamically typed values. \<open>resolve\<close> is \<open>Path(value).expanduser().resolve()\<close>. Arrays and
  tensors are not numbers here: only Python and numpy scalars are accepted as a duration.
\<close>

record native_options =
  op_source_dir :: "string option"
  op_cache_dir :: "string option"
  op_cutlass_dir :: "string option"
  op_runner_path :: "string option"
  op_devices :: pyval
  op_num_gpus :: pyval
  op_inference_backend :: pyval
  op_timeout_seconds :: pyval
  op_build_timeout_seconds :: pyval
  op_touch_bfs_radius :: pyval
  op_touch_bfs_max_entries :: pyval
  op_solution_mode :: pyval
  op_collect_extra_depths :: pyval
  op_max_collected_solutions :: pyval
  op_build_jobs :: pyval
  op_warn_on_fallback :: pyval
  op_autotune :: pyval
  op_calibration_seconds :: pyval
  op_calibration_max_batch :: pyval
  op_calibration_pipeline_seconds :: pyval
  op_calibration_frontier_max_states :: pyval
  op_report_calibration :: pyval
  op_calibration_full_frontier :: pyval
  op_calibration_discover_capacity :: pyval

definition new_options :: "string \<Rightarrow> native_options" where
  "new_options home =
     \<lparr>op_source_dir = None, op_cache_dir = Some (home @ ''/.cache/cayleypy-native''), op_cutlass_dir = None,
      op_runner_path = None, op_devices = PNone, op_num_gpus = PNone, op_inference_backend = PStr ''auto'',
      op_timeout_seconds = PFloat (Fin 3600), op_build_timeout_seconds = PFloat (Fin 1800),
      op_touch_bfs_radius = PInt 0, op_touch_bfs_max_entries = PInt 1048576, op_solution_mode = PStr ''first'',
      op_collect_extra_depths = PInt 1, op_max_collected_solutions = PInt 2000, op_build_jobs = PInt 2,
      op_warn_on_fallback = PBool True, op_autotune = PBool True, op_calibration_seconds = PFloat (Fin 90),
      op_calibration_max_batch = PInt 8192, op_calibration_pipeline_seconds = PFloat (Fin 600),
      op_calibration_frontier_max_states = PNone, op_report_calibration = PBool True,
      op_calibration_full_frontier = PBool False, op_calibration_discover_capacity = PBool False\<rparr>"

section \<open>Validation\<close>

fun is_bool :: "pyval \<Rightarrow> bool" where
  "is_bool (PBool _) = True"
| "is_bool _ = False"

text \<open>The truth value of a plain value: zero, the empty text and the empty containers are false.\<close>

fun truthy :: "pyval \<Rightarrow> bool" where
  "truthy PNone = False"
| "truthy (PBool b) = b"
| "truthy (PInt i) = (i \<noteq> 0)"
| "truthy (PFloat v) = (v \<noteq> Fin 0)"
| "truthy (PStr s) = (s \<noteq> [])"
| "truthy (PList xs) = (xs \<noteq> [])"
| "truthy (PTuple xs) = (xs \<noteq> [])"
| "truthy (PDict d) = (d \<noteq> [])"
| "truthy (PNpBool b) = b"
| "truthy (PNpInt i) = (i \<noteq> 0)"
| "truthy (PNdarray _ v) = truthy v"
| "truthy (PTensor _ v) = truthy v"

text \<open>\<open>type(v) is int and low <= v < high\<close>\<close>

definition int_between :: "int \<Rightarrow> int \<Rightarrow> pyval \<Rightarrow> bool" where
  "int_between low high v = (is_int v \<and> low \<le> the_int v \<and> the_int v < high)"

definition positive_int :: "pyval \<Rightarrow> bool" where
  "positive_int v = (is_int v \<and> 0 < the_int v)"

text \<open>An integer that rounds beyond the largest double makes \<open>math.isfinite\<close> raise.\<close>

definition float_overflow :: "int \<Rightarrow> bool" where
  "float_overflow i = (2 ^ 1024 - 2 ^ 970 \<le> \<bar>i\<bar>)"

fun positive_number :: "pyval \<Rightarrow> bool result" where
  "positive_number (PBool _) = Inr False"
| "positive_number (PInt i) = (if float_overflow i then Inl (OverflowError ''int too large to convert to float'') else Inr (0 < i))"
| "positive_number (PNpInt i) = Inr (0 < i)"
| "positive_number (PNpBool b) = Inr b"
| "positive_number (PFloat (Fin r)) = Inr (0 < r)"
| "positive_number (PFloat _) = Inr False"
| "positive_number _ = Inl (TypeError ''must be real number'')"

definition check_duration :: "string \<Rightarrow> pyval \<Rightarrow> unit result" where
  "check_duration name v =
     ebind (positive_number v) (\<lambda>ok. raise_if (\<not> ok) (ValueError (name @ '' must be finite and positive'')))"

definition check_choices :: "native_options \<Rightarrow> unit result" where
  "check_choices opts =
     (if op_solution_mode opts \<notin> {PStr ''first'', PStr ''collect''} then Inl (ValueError ''solution_mode must be first or collect'')
      else if \<not> int_between 0 (2 ^ 32) (op_collect_extra_depths opts)
      then Inl (ValueError ''collect_extra_depths must be a nonnegative uint32'')
      else if \<not> int_between 1 1000001 (op_max_collected_solutions opts)
      then Inl (ValueError ''max_collected_solutions must be in [1, 1000000]'')
      else if op_inference_backend opts \<notin> {PStr ''auto'', PStr ''libtorch'', PStr ''cutlass''}
      then Inl (ValueError ''inference_backend must be auto, libtorch, or cutlass'')
      else if op_num_gpus opts \<noteq> PNone \<and> \<not> positive_int (op_num_gpus opts)
      then Inl (ValueError ''num_gpus must be a positive integer'')
      else if op_num_gpus opts \<noteq> PNone \<and> op_devices opts \<noteq> PNone
      then Inl (ValueError ''specify num_gpus or devices, not both'')
      else Inr ())"

definition check_devices :: "pyval \<Rightarrow> pyval result" where
  "check_devices v =
     (if v = PNone then Inr PNone
      else case iter_items v of
        None \<Rightarrow> Inl (TypeError ''object is not iterable'')
      | Some ds \<Rightarrow>
          if ds = [] \<or> list_ex (\<lambda>d. \<not> is_int d \<or> the_int d < 0) ds \<or> \<not> distinct ds
          then Inl (ValueError ''devices must be a nonempty sequence of distinct nonnegative CUDA indices'')
          else Inr (PTuple ds))"

definition check_durations :: "native_options \<Rightarrow> unit result" where
  "check_durations opts =
     ebind (check_duration ''timeout_seconds'' (op_timeout_seconds opts)) (\<lambda>_.
     ebind (check_duration ''build_timeout_seconds'' (op_build_timeout_seconds opts)) (\<lambda>_.
     ebind (check_duration ''calibration_seconds'' (op_calibration_seconds opts)) (\<lambda>_.
     check_duration ''calibration_pipeline_seconds'' (op_calibration_pipeline_seconds opts))))"

definition check_flags :: "native_options \<Rightarrow> unit result" where
  "check_flags opts =
     (if \<not> is_bool (op_autotune opts) then Inl (ValueError ''autotune must be boolean'')
      else if \<not> is_bool (op_report_calibration opts) then Inl (ValueError ''report_calibration must be boolean'')
      else if \<not> is_bool (op_calibration_discover_capacity opts)
      then Inl (ValueError ''calibration_discover_capacity must be boolean'')
      else if op_calibration_discover_capacity opts = PBool True \<and> op_autotune opts = PBool False
      then Inl (ValueError ''capacity discovery requires autotune'')
      else if \<not> is_bool (op_calibration_full_frontier opts)
      then Inl (ValueError ''calibration_full_frontier must be boolean'')
      else Inr ())"

definition check_limits :: "native_options \<Rightarrow> unit result" where
  "check_limits opts =
     (if \<not> int_between 1 65537 (op_calibration_max_batch opts)
      then Inl (ValueError ''calibration_max_batch must be in [1, 65536]'')
      else if op_calibration_frontier_max_states opts \<noteq> PNone \<and> \<not> positive_int (op_calibration_frontier_max_states opts)
      then Inl (ValueError ''calibration_frontier_max_states must be positive'')
      else if \<not> int_between 0 13 (op_touch_bfs_radius opts)
      then Inl (ValueError ''touch_bfs_radius must be an integer in [0, 12]'')
      else if \<not> int_between 1 (2 ^ 64) (op_touch_bfs_max_entries opts)
      then Inl (ValueError ''touch_bfs_max_entries must be a positive uint64'')
      else if \<not> positive_int (op_build_jobs opts) then Inl (ValueError ''build_jobs must be a positive integer'')
      else Inr ())"

definition resolve_paths :: "(string \<Rightarrow> string) \<Rightarrow> native_options \<Rightarrow> native_options" where
  "resolve_paths resolve opts =
     opts\<lparr>op_source_dir := map_option resolve (op_source_dir opts), op_cache_dir := map_option resolve (op_cache_dir opts),
       op_cutlass_dir := map_option resolve (op_cutlass_dir opts), op_runner_path := map_option resolve (op_runner_path opts)\<rparr>"

text \<open>\<open>__post_init__\<close>\<close>

definition check_options :: "(string \<Rightarrow> string) \<Rightarrow> native_options \<Rightarrow> native_options result" where
  "check_options resolve opts =
     ebind (check_choices opts) (\<lambda>_.
     let o1 = resolve_paths resolve opts in
     ebind (check_devices (op_devices o1)) (\<lambda>ds.
     let o2 = o1\<lparr>op_devices := ds\<rparr> in
     ebind (check_durations o2) (\<lambda>_.
     ebind (check_flags o2) (\<lambda>_.
     ebind (check_limits o2) (\<lambda>_. Inr o2)))))"

section \<open>What validated options are\<close>

definition device_list :: "pyval \<Rightarrow> bool" where
  "device_list v = (case v of
      PNone \<Rightarrow> True
    | PTuple ds \<Rightarrow> ds \<noteq> [] \<and> distinct ds \<and> list_all (\<lambda>d. is_int d \<and> 0 \<le> the_int d) ds
    | _ \<Rightarrow> False)"

definition options_typed :: "native_options \<Rightarrow> bool" where
  "options_typed opts =
     (op_solution_mode opts \<in> {PStr ''first'', PStr ''collect''}
      \<and> op_inference_backend opts \<in> {PStr ''auto'', PStr ''libtorch'', PStr ''cutlass''}
      \<and> (op_num_gpus opts = PNone \<or> positive_int (op_num_gpus opts)) \<and> device_list (op_devices opts)
      \<and> (op_num_gpus opts = PNone \<or> op_devices opts = PNone)
      \<and> list_all (\<lambda>v. positive_number v = Inr True)
           [op_timeout_seconds opts, op_build_timeout_seconds opts, op_calibration_seconds opts, op_calibration_pipeline_seconds opts]
      \<and> list_all is_bool [op_autotune opts, op_report_calibration opts, op_calibration_discover_capacity opts, op_calibration_full_frontier opts]
      \<and> \<not> (op_calibration_discover_capacity opts = PBool True \<and> op_autotune opts = PBool False)
      \<and> int_between 0 (2 ^ 32) (op_collect_extra_depths opts) \<and> int_between 1 1000001 (op_max_collected_solutions opts)
      \<and> int_between 1 65537 (op_calibration_max_batch opts)
      \<and> (op_calibration_frontier_max_states opts = PNone \<or> positive_int (op_calibration_frontier_max_states opts))
      \<and> int_between 0 13 (op_touch_bfs_radius opts) \<and> int_between 1 (2 ^ 64) (op_touch_bfs_max_entries opts)
      \<and> positive_int (op_build_jobs opts))"

lemma guarded_unit: "((if b then Inl e else x) = Inr u) = (\<not> b \<and> x = Inr u)"
  by simp

lemma check_duration_iff: "check_duration name v = Inr () \<longleftrightarrow> positive_number v = Inr True"
  by (auto simp: check_duration_def ebind_Inr_iff)

lemma check_devices_iff: "check_devices v = Inr ds \<longleftrightarrow> device_list ds \<and>
   (if v = PNone then ds = PNone else ds \<noteq> PNone \<and> (\<exists>xs. iter_items v = Some xs \<and> ds = PTuple xs))"
proof -
  have ex: "list_ex (\<lambda>d. \<not> is_int d \<or> the_int d < 0) xs \<longleftrightarrow> \<not> list_all (\<lambda>d. is_int d \<and> 0 \<le> the_int d) xs" for xs
    by (auto simp: list_all_iff list_ex_iff not_le)
  have tuple: "device_list (PTuple xs) \<longleftrightarrow> xs \<noteq> [] \<and> distinct xs \<and> list_all (\<lambda>d. is_int d \<and> 0 \<le> the_int d) xs"
    "device_list PNone" for xs by (simp_all add: device_list_def)
  show ?thesis
  proof (cases "v = PNone")
    case True
    then show ?thesis using tuple(2) by (auto simp: check_devices_def)
  next
    case False
    show ?thesis
    proof (cases "iter_items v")
      case None
      with False show ?thesis by (simp add: check_devices_def)
    next
      case (Some xs)
      have "check_devices v = Inr ds \<longleftrightarrow> device_list (PTuple xs) \<and> PTuple xs = ds"
        unfolding check_devices_def Some ex tuple using False by simp blast
      with False Some show ?thesis by auto
    qed
  qed
qed

lemma check_devices_again: "device_list ds \<Longrightarrow> check_devices ds = Inr ds"
  by (auto simp: check_devices_iff) (auto simp: device_list_def split: pyval.splits)

lemma check_choices_iff: "check_choices opts = Inr () \<longleftrightarrow>
    op_solution_mode opts \<in> {PStr ''first'', PStr ''collect''} \<and> int_between 0 (2 ^ 32) (op_collect_extra_depths opts)
    \<and> int_between 1 1000001 (op_max_collected_solutions opts)
    \<and> op_inference_backend opts \<in> {PStr ''auto'', PStr ''libtorch'', PStr ''cutlass''}
    \<and> (op_num_gpus opts = PNone \<or> positive_int (op_num_gpus opts)) \<and> (op_num_gpus opts = PNone \<or> op_devices opts = PNone)"
  unfolding check_choices_def guarded_unit by blast

lemma check_flags_iff: "check_flags opts = Inr () \<longleftrightarrow>
    list_all is_bool [op_autotune opts, op_report_calibration opts, op_calibration_discover_capacity opts, op_calibration_full_frontier opts]
    \<and> \<not> (op_calibration_discover_capacity opts = PBool True \<and> op_autotune opts = PBool False)"
  unfolding check_flags_def guarded_unit by (simp add: conj_ac)

lemma check_limits_iff: "check_limits opts = Inr () \<longleftrightarrow>
    int_between 1 65537 (op_calibration_max_batch opts)
    \<and> (op_calibration_frontier_max_states opts = PNone \<or> positive_int (op_calibration_frontier_max_states opts))
    \<and> int_between 0 13 (op_touch_bfs_radius opts) \<and> int_between 1 (2 ^ 64) (op_touch_bfs_max_entries opts)
    \<and> positive_int (op_build_jobs opts)"
  unfolding check_limits_def guarded_unit by blast

lemma check_durations_iff: "check_durations opts = Inr () \<longleftrightarrow> list_all (\<lambda>v. positive_number v = Inr True)
    [op_timeout_seconds opts, op_build_timeout_seconds opts, op_calibration_seconds opts, op_calibration_pipeline_seconds opts]"
  by (simp add: check_durations_def ebind_Inr_iff check_duration_iff)

lemmas option_checks = check_choices_iff check_flags_iff check_limits_iff check_durations_iff

lemma typed_checks: "options_typed opts \<longleftrightarrow> check_choices opts = Inr () \<and> device_list (op_devices opts)
    \<and> check_durations opts = Inr () \<and> check_flags opts = Inr () \<and> check_limits opts = Inr ()"
  unfolding option_checks options_typed_def by blast

lemma choices_kept: "op_devices opts = PNone \<longleftrightarrow> ds = PNone \<Longrightarrow>
   check_choices ((resolve_paths resolve opts)\<lparr>op_devices := ds\<rparr>) = Inr () \<longleftrightarrow> check_choices opts = Inr ()"
  by (simp add: check_choices_iff resolve_paths_def)

lemma check_options_iff: "check_options resolve opts = Inr opts' \<longleftrightarrow>
   options_typed opts' \<and> (\<exists>ds. check_devices (op_devices opts) = Inr ds \<and> opts' = (resolve_paths resolve opts)\<lparr>op_devices := ds\<rparr>)"
proof -
  have none: "op_devices opts = PNone \<longleftrightarrow> ds = PNone" and listed: "device_list ds"
    if "check_devices (op_devices opts) = Inr ds" for ds
    using that by (auto simp: check_devices_iff split: if_splits)
  have "check_options resolve opts = Inr opts' \<longleftrightarrow> (\<exists>ds. check_devices (op_devices opts) = Inr ds
      \<and> opts' = (resolve_paths resolve opts)\<lparr>op_devices := ds\<rparr> \<and> check_choices opts = Inr ()
      \<and> check_durations opts' = Inr () \<and> check_flags opts' = Inr () \<and> check_limits opts' = Inr ())"
    unfolding check_options_def Let_def ebind_Inr_iff by (auto simp: resolve_paths_def)
  also have "\<dots> \<longleftrightarrow> (\<exists>ds. check_devices (op_devices opts) = Inr ds
      \<and> opts' = (resolve_paths resolve opts)\<lparr>op_devices := ds\<rparr> \<and> options_typed opts')"
    using listed choices_kept [OF none] by (auto simp: typed_checks)
  finally show ?thesis by blast
qed

text \<open>C24. Validated options are well typed, and exactly the well typed options are accepted: the validation
  returns options in which every mode is one of its literals, every duration is a finite positive
  number, every integer is a proper integer within its range, the flags are booleans that do not contradict each
  other, and the devices are \<open>None\<close> or a tuple of distinct indices, given only without \<open>num_gpus\<close>.
  Validating the result again changes nothing, so a \<open>replace\<close> that touches one field cannot disturb
  the others, and well typed options with resolved paths are accepted as they are.\<close>
theorem options_validated:
  assumes "\<And>p. resolve (resolve p) = resolve p"
  shows "(check_options resolve opts = Inr opts' \<longrightarrow> options_typed opts' \<and> check_options resolve opts' = Inr opts')
    \<and> (check_options resolve opts = Inr opts \<longleftrightarrow> options_typed opts \<and> resolve_paths resolve opts = opts)"
proof (intro conjI impI)
  assume ok: "check_options resolve opts = Inr opts'"
  then obtain ds where ds: "options_typed opts'" "device_list ds" "opts' = (resolve_paths resolve opts)\<lparr>op_devices := ds\<rparr>"
    by (auto simp: check_options_iff check_devices_iff)
  have "resolve_paths resolve opts' = opts'"
    using assms by (simp add: ds(3) resolve_paths_def option.map_comp o_def)
  with ds show "check_options resolve opts' = Inr opts'"
    by (simp add: check_options_iff check_devices_again)
  show "options_typed opts'" by (rule ds(1))
next
  have "check_options resolve opts = Inr opts \<longleftrightarrow> options_typed opts \<and> (\<exists>ds. check_devices (op_devices opts) = Inr ds
      \<and> opts = (resolve_paths resolve opts)\<lparr>op_devices := ds\<rparr>)" by (rule check_options_iff)
  also have "\<dots> \<longleftrightarrow> options_typed opts \<and> resolve_paths resolve opts = opts"
  proof (intro conj_cong refl iffI)
    assume "\<exists>ds. check_devices (op_devices opts) = Inr ds \<and> opts = (resolve_paths resolve opts)\<lparr>op_devices := ds\<rparr>"
    then obtain ds where ds: "opts = (resolve_paths resolve opts)\<lparr>op_devices := ds\<rparr>" by blast
    then have "op_devices opts = ds" by (metis native_options.select_convs(5) native_options.surjective native_options.update_convs(5))
    with ds show "resolve_paths resolve opts = opts" by (cases opts) (simp add: resolve_paths_def)
  next
    assume "options_typed opts" "resolve_paths resolve opts = opts"
    moreover from this(1) have "check_devices (op_devices opts) = Inr (op_devices opts)"
      by (intro check_devices_again) (simp add: options_typed_def)
    ultimately show "\<exists>ds. check_devices (op_devices opts) = Inr ds \<and> opts = (resolve_paths resolve opts)\<lparr>op_devices := ds\<rparr>"
      by auto
  qed
  finally show "check_options resolve opts = Inr opts \<longleftrightarrow> options_typed opts \<and> resolve_paths resolve opts = opts" .
qed

lemma new_options_typed: "options_typed (new_options home)"
  by (simp add: options_typed_def new_options_def device_list_def int_between_def positive_int_def)

lemma options_validated_witness:
  "check_options (\<lambda>p. p) (new_options ''/root'') = Inr (new_options ''/root'')"
  using options_validated [of "\<lambda>p. p" "new_options ''/root''"] new_options_typed
  by (simp add: resolve_paths_def option.map_ident)

end
