(* ===== verification/Dispatch.thy ===== *)
theory Dispatch
  imports Options Reflection Admission
begin

text \<open>
  One dispatched search (\<open>dispatch.py\<close>): the check of the keyword arguments against the upstream signature, the
  capability phase in which a \<open>NativeUnavailable\<close> falls back to the original torch search, and the
  native phase, after which nothing falls back. The original search, the sources, the model and
  runtime preparation and the native run are the fields of \<open>services\<close>; what the call does to
  the outside is the list of its events.
\<close>

section \<open>Keyword arguments\<close>

text \<open>An argument is a plain value, a \<open>NativeModel\<close> or \<open>NativeEnsemble\<close> with its optional fallback
  predictor, a \<open>NativeOptions\<close> object, or another object.\<close>

datatype arg = Val pyval | Native_predictor "nat option" | Options_arg native_options | Object nat

type_synonym kwargs = "(string, arg) dict"

fun value_of :: "arg \<Rightarrow> pyval" where
  "value_of (Val v) = v"
| "value_of _ = PNone"

definition supported :: "string list" where
  "supported = [''start_state'', ''destination_state'', ''beam_mode'', ''predictor'', ''beam_width'', ''max_steps'',
     ''history_depth'', ''return_path'', ''bfs_result_for_mitm'', ''use_child_scores'', ''verbose'']"

text \<open>\<open>signature.bind\<close> and \<open>apply_defaults\<close> on the upstream parameters, \<open>None\<close> for one without a default.\<close>

definition bind_arguments :: "(string \<times> arg option) list \<Rightarrow> kwargs \<Rightarrow> kwargs result" where
  "bind_arguments upstream kwargs =
     (if \<not> set (map fst kwargs) \<subseteq> set (map fst upstream) then Inl (TypeError ''got an unexpected keyword argument'')
      else emap (\<lambda>(name, default_arg).
        case map_of kwargs name of
          Some a \<Rightarrow> Inr (name, a)
        | None \<Rightarrow> (case default_arg of Some a \<Rightarrow> Inr (name, a) | None \<Rightarrow> Inl (TypeError ''missing a required argument''))) upstream)"

definition check_width :: "arg \<Rightarrow> unit result" where
  "check_width a =
     (case a of Val (PStr s) \<Rightarrow> raise_if (s \<noteq> ''max'') (ValueError ''beam_width must be an integer > 0'')
      | _ \<Rightarrow>
          if \<not> is_int (value_of a) \<or> the_int (value_of a) < 1 then Inl (ValueError ''beam_width must be an integer > 0'')
          else raise_if (the_int (value_of a) > 2 ^ 64 - 1) (ValueError ''beam_width exceeds native integer range''))"

definition check_steps :: "arg \<Rightarrow> unit result" where
  "check_steps a =
     (if \<not> is_int (value_of a) \<or> the_int (value_of a) < 0 then Inl (ValueError ''max_steps must be an integer >= 0'')
      else raise_if (the_int (value_of a) > 2 ^ 32 - 1) (ValueError ''max_steps exceeds native integer range''))"

definition check_upstream :: "kwargs \<Rightarrow> unit result" where
  "check_upstream params =
     ebind (dict_item params ''beam_mode'') (\<lambda>beam_mode.
     if beam_mode \<noteq> Val (PStr ''simple'') then Inl (NativeUnavailable ''native does not implement the upstream advanced mode'') else
     ebind (dict_item params ''history_depth'') (\<lambda>history.
     if \<not> (case history of Val v \<Rightarrow> py_eq v (PInt 0) | _ \<Rightarrow> False)
     then Inl (NativeUnavailable ''upstream history_depth is a taboo policy, not native reconstruction history'') else
     ebind (dict_item params ''destination_state'') (\<lambda>destination.
     if destination \<noteq> Val PNone then Inl (NativeUnavailable ''native adapter currently targets graph.central_state'') else
     ebind (dict_item params ''bfs_result_for_mitm'') (\<lambda>bfs.
     if bfs \<noteq> Val PNone then Inl (NativeUnavailable ''upstream BfsResult hashes cannot be reused by native'') else Inr ()))))"

definition flag_of :: "kwargs \<Rightarrow> string \<Rightarrow> arg" where
  "flag_of params name = (case map_of params name of Some a \<Rightarrow> a | None \<Rightarrow> Val (PBool False))"

definition parameters :: "(string \<times> arg option) list \<Rightarrow> kwargs \<Rightarrow> kwargs result" where
  "parameters upstream kwargs =
     (let adapter_only = ''use_child_scores'' \<notin> set (map fst upstream);
          upstream_kwargs = (if adapter_only then filter (\<lambda>(k, _). k \<noteq> ''use_child_scores'') kwargs else kwargs) in
      ebind (bind_arguments upstream upstream_kwargs) (\<lambda>bound.
      let params = (if adapter_only then dict_set ''use_child_scores'' (flag_of kwargs ''use_child_scores'') bound else bound) in
      if \<not> set (map fst params) \<subseteq> set supported then Inl (NativeUnavailable ''native does not implement upstream options'') else
      ebind (dict_item params ''beam_width'') (\<lambda>width. ebind (check_width width) (\<lambda>_.
      ebind (dict_item params ''max_steps'') (\<lambda>steps. ebind (check_steps steps) (\<lambda>_.
      ebind (check_upstream params) (\<lambda>_.
      if \<not> list_all (\<lambda>name. is_bool (value_of (flag_of params name))) [''return_path'', ''use_child_scores'']
      then Inl (ValueError ''return_path and use_child_scores must be bool'')
      else Inr params)))))))"

section \<open>Services and events\<close>

record prepared_model =
  pm_output_dim :: int
  pm_heuristic :: "string option"
  pm_hash :: string

record outcome =
  oc_path :: "nat list option"
  oc_width :: "nat option"
  oc_rows :: "solution_row list"

record services =
  sv_original :: "kwargs \<Rightarrow> search_outcome result"
  sv_devices :: "native_options \<Rightarrow> int list result"
  sv_sources :: "native_options \<Rightarrow> native_options result"
  sv_run_dir :: "native_options \<Rightarrow> string result"
  sv_model :: "arg \<Rightarrow> graph_contract \<Rightarrow> native_options \<Rightarrow> string \<Rightarrow> prepared_model result"
  sv_runtime :: "graph_contract \<Rightarrow> prepared_model \<Rightarrow> native_options \<Rightarrow> string \<Rightarrow> int list \<Rightarrow> int \<Rightarrow> string result"
  sv_run :: "graph_contract \<Rightarrow> prepared_model \<Rightarrow> native_options \<Rightarrow> pyval \<Rightarrow> int \<Rightarrow> string \<Rightarrow> int list \<Rightarrow> outcome result"
  sv_write :: "string \<Rightarrow> unit result"

record search_report =
  sr_graph_hash :: string
  sr_inference_backend :: "string option"
  sr_heuristic :: "string option"
  sr_model_hash :: "string option"
  sr_requested_width :: pyval
  sr_effective_width :: "nat option"
  sr_devices :: "int list"
  sr_replay_valid :: "bool option"
  sr_scoring :: string
  sr_status :: string

datatype dispatch_event =
    Run_created string
  | Run_discarded string
  | Warned
  | Torch_called kwargs
  | Native_started
  | Result_written string search_report
  | Error_written string


section \<open>The capability phase\<close>

record prepared_search =
  ps_params :: kwargs
  ps_contract :: graph_contract
  ps_devices :: "int list"
  ps_model :: "prepared_model option"
  ps_runtime :: "string option"

definition steps_of :: "kwargs \<Rightarrow> int" where
  "steps_of params = (case map_of params ''max_steps'' of Some a \<Rightarrow> the_int (value_of a) | None \<Rightarrow> 0)"

definition argument :: "kwargs \<Rightarrow> string \<Rightarrow> arg" where
  "argument params name = (case map_of params name of Some a \<Rightarrow> a | None \<Rightarrow> Val PNone)"

text \<open>The native budget and the devices, before anything is created.\<close>

definition native_budget :: "services \<Rightarrow> kwargs \<Rightarrow> graph_contract \<Rightarrow> native_options \<Rightarrow> (int \<times> int list) result" where
  "native_budget sv params c opts =
     ebind (native_depth_budget (PInt (steps_of params)) (op_touch_bfs_radius opts)) (\<lambda>(_, radius).
     ebind (validate_touch_bfs_contract c radius (the_int (op_touch_bfs_max_entries opts))) (\<lambda>_.
     ebind (sv_devices sv opts) (\<lambda>devices. Inr (radius, devices))))"

text \<open>Model and runtime, inside the run directory.\<close>

definition prepare_native ::
  "services \<Rightarrow> kwargs \<Rightarrow> graph_contract \<Rightarrow> native_options \<Rightarrow> string \<Rightarrow> int list \<Rightarrow> int \<Rightarrow> prepared_search result" where
  "prepare_native sv params c opts run_dir devices radius =
     ebind (sv_model sv (argument params ''predictor'') c opts run_dir) (\<lambda>m.
     if pm_output_dim m \<noteq> 1 \<and> flag_of params ''use_child_scores'' = Val (PBool False)
     then Inl (NativeUnavailable ''native Q models require use_child_scores=True'')
     else ebind (sv_runtime sv c m opts run_dir devices radius) (\<lambda>rt.
       Inr \<lparr>ps_params = params, ps_contract = c, ps_devices = devices, ps_model = Some m, ps_runtime = Some rt\<rparr>))"

text \<open>The result with the run directory and the options as they stand when the phase ends.\<close>

definition prepare_run ::
  "services \<Rightarrow> kwargs \<Rightarrow> graph_contract \<Rightarrow> native_options \<Rightarrow> prepared_search result \<times> string option \<times> native_options" where
  "prepare_run sv params c opts =
     (case native_budget sv params c opts of
        Inl e \<Rightarrow> (Inl e, None, opts)
      | Inr (radius, devices) \<Rightarrow>
          (case sv_sources sv opts of
             Inl e \<Rightarrow> (Inl e, None, opts)
           | Inr opts' \<Rightarrow>
               (case sv_run_dir sv opts' of
                  Inl e \<Rightarrow> (Inl e, None, opts')
                | Inr run_dir \<Rightarrow> (prepare_native sv params c opts' run_dir devices radius, Some run_dir, opts'))))"

definition trivial_search :: "kwargs \<Rightarrow> graph_contract \<Rightarrow> bool" where
  "trivial_search params c = (start c = center c \<or> steps_of params = 0)"

definition prepare_search ::
  "services \<Rightarrow> (string \<times> arg option) list \<Rightarrow> (nat list list \<Rightarrow> int list \<Rightarrow> string) \<Rightarrow> graph_definition option \<Rightarrow> kwargs
    \<Rightarrow> native_options \<Rightarrow> prepared_search result \<times> string option \<times> native_options" where
  "prepare_search sv upstream fingerprint defn kwargs opts =
     (case parameters upstream kwargs of
        Inl e \<Rightarrow> (Inl e, None, opts)
      | Inr params \<Rightarrow>
          (case ebind (dict_item params ''start_state'') (\<lambda>s. from_graph fingerprint defn (value_of s)) of
             Inl e \<Rightarrow> (Inl e, None, opts)
           | Inr c \<Rightarrow>
               if trivial_search params c
               then (Inr \<lparr>ps_params = params, ps_contract = c, ps_devices = [], ps_model = None, ps_runtime = None\<rparr>, None, opts)
               else prepare_run sv params c opts))"

section \<open>The fallback\<close>

definition torch_call :: "services \<Rightarrow> kwargs \<Rightarrow> search_outcome result \<times> dispatch_event list" where
  "torch_call sv kwargs =
     (case map_of kwargs ''predictor'' of
        Some (Native_predictor None) \<Rightarrow> (Inl (NativeUnavailable ''NativeModel has no CayleyPy fallback predictor''), [])
      | Some (Native_predictor (Some p)) \<Rightarrow>
          let params = dict_set ''predictor'' (Object p) kwargs in (sv_original sv params, [Torch_called params])
      | _ \<Rightarrow> (sv_original sv kwargs, [Torch_called kwargs]))"

definition fall_back ::
  "services \<Rightarrow> kwargs \<Rightarrow> native_options \<Rightarrow> string option \<Rightarrow> search_outcome result \<times> dispatch_event list" where
  "fall_back sv kwargs opts run_dir =
     (let discarded = (case run_dir of Some d \<Rightarrow> [Run_discarded d] | None \<Rightarrow> []) in
      if map_of kwargs ''predictor'' = Some (Native_predictor None)
      then (Inl (NativeUnavailable ''NativeModel has no fallback predictor''), discarded)
      else let warned = (if truthy (op_warn_on_fallback opts) then [Warned] else []);
               (r, events) = torch_call sv kwargs in
        (r, discarded @ warned @ events))"

section \<open>The native phase\<close>

definition native_outcome :: "services \<Rightarrow> prepared_search \<Rightarrow> native_options \<Rightarrow> string option \<Rightarrow> outcome result \<times> dispatch_event list" where
  "native_outcome sv p opts run_dir =
     (if start (ps_contract p) = center (ps_contract p)
      then (Inr \<lparr>oc_path = Some [], oc_width = None, oc_rows = []\<rparr>, [])
      else if steps_of (ps_params p) = 0 then (Inr \<lparr>oc_path = None, oc_width = None, oc_rows = []\<rparr>, [])
      else case (ps_model p, run_dir) of
          (Some m, Some d) \<Rightarrow>
            (sv_run sv (ps_contract p) m opts (value_of (argument (ps_params p) ''beam_width'')) (steps_of (ps_params p)) d (ps_devices p),
             [Native_started])
        | _ \<Rightarrow> (Inl (AttributeError ''model''), []))"

definition search_report_of :: "prepared_search \<Rightarrow> outcome \<Rightarrow> search_report" where
  "search_report_of p out =
     \<lparr>sr_graph_hash = graph_hash (ps_contract p), sr_inference_backend = ps_runtime p,
      sr_heuristic = Option.bind (ps_model p) pm_heuristic, sr_model_hash = map_option pm_hash (ps_model p),
      sr_requested_width = value_of (argument (ps_params p) ''beam_width''), sr_effective_width = oc_width out,
      sr_devices = ps_devices p, sr_replay_valid = (if oc_path out = None then None else Some True),
      sr_scoring = (case ps_model p of None \<Rightarrow> ''not_evaluated''
        | Some m \<Rightarrow> if pm_output_dim m = 1 then ''scalar_children'' else ''parent_q''),
      sr_status = (if oc_path out = None then ''not_found_within_budget'' else ''found'')\<rparr>"

definition search_outcome_of :: "kwargs \<Rightarrow> outcome \<Rightarrow> search_outcome" where
  "search_outcome_of params out =
     (let rows = map row_path (oc_rows out) in
      \<lparr>path_found = (oc_path out \<noteq> None),
       path = (case oc_path out of None \<Rightarrow> None
         | Some p \<Rightarrow> if flag_of params ''return_path'' = Val (PBool True) \<or> p = [] then Some p else None),
       path_length = (case oc_path out of None \<Rightarrow> 0 | Some p \<Rightarrow> length p),
       solutions = (case oc_path out of Some p \<Rightarrow> if rows = [] then [p] else rows | None \<Rightarrow> rows),
       collected_solutions = oc_rows out, reflect_mode = None,
       replay_valid = (if oc_path out = None then None else Some True)\<rparr>)"

text \<open>The replay comes before anything is
  published, and a failure leaves an error file in the run directory.\<close>

definition finish_native ::
  "services \<Rightarrow> prepared_search \<Rightarrow> outcome result \<Rightarrow> string option \<Rightarrow> search_outcome result \<times> dispatch_event list" where
  "finish_native sv p result run_dir =
     (let failed = (\<lambda>e. (Inl e, case run_dir of Some d \<Rightarrow> [Error_written d] | None \<Rightarrow> [])) in
      case result of
        Inl e \<Rightarrow> failed e
      | Inr out \<Rightarrow>
          if \<not> (case oc_path out of None \<Rightarrow> True | Some steps \<Rightarrow> replay (ps_contract p) (py_path steps))
          then failed (NativeBackendError ''native solution failed independent graph replay'')
          else case run_dir of
            None \<Rightarrow> (Inr (search_outcome_of (ps_params p) out), [])
          | Some d \<Rightarrow>
              (case sv_write sv d of
                 Inl e \<Rightarrow> failed e
               | Inr _ \<Rightarrow> (Inr (search_outcome_of (ps_params p) out), [Result_written d (search_report_of p out)])))"

section \<open>The dispatch\<close>

text \<open>\<open>except NativeUnavailable\<close>\<close>

fun unavailable :: "exn \<Rightarrow> bool" where
  "unavailable (NativeUnavailable _) = True"
| "unavailable _ = False"

definition search_direct ::
  "services \<Rightarrow> (string \<times> arg option) list \<Rightarrow> (nat list list \<Rightarrow> int list \<Rightarrow> string) \<Rightarrow> graph_definition option \<Rightarrow> kwargs
    \<Rightarrow> native_options \<Rightarrow> string \<Rightarrow> search_outcome result \<times> dispatch_event list" where
  "search_direct sv upstream fingerprint defn kwargs opts how =
     (if how = ''torch'' then torch_call sv kwargs
      else
        let (prepared, run_dir, opts') = prepare_search sv upstream fingerprint defn kwargs opts;
            created = (case run_dir of Some d \<Rightarrow> [Run_created d] | None \<Rightarrow> []) in
        case prepared of
          Inl e \<Rightarrow>
            if unavailable e \<and> how \<noteq> ''native''
            then let (r, events) = fall_back sv kwargs opts' run_dir in (r, created @ events)
            else (Inl e, created)
        | Inr p \<Rightarrow>
            let (result, started) = native_outcome sv p opts' run_dir;
                (r, events) = finish_native sv p result run_dir in
            (r, created @ started @ events))"


text \<open>The native search controls replace options, which validates them again.\<close>

definition native_controls :: "string list" where
  "native_controls = [''bfs_radius'', ''bfs_max_entries'', ''solution_mode'', ''collect_extra_depths'', ''max_collected_solutions'']"

definition control :: "kwargs \<Rightarrow> string \<Rightarrow> pyval \<Rightarrow> pyval" where
  "control kwargs name v = (case map_of kwargs name of Some a \<Rightarrow> value_of a | None \<Rightarrow> v)"

definition apply_controls :: "(string \<Rightarrow> string) \<Rightarrow> kwargs \<Rightarrow> native_options \<Rightarrow> native_options result" where
  "apply_controls resolve kwargs opts =
     check_options resolve (opts\<lparr>op_touch_bfs_radius := control kwargs ''bfs_radius'' (op_touch_bfs_radius opts),
       op_touch_bfs_max_entries := control kwargs ''bfs_max_entries'' (op_touch_bfs_max_entries opts),
       op_solution_mode := control kwargs ''solution_mode'' (op_solution_mode opts),
       op_collect_extra_depths := control kwargs ''collect_extra_depths'' (op_collect_extra_depths opts),
       op_max_collected_solutions := control kwargs ''max_collected_solutions'' (op_max_collected_solutions opts)\<rparr>)"

definition check_mode :: "pyval \<Rightarrow> string result" where
  "check_mode v =
     (case v of PStr s \<Rightarrow> if s \<in> {''auto'', ''native'', ''torch''} then Inr s else Inl (ValueError ''backend must be auto, native or torch'')
      | _ \<Rightarrow> Inl (ValueError ''backend must be auto, native or torch''))"

definition search_controlled ::
  "services \<Rightarrow> (string \<times> arg option) list \<Rightarrow> (nat list list \<Rightarrow> int list \<Rightarrow> string) \<Rightarrow> graph_definition option
    \<Rightarrow> (string \<Rightarrow> string) \<Rightarrow> kwargs \<Rightarrow> native_options \<Rightarrow> string \<Rightarrow> search_outcome result \<times> dispatch_event list" where
  "search_controlled sv upstream fingerprint defn resolve kwargs opts how =
     (if list_all (\<lambda>k. k \<notin> set native_controls) (map fst kwargs)
      then search_direct sv upstream fingerprint defn kwargs opts how
      else if how \<noteq> ''native''
      then (Inl (ValueError ''native search controls require backend=native; they cannot silently fall back''), [])
      else case apply_controls resolve kwargs opts of
          Inl e \<Rightarrow> (Inl e, [])
        | Inr opts' \<Rightarrow>
            search_direct sv upstream fingerprint defn (filter (\<lambda>(k, _). k \<notin> set native_controls) kwargs) opts' how)"

text \<open>The whole \<open>_search\<close>. A reflected search calls it again without the reflection keywords; the events of
  such nested calls are those of their own dispatches and are not repeated here.\<close>

definition reflection_keys :: "string list" where
  "reflection_keys = [''reflect_mode'', ''reflection_source'']"

definition kw_value :: "kwargs \<Rightarrow> string \<Rightarrow> pyval option" where
  "kw_value kwargs name = map_option value_of (map_of kwargs name)"

definition search_dispatched ::
  "services \<Rightarrow> (string \<times> arg option) list \<Rightarrow> (nat list list \<Rightarrow> int list \<Rightarrow> string) \<Rightarrow> graph_definition option
    \<Rightarrow> (string \<Rightarrow> string) \<Rightarrow> kwargs \<Rightarrow> native_options \<Rightarrow> pyval \<Rightarrow> search_outcome result \<times> dispatch_event list" where
  "search_dispatched sv upstream fingerprint defn resolve kwargs opts how =
     (case check_mode how of
        Inl e \<Rightarrow> (Inl e, [])
      | Inr chosen \<Rightarrow>
          if list_all (\<lambda>k. k \<notin> set reflection_keys) (map fst kwargs)
          then search_controlled sv upstream fingerprint defn resolve kwargs opts chosen
          else case kw_value kwargs ''start_state'' of
            None \<Rightarrow> (Inl (KeyError ''start_state''), [])
          | Some s \<Rightarrow>
              let plain = filter (\<lambda>(k, _). k \<notin> set reflection_keys) kwargs;
                  inner = (\<lambda>v. fst (search_controlled sv upstream fingerprint defn resolve
                             (dict_set ''start_state'' (Val v) plain) opts chosen)) in
              (reflected_search inner fingerprint defn
                 \<lparr>kw_start_state = s, kw_reflect_mode = kw_value kwargs ''reflect_mode'',
                  kw_reflection_source = kw_value kwargs ''reflection_source'', kw_return_path = kw_value kwargs ''return_path''\<rparr>
                 chosen, []))"

section \<open>When the search falls back\<close>

lemma torch_call_events:
  assumes "torch_call sv kwargs = (r, events)"
  shows "events = [] \<and> is_ok r = False \<or> (\<exists>kw. events = [Torch_called kw] \<and> r = sv_original sv kw
     \<and> (\<forall>k. k \<noteq> ''predictor'' \<longrightarrow> map_of kw k = map_of kwargs k))"
  using assms by (auto simp: torch_call_def Let_def split: option.splits arg.splits)

lemma fall_back_events:
  assumes "fall_back sv kwargs opts run_dir = (r, events)"
  shows "Native_started \<notin> set events \<and> (\<forall>d. run_dir = Some d \<longrightarrow> Run_discarded d \<in> set events)
    \<and> (\<forall>kw. Torch_called kw \<in> set events \<longrightarrow> r = sv_original sv kw \<and> (\<forall>k. k \<noteq> ''predictor'' \<longrightarrow> map_of kw k = map_of kwargs k))
    \<and> (is_ok r \<longrightarrow> (\<exists>kw. Torch_called kw \<in> set events))"
proof -
  obtain r' evs where t: "torch_call sv kwargs = (r', evs)" by (cases "torch_call sv kwargs")
  from torch_call_events [OF t] show ?thesis
    using assms by (auto simp: fall_back_def t Let_def split: if_splits option.splits)
qed

lemma native_outcome_events:
  assumes "native_outcome sv p opts run_dir = (result, events)"
  shows "events = [] \<or> events = [Native_started]"
  using assms by (auto simp: native_outcome_def split: if_splits option.splits)

lemma finish_native_events:
  assumes "finish_native sv p result run_dir = (r, events)"
  shows "(\<forall>kw. Torch_called kw \<notin> set events) \<and> Native_started \<notin> set events \<and> (\<forall>d. Run_discarded d \<notin> set events)"
  using assms by (auto simp: finish_native_def Let_def split: sum.splits option.splits if_splits)

lemma finish_native_replays:
  assumes "finish_native sv p result run_dir = (Inr out, events)" "path_found out"
  obtains steps where "replay (ps_contract p) (py_path steps)" "path_length out = length steps"
    "path out = None \<or> path out = Some steps"
  using assms by (auto simp: finish_native_def Let_def search_outcome_of_def split: sum.splits option.splits if_splits)


lemma prepare_search_contract:
  assumes "prepare_search sv upstream fingerprint defn kwargs opts = (Inr p, run_dir, opts')"
  shows "\<exists>params s. parameters upstream kwargs = Inr params \<and> map_of params ''start_state'' = Some s
    \<and> from_graph fingerprint defn (value_of s) = Inr (ps_contract p)"
proof (cases "parameters upstream kwargs")
  case (Inr params)
  show ?thesis
  proof (cases "ebind (dict_item params ''start_state'') (\<lambda>s. from_graph fingerprint defn (value_of s))")
    case (Inr c)
    then obtain s where s: "map_of params ''start_state'' = Some s" "from_graph fingerprint defn (value_of s) = Inr c"
      by (auto simp: ebind_Inr_iff dict_item_Inr_iff)
    have "ps_contract p = c"
    proof (cases "trivial_search params c")
      case True
      then show ?thesis using assms \<open>parameters upstream kwargs = Inr params\<close> Inr by (auto simp: prepare_search_def)
    next
      case False
      then have "prepare_run sv params c opts = (Inr p, run_dir, opts')"
        using assms \<open>parameters upstream kwargs = Inr params\<close> Inr by (simp add: prepare_search_def)
      then show ?thesis
        by (auto simp: prepare_run_def prepare_native_def ebind_Inr_iff split: sum.splits prod.splits if_splits)
    qed
    with s \<open>parameters upstream kwargs = Inr params\<close> show ?thesis by blast
  qed (use assms \<open>parameters upstream kwargs = Inr params\<close> in \<open>simp add: prepare_search_def\<close>)
qed (use assms in \<open>simp add: prepare_search_def\<close>)

text \<open>The three ways a dispatched search ends outside the torch mode.\<close>

lemma search_direct_cases:
  assumes "search_direct sv upstream fingerprint defn kwargs opts how = (r, events)" "how \<noteq> ''torch''"
  obtains (stopped) created e where "r = Inl e" "events = created" "set created \<subseteq> range Run_created"
  | (fallen) run_dir opts' more where "how \<noteq> ''native''" "fall_back sv kwargs opts' run_dir = (r, more)"
      "events = (case run_dir of Some d \<Rightarrow> [Run_created d] | None \<Rightarrow> []) @ more"
  | (native) p run_dir opts' result started more where
      "prepare_search sv upstream fingerprint defn kwargs opts = (Inr p, run_dir, opts')"
      "native_outcome sv p opts' run_dir = (result, started)" "finish_native sv p result run_dir = (r, more)"
      "events = (case run_dir of Some d \<Rightarrow> [Run_created d] | None \<Rightarrow> []) @ started @ more"
proof -
  obtain prepared run_dir opts' where p: "prepare_search sv upstream fingerprint defn kwargs opts = (prepared, run_dir, opts')"
    by (cases "prepare_search sv upstream fingerprint defn kwargs opts")
  let ?created = "case run_dir of Some d \<Rightarrow> [Run_created d] | None \<Rightarrow> []"
  have created: "set ?created \<subseteq> range Run_created" by (cases run_dir) auto
  show ?thesis
  proof (cases prepared)
    case (Inr q)
    obtain result started where n: "native_outcome sv q opts' run_dir = (result, started)"
      by (cases "native_outcome sv q opts' run_dir")
    obtain r' more where f: "finish_native sv q result run_dir = (r', more)" by (cases "finish_native sv q result run_dir")
    have "r' = r" "events = ?created @ started @ more"
      using assms by (simp_all add: search_direct_def p Inr n f)
    with p Inr n f show ?thesis by (intro native) auto
  next
    case (Inl e)
    show ?thesis
    proof (cases "unavailable e \<and> how \<noteq> ''native''")
      case m: True
      obtain r' more where f: "fall_back sv kwargs opts' run_dir = (r', more)" by (cases "fall_back sv kwargs opts' run_dir")
      have "r' = r" "events = ?created @ more"
        using assms m by (simp_all add: search_direct_def p Inl f Let_def)
      with m f show ?thesis by (intro fallen) auto
    next
      case False
      then have "r = Inl e" "events = ?created"
        using assms by (auto simp: search_direct_def p Inl Let_def)
      with created show ?thesis by (intro stopped) auto
    qed
  qed
qed

text \<open>C25. The fallback window closes before the native worker starts. A dispatch that started the native
  worker never calls the torch search. The torch search is called outside the native mode only, with
  the caller's own arguments apart from the fallback predictor, its answer is the answer of the dispatch, and every run
  directory created before the fallback is discarded. An answer that claims a path without the torch search comes with
  a path of that length that was replayed on the contract of the caller's graph and start state.\<close>
theorem dispatch_fallback_window:
  assumes "search_direct sv upstream fingerprint defn kwargs opts how = (r, events)"
  shows "(Native_started \<in> set events \<longrightarrow> (\<forall>kw. Torch_called kw \<notin> set events))
    \<and> (\<forall>kw. Torch_called kw \<in> set events \<longrightarrow> how \<noteq> ''native'' \<and> r = sv_original sv kw
         \<and> (\<forall>k. k \<noteq> ''predictor'' \<longrightarrow> map_of kw k = map_of kwargs k)
         \<and> (\<forall>d. Run_created d \<in> set events \<longrightarrow> Run_discarded d \<in> set events))
    \<and> (\<forall>out. r = Inr out \<and> path_found out \<and> (\<forall>kw. Torch_called kw \<notin> set events) \<longrightarrow>
         (\<exists>params s c steps. parameters upstream kwargs = Inr params \<and> map_of params ''start_state'' = Some s
            \<and> from_graph fingerprint defn (value_of s) = Inr c \<and> replay c (py_path steps)
            \<and> path_length out = length steps \<and> (path out = None \<or> path out = Some steps)))"
proof (cases "how = ''torch''")
  case True
  with assms have "torch_call sv kwargs = (r, events)" by (simp add: search_direct_def)
  from torch_call_events [OF this] True show ?thesis by auto
next
  case False
  from assms False show ?thesis
  proof (cases rule: search_direct_cases)
    case (stopped created e)
    then show ?thesis by auto
  next
    case (fallen run_dir opts' more)
    have "Run_created d \<notin> set more" for d
      using fallen(2) by (auto simp: fall_back_def torch_call_def Let_def split: if_splits option.splits arg.splits prod.splits)
    moreover note fall_back_events [OF fallen(2)]
    ultimately show ?thesis using fallen(1,3) by (cases run_dir) (auto simp: is_ok_iff)
  next
    case (native p run_dir opts' result started more)
    have torch: "Torch_called kw \<notin> set events" for kw
      using native(4) native_outcome_events [OF native(2)] finish_native_events [OF native(3)] by (cases run_dir) auto
    from prepare_search_contract [OF native(1)] torch show ?thesis
      using native(3) by (auto elim!: finish_native_replays)
  qed
qed


text \<open>A small dispatch on the three-position example graph, with a stub native run that finds the move \<open>R\<close>.\<close>

definition upstream_example :: "(string \<times> arg option) list" where
  "upstream_example = [(''start_state'', None), (''destination_state'', Some (Val PNone)), (''beam_mode'', Some (Val (PStr ''simple''))),
     (''predictor'', Some (Val PNone)), (''beam_width'', Some (Val (PInt 1000))), (''max_steps'', Some (Val (PInt 1000))),
     (''history_depth'', Some (Val (PInt 0))), (''return_path'', Some (Val (PBool False))), (''bfs_result_for_mitm'', Some (Val PNone))]"

definition kwargs_example :: kwargs where
  "kwargs_example = [(''start_state'', Val (PList [PInt 1, PInt 2, PInt 0])), (''max_steps'', Val (PInt 5)),
     (''predictor'', Native_predictor None)]"

definition params_example :: kwargs where
  "params_example = [(''start_state'', Val (PList [PInt 1, PInt 2, PInt 0])), (''destination_state'', Val PNone),
     (''beam_mode'', Val (PStr ''simple'')), (''predictor'', Native_predictor None), (''beam_width'', Val (PInt 1000)),
     (''max_steps'', Val (PInt 5)), (''history_depth'', Val (PInt 0)), (''return_path'', Val (PBool False)),
     (''bfs_result_for_mitm'', Val PNone), (''use_child_scores'', Val (PBool False))]"

definition services_example :: services where
  "services_example = \<lparr>sv_original = (\<lambda>_. Inl (ValueError ''unused'')), sv_devices = (\<lambda>_. Inr [0]), sv_sources = Inr,
     sv_run_dir = (\<lambda>_. Inr ''run''), sv_model = (\<lambda>_ _ _ _. Inr \<lparr>pm_output_dim = 1, pm_heuristic = None, pm_hash = ''h''\<rparr>),
     sv_runtime = (\<lambda>_ _ _ _ _ _. Inr ''libtorch''),
     sv_run = (\<lambda>_ _ _ _ _ _ _. Inr \<lparr>oc_path = Some [1], oc_width = Some 1000, oc_rows = []\<rparr>), sv_write = (\<lambda>_. Inr ())\<rparr>"

lemma parameters_example: "parameters upstream_example kwargs_example = Inr params_example"
  by code_simp

lemma dispatch_example:
  "\<exists>events. search_direct services_example upstream_example (\<lambda>_ _. []) (Some lrx_definition) kwargs_example (new_options ''/root'') ''auto''
     = (Inr \<lparr>path_found = True, path = None, path_length = 1, solutions = [[1]], collected_solutions = [],
            reflect_mode = None, replay_valid = Some True\<rparr>, events) \<and> Native_started \<in> set events \<and> (\<forall>kw. Torch_called kw \<notin> set events)"
proof -
  let ?opts = "new_options ''/root''" and ?sv = services_example
  let ?p = "\<lparr>ps_params = params_example, ps_contract = lrx_contract, ps_devices = [0],
     ps_model = Some \<lparr>pm_output_dim = 1, pm_heuristic = None, pm_hash = ''h''\<rparr>, ps_runtime = Some ''libtorch''\<rparr>"
  have s: "map_of params_example ''start_state'' = Some (Val (PList [PInt 1, PInt 2, PInt 0]))" "steps_of params_example = 5"
    "flag_of params_example ''return_path'' = Val (PBool False)"
    by code_simp+
  have sv: "sv_sources ?sv = Inr" "sv_run_dir ?sv = (\<lambda>_. Inr ''run'')"
    "sv_model ?sv = (\<lambda>_ _ _ _. Inr \<lparr>pm_output_dim = 1, pm_heuristic = None, pm_hash = ''h''\<rparr>)"
    "sv_runtime ?sv = (\<lambda>_ _ _ _ _ _. Inr ''libtorch'')" "sv_write ?sv = (\<lambda>_. Inr ())"
    "sv_run ?sv = (\<lambda>_ _ _ _ _ _ _. Inr \<lparr>oc_path = Some [1], oc_width = Some 1000, oc_rows = []\<rparr>)"
    by (simp_all add: services_example_def)
  have c: "start lrx_contract \<noteq> center lrx_contract" by (simp add: lrx_contract_def)
  have b: "native_budget ?sv params_example lrx_contract ?opts = Inr (0, [0])"
    by (simp add: native_budget_def s services_example_def new_options_def native_depth_budget_def validate_touch_bfs_contract_def
        touch_bfs_worst_case_entries_def lrx_contract_def move_count_def)
  have p: "prepare_search ?sv upstream_example (\<lambda>_ _. []) (Some lrx_definition) kwargs_example ?opts = (Inr ?p, Some ''run'', ?opts)"
    by (simp add: prepare_search_def parameters_example dict_item_def s from_graph_lrx trivial_search_def c prepare_run_def b
        prepare_native_def sv)
  have n: "native_outcome ?sv ?p ?opts (Some ''run'') = (Inr \<lparr>oc_path = Some [1], oc_width = Some 1000, oc_rows = []\<rparr>, [Native_started])"
    by (simp add: native_outcome_def s sv c)
  have f: "finish_native ?sv ?p (Inr \<lparr>oc_path = Some [1], oc_width = Some 1000, oc_rows = []\<rparr>) (Some ''run'')
    = (Inr \<lparr>path_found = True, path = None, path_length = 1, solutions = [[1]], collected_solutions = [],
            reflect_mode = None, replay_valid = Some True\<rparr>, [Result_written ''run'' (search_report_of ?p
         \<lparr>oc_path = Some [1], oc_width = Some 1000, oc_rows = []\<rparr>)])"
    by (simp add: finish_native_def search_outcome_of_def s sv) code_simp
  show ?thesis by (simp add: search_direct_def p n f [unfolded One_nat_def] Let_def)
qed

lemma dispatch_fallback_window_witness:
  "\<exists>c steps. from_graph (\<lambda>_ _. []) (Some lrx_definition) (PList [PInt 1, PInt 2, PInt 0]) = Inr c \<and> replay c (py_path steps) \<and> length steps = 1"
proof -
  obtain events where run: "search_direct services_example upstream_example (\<lambda>_ _. []) (Some lrx_definition) kwargs_example (new_options ''/root'') ''auto''
     = (Inr \<lparr>path_found = True, path = None, path_length = 1, solutions = [[1]], collected_solutions = [],
            reflect_mode = None, replay_valid = Some True\<rparr>, events)" "\<forall>kw. Torch_called kw \<notin> set events"
    using dispatch_example by blast
  have "map_of params_example ''start_state'' = Some (Val (PList [PInt 1, PInt 2, PInt 0]))" by code_simp
  with dispatch_fallback_window [OF run(1)] run(2) show ?thesis by (auto simp: parameters_example)
qed

end
