(* ===== verification/Registry.thy ===== *)
theory Registry
  imports Dispatch
begin

text \<open>
  Enabling and disabling the adapter (\<open>dispatch.py\<close>): the registration with CayleyPy's backend registry, or the
  replacement of \<open>CayleyGraph.beam_search\<close> where the installed CayleyPy has no registry. The
  registry's five functions are CayleyPy's, so they are the fields of \<open>registry_api\<close>, over a
  registry state of any type; \<open>api_lawful\<close> states what they are relied on for.
\<close>

section \<open>The registry interface\<close>

text \<open>Function objects are compared by identity: an adapter callback carries the number of its registration.\<close>

datatype callback = Upstream nat | Backend_callback nat string | Installed_search nat

record 'h registry_api =
  api_register :: "string \<Rightarrow> callback \<Rightarrow> 'h \<Rightarrow> 'h result"
  api_unregister :: "string \<Rightarrow> 'h \<Rightarrow> 'h result"
  api_get :: "'h \<Rightarrow> string \<Rightarrow> callback option"
  api_set_default :: "string \<Rightarrow> 'h \<Rightarrow> (string \<times> 'h) result"
  api_get_default :: "'h \<Rightarrow> string"

text \<open>A free name can be registered, a registered backend can become the default, which returns the previous
  one, and a registered name that is not the default can be unregistered.\<close>

definition api_lawful :: "'h registry_api \<Rightarrow> bool" where
  "api_lawful a = (\<forall>h name cb.
     (api_get a h name = None \<longrightarrow> (\<exists>h'. api_register a name cb h = Inr h' \<and> api_get a h' = (api_get a h)(name \<mapsto> cb)
        \<and> api_get_default a h' = api_get_default a h)) \<and>
     (api_get a h name \<noteq> None \<longrightarrow> (\<exists>h'. api_set_default a name h = Inr (api_get_default a h, h')
        \<and> api_get a h' = api_get a h \<and> api_get_default a h' = name)) \<and>
     (api_get a h name \<noteq> None \<and> api_get_default a h \<noteq> name \<longrightarrow> (\<exists>h'. api_unregister a name h = Inr h'
        \<and> api_get a h' = (api_get a h)(name := None) \<and> api_get_default a h' = api_get_default a h)))"

record registration =
  rg_callbacks :: "(string, callback) dict"
  rg_options :: native_options
  rg_previous :: string
  rg_default :: string

record 'h world =
  w_registry :: 'h
  w_method :: callback
  w_original :: "callback option"
  w_installed :: "callback option"
  w_session :: "(native_options \<times> string) option"
  w_registration :: "registration option"
  w_options :: native_options
  w_default :: string
  w_fresh :: nat

section \<open>Enabling and disabling\<close>

definition registration_owned :: "'h registry_api \<Rightarrow> registration \<Rightarrow> 'h \<Rightarrow> bool" where
  "registration_owned a g h =
     (list_all (\<lambda>(name, cb). api_get a h name = Some cb) (rg_callbacks g) \<and> api_get_default a h = rg_default g)"

definition check_registration :: "'h registry_api \<Rightarrow> registration \<Rightarrow> 'h \<Rightarrow> unit result" where
  "check_registration a g h =
     raise_if (\<not> registration_owned a g h) (RuntimeError ''CayleyPy backend registration/default was changed by another integration'')"

text \<open>A loop of registry calls; a failing call stops it, and the state it leaves is kept.\<close>

fun register_all :: "'h registry_api \<Rightarrow> (string, callback) dict \<Rightarrow> string list \<Rightarrow> 'h \<Rightarrow> unit result \<times> string list \<times> 'h" where
  "register_all a [] added h = (Inr (), added, h)"
| "register_all a ((name, cb) # cbs) added h =
     (case api_register a name cb h of
        Inl e \<Rightarrow> (Inl e, added, h)
      | Inr h' \<Rightarrow> register_all a cbs (added @ [name]) h')"

fun unregister_all :: "'h registry_api \<Rightarrow> string list \<Rightarrow> 'h \<Rightarrow> unit result \<times> 'h" where
  "unregister_all a [] h = (Inr (), h)"
| "unregister_all a (name # names) h =
     (case api_unregister a name h of Inl e \<Rightarrow> (Inl e, h) | Inr h' \<Rightarrow> unregister_all a names h')"

text \<open>The rollback of a failed registration; an exception of the rollback itself replaces the first one.\<close>

definition roll_back :: "'h registry_api \<Rightarrow> string list \<Rightarrow> exn \<Rightarrow> 'h \<Rightarrow> unit result \<times> 'h" where
  "roll_back a added e h = (case unregister_all a (rev added) h of (Inl e', h') \<Rightarrow> (Inl e', h') | (Inr _, h') \<Rightarrow> (Inl e, h'))"

definition new_callbacks :: "nat \<Rightarrow> (string, callback) dict" where
  "new_callbacks k = [(''native'', Backend_callback k ''native''), (''auto'', Backend_callback k ''auto'')]"

definition first_registration ::
  "'h registry_api \<Rightarrow> native_options \<Rightarrow> string \<Rightarrow> 'h world \<Rightarrow> unit result \<times> 'h world" where
  "first_registration a opts default_mode w =
     (if api_get a (w_registry w) ''torch'' = None then (Inl (ValueError ''unknown beam search backend''), w)
      else
        let cbs = new_callbacks (w_fresh w); (r, added, h) = register_all a cbs [] (w_registry w);
            w1 = w\<lparr>w_fresh := w_fresh w + 1\<rparr> in
        case r of
          Inl e \<Rightarrow> let (r', h') = roll_back a added e h in (r', w1\<lparr>w_registry := h'\<rparr>)
        | Inr _ \<Rightarrow>
            (case api_set_default a default_mode h of
               Inl e \<Rightarrow> let (r', h') = roll_back a added e h in (r', w1\<lparr>w_registry := h'\<rparr>)
             | Inr (previous, h') \<Rightarrow>
                 (Inr (), w1\<lparr>w_registry := h', w_registration := Some \<lparr>rg_callbacks = cbs, rg_options = opts,
                    rg_previous = previous, rg_default = default_mode\<rparr>\<rparr>)))"

definition enable_registry ::
  "'h registry_api \<Rightarrow> native_options \<Rightarrow> string \<Rightarrow> 'h world \<Rightarrow> unit result \<times> 'h world" where
  "enable_registry a opts default_mode w =
     (case w_registration w of
        None \<Rightarrow> first_registration a opts default_mode w
      | Some g \<Rightarrow>
          (case ebind (check_registration a g (w_registry w)) (\<lambda>_. api_set_default a default_mode (w_registry w)) of
             Inl e \<Rightarrow> (Inl e, w)
           | Inr (_, h) \<Rightarrow>
               (Inr (), w\<lparr>w_registry := h, w_registration := Some (g\<lparr>rg_options := opts, rg_default := default_mode\<rparr>)\<rparr>)))"

text \<open>Without a registry the method of the class is replaced, once; later calls only update the session.\<close>

definition enable_patch :: "native_options \<Rightarrow> string \<Rightarrow> 'h world \<Rightarrow> unit result \<times> 'h world" where
  "enable_patch opts default_mode w =
     (if w_original w \<noteq> None \<and> Some (w_method w) \<noteq> w_installed w
      then (Inl (RuntimeError ''CayleyGraph.beam_search was replaced by another integration''), w)
      else
        let w1 = (if w_original w = None
                  then w\<lparr>w_original := Some (w_method w), w_installed := Some (Installed_search (w_fresh w)),
                         w_method := Installed_search (w_fresh w), w_fresh := w_fresh w + 1\<rparr>
                  else w) in
        (Inr (), w1\<lparr>w_options := opts, w_default := default_mode, w_session := Some (opts, default_mode)\<rparr>))"

definition enable_native ::
  "'h registry_api option \<Rightarrow> string \<Rightarrow> native_options option \<Rightarrow> pyval \<Rightarrow> 'h world \<Rightarrow> unit result \<times> 'h world" where
  "enable_native api home opts default_backend w =
     (case check_mode default_backend of
        Inl e \<Rightarrow> (Inl e, w)
      | Inr how \<Rightarrow>
          let selected = (case opts of Some x \<Rightarrow> x | None \<Rightarrow> new_options home) in
          (case (api, w_original w) of
             (Some a, None) \<Rightarrow>
               (case enable_registry a selected how w of
                  (Inl e, w') \<Rightarrow> (Inl e, w')
                | (Inr _, w') \<Rightarrow> (Inr (), w'\<lparr>w_options := selected, w_default := how\<rparr>))
           | _ \<Rightarrow> enable_patch selected how w))"

definition disable_registry :: "'h registry_api \<Rightarrow> registration \<Rightarrow> 'h world \<Rightarrow> unit result \<times> 'h world" where
  "disable_registry a g w =
     (case ebind (check_registration a g (w_registry w)) (\<lambda>_. api_set_default a (rg_previous g) (w_registry w)) of
        Inl e \<Rightarrow> (Inl e, w)
      | Inr (_, h) \<Rightarrow>
          (case unregister_all a (rev (map fst (rg_callbacks g))) h of
             (Inl e, h') \<Rightarrow> (Inl e, w\<lparr>w_registry := h'\<rparr>)
           | (Inr _, h') \<Rightarrow> (Inr (), w\<lparr>w_registry := h', w_registration := None\<rparr>)))"

definition disable_patch :: "string \<Rightarrow> 'h world \<Rightarrow> unit result \<times> 'h world" where
  "disable_patch home w =
     (case w_original w of
        None \<Rightarrow> (Inr (), w\<lparr>w_options := new_options home, w_default := ''auto''\<rparr>)
      | Some original \<Rightarrow>
          if Some (w_method w) \<noteq> w_installed w
          then (Inl (RuntimeError ''CayleyGraph.beam_search was replaced by another integration''), w)
          else (Inr (), w\<lparr>w_method := original, w_original := None, w_installed := None, w_session := None,
                          w_options := new_options home, w_default := ''auto''\<rparr>))"

definition disable_native :: "'h registry_api option \<Rightarrow> string \<Rightarrow> 'h world \<Rightarrow> unit result \<times> 'h world" where
  "disable_native api home w =
     (case (api, w_registration w) of
        (Some a, Some g) \<Rightarrow>
          (case disable_registry a g w of (Inl e, w') \<Rightarrow> (Inl e, w') | (Inr _, w') \<Rightarrow> disable_patch home w')
      | _ \<Rightarrow> disable_patch home w)"

section \<open>What the installed functions do\<close>

text \<open>\<open>kwargs.pop(name, ...)\<close> of the options, which must be a \<open>NativeOptions\<close> object.\<close>

definition pop_options :: "kwargs \<Rightarrow> native_options \<Rightarrow> (native_options \<times> kwargs) result" where
  "pop_options kwargs current =
     (case map_of kwargs ''native_options'' of
        None \<Rightarrow> Inr (current, kwargs)
      | Some (Options_arg opts) \<Rightarrow> Inr (opts, filter (\<lambda>(k, _). k \<noteq> ''native_options'') kwargs)
      | Some _ \<Rightarrow> Inl (TypeError ''native_options must be NativeOptions''))"

definition backend_callback ::
  "(kwargs \<Rightarrow> native_options \<Rightarrow> pyval \<Rightarrow> search_outcome result \<times> dispatch_event list) \<Rightarrow> registration \<Rightarrow> string \<Rightarrow> kwargs
    \<Rightarrow> search_outcome result \<times> dispatch_event list" where
  "backend_callback search g how kwargs =
     (case pop_options kwargs (rg_options g) of Inl e \<Rightarrow> (Inl e, []) | Inr (opts, rest) \<Rightarrow> search rest opts (PStr how))"

definition installed_search ::
  "(kwargs \<Rightarrow> native_options \<Rightarrow> pyval \<Rightarrow> search_outcome result \<times> dispatch_event list) \<Rightarrow> native_options \<times> string \<Rightarrow> kwargs
    \<Rightarrow> search_outcome result \<times> dispatch_event list" where
  "installed_search search session kwargs =
     (let how = (case map_of kwargs ''backend'' of Some a \<Rightarrow> value_of a | None \<Rightarrow> PStr (snd session)) in
      case pop_options (filter (\<lambda>(k, _). k \<noteq> ''backend'') kwargs) (fst session) of
        Inl e \<Rightarrow> (Inl e, []) | Inr (opts, rest) \<Rightarrow> search rest opts how)"

definition beam_search ::
  "(kwargs \<Rightarrow> native_options \<Rightarrow> pyval \<Rightarrow> search_outcome result \<times> dispatch_event list) \<Rightarrow> 'h world \<Rightarrow> pyval \<Rightarrow> arg option \<Rightarrow> kwargs
    \<Rightarrow> search_outcome result \<times> dispatch_event list" where
  "beam_search search w backend given_options kwargs =
     (case given_options of
        None \<Rightarrow> search kwargs (w_options w) backend
      | Some (Val PNone) \<Rightarrow> search kwargs (w_options w) backend
      | Some (Options_arg opts) \<Rightarrow> search kwargs opts backend
      | Some _ \<Rightarrow> (Inl (TypeError ''native_options must be NativeOptions''), []))"


section \<open>Every reachable state can be undone\<close>

inductive registry_step :: "'h registry_api option \<Rightarrow> string \<Rightarrow> 'h world \<Rightarrow> 'h world \<Rightarrow> bool" for api home where
  Enable: "enable_native api home opts how w = (r, w') \<Longrightarrow> registry_step api home w w'"
| Disable: "disable_native api home w = (r, w') \<Longrightarrow> registry_step api home w w'"

inductive_cases registry_stepE: "registry_step api home w w'"

definition pristine :: "'h registry_api option \<Rightarrow> string \<Rightarrow> 'h world \<Rightarrow> bool" where
  "pristine api home w =
     (w_original w = None \<and> w_installed w = None \<and> w_session w = None \<and> w_registration w = None
      \<and> w_options w = new_options home \<and> w_default w = ''auto''
      \<and> (case api of None \<Rightarrow> True
         | Some a \<Rightarrow> api_lawful a \<and> api_get a (w_registry w) ''native'' = None \<and> api_get a (w_registry w) ''auto'' = None
             \<and> api_get a (w_registry w) ''torch'' \<noteq> None
             \<and> api_get a (w_registry w) (api_get_default a (w_registry w)) \<noteq> None))"

definition with_callbacks :: "'h registry_api \<Rightarrow> nat \<Rightarrow> 'h \<Rightarrow> string \<Rightarrow> callback option" where
  "with_callbacks a k h = (api_get a h)(''native'' \<mapsto> Backend_callback k ''native'', ''auto'' \<mapsto> Backend_callback k ''auto'')"

definition patch_kept :: "'h world \<Rightarrow> 'h world \<Rightarrow> bool" where
  "patch_kept w0 w =
     (w_registry w = w_registry w0 \<and> w_registration w = None
      \<and> (case w_original w of
           None \<Rightarrow> w_method w = w_method w0 \<and> w_installed w = None \<and> w_session w = None
         | Some m \<Rightarrow> m = w_method w0 \<and> w_installed w = Some (w_method w)))"

definition registry_kept :: "'h registry_api \<Rightarrow> 'h world \<Rightarrow> 'h world \<Rightarrow> bool" where
  "registry_kept a w0 w =
     (w_original w = None \<and> w_method w = w_method w0 \<and> w_installed w = None \<and> w_session w = None
      \<and> (case w_registration w of
           None \<Rightarrow> api_get a (w_registry w) = api_get a (w_registry w0)
             \<and> api_get_default a (w_registry w) = api_get_default a (w_registry w0)
         | Some g \<Rightarrow> rg_previous g = api_get_default a (w_registry w0) \<and> api_get_default a (w_registry w) = rg_default g
             \<and> (\<exists>k. rg_callbacks g = new_callbacks k \<and> api_get a (w_registry w) = with_callbacks a k (w_registry w0))))"

definition world_kept :: "'h registry_api option \<Rightarrow> 'h world \<Rightarrow> 'h world \<Rightarrow> bool" where
  "world_kept api w0 w = (case api of None \<Rightarrow> patch_kept w0 w | Some a \<Rightarrow> registry_kept a w0 w)"

lemma lawfulD:
  assumes "api_lawful a"
  shows "api_get a h name = None \<Longrightarrow> \<exists>h'. api_register a name cb h = Inr h' \<and> api_get a h' = (api_get a h)(name \<mapsto> cb)
      \<and> api_get_default a h' = api_get_default a h"
    and "api_get a h name \<noteq> None \<Longrightarrow> \<exists>h'. api_set_default a name h = Inr (api_get_default a h, h')
      \<and> api_get a h' = api_get a h \<and> api_get_default a h' = name"
    and "api_get a h name \<noteq> None \<Longrightarrow> api_get_default a h \<noteq> name \<Longrightarrow> \<exists>h'. api_unregister a name h = Inr h'
      \<and> api_get a h' = (api_get a h)(name := None) \<and> api_get_default a h' = api_get_default a h"
  using assms unfolding api_lawful_def by blast+

lemma register_new:
  assumes "api_lawful a" "api_get a h ''native'' = None" "api_get a h ''auto'' = None"
  obtains h' where "register_all a (new_callbacks k) [] h = (Inr (), [''native'', ''auto''], h')"
    "api_get a h' = with_callbacks a k h" "api_get_default a h' = api_get_default a h"
proof -
  from lawfulD(1) [OF assms(1,2)] obtain h1 where h1: "api_register a ''native'' (Backend_callback k ''native'') h = Inr h1"
    "api_get a h1 = (api_get a h)(''native'' \<mapsto> Backend_callback k ''native'')" "api_get_default a h1 = api_get_default a h"
    by blast
  with assms(3) have "api_get a h1 ''auto'' = None" by simp
  from lawfulD(1) [OF assms(1) this] obtain h2 where "api_register a ''auto'' (Backend_callback k ''auto'') h1 = Inr h2"
    "api_get a h2 = (api_get a h1)(''auto'' \<mapsto> Backend_callback k ''auto'')" "api_get_default a h2 = api_get_default a h1"
    by blast
  with h1 show ?thesis by (intro that [of h2]) (simp_all add: new_callbacks_def with_callbacks_def)
qed

lemma unregister_new:
  assumes "api_lawful a" "api_get a h = with_callbacks a k h0" "api_get a h0 ''native'' = None" "api_get a h0 ''auto'' = None"
    and "api_get_default a h \<notin> {''native'', ''auto''}"
  obtains h' where "unregister_all a (rev (map fst (new_callbacks k))) h = (Inr (), h')"
    "api_get a h' = api_get a h0" "api_get_default a h' = api_get_default a h"
proof -
  have "api_get a h ''auto'' \<noteq> None" using assms(2) by (simp add: with_callbacks_def)
  with lawfulD(3) [OF assms(1) this] assms(5) obtain h1 where h1: "api_unregister a ''auto'' h = Inr h1"
    "api_get a h1 = (api_get a h)(''auto'' := None)" "api_get_default a h1 = api_get_default a h" by auto
  with assms(2) have "api_get a h1 ''native'' \<noteq> None" by (simp add: with_callbacks_def)
  with lawfulD(3) [OF assms(1) this] assms(5) h1(3) obtain h2 where h2: "api_unregister a ''native'' h1 = Inr h2"
    "api_get a h2 = (api_get a h1)(''native'' := None)" "api_get_default a h2 = api_get_default a h1" by auto
  have "api_get a h2 = api_get a h0"
    using h1(2) h2(2) assms(2-4) by (auto simp: with_callbacks_def fun_eq_iff)
  with h1 h2 show ?thesis by (intro that [of h2]) (simp_all add: new_callbacks_def)
qed

lemma owned:
  assumes "api_get a h = with_callbacks a k h0" "rg_callbacks g = new_callbacks k" "api_get_default a h = rg_default g"
  shows "check_registration a g h = Inr ()"
  using assms by (simp add: check_registration_def registration_owned_def new_callbacks_def with_callbacks_def raise_if_def)

text \<open>The modes a registry knows once the adapter is registered.\<close>

lemma mode_known:
  assumes "check_mode v = Inr how" "api_get a h0 ''torch'' \<noteq> None"
  shows "with_callbacks a k h0 how \<noteq> None"
  using assms by (auto simp: check_mode_def with_callbacks_def split: pyval.splits if_splits)

lemma enable_registry_kept:
  assumes "pristine (Some a) home w0" "registry_kept a w0 w" "check_mode v = Inr how" "enable_registry a opts how w = (r, w')"
  shows "registry_kept a w0 w'"
proof -
  have laws: "api_lawful a" and free: "api_get a (w_registry w0) ''native'' = None" "api_get a (w_registry w0) ''auto'' = None"
    "api_get a (w_registry w0) ''torch'' \<noteq> None" using assms(1) by (simp_all add: pristine_def)
  show ?thesis
  proof (cases "w_registration w")
    case None
    then have same: "api_get a (w_registry w) = api_get a (w_registry w0)"
      "api_get_default a (w_registry w) = api_get_default a (w_registry w0)" using assms(2) by (simp_all add: registry_kept_def)
    with free have "api_get a (w_registry w) ''native'' = None" "api_get a (w_registry w) ''auto'' = None" by simp_all
    from register_new [OF laws this] obtain h where h: "register_all a (new_callbacks (w_fresh w)) [] (w_registry w)
        = (Inr (), [''native'', ''auto''], h)" "api_get a h = with_callbacks a (w_fresh w) (w_registry w)"
      "api_get_default a h = api_get_default a (w_registry w)" by blast
    with same have known: "api_get a h how \<noteq> None" using mode_known [OF assms(3) free(3)] by (simp add: with_callbacks_def)
    from lawfulD(2) [OF laws this] obtain h' where "api_set_default a how h = Inr (api_get_default a h, h')"
      "api_get a h' = api_get a h" "api_get_default a h' = how" by blast
    then show ?thesis using assms(2,4) None h same free
      by (auto simp: enable_registry_def first_registration_def registry_kept_def Let_def with_callbacks_def)
  next
    case (Some g)
    then obtain k where k: "rg_callbacks g = new_callbacks k" "api_get a (w_registry w) = with_callbacks a k (w_registry w0)"
      "api_get_default a (w_registry w) = rg_default g" "rg_previous g = api_get_default a (w_registry w0)"
      using assms(2) by (auto simp: registry_kept_def)
    then have "api_get a (w_registry w) how \<noteq> None" using mode_known [OF assms(3) free(3)] by simp
    from lawfulD(2) [OF laws this] obtain h' where "api_set_default a how (w_registry w) = Inr (api_get_default a (w_registry w), h')"
      "api_get a h' = api_get a (w_registry w)" "api_get_default a h' = how" by blast
    then show ?thesis using assms(2,4) Some k owned [OF k(2,1,3)]
      by (auto simp: enable_registry_def registry_kept_def)
  qed
qed


lemma disable_registry_restores:
  assumes "pristine (Some a) home w0" "registry_kept a w0 w" "w_registration w = Some g"
  obtains h where "disable_registry a g w = (Inr (), w\<lparr>w_registry := h, w_registration := None\<rparr>)"
    "api_get a h = api_get a (w_registry w0)" "api_get_default a h = api_get_default a (w_registry w0)"
proof -
  have laws: "api_lawful a" and free: "api_get a (w_registry w0) ''native'' = None" "api_get a (w_registry w0) ''auto'' = None"
    and known: "api_get a (w_registry w0) (api_get_default a (w_registry w0)) \<noteq> None" using assms(1) by (simp_all add: pristine_def)
  let ?d = "api_get_default a (w_registry w0)"
  from assms(2,3) obtain k where k: "rg_callbacks g = new_callbacks k" "api_get a (w_registry w) = with_callbacks a k (w_registry w0)"
    "api_get_default a (w_registry w) = rg_default g" "rg_previous g = ?d"
    by (auto simp: registry_kept_def)
  have "api_get a (w_registry w) ?d \<noteq> None" using known k(2) by (simp add: with_callbacks_def)
  from lawfulD(2) [OF laws this] obtain h1 where h1: "api_set_default a ?d (w_registry w) = Inr (api_get_default a (w_registry w), h1)"
    "api_get a h1 = api_get a (w_registry w)" "api_get_default a h1 = ?d" by blast
  have "?d \<notin> {''native'', ''auto''}" using known free by auto
  with h1(3) have "api_get_default a h1 \<notin> {''native'', ''auto''}" by simp
  from unregister_new [OF laws _ free this] h1(2) k(2) obtain h2 where
    h2: "unregister_all a (rev (map fst (new_callbacks k))) h1 = (Inr (), h2)" "api_get a h2 = api_get a (w_registry w0)"
      "api_get_default a h2 = api_get_default a h1" by metis
  have "disable_registry a g w = (Inr (), w\<lparr>w_registry := h2, w_registration := None\<rparr>)"
    by (simp add: disable_registry_def owned [OF k(2,1,3)] k(1,4) h1(1) h2(1))
  with h1(3) h2(2,3) show ?thesis by (intro that [of h2]) simp_all
qed

text \<open>What is observable of the world: the method, the registry's entries and default, and the adapter's globals.\<close>

definition restored :: "'h registry_api option \<Rightarrow> string \<Rightarrow> 'h world \<Rightarrow> 'h world \<Rightarrow> bool" where
  "restored api home w0 w =
     (w_method w = w_method w0 \<and> w_original w = None \<and> w_installed w = None \<and> w_session w = None
      \<and> w_registration w = None \<and> w_options w = new_options home \<and> w_default w = ''auto''
      \<and> (case api of None \<Rightarrow> w_registry w = w_registry w0
         | Some a \<Rightarrow> api_get a (w_registry w) = api_get a (w_registry w0)
             \<and> api_get_default a (w_registry w) = api_get_default a (w_registry w0)))"

lemma disable_restores:
  assumes "pristine api home w0" "world_kept api w0 w"
  shows "\<exists>w'. disable_native api home w = (Inr (), w') \<and> restored api home w0 w' \<and> world_kept api w0 w'"
proof (cases api)
  case None
  then show ?thesis using assms
    by (cases "w_original w")
      (auto simp: disable_native_def disable_patch_def world_kept_def patch_kept_def restored_def)
next
  case (Some a)
  then have pr: "pristine (Some a) home w0" and kept: "registry_kept a w0 w" using assms by (simp_all add: world_kept_def)
  show ?thesis
  proof (cases "w_registration w")
    case None
    then show ?thesis using kept Some
      by (auto simp: disable_native_def disable_patch_def world_kept_def registry_kept_def restored_def)
  next
    case (Some g)
    from disable_registry_restores [OF pr kept Some] obtain h where
      h: "disable_registry a g w = (Inr (), w\<lparr>w_registry := h, w_registration := None\<rparr>)"
      "api_get a h = api_get a (w_registry w0)" "api_get_default a h = api_get_default a (w_registry w0)" by blast
    then show ?thesis using kept Some \<open>api = Some a\<close>
      by (auto simp: disable_native_def disable_patch_def world_kept_def registry_kept_def restored_def)
  qed
qed

lemma enable_kept:
  assumes "pristine api home w0" "world_kept api w0 w" "enable_native api home opts v w = (r, w')"
  shows "world_kept api w0 w'"
proof (cases "check_mode v")
  case (Inl e)
  then show ?thesis using assms(2,3) by (simp add: enable_native_def)
next
  case (Inr how)
  show ?thesis
  proof (cases api)
    case None
    then show ?thesis using assms(2,3) Inr
      by (auto simp: enable_native_def enable_patch_def Let_def world_kept_def patch_kept_def split: if_splits option.splits)
  next
    case (Some a)
    then have pr: "pristine (Some a) home w0" and kept: "registry_kept a w0 w" using assms by (simp_all add: world_kept_def)
    let ?opts = "case opts of Some x \<Rightarrow> x | None \<Rightarrow> new_options home"
    obtain r' w1 where e: "enable_registry a ?opts how w = (r', w1)" by (cases "enable_registry a ?opts how w")
    from enable_registry_kept [OF pr kept Inr e] have "registry_kept a w0 w1" .
    moreover have "w_original w = None" using kept by (simp add: registry_kept_def)
    moreover have "registry_kept a w0 (w1\<lparr>w_options := x, w_default := y\<rparr>) = registry_kept a w0 w1" for x y
      by (cases "w_registration w1") (simp_all add: registry_kept_def)
    ultimately show ?thesis using assms(3) Inr Some e
      by (cases r') (auto simp: enable_native_def Let_def world_kept_def)
  qed
qed

lemma step_kept:
  assumes "registry_step api home w w'" "pristine api home w0" "world_kept api w0 w"
  shows "world_kept api w0 w'"
proof -
  from assms(1) consider (enabled) opts v r where "enable_native api home opts v w = (r, w')"
    | (disabled) r where "disable_native api home w = (r, w')" by (rule registry_stepE)
  then show ?thesis
  proof cases
    case enabled
    then show ?thesis by (rule enable_kept [OF assms(2,3)])
  next
    case disabled
    then show ?thesis using disable_restores [OF assms(2,3)] by auto
  qed
qed

lemma reachable_kept:
  assumes "(registry_step api home)\<^sup>*\<^sup>* w0 w" "pristine api home w0"
  shows "world_kept api w0 w"
  using assms(1)
proof (induction rule: rtranclp_induct)
  case base
  then show ?case using assms(2)
    by (cases api) (auto simp: pristine_def world_kept_def patch_kept_def registry_kept_def)
qed (rule step_kept [OF _ assms(2)])

text \<open>C26. Enabling is always reversible. From a pristine process, whatever sequence of enable and disable
  calls was made, failed ones included, and with or without a backend registry in the installed
  CayleyPy, \<open>disable_native\<close> succeeds and restores the class method, every registered backend, the
  default backend and the adapter's own globals to what they were before the first call.\<close>
theorem disable_always_restores:
  assumes "(registry_step api home)\<^sup>*\<^sup>* w0 w" "pristine api home w0"
  shows "\<exists>w'. disable_native api home w = (Inr (), w') \<and> restored api home w0 w'"
  using disable_restores [OF assms(2) reachable_kept [OF assms]] by blast

text \<open>A registry as a finite map with a default, and the process before the first call.\<close>

definition map_api :: "((string \<rightharpoonup> callback) \<times> string) registry_api" where
  "map_api = \<lparr>api_register = (\<lambda>name cb (m, d). if m name = None then Inr (m(name \<mapsto> cb), d) else Inl (ValueError ''already registered'')),
     api_unregister = (\<lambda>name (m, d). if m name = None \<or> d = name then Inl (ValueError ''cannot unregister'') else Inr (m(name := None), d)),
     api_get = fst,
     api_set_default = (\<lambda>name (m, d). if m name = None then Inl (ValueError ''unknown backend'') else Inr (d, (m, name))),
     api_get_default = snd\<rparr>"

definition first_world :: "((string \<rightharpoonup> callback) \<times> string) world" where
  "first_world = \<lparr>w_registry = ([''torch'' \<mapsto> Upstream 0], ''torch''), w_method = Upstream 1, w_original = None, w_installed = None,
     w_session = None, w_registration = None, w_options = new_options ''/root'', w_default = ''auto'', w_fresh = 0\<rparr>"

lemma map_api_lawful: "api_lawful map_api"
  by (auto simp: api_lawful_def map_api_def)

lemma disable_always_restores_witness:
  "\<exists>w' w''. enable_native (Some map_api) ''/root'' None (PStr ''auto'') first_world = (Inr (), w')
     \<and> api_get_default map_api (w_registry w') = ''auto'' \<and> disable_native (Some map_api) ''/root'' w' = (Inr (), w'')
     \<and> restored (Some map_api) ''/root'' first_world w''"
proof -
  let ?run = "enable_native (Some map_api) ''/root'' None (PStr ''auto'') first_world"
  obtain r w' where run: "?run = (r, w')" by (cases ?run)
  have "fst ?run = Inr () \<and> api_get_default map_api (w_registry (snd ?run)) = ''auto''"
    by (simp add: enable_native_def check_mode_def first_world_def enable_registry_def first_registration_def map_api_def
        new_callbacks_def Let_def)
  with run have r: "r = Inr ()" "api_get_default map_api (w_registry w') = ''auto''" by simp_all
  have "(registry_step (Some map_api) ''/root'')\<^sup>*\<^sup>* first_world w'" by (rule r_into_rtranclp, rule Enable, rule run)
  moreover have "pristine (Some map_api) ''/root'' first_world"
    by (simp add: pristine_def first_world_def map_api_lawful) (simp add: map_api_def)
  ultimately show ?thesis using disable_always_restores [of "Some map_api" "''/root''" first_world w'] run r by blast
qed

end
