(* ===== verification/Orbits.thy ===== *)
theory Orbits
  imports Reflection Texts
begin

text \<open>
  The orbit certificate of a calibration frontier (\<open>calibration_frontier.py\<close>,
  \<open>symmetric_orbit_certificate\<close>): a generator that is one full cycle and a generator that is one
  transposition whose conjugates under the cycle connect all positions. The theory proves what the certificate
  claims: the generators then reach every permutation of the positions.
\<close>

section \<open>The certificate\<close>

text \<open>\<open>while p not in orbit\<close>: at most one step per position, and one that finds the repetition.\<close>

fun walk_orbit :: "nat \<Rightarrow> nat list \<Rightarrow> nat list \<Rightarrow> nat \<Rightarrow> nat list \<times> nat" where
  "walk_orbit 0 g visited p = (visited, p)"
| "walk_orbit (Suc k) g visited p =
     (if p \<in> set visited then (visited, p) else walk_orbit k g (visited @ [p]) (g ! p))"

definition is_full_cycle :: "nat list \<Rightarrow> nat \<Rightarrow> bool" where
  "is_full_cycle g n = (let (visited, p) = walk_orbit (Suc n) g [] 0 in p = 0 \<and> length visited = n)"

definition swapped :: "nat list \<Rightarrow> (nat \<times> nat) option" where
  "swapped g =
     (case filter (\<lambda>i. g ! i \<noteq> i) [0..<length g] of
        [a, b] \<Rightarrow> if g ! a = b \<and> g ! b = a then Some (a, b) else None
      | _ \<Rightarrow> None)"

fun conjugate_edges :: "nat \<Rightarrow> nat list \<Rightarrow> nat \<Rightarrow> nat \<Rightarrow> (nat \<times> nat) list" where
  "conjugate_edges 0 g a b = []"
| "conjugate_edges (Suc k) g a b = (a, b) # conjugate_edges k g (g ! a) (g ! b)"

definition neighbours :: "(nat \<times> nat) list \<Rightarrow> nat \<Rightarrow> nat list" where
  "neighbours edges v =
     remdups (concat (map (\<lambda>(a, b). (if a = v then [b] else []) @ (if b = v then [a] else [])) edges))"

text \<open>The graph search with its stack: every position is pushed at most once.\<close>

fun reach_loop :: "nat \<Rightarrow> (nat \<times> nat) list \<Rightarrow> nat list \<Rightarrow> nat list \<Rightarrow> nat list" where
  "reach_loop 0 edges reached pending = reached"
| "reach_loop (Suc k) edges reached pending =
     (case pending of
        [] \<Rightarrow> reached
      | v # rest \<Rightarrow>
          let fresh = filter (\<lambda>w. w \<notin> set reached) (neighbours edges v) in
          reach_loop k edges (reached @ fresh) (rev fresh @ rest))"

record certificate =
  ct_cycle :: "nat list"
  ct_transposition :: "nat list"
  ct_edges :: "(nat \<times> nat) list"

definition certify_swap :: "nat \<Rightarrow> nat list \<Rightarrow> nat list \<Rightarrow> certificate option" where
  "certify_swap n cycle swap =
     (case swapped swap of
        None \<Rightarrow> None
      | Some (a, b) \<Rightarrow>
          let edges = conjugate_edges n cycle a b in
          if length (reach_loop (Suc n) edges [0] [0]) = n
          then Some \<lparr>ct_cycle = cycle, ct_transposition = swap, ct_edges = edges\<rparr> else None)"

definition symmetric_orbit_certificate :: "nat list list \<Rightarrow> nat \<Rightarrow> certificate option" where
  "symmetric_orbit_certificate gens n =
     first_some (\<lambda>cycle. if is_full_cycle cycle n then first_some (certify_swap n cycle) gens else None) gens"

section \<open>Enough fuel\<close>

lemma neighbours_iff: "w \<in> set (neighbours edges v) \<longleftrightarrow> (v, w) \<in> set edges \<or> (w, v) \<in> set edges"
  by (auto simp: neighbours_def split: if_splits)

text \<open>Each step pops one position and moves the fresh ones out of the unvisited part.\<close>

lemma reach_loop_enough:
  assumes "distinct reached" "set reached \<subseteq> {..<n}" "\<forall>(a, b) \<in> set edges. a < n \<and> b < n"
    "n - length reached + length pending \<le> k"
  shows "reach_loop (Suc k) edges reached pending = reach_loop k edges reached pending"
  using assms(1,2,4)
proof (induction k arbitrary: reached pending)
  case 0
  then show ?case by simp
next
  case (Suc k)
  show ?case
  proof (cases pending)
    case (Cons v rest)
    let ?fresh = "filter (\<lambda>w. w \<notin> set reached) (neighbours edges v)"
    have d: "distinct (reached @ ?fresh)" using Suc.prems(1) by (auto simp: neighbours_def)
    have s: "set (reached @ ?fresh) \<subseteq> {..<n}" using Suc.prems(2) assms(3) by (auto simp: neighbours_iff)
    have "length (reached @ ?fresh) \<le> n"
      by (metis s d card_lessThan card_mono distinct_card finite_lessThan)
    then have "n - length (reached @ ?fresh) + length (rev ?fresh @ rest) \<le> k"
      using Suc.prems(3) Cons by simp
    from Suc.IH [OF d s this] show ?thesis using Cons by (simp only: reach_loop.simps list.case Let_def)
  qed simp
qed

lemma walk_orbit_spec:
  assumes "walk_orbit k g (map (\<lambda>j. (((!) g) ^^ j) 0) [0..<m]) ((((!) g) ^^ m) 0) = (visited, p)"
    "distinct (map (\<lambda>j. (((!) g) ^^ j) 0) [0..<m])"
  shows "\<exists>m'. visited = map (\<lambda>j. (((!) g) ^^ j) 0) [0..<m'] \<and> p = (((!) g) ^^ m') 0 \<and> distinct visited"
  using assms
proof (induction k arbitrary: m)
  case (Suc k)
  let ?v = "map (\<lambda>j. (((!) g) ^^ j) 0) [0..<m]" and ?p = "(((!) g) ^^ m) 0"
  show ?case
  proof (cases "?p \<in> set ?v")
    case False
    have step: "?v @ [?p] = map (\<lambda>j. (((!) g) ^^ j) 0) [0..<Suc m]" "g ! ?p = (((!) g) ^^ Suc m) 0" by simp_all
    have "walk_orbit k g (?v @ [?p]) (g ! ?p) = (visited, p)" using Suc.prems(1) False by (simp del: set_map)
    moreover have "distinct (?v @ [?p])" using Suc.prems(2) False by simp
    ultimately show ?thesis using Suc.IH [of "Suc m"] unfolding step by blast
  qed (use Suc.prems in auto)
qed auto


section \<open>The words of the generators\<close>

text \<open>The permutations of positions that some path realises; they are closed under composition.\<close>

definition words :: "nat \<Rightarrow> nat list list \<Rightarrow> nat list set" where
  "words n gens = {act gens [0..<n] ms | ms. \<forall>m \<in> set ms. m < length gens}"

definition transpose :: "nat \<Rightarrow> nat \<Rightarrow> nat \<Rightarrow> nat" where
  "transpose i j x = (if x = i then j else if x = j then i else x)"

definition swap_list :: "nat \<Rightarrow> nat \<Rightarrow> nat \<Rightarrow> nat list" where
  "swap_list n i j = map (transpose i j) [0..<n]"

lemma transpose_less [simp]: "i < n \<Longrightarrow> j < n \<Longrightarrow> x < n \<Longrightarrow> transpose i j x < n"
  by (simp add: transpose_def)

lemma swap_list_simps [simp]: "length (swap_list n i j) = n" "x < n \<Longrightarrow> swap_list n i j ! x = transpose i j x"
  by (simp_all add: swap_list_def)

lemma swap_list_sym: "swap_list n i j = swap_list n j i"
  by (simp add: swap_list_def transpose_def)

lemma swap_list_less: "i < n \<Longrightarrow> j < n \<Longrightarrow> x \<in> set (swap_list n i j) \<Longrightarrow> x < n"
  by (auto simp: swap_list_def)

lemma words_id: "[0..<n] \<in> words n gens"
  by (force simp: words_def intro: exI [of _ "[]"])

lemma words_perm:
  assumes gens: "\<forall>g \<in> set gens. is_perm n g" and "g \<in> words n gens"
  shows "mset g = mset [0..<n] \<and> length g = n"
  using act_mset [OF gens, of _ "[0..<n]"] assms(2) by (auto simp: words_def)

lemma words_nth:
  assumes "\<forall>g \<in> set gens. is_perm n g" "g \<in> words n gens" "i < n"
  shows "g ! i < n"
  using words_perm [OF assms(1,2)] assms(3) by (metis atLeastLessThan_iff mset_eq_setD nth_mem set_upt)

lemma words_gather:
  assumes gens: "\<forall>g \<in> set gens. is_perm n g" and "g \<in> words n gens" "h \<in> words n gens"
  shows "gather g h \<in> words n gens"
proof -
  from assms(2,3) obtain p q where pq: "g = act gens [0..<n] p" "\<forall>m \<in> set p. m < length gens"
    "h = act gens [0..<n] q" "\<forall>m \<in> set q. m < length gens" by (auto simp: words_def)
  have "act gens g q = gather g h" using act_as_gather [OF gens pq(4)] words_perm [OF gens assms(2)] pq(3) by metis
  then have "gather g h = act gens [0..<n] (p @ q)" by (simp add: act_append pq(1))
  moreover have "\<forall>m \<in> set (p @ q). m < length gens" using pq by auto
  ultimately show ?thesis by (auto simp: words_def)
qed

lemma words_gen:
  assumes gens: "\<forall>g \<in> set gens. is_perm n g" and "g \<in> set gens"
  shows "g \<in> words n gens"
proof -
  from assms(2) obtain m where "m < length gens" "gens ! m = g" by (auto simp: in_set_conv_nth)
  moreover have "gather [0..<n] g = g"
    using gens \<open>g \<in> set gens\<close> by (auto simp: gather_def is_perm_iff intro: map_idI)
  ultimately show ?thesis by (auto simp: words_def intro!: exI [of _ "[m]"])
qed

lemma words_funpow:
  assumes gens: "\<forall>g \<in> set gens. is_perm n g" and c: "c \<in> words n gens"
  shows "map (((!) c) ^^ k) [0..<n] \<in> words n gens"
proof (induction k)
  case (Suc k)
  have "map (((!) c) ^^ Suc k) [0..<n] = gather (map (((!) c) ^^ k) [0..<n]) c"
    using words_perm [OF gens c] words_nth [OF gens c]
    by (intro nth_equalityI) (simp_all add: funpow_swap1)
  with words_gather [OF gens Suc c] show ?case by (simp only:)
qed (use words_id in simp)

text \<open>Transpositions through 0 give all transpositions, and those give every permutation.\<close>

lemma words_swap_chain:
  assumes gens: "\<forall>g \<in> set gens. is_perm n g" and "swap_list n 0 v \<in> words n gens" "swap_list n v w \<in> words n gens" "v < n" "w < n" "v \<noteq> 0" "w \<noteq> 0" "v \<noteq> w"
  shows "swap_list n 0 w \<in> words n gens"
proof -
  have "swap_list n 0 w = gather (gather (swap_list n v w) (swap_list n 0 v)) (swap_list n v w)"
    using assms(4-8) by (intro nth_equalityI) (auto simp: transpose_def)
  then show ?thesis using assms(2,3) words_gather [OF gens] by metis
qed

lemma words_all_swaps:
  assumes gens: "\<forall>g \<in> set gens. is_perm n g" and star: "\<And>v. v < n \<Longrightarrow> v \<noteq> 0 \<Longrightarrow> swap_list n 0 v \<in> words n gens" and "i < n" "j < n" "i \<noteq> j"
  shows "swap_list n i j \<in> words n gens"
proof -
  consider "i = 0" | "j = 0" | "i \<noteq> 0" "j \<noteq> 0" by blast
  then show ?thesis
  proof cases
    case 3
    have "swap_list n i j = gather (gather (swap_list n 0 i) (swap_list n 0 j)) (swap_list n 0 i)"
      using assms(3-5) 3 by (intro nth_equalityI) (auto simp: transpose_def)
    then show ?thesis using star assms(3,4) 3 words_gather [OF gens] by metis
  qed (use star assms swap_list_sym in \<open>metis\<close>)+
qed

lemma words_all:
  assumes gens: "\<forall>g \<in> set gens. is_perm n g" and swaps: "\<And>i j. i < n \<Longrightarrow> j < n \<Longrightarrow> i \<noteq> j \<Longrightarrow> swap_list n i j \<in> words n gens" and q: "is_perm n q"
  shows "q \<in> words n gens"
proof -
  have "\<exists>g \<in> words n gens. take k g = take k q" if "k \<le> n" for k
    using that
  proof (induction k)
    case 0
    then show ?case using words_id by auto
  next
    case (Suc k)
    then obtain g where g: "g \<in> words n gens" "take k g = take k q" by auto
    have lens: "length g = n" "length q = n" using words_perm [OF gens g(1)] is_perm_length [OF q] by simp_all
    have "set g = set q" using words_perm [OF gens g(1)] q by (metis is_perm_def mset_eq_setD mset_sort)
    then have "q ! k \<in> set g" using lens Suc.prems by simp
    then obtain j where j: "j < n" "g ! j = q ! k" using lens by (auto simp: in_set_conv_nth)
    have "k \<le> j"
    proof (rule ccontr)
      assume "\<not> k \<le> j"
      then have "g ! j = q ! j" using g(2) by (metis not_le nth_take)
      with j have "q ! j = q ! k" by simp
      with \<open>\<not> k \<le> j\<close> q lens Suc.prems show False by (auto simp: is_perm_iff nth_eq_iff_index_eq)
    qed
    let ?g = "if j = k then g else gather g (swap_list n k j)"
    have "?g \<in> words n gens" using words_gather [OF gens g(1) swaps [of k j]] g(1) j(1) Suc.prems by simp
    moreover have "take (Suc k) ?g = take (Suc k) q"
    proof (rule nth_equalityI)
      fix i assume "i < length (take (Suc k) ?g)"
      then have "i < Suc k" by simp
      moreover have "g ! i = q ! i" if "i < k" using g(2) that by (metis nth_take)
      ultimately show "take (Suc k) ?g ! i = take (Suc k) q ! i"
        using j \<open>k \<le> j\<close> Suc.prems by (auto simp: transpose_def less_Suc_eq)
    qed (use lens in simp)
    ultimately show ?case by blast
  qed
  from this [of n] obtain g where "g \<in> words n gens" "take n g = take n q" by auto
  with words_perm [OF gens this(1)] is_perm_length [OF q] show ?thesis by simp
qed


section \<open>What the certificate proves\<close>

lemma conjugate_edges_iff:
  "(x, y) \<in> set (conjugate_edges m c a b) \<longleftrightarrow> (\<exists>k<m. x = (((!) c) ^^ k) a \<and> y = (((!) c) ^^ k) b)"
proof (induction m arbitrary: a b)
  case (Suc m)
  have "(\<exists>k<Suc m. x = (((!) c) ^^ k) a \<and> y = (((!) c) ^^ k) b)
    \<longleftrightarrow> (x = a \<and> y = b) \<or> (\<exists>k<m. x = (((!) c) ^^ Suc k) a \<and> y = (((!) c) ^^ Suc k) b)"
    by (subst Ex_less_Suc2) simp
  then show ?case using Suc by (simp add: funpow_swap1)
qed simp

lemma funpow_less:
  assumes "\<And>i. i < n \<Longrightarrow> c ! i < n" "i < n"
  shows "(((!) c) ^^ k) i < n"
  using assms(2) by (induction k) (auto intro: assms(1))

lemma full_cycleD:
  assumes "is_full_cycle c n" "is_perm n c"
  shows "i < n \<Longrightarrow> (((!) c) ^^ n) i = i"
proof -
  assume i: "i < n"
  obtain visited p where w: "walk_orbit (Suc n) c [] 0 = (visited, p)" by (cases "walk_orbit (Suc n) c [] 0")
  have start: "walk_orbit (Suc n) c (map (\<lambda>j. (((!) c) ^^ j) 0) [0..<0]) ((((!) c) ^^ 0) 0) = (visited, p)" using w by simp
  have none: "distinct (map (\<lambda>j. (((!) c) ^^ j) 0) [0..<0])" by simp
  from walk_orbit_spec [OF start none] obtain m where m: "visited = map (\<lambda>j. (((!) c) ^^ j) 0) [0..<m]" "p = (((!) c) ^^ m) 0"
    "distinct visited" by blast
  from assms(1) have "p = 0" "length visited = n" unfolding is_full_cycle_def w by simp_all
  with m(1,2) have mn: "m = n" "(((!) c) ^^ n) 0 = 0" by simp_all
  have "set visited \<subseteq> {..<n}"
    using i assms(2) by (auto simp: m(1) intro!: funpow_less is_perm_nth_less)
  moreover have "card (set visited) = n" using m(3) distinct_card [OF m(3)] m(1) mn(1) by simp
  ultimately have "set visited = {..<n}" by (intro card_subset_eq) simp_all
  with i have "i \<in> set visited" by simp
  then obtain k where "i = (((!) c) ^^ k) 0" by (auto simp: m(1))
  then have "(((!) c) ^^ n) i = (((!) c) ^^ k) ((((!) c) ^^ n) 0)"
    by (metis add.commute comp_apply funpow_add)
  with mn(2) \<open>i = _\<close> show "(((!) c) ^^ n) i = i" by simp
qed

lemma words_conjugate:
  assumes gens: "\<forall>g \<in> set gens. is_perm n g" and c: "c \<in> words n gens" "\<And>i. i < n \<Longrightarrow> (((!) c) ^^ n) i = i"
    and swap: "swap_list n a b \<in> words n gens" "a < n" "b < n" and "k \<le> n"
  shows "swap_list n ((((!) c) ^^ k) a) ((((!) c) ^^ k) b) \<in> words n gens"
proof -
  let ?f = "((!) c) ^^ k" and ?g = "((!) c) ^^ (n - k)"
  have less: "?f x < n" if "x < n" for x using funpow_less [of n c] words_nth [OF gens c(1)] that by blast
  have less': "?g x < n" if "x < n" for x using funpow_less [of n c] words_nth [OF gens c(1)] that by blast
  have inv: "?f (?g x) = x" "?g (?f x) = x" if "x < n" for x
    using c(2) [OF that] \<open>k \<le> n\<close> by (metis comp_apply funpow_add le_add_diff_inverse le_add_diff_inverse2)+
  have "swap_list n (?f a) (?f b) = gather (gather (map ?f [0..<n]) (swap_list n a b)) (map ?g [0..<n])"
  proof (rule nth_equalityI)
    fix x assume "x < length (swap_list n (?f a) (?f b))"
    then have x: "x < n" by simp
    have "x = ?f a \<longleftrightarrow> ?g x = a" "x = ?f b \<longleftrightarrow> ?g x = b" using inv x swap(2,3) by metis+
    then show "swap_list n (?f a) (?f b) ! x = gather (gather (map ?f [0..<n]) (swap_list n a b)) (map ?g [0..<n]) ! x"
      using x less' [OF x] swap(2,3) inv(1) [OF x] by (simp add: transpose_def)
  qed simp
  moreover have "map ?f [0..<n] \<in> words n gens" "map ?g [0..<n] \<in> words n gens"
    by (rule words_funpow [OF gens c(1)])+
  ultimately show ?thesis using words_gather [OF gens] swap(1) by metis
qed

lemma swappedD:
  assumes "swapped g = Some (a, b)" "is_perm n g"
  shows "g = swap_list n a b \<and> a < n \<and> b < n \<and> a \<noteq> b"
proof -
  have len: "length g = n" using assms(2) by (rule is_perm_length)
  from assms(1) have f: "filter (\<lambda>i. g ! i \<noteq> i) [0..<length g] = [a, b]" and ab: "g ! a = b" "g ! b = a"
    by (auto simp: swapped_def split: list.splits if_splits)
  have "distinct [a, b]" by (metis f distinct_filter distinct_upt)
  have moved: "set (filter (\<lambda>i. g ! i \<noteq> i) [0..<length g]) = {a, b}" by (simp add: f)
  then have ab': "a < n" "b < n" using len by auto
  have "g ! x = x" if "x < n" "x \<noteq> a" "x \<noteq> b" for x using moved that len by auto
  then have "g = swap_list n a b"
    using len ab by (intro nth_equalityI) (auto simp: transpose_def)
  with ab' \<open>distinct [a, b]\<close> show ?thesis by simp
qed

lemma reach_loop_words:
  assumes gens: "\<forall>g \<in> set gens. is_perm n g"
    and edges: "\<And>v w. w \<in> set (neighbours edges v) \<Longrightarrow> v < n \<and> w < n \<and> v \<noteq> w \<and> swap_list n v w \<in> words n gens"
    and "0 \<in> set reached" "set pending \<subseteq> set reached" "distinct reached"
    and "\<And>v. v \<in> set reached \<Longrightarrow> v = 0 \<or> v < n \<and> swap_list n 0 v \<in> words n gens"
  shows "distinct (reach_loop k edges reached pending)
    \<and> (\<forall>v \<in> set (reach_loop k edges reached pending). v = 0 \<or> v < n \<and> swap_list n 0 v \<in> words n gens)"
  using assms(3-6)
proof (induction k arbitrary: reached pending)
  case (Suc k)
  show ?case
  proof (cases pending)
    case (Cons v rest)
    let ?fresh = "filter (\<lambda>w. w \<notin> set reached) (neighbours edges v)"
    have v: "v \<in> set reached" using Cons Suc.prems(2) by simp
    have good: "w = 0 \<or> w < n \<and> swap_list n 0 w \<in> words n gens" if "w \<in> set ?fresh" for w
    proof -
      from that have w: "w \<in> set (neighbours edges v)" "w \<notin> set reached" by simp_all
      note e = edges [OF w(1)]
      show ?thesis
      proof (cases "v = 0")
        case False
        moreover have "w \<noteq> 0" using w(2) Suc.prems(1) by metis
        ultimately show ?thesis
          using Suc.prems(4) [OF v] e words_swap_chain [OF gens, of v w] by blast
      qed (use e in auto)
    qed
    have d: "distinct (reached @ ?fresh)" using Suc.prems(3) by (auto simp: neighbours_def)
    have z: "0 \<in> set (reached @ ?fresh)" using Suc.prems(1) by simp
    have p: "set (rev ?fresh @ rest) \<subseteq> set (reached @ ?fresh)" using Suc.prems(2) Cons by auto
    have g: "w = 0 \<or> w < n \<and> swap_list n 0 w \<in> words n gens" if "w \<in> set (reached @ ?fresh)" for w
      using that good [of w] Suc.prems(4) [of w] by (simp only: set_append Un_iff) blast
    have "reach_loop (Suc k) edges reached pending = reach_loop k edges (reached @ ?fresh) (rev ?fresh @ rest)"
      by (simp only: Cons reach_loop.simps list.case Let_def)
    then show ?thesis using Suc.IH [OF z p d g] by metis
  qed (use Suc.prems in auto)
qed auto

text \<open>A certificate is a proof: every permutation of the positions is the action of some path.\<close>

lemma certificate_words:
  assumes gens: "\<forall>g \<in> set gens. is_perm n g" and cert: "symmetric_orbit_certificate gens n = Some ct" and q: "is_perm n q"
  shows "q \<in> words n gens"
proof -
  from first_some_mem [OF cert [unfolded symmetric_orbit_certificate_def]] obtain c where
    c: "c \<in> set gens" "is_full_cycle c n" "first_some (certify_swap n c) gens = Some ct" by (auto split: if_splits)
  from first_some_mem [OF c(3)] obtain s where s: "s \<in> set gens" "certify_swap n c s = Some ct" by blast
  then obtain a b where ab: "swapped s = Some (a, b)"
    and reached: "length (reach_loop (Suc n) (conjugate_edges n c a b) [0] [0]) = n"
    by (auto simp: certify_swap_def Let_def split: option.splits if_splits)
  have cp: "is_perm n c" and sp: "is_perm n s" using gens c(1) s(1) by auto
  note sw = swappedD [OF ab sp]
  note cw = words_gen [OF gens c(1)] and cyc = full_cycleD [OF c(2) cp]
  have sw': "swap_list n a b \<in> words n gens" using words_gen [OF gens s(1)] sw by simp
  let ?edges = "conjugate_edges n c a b"
  have edge: "x < n \<and> y < n \<and> x \<noteq> y \<and> swap_list n x y \<in> words n gens" if e: "(x, y) \<in> set ?edges" for x y
  proof -
    from e obtain k where k: "k < n" "x = (((!) c) ^^ k) a" "y = (((!) c) ^^ k) b" by (auto simp: conjugate_edges_iff)
    have less: "x < n" "y < n" unfolding k using sw is_perm_nth_less [OF cp] by (auto intro: funpow_less)
    have "x \<noteq> y"
    proof
      assume "x = y"
      then have "(((!) c) ^^ (n - k)) x = (((!) c) ^^ (n - k)) y" by simp
      then have "(((!) c) ^^ n) a = (((!) c) ^^ n) b"
        unfolding k by (metis comp_apply funpow_add le_add_diff_inverse2 less_imp_le k(1))
      with cyc sw show False by metis
    qed
    with less words_conjugate [OF gens cw cyc sw', of k] sw k show ?thesis by auto
  qed
  have step: "v < n \<and> w < n \<and> v \<noteq> w \<and> swap_list n v w \<in> words n gens" if "w \<in> set (neighbours ?edges v)" for v w
    using that edge swap_list_sym unfolding neighbours_iff by metis
  define r where "r = reach_loop (Suc n) ?edges [0] [0]"
  have "distinct r \<and> (\<forall>v \<in> set r. v = 0 \<or> v < n \<and> swap_list n 0 v \<in> words n gens)"
    unfolding r_def by (rule reach_loop_words [OF gens step]) simp_all
  then have r: "distinct r" "v \<in> set r \<Longrightarrow> v = 0 \<or> v < n \<and> swap_list n 0 v \<in> words n gens" for v by simp_all
  have "n > 0" using sw by auto
  then have "set r \<subseteq> {..<n}" using r(2) by auto
  moreover have "card (set r) = n" using distinct_card [OF r(1)] reached by (simp only: r_def)
  ultimately have "set r = {..<n}" by (intro card_subset_eq) simp_all
  then have star: "swap_list n 0 v \<in> words n gens" if "v < n" "v \<noteq> 0" for v using r(2) [of v] that by simp
  show ?thesis by (rule words_all [OF gens words_all_swaps [OF gens star] q])
qed

lemma certificate_reaches:
  assumes "\<forall>g \<in> set gens. is_perm n g" "symmetric_orbit_certificate gens n = Some ct"
    and "length s = n" "distinct s" "mset t = mset s"
  shows "\<exists>ms. (\<forall>m \<in> set ms. m < length gens) \<and> act gens s ms = t"
proof -
  let ?q = "map (\<lambda>x. the (index_of s x)) t"
  have set: "set t = set s" and len: "length t = n" and dt: "distinct t"
    using assms(3-5) by (metis mset_eq_setD, metis mset_eq_length, metis mset_eq_imp_distinct_iff)
  have idx: "the (index_of s x) < n \<and> s ! the (index_of s x) = x" if "x \<in> set s" for x
    using that assms(3) index_of_Some [of s x] by (cases "index_of s x") auto
  have "distinct ?q" using dt set idx by (auto simp: distinct_map intro!: inj_onI) metis
  moreover have "set ?q \<subseteq> {..<n}" using idx set by auto
  moreover have "card (set ?q) = n" using distinct_card [OF \<open>distinct ?q\<close>] len by simp
  ultimately have "is_perm n ?q" by (simp add: is_perm_iff card_subset_eq)
  from certificate_words [OF assms(1,2) this] obtain ms where ms: "?q = act gens [0..<n] ms" "\<forall>m \<in> set ms. m < length gens"
    by (auto simp: words_def)
  have "act gens s ms = gather s ?q" using act_as_gather [OF assms(1) ms(2) assms(3)] ms(1) by simp
  also have "\<dots> = t" using idx set by (auto simp: gather_def intro: map_idI)
  finally show ?thesis using ms(2) by blast
qed


text \<open>C16. The orbit certificate is a proof. When the search for a full cycle and a transposition with connected
  conjugates succeeds, every arrangement of the colours of a state with distinct colours is reached from it by some path of
  the generators, so enumerating all arrangements enumerates reachable states only.\<close>
theorem orbit_certificate_sound:
  assumes "\<forall>g \<in> set gens. is_perm n g" "symmetric_orbit_certificate gens n = Some ct"
    and "length s = n" "distinct s" "mset t = mset s"
  shows "\<exists>ms. (\<forall>m \<in> set ms. m < length gens) \<and> act gens s ms = t"
  by (rule certificate_reaches [OF assms])

lemma orbit_certificate_sound_witness:
  "\<exists>ms. (\<forall>m \<in> set ms. m < 3) \<and> act [[1, 2, 0], [2, 0, 1], [1, 0, 2]] ''abc'' ms = ''cba''"
proof -
  have "symmetric_orbit_certificate [[1, 2, 0], [2, 0, 1], [1, 0, 2]] 3 \<noteq> None" by code_simp
  then obtain ct where ct: "symmetric_orbit_certificate [[1, 2, 0], [2, 0, 1], [1, 0, 2]] 3 = Some ct" by blast
  have "\<forall>g \<in> set [[1, 2, 0], [2, 0, 1], [1, 0, 2]]. is_perm 3 g" by code_simp
  from orbit_certificate_sound [OF this ct, of "''abc''" "''cba''"] show ?thesis by (simp add: numeral_3_eq_3)
qed

end
