(* ===== verification/Calibration.thy ===== *)
theory Calibration
  imports Orbits "HOL-Library.Word"
begin

text \<open>
  Legal graph frontiers for measuring the whole native pipeline (\<open>calibration_frontier.py\<close>): exact numbers of
  unique states per rank, none of them the centre or one move away from it, each padded with zeros to the native storage
  size. Small puzzles with an orbit certificate are enumerated by permutation ranks, the others
  are sampled by random walks from the centre. The random walks and the clock are parameters: a walk
  is the list of the moves it makes, and \<open>late\<close> answers for the rank and the position of the loop.
\<close>

section \<open>Enumeration\<close>

text \<open>\<open>np.argsort\<close>\<close>

definition argsort :: "nat list \<Rightarrow> nat list" where
  "argsort g = sort_key (\<lambda>i. g ! i) [0..<length g]"

definition forbidden_states :: "graph_contract \<Rightarrow> int list list" where
  "forbidden_states c = center c # map (\<lambda>g. gather (center c) (argsort g)) (generators c)"

fun coprime_stride :: "nat \<Rightarrow> nat \<Rightarrow> nat" where
  "coprime_stride n 0 = 0"
| "coprime_stride n (Suc s) = (if gcd (Suc s) n = 1 then Suc s else coprime_stride n s)"

definition rank_offset :: "nat \<Rightarrow> nat" where
  "rank_offset n = fact n div 3"

definition rank_stride :: "nat \<Rightarrow> nat" where
  "rank_stride n = coprime_stride (fact n) (min 65537 ((2 ^ 64 - 1 - rank_offset n) div max 1 (fact n - 1)))"

text \<open>\<open>(indices*stride+offset)%ceiling\<close> on unsigned 64-bit integers.\<close>

definition permutation_rank :: "nat \<Rightarrow> nat \<Rightarrow> 64 word" where
  "permutation_rank n i = (of_nat i * of_nat (rank_stride n) + of_nat (rank_offset n)) mod of_nat (fact n)"

text \<open>The digits of the factorial number system pick from the symbols that are left.\<close>

fun unrank :: "nat \<Rightarrow> nat \<Rightarrow> 'a list \<Rightarrow> 'a list" where
  "unrank 0 i xs = []"
| "unrank (Suc k) i xs =
     (let d = i div fact k in xs ! d # unrank k (i mod fact k) (take d xs @ drop (Suc d) xs))"

definition ranked_state :: "graph_contract \<Rightarrow> nat \<Rightarrow> int list" where
  "ranked_state c i = unrank (state_len c) (unat (permutation_rank (state_len c) i)) (sort (center c))"

definition enumerated_batch :: "graph_contract \<Rightarrow> nat \<Rightarrow> nat \<Rightarrow> int list list" where
  "enumerated_batch c cursor batch =
     filter (\<lambda>s. s \<notin> set (forbidden_states c)) (map (ranked_state c) [cursor..<cursor + batch])"

function fill_rank ::
  "graph_contract \<Rightarrow> (nat \<Rightarrow> nat \<Rightarrow> bool) \<Rightarrow> nat \<Rightarrow> nat \<Rightarrow> nat \<Rightarrow> int list list \<Rightarrow> (nat \<times> int list list) result" where
  "fill_rank c late rank n cursor states =
     (if n \<le> length states then Inr (cursor, states)
      else if late rank cursor \<or> fact (state_len c) \<le> cursor
      then Inl (ValueError ''graph did not yield a full unique calibration frontier within enumeration budget'')
      else
        let batch = min 65536 (min (n - length states + length (forbidden_states c)) (fact (state_len c) - cursor)) in
        fill_rank c late rank n (cursor + batch)
          (states @ take (n - length states) (enumerated_batch c cursor batch)))"
  by pat_completeness auto
termination
  by (relation "measure (\<lambda>(c, late, rank, n, cursor, states). fact (state_len c) - cursor)") (auto simp: forbidden_states_def)

declare fill_rank.simps [simp del]

fun fill_ranks ::
  "graph_contract \<Rightarrow> (nat \<Rightarrow> nat \<Rightarrow> bool) \<Rightarrow> nat \<Rightarrow> nat \<Rightarrow> nat list \<Rightarrow> int list list list result" where
  "fill_ranks c late rank cursor [] = Inr []"
| "fill_ranks c late rank cursor (n # ns) =
     ebind (fill_rank c late rank n cursor []) (\<lambda>(cursor', states).
     ebind (fill_ranks c late (Suc rank) cursor' ns) (\<lambda>rest. Inr (states # rest)))"

section \<open>Random walks\<close>

fun accept_rows :: "int list list \<Rightarrow> nat \<Rightarrow> int list list \<Rightarrow> int list list \<Rightarrow> int list list" where
  "accept_rows forbidden 0 seen_states rows = []"
| "accept_rows forbidden (Suc k) seen_states [] = []"
| "accept_rows forbidden (Suc k) seen_states (row # rows) =
     (if row \<in> set seen_states \<or> row \<in> set forbidden then accept_rows forbidden (Suc k) seen_states rows
      else row # accept_rows forbidden k (row # seen_states) rows)"

record walk_clock =
  wc_late :: "nat \<Rightarrow> nat \<Rightarrow> bool"
  wc_slow :: "nat \<Rightarrow> nat \<Rightarrow> bool"
  wc_walks :: "nat \<Rightarrow> nat \<Rightarrow> nat list list"

function sample_rank ::
  "graph_contract \<Rightarrow> walk_clock \<Rightarrow> nat \<Rightarrow> nat \<Rightarrow> nat \<Rightarrow> nat \<Rightarrow> int list list \<Rightarrow> int list list
    \<Rightarrow> (nat \<times> int list list \<times> int list list) result" where
  "sample_rank c w budget rank n examined seen_states states =
     (if n \<le> length states then Inr (examined, seen_states, states)
      else if wc_late w rank examined \<or> budget \<le> examined
      then Inl (ValueError ''graph did not yield a full unique calibration frontier within budget'')
      else if wc_slow w rank examined then Inl (ValueError ''calibration frontier generation timed out'')
      else
        let batch = min 65536 (min (max 256 (n - length states)) (budget - examined));
            rows = map (act (generators c) (center c)) (wc_walks w examined batch);
            accepted = accept_rows (forbidden_states c) (n - length states) seen_states rows in
        sample_rank c w budget rank n (examined + batch) (rev accepted @ seen_states) (states @ accepted))"
  by pat_completeness auto
termination
  by (relation "measure (\<lambda>(c, w, budget, rank, n, examined, seen, states). budget - examined)") auto

declare sample_rank.simps [simp del]

fun sample_ranks ::
  "graph_contract \<Rightarrow> walk_clock \<Rightarrow> nat \<Rightarrow> nat \<Rightarrow> nat \<Rightarrow> int list list \<Rightarrow> nat list \<Rightarrow> int list list list result" where
  "sample_ranks c w budget rank examined seen_states [] = Inr []"
| "sample_ranks c w budget rank examined seen_states (n # ns) =
     ebind (sample_rank c w budget rank n examined seen_states []) (\<lambda>(examined', seen', states).
     ebind (sample_ranks c w budget (Suc rank) examined' seen' ns) (\<lambda>rest. Inr (states # rest)))"

section \<open>The files\<close>

record frontier_file =
  ff_rank :: nat
  ff_parents :: nat
  ff_rows :: "int list list"
  ff_bytes :: nat

record frontier_receipt =
  fr_schema :: int
  fr_graph_hash :: string
  fr_global_parents :: nat
  fr_unique_states :: nat
  fr_state_len :: nat
  fr_storage_len :: nat
  fr_files :: "frontier_file list"
  fr_certificate :: "certificate option"

definition pad_row :: "nat \<Rightarrow> int list \<Rightarrow> int list" where
  "pad_row storage s = s @ replicate (storage - length s) 0"

definition frontier_files :: "nat \<Rightarrow> nat list \<Rightarrow> int list list list \<Rightarrow> frontier_file list" where
  "frontier_files storage counts rows =
     map (\<lambda>(rank, n, states). \<lparr>ff_rank = rank, ff_parents = n, ff_rows = map (pad_row storage) states, ff_bytes = n * storage\<rparr>)
       (enumerate 0 (zip counts rows))"

text \<open>The checks of the arguments, in the code's order. A storage size that is no number cannot be compared.\<close>

fun comparable_number :: "pyval \<Rightarrow> bool" where
  "comparable_number (PInt _) = True"
| "comparable_number (PBool _) = True"
| "comparable_number (PFloat _) = True"
| "comparable_number (PNpInt _) = True"
| "comparable_number (PNpBool _) = True"
| "comparable_number _ = False"

definition check_frontier_request :: "graph_contract \<Rightarrow> pyval list \<Rightarrow> pyval \<Rightarrow> pyval \<Rightarrow> pyval \<Rightarrow> (nat list \<times> nat) result" where
  "check_frontier_request c counts storage max_states walk_length =
     (if counts = [] \<or> list_ex (\<lambda>v. \<not> is_int v \<or> the_int v < 0) counts \<or> sum_list (map the_int counts) \<le> 0
      then Inl (ValueError ''rank frontier counts must be nonnegative integers with positive total'')
      else if \<not> comparable_number storage then Inl (TypeError ''not supported between instances'')
      else if \<not> is_int storage \<or> the_int storage < int (state_len c) then Inl (ValueError ''invalid native state storage size'')
      else if \<not> is_int max_states \<or> the_int max_states \<le> 0 \<or> sum_list (map the_int counts) > the_int max_states
      then Inl (ValueError ''requested calibration frontier exceeds its explicit state budget'')
      else if \<not> is_int walk_length \<or> the_int walk_length < 1
      then Inl (ValueError ''calibration walk length must be positive'')
      else Inr (map (nat \<circ> the_int) counts, nat (the_int storage)))"

definition orbit_certificate_of :: "graph_contract \<Rightarrow> certificate option" where
  "orbit_certificate_of c =
     (if state_len c \<le> 20 \<and> distinct (center c) then symmetric_orbit_certificate (generators c) (state_len c) else None)"

definition frontier_states :: "graph_contract \<Rightarrow> walk_clock \<Rightarrow> nat list \<Rightarrow> int list list list result" where
  "frontier_states c w counts =
     (case orbit_certificate_of c of
        Some _ \<Rightarrow> fill_ranks c (wc_late w) 0 0 counts
      | None \<Rightarrow> sample_ranks c w (max (sum_list counts * 32) 4096) 0 0 [] counts)"

definition write_frontiers ::
  "graph_contract \<Rightarrow> walk_clock \<Rightarrow> bool \<Rightarrow> pyval list \<Rightarrow> pyval \<Rightarrow> pyval \<Rightarrow> pyval \<Rightarrow> frontier_receipt result" where
  "write_frontiers c w directory_exists counts storage max_states walk_length =
     ebind (check_frontier_request c counts storage max_states walk_length) (\<lambda>(ns, size).
     if directory_exists then Inl (OSError ''File exists'')
     else
       ebind (frontier_states c w ns) (\<lambda>rows.
       Inr \<lparr>fr_schema = (if orbit_certificate_of c = None then 1 else 2), fr_graph_hash = graph_hash c,
            fr_global_parents = sum_list ns, fr_unique_states = sum_list (map length rows), fr_state_len = state_len c,
            fr_storage_len = size, fr_files = frontier_files size ns rows, fr_certificate = orbit_certificate_of c\<rparr>))"


section \<open>Excluded states\<close>

lemma argsort_inverse:
  assumes "is_perm n g"
  shows "length (argsort g) = n" "j < n \<Longrightarrow> argsort g ! j < n \<and> g ! (argsort g ! j) = j"
proof -
  have len: "length g = n" by (rule is_perm_length [OF assms])
  then show l: "length (argsort g) = n" by (simp add: argsort_def)
  have ms: "mset (argsort g) = mset [0..<n]" by (simp add: argsort_def len)
  have "mset (map (\<lambda>i. g ! i) (argsort g)) = mset (map (\<lambda>i. g ! i) [0..<n])" by (simp add: ms)
  also have "map (\<lambda>i. g ! i) [0..<n] = g" using len by (metis map_nth)
  also have "mset g = mset [0..<n]" using assms by (metis is_perm_def mset_sort)
  finally have m: "mset (map (\<lambda>i. g ! i) (argsort g)) = mset [0..<n]" .
  have "sorted (map (\<lambda>i. g ! i) (argsort g))" by (simp add: argsort_def)
  then have "map (\<lambda>i. g ! i) (argsort g) = [0..<n]"
    using m by (metis sorted_list_of_multiset_mset sorted_sort_id sort_upt)
  moreover assume j: "j < n"
  ultimately have "g ! (argsort g ! j) = j" using l by (metis add_0 nth_map nth_upt)
  moreover have "argsort g ! j < n"
    using j l ms by (metis atLeastLessThan_iff mset_eq_setD nth_mem set_upt)
  ultimately show "argsort g ! j < n \<and> g ! (argsort g ! j) = j" by simp
qed

lemma forbidden_predecessor:
  assumes "wf_contract c" "g \<in> set (generators c)" "length s = state_len c" "gather s g = center c"
  shows "s \<in> set (forbidden_states c)"
proof -
  have g: "is_perm (state_len c) g" using assms(1,2) by (simp add: wf_contract_def)
  have "gather (center c) (argsort g) = s"
    using argsort_inverse [OF g] assms(3) is_perm_length [OF g]
    by (intro nth_equalityI) (simp_all add: assms(4) [symmetric])
  then show ?thesis using assms(2) by (auto simp: forbidden_states_def)
qed

section \<open>Permutation ranks are distinct\<close>

lemma coprime_stride_coprime: "0 < s \<Longrightarrow> coprime (coprime_stride n s) n"
proof (induction s)
  case (Suc s)
  then show ?case by (cases "s = 0") (auto simp: coprime_iff_gcd_eq_1)
qed simp

lemma fact_20: "n \<le> 20 \<Longrightarrow> fact n \<le> (2432902008176640000 :: nat)"
  using fact_mono [of n 20] by (simp add: fact_numeral)

lemma stride_coprime:
  assumes "n \<le> 20"
  shows "coprime (rank_stride n) (fact n)"
proof -
  have "rank_offset n \<le> fact n" "max 1 (fact n - 1) \<le> (fact n :: nat)" by (simp_all add: rank_offset_def)
  then have "max 1 (fact n - 1) + rank_offset n \<le> 2 ^ 64 - 1" using fact_20 [OF assms] by simp
  then have "max 1 (fact n - 1) \<le> 2 ^ 64 - 1 - rank_offset n" by linarith
  then have "0 < (2 ^ 64 - 1 - rank_offset n) div max 1 (fact n - 1)"
    by (subst div_greater_zero_iff) simp
  then have "0 < min 65537 ((2 ^ 64 - 1 - rank_offset n) div max 1 (fact n - 1))" by simp
  then show ?thesis unfolding rank_stride_def by (rule coprime_stride_coprime)
qed

lemma coprime_stride_le: "coprime_stride n s \<le> s"
  by (induction s) auto

lemma unat_small: "k < 2 ^ 64 \<Longrightarrow> unat (of_nat k :: 64 word) = k"
  by (simp add: unat_of_nat)

lemma permutation_rank_nat:
  assumes "n \<le> 20" "i < fact n"
  shows "unat (permutation_rank n i) = (i * rank_stride n + rank_offset n) mod fact n"
proof -
  let ?m = "max 1 (fact n - 1) :: nat"
  have "rank_stride n \<le> (2 ^ 64 - 1 - rank_offset n) div ?m"
    using coprime_stride_le [of "fact n"] unfolding rank_stride_def by (meson min.cobounded2 order_trans)
  then have "?m * rank_stride n \<le> ?m * ((2 ^ 64 - 1 - rank_offset n) div ?m)" by simp
  also have "\<dots> \<le> 2 ^ 64 - 1 - rank_offset n" by (rule times_div_less_eq_dividend)
  finally have m: "?m * rank_stride n \<le> 2 ^ 64 - 1 - rank_offset n" .
  have "i \<le> ?m" using assms(2) by simp
  then have "i * rank_stride n \<le> ?m * rank_stride n" by (rule mult_right_mono) simp
  moreover have "rank_offset n \<le> 2 ^ 64 - 1" using fact_20 [OF assms(1)] by (simp add: rank_offset_def)
  ultimately have "i * rank_stride n + rank_offset n \<le> 2 ^ 64 - 1" using m by linarith
  then have bound: "i * rank_stride n + rank_offset n < 2 ^ 64" by simp
  have f: "(fact n :: nat) < 2 ^ 64" using fact_20 [OF assms(1)] by simp
  have "permutation_rank n i = of_nat (i * rank_stride n + rank_offset n) mod of_nat (fact n)"
    by (simp add: permutation_rank_def)
  then have "unat (permutation_rank n i) = unat (of_nat (i * rank_stride n + rank_offset n) :: 64 word) mod unat (of_nat (fact n) :: 64 word)"
    by (simp add: unat_mod_distrib)
  moreover have "unat (of_nat (i * rank_stride n + rank_offset n) :: 64 word) = i * rank_stride n + rank_offset n"
    using bound by (rule unat_small)
  moreover have "unat (of_nat (fact n) :: 64 word) = fact n" using f by (rule unat_small)
  ultimately show ?thesis by simp
qed

lemma permutation_rank_inj:
  assumes "n \<le> 20" "i < fact n" "j < fact n" "permutation_rank n i = permutation_rank n j"
  shows "i = j"
proof -
  have key: "a = b" if "a \<le> b" "b < fact n" "(a * rank_stride n + rank_offset n) mod fact n = (b * rank_stride n + rank_offset n) mod fact n"
    for a b
  proof -
    have le: "a * rank_stride n + rank_offset n \<le> b * rank_stride n + rank_offset n" using that(1) by simp
    have "fact n dvd (b * rank_stride n + rank_offset n) - (a * rank_stride n + rank_offset n)"
      using mod_eq_dvd_iff_nat [OF le] that(3) by metis
    then have "fact n dvd (b - a) * rank_stride n" by (simp add: diff_mult_distrib)
    then have "fact n dvd b - a"
      using stride_coprime [OF assms(1)] by (simp add: coprime_commute coprime_dvd_mult_left_iff)
    then show ?thesis using that(1,2) by (metis diff_is_0_eq dvd_imp_le le_antisym less_imp_diff_less not_le zero_less_iff_neq_zero)
  qed
  have "(i * rank_stride n + rank_offset n) mod fact n = (j * rank_stride n + rank_offset n) mod fact n"
    using permutation_rank_nat [OF assms(1,2)] permutation_rank_nat [OF assms(1,3)] assms(4) by simp
  then show ?thesis using key [of i j] key [of j i] assms(2,3) by (metis nat_le_linear)
qed

lemma unrank_mset: "length xs = k \<Longrightarrow> i < fact k \<Longrightarrow> mset (unrank k i xs) = mset xs"
proof (induction k arbitrary: i xs)
  case (Suc k)
  let ?d = "i div fact k"
  have d: "?d < length xs" using Suc.prems by (simp add: less_mult_imp_div_less mult.commute)
  have "mset (unrank k (i mod fact k) (take ?d xs @ drop (Suc ?d) xs)) = mset (take ?d xs @ drop (Suc ?d) xs)"
    using d Suc.prems(1) by (intro Suc.IH) auto
  moreover have "mset xs = mset (take ?d xs @ xs ! ?d # drop (Suc ?d) xs)"
    using d by (simp add: id_take_nth_drop [symmetric] del: mset_append)
  ultimately show ?case by (simp add: Let_def)
qed simp

lemma unrank_inj:
  "length xs = k \<Longrightarrow> distinct xs \<Longrightarrow> i < fact k \<Longrightarrow> j < fact k \<Longrightarrow> unrank k i xs = unrank k j xs \<Longrightarrow> i = j"
proof (induction k arbitrary: i j xs)
  case (Suc k)
  have d: "i div fact k < length xs" "j div fact k < length xs"
    using Suc.prems by (simp_all add: less_mult_imp_div_less mult.commute)
  from Suc.prems(5) have head: "xs ! (i div fact k) = xs ! (j div fact k)"
    and tail: "unrank k (i mod fact k) (take (i div fact k) xs @ drop (Suc (i div fact k)) xs)
      = unrank k (j mod fact k) (take (j div fact k) xs @ drop (Suc (j div fact k)) xs)" by (simp_all add: Let_def)
  from head d Suc.prems(2) have e: "i div fact k = j div fact k" by (simp add: nth_eq_iff_index_eq)
  let ?ys = "take (i div fact k) xs @ drop (Suc (i div fact k)) xs"
  have "distinct (take (i div fact k) xs @ xs ! (i div fact k) # drop (Suc (i div fact k)) xs)"
    using d(1) Suc.prems(2) by (simp add: id_take_nth_drop [symmetric] del: distinct_append)
  then have "distinct ?ys" by simp
  moreover have "length ?ys = k" using d(1) Suc.prems(1) by auto
  ultimately have "i mod fact k = j mod fact k"
    using Suc.IH [of ?ys "i mod fact k" "j mod fact k"] tail unfolding e by (metis fact_gt_zero mod_less_divisor)
  with e show ?case by (metis div_mult_mod_eq)
qed simp


lemma ranked_state_mset:
  assumes "wf_contract c" "state_len c \<le> 20" "i < fact (state_len c)"
  shows "mset (ranked_state c i) = mset (center c)"
proof -
  have "unat (permutation_rank (state_len c) i) < fact (state_len c)"
    by (simp add: permutation_rank_nat [OF assms(2,3)])
  moreover have "length (sort (center c)) = state_len c" using assms(1) by (simp add: wf_contract_def)
  ultimately show ?thesis unfolding ranked_state_def by (simp add: unrank_mset)
qed

lemma ranked_state_inj:
  assumes "wf_contract c" "state_len c \<le> 20" "distinct (center c)" "i < fact (state_len c)" "j < fact (state_len c)"
    and "ranked_state c i = ranked_state c j"
  shows "i = j"
proof -
  have r: "unat (permutation_rank (state_len c) i) < fact (state_len c)" "unat (permutation_rank (state_len c) j) < fact (state_len c)"
    by (simp_all add: permutation_rank_nat assms(2,4,5))
  have "length (sort (center c)) = state_len c" "distinct (sort (center c))" using assms(1,3) by (simp_all add: wf_contract_def)
  from unrank_inj [OF this r] assms(6) have "permutation_rank (state_len c) i = permutation_rank (state_len c) j"
    by (simp add: ranked_state_def word_unat_eq_iff)
  then show ?thesis by (rule permutation_rank_inj [OF assms(2,4,5)])
qed

section \<open>What the loops keep\<close>

text \<open>States below a position of the enumeration.\<close>

definition ranked_between :: "graph_contract \<Rightarrow> nat \<Rightarrow> nat \<Rightarrow> int list set" where
  "ranked_between c low high = ranked_state c ` {low..<high} - set (forbidden_states c)"

lemma distinct_take_filter_map:
  assumes "inj_on f (set xs)" "distinct xs"
  shows "distinct (take k (filter P (map f xs)))"
  using assms by (intro distinct_take distinct_filter) (simp add: distinct_map)

lemma fill_rank_states:
  assumes "fill_rank c late rank n cursor states = Inr (cursor', result)"
    and "wf_contract c" "state_len c \<le> 20" "distinct (center c)" "low \<le> cursor" "cursor \<le> fact (state_len c)"
      "distinct states" "set states \<subseteq> ranked_between c low cursor" "length states \<le> n"
  shows "cursor \<le> cursor' \<and> cursor' \<le> fact (state_len c) \<and> distinct result \<and> set result \<subseteq> ranked_between c low cursor'
    \<and> length result = n"
  using assms
proof (induction c late rank n cursor states rule: fill_rank.induct)
  case (1 c late rank n cursor states)
  show ?case
  proof (cases "n \<le> length states")
    case True
    then show ?thesis using "1.prems" by (subst (asm) fill_rank.simps) auto
  next
    case False
    then have go: "\<not> (late rank cursor \<or> fact (state_len c) \<le> cursor)"
      using "1.prems"(1) by (subst (asm) fill_rank.simps) (auto split: if_splits)
    define batch where "batch = min 65536 (min (n - length states + length (forbidden_states c)) (fact (state_len c) - cursor))"
    define more where "more = take (n - length states) (enumerated_batch c cursor batch)"
    have step: "fill_rank c late rank n (cursor + batch) (states @ more) = Inr (cursor', result)"
      using "1.prems"(1) False go by (subst (asm) fill_rank.simps) (simp add: batch_def more_def Let_def)
    have "batch \<le> fact (state_len c) - cursor" by (simp add: batch_def)
    then have limit: "cursor + batch \<le> fact (state_len c)" using go by linarith
    have "inj_on (ranked_state c) (set [cursor..<cursor + batch])"
      using limit by (intro inj_onI ranked_state_inj [OF "1.prems"(2-4)]) auto
    then have d: "distinct more" unfolding more_def enumerated_batch_def by (rule distinct_take_filter_map) simp
    have m: "set more \<subseteq> ranked_between c cursor (cursor + batch)"
      unfolding more_def enumerated_batch_def ranked_between_def by (auto dest: in_set_takeD)
    have apart: "set states \<inter> set more = {}"
    proof -
      have False if x: "x \<in> set states" "x \<in> set more" for x
      proof -
        have "x \<in> ranked_between c low cursor" "x \<in> ranked_between c cursor (cursor + batch)"
          using x "1.prems"(8) m by blast+
        then obtain i j where i: "i < cursor" "x = ranked_state c i" and j: "cursor \<le> j" "j < cursor + batch" "x = ranked_state c j"
          unfolding ranked_between_def by auto
        then have "i = j" using ranked_state_inj [OF "1.prems"(2-4), of i j] i limit by simp
        with i j show False by simp
      qed
      then show ?thesis by blast
    qed
    have "set (states @ more) \<subseteq> ranked_between c low (cursor + batch)"
      using "1.prems"(5,8) m by (fastforce simp: ranked_between_def)
    moreover have "length (states @ more) \<le> n" using False by (simp add: more_def)
    ultimately have "cursor + batch \<le> cursor' \<and> cursor' \<le> fact (state_len c) \<and> distinct result
        \<and> set result \<subseteq> ranked_between c low cursor' \<and> length result = n"
      using "1.IH" [OF False go batch_def, folded more_def, OF step "1.prems"(2-4) _ limit] "1.prems"(5,7) d apart
      by (simp del: set_append)
    then show ?thesis by simp
  qed
qed


lemma fill_ranks_states:
  assumes "wf_contract c" "state_len c \<le> 20" "distinct (center c)"
    and "fill_ranks c late rank cursor ns = Inr rows" "cursor \<le> fact (state_len c)"
  shows "map length rows = ns \<and> distinct (concat rows) \<and> set (concat rows) \<subseteq> ranked_between c cursor (fact (state_len c))"
  using assms(4,5)
proof (induction ns arbitrary: rank cursor rows)
  case (Cons n ns)
  then obtain cursor' states rest where f: "fill_rank c late rank n cursor [] = Inr (cursor', states)"
    "fill_ranks c late (Suc rank) cursor' ns = Inr rest" "rows = states # rest" by (auto simp: ebind_Inr_iff)
  have s: "cursor \<le> cursor' \<and> cursor' \<le> fact (state_len c) \<and> distinct states \<and> set states \<subseteq> ranked_between c cursor cursor'
    \<and> length states = n"
    by (rule fill_rank_states [OF f(1) assms(1-3) order_refl Cons.prems(2)]) simp_all
  with Cons.IH [OF f(2)] have rest: "map length rest = ns" "distinct (concat rest)"
    "set (concat rest) \<subseteq> ranked_between c cursor' (fact (state_len c))" by blast+
  have "False" if x: "x \<in> set states" "x \<in> set (concat rest)" for x
  proof -
    have "x \<in> ranked_between c cursor cursor'" "x \<in> ranked_between c cursor' (fact (state_len c))" using x s rest(3) by blast+
    then obtain i j where ij: "i < cursor'" "x = ranked_state c i" "cursor' \<le> j" "j < fact (state_len c)" "x = ranked_state c j"
      unfolding ranked_between_def by auto
    then show False using ranked_state_inj [OF assms(1-3), of i j] s by simp
  qed
  then have "distinct (concat rows)" using s rest(2) by (auto simp: f(3))
  moreover have "ranked_between c cursor cursor' \<union> ranked_between c cursor' (fact (state_len c))
      \<subseteq> ranked_between c cursor (fact (state_len c))"
    using s by (auto simp: ranked_between_def)
  ultimately show ?case using s rest by (simp add: f(3)) blast
qed simp

lemma accept_rows_new:
  "distinct (accept_rows forbidden k old rows) \<and> length (accept_rows forbidden k old rows) \<le> k
    \<and> set (accept_rows forbidden k old rows) \<subseteq> set rows - set old - set forbidden"
proof (induction forbidden k old rows rule: accept_rows.induct)
  case (3 forbidden k old row rows)
  then show ?case by (cases "row \<in> set old \<or> row \<in> set forbidden") auto
qed simp_all

definition walk_states :: "graph_contract \<Rightarrow> int list set" where
  "walk_states c = {act (generators c) (center c) ms | ms. path_ok c ms} - set (forbidden_states c)"

lemma sample_rank_states:
  assumes "sample_rank c w budget rank n examined old states = Inr (examined', old', result)"
    and "\<forall>e b. \<forall>ms \<in> set (wc_walks w e b). path_ok c ms" "distinct states" "length states \<le> n"
      "set states \<subseteq> walk_states c" "set old = base \<union> set states" "base \<inter> set states = {}"
  shows "distinct result \<and> length result = n \<and> set result \<subseteq> walk_states c \<and> set old' = base \<union> set result \<and> base \<inter> set result = {}"
  using assms
proof (induction c w budget rank n examined old states rule: sample_rank.induct)
  case (1 c w budget rank n examined old states)
  show ?case
  proof (cases "n \<le> length states")
    case True
    then show ?thesis using "1.prems" by (subst (asm) sample_rank.simps) auto
  next
    case False
    then have go: "\<not> (wc_late w rank examined \<or> budget \<le> examined)" and quick: "\<not> wc_slow w rank examined"
      using "1.prems"(1) by (subst (asm) sample_rank.simps, auto split: if_splits)+
    define batch where "batch = min 65536 (min (max 256 (n - length states)) (budget - examined))"
    define rows where "rows = map (act (generators c) (center c)) (wc_walks w examined batch)"
    define more where "more = accept_rows (forbidden_states c) (n - length states) old rows"
    have step: "sample_rank c w budget rank n (examined + batch) (rev more @ old) (states @ more) = Inr (examined', old', result)"
      using "1.prems"(1) False go quick by (subst (asm) sample_rank.simps) (simp add: batch_def rows_def more_def Let_def)
    have m: "distinct more" "length more \<le> n - length states" "set more \<subseteq> set rows - set old - set (forbidden_states c)"
      using accept_rows_new [of "forbidden_states c" "n - length states" old rows] by (simp_all add: more_def)
    have "set more \<subseteq> walk_states c"
    proof
      fix x assume "x \<in> set more"
      with m(3) have x: "x \<in> set rows" "x \<notin> set (forbidden_states c)" by auto
      then obtain ms where "ms \<in> set (wc_walks w examined batch)" "x = act (generators c) (center c) ms"
        by (auto simp: rows_def)
      with x(2) "1.prems"(2) show "x \<in> walk_states c" by (auto simp: walk_states_def)
    qed
    then have s: "set (states @ more) \<subseteq> walk_states c" using "1.prems"(5) by simp
    have "distinct (states @ more)" "base \<inter> set (states @ more) = {}" using m "1.prems"(3,6,7) by auto
    moreover have "length (states @ more) \<le> n" using m(2) False by simp
    moreover have "set (rev more @ old) = base \<union> set (states @ more)" using "1.prems"(6) by auto
    ultimately show ?thesis
      using "1.IH" [OF False go quick batch_def rows_def, folded more_def, OF _ step "1.prems"(2) _ _ s] by (simp del: set_append)
  qed
qed


lemma sample_ranks_states:
  assumes "\<forall>e b. \<forall>ms \<in> set (wc_walks w e b). path_ok c ms"
    and "sample_ranks c w budget rank examined old ns = Inr rows"
  shows "map length rows = ns \<and> distinct (concat rows) \<and> set (concat rows) \<subseteq> walk_states c - set old"
  using assms(2)
proof (induction ns arbitrary: rank examined old rows)
  case (Cons n ns)
  then obtain examined' old' states rest where f: "sample_rank c w budget rank n examined old [] = Inr (examined', old', states)"
    "sample_ranks c w budget (Suc rank) examined' old' ns = Inr rest" "rows = states # rest" by (auto simp: ebind_Inr_iff)
  have s: "distinct states \<and> length states = n \<and> set states \<subseteq> walk_states c \<and> set old' = set old \<union> set states
      \<and> set old \<inter> set states = {}"
    by (rule sample_rank_states [OF f(1) assms(1)]) simp_all
  with Cons.IH [OF f(2)] show ?case by (auto simp: f(3))
qed simp

section \<open>The calibration frontier\<close>

lemma walk_state_mset:
  assumes "wf_contract c" "s \<in> walk_states c"
  shows "mset s = mset (center c)" "length s = state_len c"
proof -
  from assms(2) obtain ms where ms: "path_ok c ms" "s = act (generators c) (center c) ms" by (auto simp: walk_states_def)
  have "mset (act (generators c) (center c) ms) = mset (center c)"
    using act_mset [OF wf_contract_simps(3) [OF assms(1)] _ wf_contract_simps(1) [OF assms(1)]] ms(1)
    unfolding path_ok_def move_count_def by blast
  then show "mset s = mset (center c)" by (simp add: ms(2))
  then show "length s = state_len c" using wf_contract_simps(1) [OF assms(1)] by (metis mset_eq_length)
qed

lemma ranked_walk_states:
  assumes "wf_contract c" "orbit_certificate_of c = Some ct"
  shows "ranked_between c low (fact (state_len c)) \<subseteq> walk_states c"
proof
  from assms(2) have small: "state_len c \<le> 20" "distinct (center c)"
    and cert: "symmetric_orbit_certificate (generators c) (state_len c) = Some ct"
    by (auto simp: orbit_certificate_of_def split: if_splits)
  fix s assume "s \<in> ranked_between c low (fact (state_len c))"
  then obtain i where i: "i < fact (state_len c)" "s = ranked_state c i" "s \<notin> set (forbidden_states c)"
    by (auto simp: ranked_between_def)
  have "mset s = mset (center c)" using ranked_state_mset [OF assms(1) small(1) i(1)] i(2) by simp
  from certificate_reaches [OF wf_contract_simps(3) [OF assms(1)] cert wf_contract_simps(1) [OF assms(1)] small(2) this]
  show "s \<in> walk_states c" using i(3) by (auto simp: walk_states_def path_ok_def move_count_def)
qed

lemma frontier_states_spec:
  assumes "wf_contract c" "\<forall>e b. \<forall>ms \<in> set (wc_walks w e b). path_ok c ms" "frontier_states c w ns = Inr rows"
  shows "map length rows = ns \<and> distinct (concat rows) \<and> set (concat rows) \<subseteq> walk_states c"
proof (cases "orbit_certificate_of c")
  case None
  then have "sample_ranks c w (max (sum_list ns * 32) 4096) 0 0 [] ns = Inr rows" using assms(3) by (simp add: frontier_states_def)
  from sample_ranks_states [OF assms(2) this] show ?thesis by simp
next
  case (Some ct)
  then have "state_len c \<le> 20" "distinct (center c)" by (auto simp: orbit_certificate_of_def split: if_splits)
  then show ?thesis
    using Some assms(3) fill_ranks_states [OF assms(1), of "wc_late w" 0 0 ns rows] ranked_walk_states [OF assms(1) Some, of 0]
    by (simp add: frontier_states_def) blast
qed

text \<open>The unpadded states of a receipt.\<close>

definition receipt_states :: "frontier_receipt \<Rightarrow> int list list" where
  "receipt_states r = map (take (fr_state_len r)) (concat (map ff_rows (fr_files r)))"

lemma frontier_files_rows:
  assumes "length counts = length rows"
  shows "map ff_parents (frontier_files room counts rows) = counts"
    "map ff_rows (frontier_files room counts rows) = map (map (pad_row room)) rows"
  using assms by (auto simp: frontier_files_def nth_enumerate_eq intro!: nth_equalityI)

text \<open>C15. A calibration frontier is full, unique and legal. When one is written, every rank's file holds exactly the
  requested number of rows, each a state padded with zeros to the storage size; over all ranks no state occurs twice, every state is
  reachable from the centre by moves of the graph, and none is the centre or becomes it by one move. For an
  enumerated frontier the reachability rests on the orbit certificate: a full cycle
  and a transposition with connected conjugates generate every permutation, and the stride through the
  permutation ranks never overflows 64 bits or repeats.\<close>
theorem calibration_frontier_legal:
  assumes "wf_contract c" "\<forall>e b. \<forall>ms \<in> set (wc_walks w e b). path_ok c ms"
    and "write_frontiers c w directory_exists counts storage max_states walk_length = Inr r"
  shows "map (PInt \<circ> int \<circ> length \<circ> ff_rows) (fr_files r) = counts \<and> PInt (int (fr_storage_len r)) = storage
    \<and> distinct (receipt_states r)
    \<and> (\<forall>f \<in> set (fr_files r). \<forall>row \<in> set (ff_rows f). length row = fr_storage_len r
         \<and> drop (state_len c) row = replicate (fr_storage_len r - state_len c) 0)
    \<and> (\<forall>s \<in> set (receipt_states r). (\<exists>ms. path_ok c ms \<and> act (generators c) (center c) ms = s)
         \<and> s \<noteq> center c \<and> (\<forall>g \<in> set (generators c). gather s g \<noteq> center c))"
proof -
  from assms(3) obtain ns room rows where request: "check_frontier_request c counts storage max_states walk_length = Inr (ns, room)"
    and rows: "frontier_states c w ns = Inr rows"
    and r: "fr_files r = frontier_files room ns rows" "fr_state_len r = state_len c" "fr_storage_len r = room"
    by (auto simp: write_frontiers_def ebind_Inr_iff split: if_splits)
  from request have "list_all (\<lambda>v. is_int v \<and> 0 \<le> the_int v) counts" "is_int storage" "int (state_len c) \<le> the_int storage"
    and ns: "ns = map (nat \<circ> the_int) counts" "room = nat (the_int storage)"
    by (auto simp: check_frontier_request_def list_ex_iff list_all_iff not_less split: if_splits)
  then have counts: "map (PInt \<circ> int) ns = counts" and storage: "PInt (int room) = storage" "state_len c \<le> room"
    by (auto simp: list_all_iff the_int_PInt intro!: map_idI)
  note spec = frontier_states_spec [OF assms(1,2) rows]
  have len: "length ns = length rows" using spec by (metis length_map)
  note ff = frontier_files_rows [OF len, of room]
  have state: "length s = state_len c" if "s \<in> set (concat rows)" for s
    using spec that walk_state_mset(2) [OF assms(1)] by blast
  have "receipt_states r = map (take (state_len c) \<circ> pad_row room) (concat rows)"
    by (simp add: receipt_states_def r ff(2) map_concat o_def)
  also have "\<dots> = concat rows" using state by (intro map_idI) (auto simp: pad_row_def)
  finally have states: "receipt_states r = concat rows" .
  have "map (PInt \<circ> int \<circ> length \<circ> ff_rows) (fr_files r) = map (PInt \<circ> int \<circ> length) (map ff_rows (fr_files r))" by simp
  also have "\<dots> = map (PInt \<circ> int) (map length rows)" by (simp add: r(1) ff(2) o_def)
  also have "\<dots> = counts" using spec counts by simp
  finally have c1: "map (PInt \<circ> int \<circ> length \<circ> ff_rows) (fr_files r) = counts" .
  have c2: "length row = room \<and> drop (state_len c) row = replicate (room - state_len c) 0"
    if f: "f \<in> set (fr_files r)" "row \<in> set (ff_rows f)" for f row
  proof -
    have "ff_rows f \<in> set (map (map (pad_row room)) rows)" using f(1) ff(2) by (metis image_eqI list.set_map r(1))
    then obtain states where "states \<in> set rows" "ff_rows f = map (pad_row room) states" by auto
    with f(2) obtain s where "s \<in> set states" "row = pad_row room s" by auto
    moreover from this(1) \<open>states \<in> set rows\<close> have "s \<in> set (concat rows)" by auto
    ultimately show ?thesis using state [of s] storage(2) by (simp add: pad_row_def)
  qed
  have c3: "(\<exists>ms. path_ok c ms \<and> act (generators c) (center c) ms = s) \<and> s \<noteq> center c \<and> (\<forall>g \<in> set (generators c). gather s g \<noteq> center c)"
    if s: "s \<in> set (concat rows)" for s
  proof -
    have w: "s \<in> walk_states c" using spec s by blast
    then have f: "s \<notin> set (forbidden_states c)" by (simp add: walk_states_def)
    then have "s \<noteq> center c" by (auto simp: forbidden_states_def)
    moreover have "gather s g \<noteq> center c" if "g \<in> set (generators c)" for g
      using forbidden_predecessor [OF assms(1) that walk_state_mset(2) [OF assms(1) w]] f by blast
    ultimately show ?thesis using w by (auto simp: walk_states_def)
  qed
  show ?thesis using c1 c2 c3 storage(1) spec by (simp add: states r(3))
qed


section \<open>A small frontier\<close>

definition still_clock :: walk_clock where
  "still_clock = \<lparr>wc_late = (\<lambda>_ _. False), wc_slow = (\<lambda>_ _. False), wc_walks = (\<lambda>_ _. [])\<rparr>"

lemma certificate_lrx: "orbit_certificate_of lrx_contract \<noteq> None" by code_simp

lemma forbidden_lrx: "forbidden_states lrx_contract = [[0, 1, 2], [2, 0, 1], [1, 2, 0], [1, 0, 2]]" by code_simp

lemma stride_3: "rank_stride 3 = 65537" "rank_offset 3 = 2"
proof -
  have "coprime_stride 6 (Suc 65536) = Suc 65536"
    by (subst coprime_stride.simps) (simp add: gcd_non_0_nat)
  then show "rank_stride 3 = 65537" by (simp add: rank_stride_def rank_offset_def fact_numeral)
  show "rank_offset 3 = 2" by (simp add: rank_offset_def fact_numeral)
qed

lemma ranked_lrx: "i < 6 \<Longrightarrow> ranked_state lrx_contract i = unrank 3 ((i * 65537 + 2) mod 6) [0, 1, 2]"
  using permutation_rank_nat [of 3 i] by (simp add: ranked_state_def lrx_contract_def stride_3 fact_numeral)

lemma batch_lrx: "enumerated_batch lrx_contract 0 6 = [[0, 2, 1], [2, 1, 0]]"
proof -
  have "map (ranked_state lrx_contract) [0..<6] = map (\<lambda>i. unrank 3 ((i * 65537 + 2) mod 6) [0, 1, 2]) [0..<6]"
    by (intro map_cong refl ranked_lrx) simp
  also have six: "[0..<6] = [0, 1, 2, 3, 4, 5]" by (simp add: upt_rec)
  also have "map (\<lambda>i. unrank 3 ((i * 65537 + 2) mod 6) [0, 1, 2 :: int]) [0, 1, 2, 3, 4, 5]
    = map (\<lambda>i. unrank 3 i [0, 1, 2]) [2, 1, 0, 5, 4, 3]"
    by (simp del: unrank.simps add: numeral_2_eq_2 [symmetric])
  also have "\<dots> = [[1, 0, 2], [0, 2, 1], [0, 1, 2], [2, 1, 0], [2, 0, 1], [1, 2, 0]]" by code_simp
  finally have ranked: "map (ranked_state lrx_contract) [0..<6]
    = [[1, 0, 2], [0, 2, 1], [0, 1, 2], [2, 1, 0], [2, 0, 1], [1, 2, 0]]"
    by (simp only: six)
  have "enumerated_batch lrx_contract 0 6 = filter (\<lambda>s. s \<notin> set (forbidden_states lrx_contract)) (map (ranked_state lrx_contract) [0..<6])"
    by (simp add: enumerated_batch_def)
  then show ?thesis unfolding ranked forbidden_lrx by simp
qed

lemma frontier_example:
  "is_ok (write_frontiers lrx_contract still_clock False [PInt 2, PInt 0] (PInt 4) (PInt 100) (PInt 64))"
proof -
  have len: "fact (state_len lrx_contract) = (6 :: nat)" by (simp add: lrx_contract_def fact_numeral)
  have f: "fill_rank lrx_contract (\<lambda>_ _. False) 0 2 0 [] = Inr (6, [[0, 2, 1], [2, 1, 0]])"
    by (subst fill_rank.simps, subst fill_rank.simps) (simp add: Let_def forbidden_lrx batch_lrx len)
  have z: "fill_rank lrx_contract (\<lambda>_ _. False) 1 0 6 [] = Inr (6, [])"
    by (subst fill_rank.simps) simp
  have "frontier_states lrx_contract still_clock [2, 0] = Inr [[[0, 2, 1], [2, 1, 0]], []]"
    using certificate_lrx f z by (auto simp: frontier_states_def still_clock_def)
  then show ?thesis
    by (simp add: write_frontiers_def check_frontier_request_def lrx_contract_def)
qed

lemma calibration_frontier_legal_witness:
  "\<exists>r. map (PInt \<circ> int \<circ> length \<circ> ff_rows) (fr_files r) = [PInt 2, PInt 0] \<and> distinct (receipt_states r)"
proof -
  obtain r where r: "write_frontiers lrx_contract still_clock False [PInt 2, PInt 0] (PInt 4) (PInt 100) (PInt 64) = Inr r"
    using frontier_example unfolding is_ok_iff by blast
  have w: "\<forall>e b. \<forall>ms \<in> set (wc_walks still_clock e b). path_ok lrx_contract ms" by (simp add: still_clock_def)
  note legal = calibration_frontier_legal [OF wf_lrx w r]
  show ?thesis by (rule exI [of _ r], rule conjI, rule conjunct1 [OF legal], rule conjunct1 [OF conjunct2 [OF conjunct2 [OF legal]]])
qed

end
