(* ===== verification/Sessions.thy ===== *)
theory Sessions
  imports Admission Texts
begin

text \<open>
  Persistent native sessions (\<open>calibration_session.py\<close>, \<open>plan_session.py\<close>): one process per GPU that answers JSON
  requests line by line, the pool of inference probes and the all-rank planning session with its
  two-phase component protocol. A session is a number; what the processes answer, whether they start,
  accept a request or stop, and their logs are the fields of \<open>session_host\<close>, a function of the session
  and of how often it was read or written. Every effect is an event of the state.
\<close>

section \<open>Sessions and their events\<close>

type_synonym reply_row = "(string, pyval) dict"

datatype reply = Answered reply_row | Ended | Silent

datatype request =
    Infer int int
  | Plan_request int env
  | Prepare_component int env
  | Cancel_component
  | Run_component

datatype session_event = Opened nat | Sent nat request | Got nat reply_row | Closed nat

record session_host =
  sh_open :: "nat \<Rightarrow> exn option"
  sh_answer :: "nat \<Rightarrow> nat \<Rightarrow> reply"
  sh_send :: "nat \<Rightarrow> nat \<Rightarrow> exn option"
  sh_close :: "nat \<Rightarrow> exn option"
  sh_log :: "nat \<Rightarrow> string"

record session_state =
  ss_next :: nat
  ss_reads :: "nat \<Rightarrow> nat"
  ss_writes :: "nat \<Rightarrow> nat"
  ss_events :: "session_event list"

type_synonym 'a session_op = "session_state \<Rightarrow> 'a result \<times> session_state"

text \<open>Sequencing, a loop over a list, and checks that raise.\<close>

definition sbind :: "'a session_op \<Rightarrow> ('a \<Rightarrow> 'b session_op) \<Rightarrow> 'b session_op" where
  "sbind m f s = (case m s of (Inl e, s') \<Rightarrow> (Inl e, s') | (Inr x, s') \<Rightarrow> f x s')"

definition slift :: "'a result \<Rightarrow> 'a session_op" where
  "slift r s = (r, s)"

fun smap :: "('a \<Rightarrow> 'b session_op) \<Rightarrow> 'a list \<Rightarrow> 'b list session_op" where
  "smap op [] s = (Inr [], s)"
| "smap op (x # xs) s = sbind (op x) (\<lambda>y. sbind (smap op xs) (\<lambda>ys. slift (Inr (y # ys)))) s"

definition open_session :: "session_host \<Rightarrow> nat session_op" where
  "open_session host s =
     (let k = ss_next s; s1 = s\<lparr>ss_next := k + 1\<rparr> in
      case sh_open host k of Some e \<Rightarrow> (Inl e, s1) | None \<Rightarrow> (Inr k, s1\<lparr>ss_events := ss_events s @ [Opened k]\<rparr>))"

text \<open>A reply within the deadline, a \<open>TimeoutError\<close>, or the end of the process.\<close>

definition receive :: "session_host \<Rightarrow> nat \<Rightarrow> reply_row session_op" where
  "receive host k s =
     (let s1 = s\<lparr>ss_reads := (ss_reads s)(k := ss_reads s k + 1)\<rparr> in
      case sh_answer host k (ss_reads s k) of
        Silent \<Rightarrow> (Inl (TimeoutError ''persistent inference probe timed out''), s1)
      | Ended \<Rightarrow> (Inl (RuntimeError ''persistent inference probe exited; inspect its log''), s1)
      | Answered row \<Rightarrow> (Inr row, s1\<lparr>ss_events := ss_events s @ [Got k row]\<rparr>))"

definition send_request :: "session_host \<Rightarrow> request \<Rightarrow> nat \<Rightarrow> unit session_op" where
  "send_request host req k s =
     (let s1 = s\<lparr>ss_writes := (ss_writes s)(k := ss_writes s k + 1)\<rparr> in
      case sh_send host k (ss_writes s k) of
        Some e \<Rightarrow> (Inl e, s1)
      | None \<Rightarrow> (Inr (), s1\<lparr>ss_events := ss_events s @ [Sent k req]\<rparr>))"

definition close_session :: "session_host \<Rightarrow> nat \<Rightarrow> unit session_op" where
  "close_session host k s =
     ((case sh_close host k of Some e \<Rightarrow> Inl e | None \<Rightarrow> Inr ()), s\<lparr>ss_events := ss_events s @ [Closed k]\<rparr>)"

text \<open>Every session is closed, whatever the others do; the first failure is raised at the end.\<close>

fun close_all :: "session_host \<Rightarrow> exn option \<Rightarrow> nat list \<Rightarrow> unit session_op" where
  "close_all host failure [] s = ((case failure of Some e \<Rightarrow> Inl e | None \<Rightarrow> Inr ()), s)"
| "close_all host failure (k # ks) s =
     (case close_session host k s of
        (Inl e, s') \<Rightarrow> close_all host (case failure of None \<Rightarrow> Some e | Some f \<Rightarrow> Some f) ks s'
      | (Inr _, s') \<Rightarrow> close_all host failure ks s')"

definition says :: "reply_row \<Rightarrow> string \<Rightarrow> pyval \<Rightarrow> bool" where
  "says row key v = (case map_of row key of None \<Rightarrow> False | Some w \<Rightarrow> py_eq w v)"

definition is_true :: "reply_row \<Rightarrow> string \<Rightarrow> bool" where
  "is_true row key = (map_of row key = Some (PBool True))"

section \<open>The planning session\<close>

record plan_session =
  pl_sessions :: "nat list"
  pl_supports :: bool
  pl_micro :: "string option"

fun open_ranks :: "session_host \<Rightarrow> nat \<Rightarrow> session_state \<Rightarrow> unit result \<times> nat list \<times> session_state" where
  "open_ranks host 0 s = (Inr (), [], s)"
| "open_ranks host (Suc world) s =
     (case open_session host s of
        (Inl e, s') \<Rightarrow> (Inl e, [], s')
      | (Inr k, s') \<Rightarrow> (case open_ranks host world s' of (r, ks, s'') \<Rightarrow> (r, k # ks, s'')))"

definition component_protocol :: string where
  "component_protocol = ''persistent-exact-capacity-v1''"

definition ready_rank :: "session_host \<Rightarrow> nat \<times> nat \<Rightarrow> bool session_op" where
  "ready_rank host = (\<lambda>(rank, k). sbind (receive host k) (\<lambda>ready.
     slift (if \<not> is_true ready ''ready'' \<or> \<not> says ready ''rank'' (PInt (int rank))
       then Inl (RuntimeError ''native planning service did not acknowledge its rank'')
       else Inr (map_of ready ''component_protocol'' = Some (PStr component_protocol)))))"

text \<open>What the failed logs say decides between a capacity rejection and the original error.\<close>

definition runner_errors :: "session_host \<Rightarrow> nat list \<Rightarrow> string list" where
  "runner_errors host ks =
     concat (map (\<lambda>k. List.map_filter (after_prefix ''production_runner_error='') (text_lines (sh_log host k))) ks)"

definition startup_error :: "session_host \<Rightarrow> nat list \<Rightarrow> exn \<Rightarrow> exn" where
  "startup_error host ks e =
     (let failures = runner_errors host ks in
      if failures \<noteq> [] \<and> list_all (\<lambda>m. m = ''insufficient blend GPU reserve'') failures
      then CapacityRejected ''native planner initialization rejected measured blend reserve'' else e)"

definition ready_ranks :: "session_host \<Rightarrow> nat list \<Rightarrow> bool session_op" where
  "ready_ranks host ks =
     sbind (smap (ready_rank host) (enumerate 0 ks)) (\<lambda>caps.
     slift (if list_ex id caps \<and> \<not> list_all id caps then Inl (RuntimeError ''mixed native component service cohort'')
            else Inr (list_all id caps)))"

definition open_plan_session :: "session_host \<Rightarrow> env \<Rightarrow> nat \<Rightarrow> plan_session session_op" where
  "open_plan_session host environment world s =
     (case open_ranks host world s of
        (r, ks, s1) \<Rightarrow>
          (case sbind (slift r) (\<lambda>_. ready_ranks host ks) s1 of
             (Inr supports, s2) \<Rightarrow>
               (Inr \<lparr>pl_sessions = ks, pl_supports = supports, pl_micro = map_of environment ''BEAM_ENSEMBLE_INFERENCE_MICRO''\<rparr>, s2)
           | (Inl e, s2) \<Rightarrow>
               (case close_all host None ks s2 of
                  (Inl e', s3) \<Rightarrow> (Inl e', s3)
                | (Inr _, s3) \<Rightarrow> (Inl (startup_error host ks e), s3))))"

definition plan_environment :: "plan_session \<Rightarrow> env \<Rightarrow> env result" where
  "plan_environment pl environment =
     (case map_of environment ''BEAM_ENSEMBLE_INFERENCE_MICRO'' of
        None \<Rightarrow> Inr environment
      | Some micro \<Rightarrow>
          if Some micro \<noteq> pl_micro pl then Inl (ValueError ''planner cannot change the frozen model inference microbatch'')
          else Inr (filter (\<lambda>(k, _). k \<noteq> ''BEAM_ENSEMBLE_INFERENCE_MICRO'') environment))"

definition as_plan :: "pyval \<Rightarrow> plan result" where
  "as_plan v = (case v of PDict d \<Rightarrow> Inr d | _ \<Rightarrow> Inl (TypeError ''plan must be an object''))"

definition check_admission :: "int \<Rightarrow> reply_row list \<Rightarrow> plan list result" where
  "check_admission beam rows =
     (if list_ex (\<lambda>row. is_true row ''capacity_rejected'') rows then Inl (CapacityRejected ''capacity rejected'')
      else if list_ex (\<lambda>row. \<not> is_true row ''admitted'') rows
      then Inl (RuntimeError ''native planner returned an invalid admission receipt'')
      else
        ebind (emap (\<lambda>row. ebind (dict_item row ''plan'') as_plan) rows) (\<lambda>plans.
        ebind (validate_rank_plans plans) (\<lambda>_.
        ebind (dict_item (hd plans) ''GLOBAL_BEAM_WIDTH_EFFECTIVE'') (\<lambda>effective.
        case numeric_value effective of
          None \<Rightarrow> Inl (TypeError ''not supported between instances'')
        | Some r \<Rightarrow>
            if r < of_int beam then Inl (ValueError ''native planner shrank requested frontier'') else Inr plans))))"

definition admit_plan :: "session_host \<Rightarrow> plan_session \<Rightarrow> int \<Rightarrow> env \<Rightarrow> plan list session_op" where
  "admit_plan host pl beam environment =
     sbind (slift (plan_environment pl environment)) (\<lambda>environment'.
     sbind (smap (send_request host (Plan_request beam environment')) (pl_sessions pl)) (\<lambda>_.
     sbind (smap (receive host) (pl_sessions pl)) (\<lambda>rows. slift (check_admission beam rows))))"

text \<open>The two-phase protocol: no rank runs until every rank has prepared its allocation.\<close>

definition prepared_rank :: "nat \<Rightarrow> reply_row \<Rightarrow> bool" where
  "prepared_rank rank row = (is_true row ''prepared'' \<and> says row ''rank'' (PInt (int rank)))"

definition cancel_components :: "session_host \<Rightarrow> nat list \<Rightarrow> reply_row list session_op" where
  "cancel_components host ks =
     sbind (smap (send_request host Cancel_component) ks) (\<lambda>_. smap (receive host) ks)"

definition run_components ::
  "session_host \<Rightarrow> nat list \<Rightarrow> reply_row list session_op" where
  "run_components host ks =
     sbind (smap (receive host) ks) (\<lambda>ready.
     if \<not> list_all (\<lambda>(rank, row). prepared_rank rank row) (enumerate 0 ready)
     then sbind (cancel_components host ks) (\<lambda>_.
            slift (Inl (ValueError ''component allocation was not prepared on every rank'')))
     else sbind (smap (send_request host Run_component) ks) (\<lambda>_. smap (receive host) ks))"

definition measure_components :: "session_host \<Rightarrow> plan_session \<Rightarrow> int \<Rightarrow> env \<Rightarrow> reply_row list session_op" where
  "measure_components host pl beam environment =
     (if \<not> pl_supports pl then slift (Inl (RuntimeError ''native component session unsupported''))
      else
        sbind (slift (plan_environment pl environment)) (\<lambda>environment'.
        sbind (smap (send_request host (Prepare_component beam environment')) (pl_sessions pl)) (\<lambda>_.
        run_components host (pl_sessions pl))))"

definition close_plan_session :: "session_host \<Rightarrow> plan_session \<Rightarrow> session_state \<Rightarrow> unit result \<times> plan_session \<times> session_state" where
  "close_plan_session host pl s =
     (case close_all host None (pl_sessions pl) s of (r, s') \<Rightarrow> (r, pl\<lparr>pl_sessions := []\<rparr>, s'))"

definition set_deadline :: "pyfloat \<Rightarrow> rat \<Rightarrow> rat result" where
  "set_deadline deadline now =
     (case deadline of
        Fin d \<Rightarrow> if d \<le> now then Inl (ValueError ''planning phase deadline must be finite and in the future'') else Inr d
      | _ \<Rightarrow> Inl (ValueError ''planning phase deadline must be finite and in the future''))"


section \<open>The pool of inference probes\<close>

record probe_pool =
  pp_sessions :: "(nat, nat) dict"
  pp_starts :: nat
  pp_capacity :: int

definition lower :: "string \<Rightarrow> string" where
  "lower s = map lower_char s"

definition contains :: "string \<Rightarrow> string \<Rightarrow> bool" where
  "contains part s = list_ex (\<lambda>t. prefix part t) (suffixes_of s)"

definition cuda_capacity_rejection :: "string \<Rightarrow> bool" where
  "cuda_capacity_rejection text =
     list_ex (\<lambda>marker. contains marker (lower text))
       [''cuda out of memory'', ''cuda error: out of memory'', ''cudaerrormemoryallocation'', ''cublas_status_alloc_failed'']"

text \<open>Lazy start: only the ranks without a session get one; a failing start keeps the sessions before it.\<close>

fun start_missing :: "session_host \<Rightarrow> nat list \<Rightarrow> probe_pool \<Rightarrow> session_state
    \<Rightarrow> (nat \<times> nat) list result \<times> probe_pool \<times> session_state" where
  "start_missing host [] pool s = (Inr [], pool, s)"
| "start_missing host (rank # ranks) pool s =
     (if map_of (pp_sessions pool) rank \<noteq> None then start_missing host ranks pool s
      else
        let pool1 = pool\<lparr>pp_starts := pp_starts pool + 1\<rparr> in
        case open_session host s of
          (Inl e, s') \<Rightarrow> (Inl e, pool1, s')
        | (Inr k, s') \<Rightarrow>
            (case start_missing host ranks (pool1\<lparr>pp_sessions := dict_set rank k (pp_sessions pool1)\<rparr>) s' of
               (Inl e, pool', s'') \<Rightarrow> (Inl e, pool', s'')
             | (Inr started, pool', s'') \<Rightarrow> (Inr ((rank, k) # started), pool', s'')))"

text \<open>The acknowledgements of the started ranks; a failure names the session it happened on.\<close>

fun await_ready :: "session_host \<Rightarrow> (nat \<times> nat) list \<Rightarrow> session_state \<Rightarrow> (exn \<times> nat) option \<times> session_state" where
  "await_ready host [] s = (None, s)"
| "await_ready host ((rank, k) # started) s =
     (case receive host k s of
        (Inl e, s') \<Rightarrow> (Some (e, k), s')
      | (Inr ready, s') \<Rightarrow>
          if \<not> is_true ready ''ready'' \<or> \<not> says ready ''device'' (PInt (int rank))
          then (Some (RuntimeError ''inference rank did not acknowledge readiness'', k), s')
          else await_ready host started s')"

definition close_pool :: "session_host \<Rightarrow> probe_pool \<Rightarrow> session_state \<Rightarrow> unit result \<times> probe_pool \<times> session_state" where
  "close_pool host pool s =
     (case close_all host None (map snd (pp_sessions pool)) s of (r, s') \<Rightarrow> (r, pool\<lparr>pp_sessions := []\<rparr>, s'))"

definition sequence_length :: "pyval \<Rightarrow> nat result" where
  "sequence_length v =
     (case v of PList xs \<Rightarrow> Inr (length xs) | PTuple xs \<Rightarrow> Inr (length xs) | PStr t \<Rightarrow> Inr (length t)
      | PDict d \<Rightarrow> Inr (length d) | _ \<Rightarrow> Inl (TypeError ''object has no len()''))"

definition check_probe :: "int \<Rightarrow> int \<Rightarrow> nat \<Rightarrow> reply_row \<Rightarrow> reply_row result" where
  "check_probe batch parents rank row =
     (if \<not> says row ''batch'' (PInt batch) \<or> \<not> says row ''parents'' (PInt parents) \<or> \<not> says row ''device'' (PInt (int rank))
         \<or> \<not> is_true row ''correctness_passed'' \<or> \<not> says row ''numeric_error'' (PInt 0)
      then Inl (ValueError ''invalid inference session receipt'')
      else
        ebind (sequence_length (case map_of row ''seconds'' of None \<Rightarrow> PList [] | Some v \<Rightarrow> v)) (\<lambda>n.
        if n < 5 then Inl (ValueError ''invalid inference session receipt'') else Inr row))"

text \<open>\<open>except (TimeoutError, RuntimeError, ValueError)\<close>\<close>

fun probe_failure :: "exn \<Rightarrow> bool" where
  "probe_failure (TimeoutError _) = True"
| "probe_failure e = (is_runtime_error e \<or> is_value_error e)"

definition failure_note :: "session_host \<Rightarrow> nat \<Rightarrow> nat \<Rightarrow> exn \<Rightarrow> string" where
  "failure_note host rank k e =
     ''rank '' @ str_nat rank @ '': '' @
       (if is_runtime_error e \<and> cuda_capacity_rejection (sh_log host k) then ''CUDA capacity rejected: '' else '''') @ exn_message e"

text \<open>The receipts in rank order; a failing rank loses its session and is noted.\<close>

fun collect_probes :: "session_host \<Rightarrow> int \<Rightarrow> int \<Rightarrow> nat list \<Rightarrow> probe_pool \<Rightarrow> session_state
    \<Rightarrow> (reply_row list \<times> string list) result \<times> probe_pool \<times> session_state" where
  "collect_probes host batch parents [] pool s = (Inr ([], []), pool, s)"
| "collect_probes host batch parents (rank # ranks) pool s =
     (case map_of (pp_sessions pool) rank of
        None \<Rightarrow> (Inl (KeyError ''rank''), pool, s)
      | Some k \<Rightarrow>
          (case sbind (receive host k) (\<lambda>row. slift (check_probe batch parents rank row)) s of
             (Inr row, s') \<Rightarrow>
               (case collect_probes host batch parents ranks pool s' of
                  (Inl e, pool', s'') \<Rightarrow> (Inl e, pool', s'')
                | (Inr (rows, failures), pool', s'') \<Rightarrow> (Inr (row # rows, failures), pool', s''))
           | (Inl e, s') \<Rightarrow>
               if \<not> probe_failure e then (Inl e, pool, s')
               else
                 (case close_session host k s' of
                    (Inl e', s'') \<Rightarrow> (Inl e', pool, s'')
                  | (Inr _, s'') \<Rightarrow>
                      (case collect_probes host batch parents ranks
                              (pool\<lparr>pp_sessions := filter (\<lambda>(r, _). r \<noteq> rank) (pp_sessions pool)\<rparr>) s'' of
                         (Inl e', pool', s3) \<Rightarrow> (Inl e', pool', s3)
                       | (Inr (rows, failures), pool', s3) \<Rightarrow>
                           (Inr (rows, failure_note host rank k e # failures), pool', s3)))))"

definition startup_failed :: "session_host \<Rightarrow> int \<Rightarrow> exn \<Rightarrow> nat \<Rightarrow> probe_pool \<Rightarrow> session_state
    \<Rightarrow> (reply_row list \<times> string list) result \<times> probe_pool \<times> session_state" where
  "startup_failed host batch e k pool s =
     (case close_pool host pool s of
        (Inl e', pool', s') \<Rightarrow> (Inl e', pool', s')
      | (Inr _, pool', s') \<Rightarrow>
          if is_runtime_error e \<and> cuda_capacity_rejection (sh_log host k)
          then (Inr ([], [''CUDA capacity rejected before readiness: '' @ exn_message e]),
                pool'\<lparr>pp_capacity := min (pp_capacity pool') batch\<rparr>, s')
          else (Inl e, pool', s'))"

definition measure_pool :: "session_host \<Rightarrow> nat \<Rightarrow> int \<Rightarrow> int \<Rightarrow> probe_pool \<Rightarrow> session_state
    \<Rightarrow> (reply_row list \<times> string list) result \<times> probe_pool \<times> session_state" where
  "measure_pool host world batch parents pool s =
     (case start_missing host [0..<world] pool s of
        (Inl e, pool1, s1) \<Rightarrow> (Inl e, pool1, s1)
      | (Inr started, pool1, s1) \<Rightarrow>
          (case await_ready host started s1 of
             (Some (e, k), s2) \<Rightarrow> startup_failed host batch e k pool1 s2
           | (None, s2) \<Rightarrow>
               (case smap (send_request host (Infer batch parents)) (map snd (pp_sessions pool1)) s2 of
                  (Inl e, s3) \<Rightarrow> (Inl e, pool1, s3)
                | (Inr _, s3) \<Rightarrow> collect_probes host batch parents [0..<world] pool1 s3)))"


section \<open>Operations and their events\<close>

text \<open>An operation that starts no process, and the stronger contract of the operations that leave exactly one
  event when they succeed and none when they fail.\<close>

locale quiet_op =
  fixes op :: "'i \<Rightarrow> 'a session_op"
  assumes quiet: "op i s = (r, s') \<Longrightarrow> \<exists>new. ss_events s' = ss_events s @ new \<and> (\<forall>k. Opened k \<notin> set new)"
begin

lemma quiet_smap: "smap op is s = (r, s') \<Longrightarrow> \<exists>new. ss_events s' = ss_events s @ new \<and> (\<forall>k. Opened k \<notin> set new)"
proof (induction "is" arbitrary: s r s')
  case (Cons i js)
  obtain r1 s1 where first: "op i s = (r1, s1)" by (cases "op i s")
  from quiet [OF first] obtain new where new: "ss_events s1 = ss_events s @ new" "\<forall>k. Opened k \<notin> set new" by blast
  show ?case
  proof (cases r1)
    case (Inl e)
    then show ?thesis using Cons.prems first new by (auto simp: sbind_def)
  next
    case (Inr x)
    obtain r2 s2 where rest: "smap op js s1 = (r2, s2)" by (cases "smap op js s1")
    have "s' = s2" using Cons.prems first Inr rest by (auto simp: sbind_def slift_def split: sum.splits)
    with Cons.IH [OF rest] new show ?thesis by auto
  qed
qed simp

end

locale event_op =
  fixes op :: "'i \<Rightarrow> 'a session_op" and ev :: "'i \<Rightarrow> 'a \<Rightarrow> session_event"
  assumes succeeds: "op i s = (Inr x, s') \<Longrightarrow> ss_events s' = ss_events s @ [ev i x]"
    and fails: "op i s = (Inl e, s') \<Longrightarrow> ss_events s' = ss_events s"
    and starts_none: "ev i x \<noteq> Opened k"
begin

lemma smap_events:
  "smap op is s = (r, s') \<Longrightarrow>
    \<exists>xs. ss_events s' = ss_events s @ map (\<lambda>(i, x). ev i x) (zip is xs) \<and> length xs \<le> length is
      \<and> (\<forall>ys. r = Inr ys \<longrightarrow> ys = xs \<and> length xs = length is)"
proof (induction "is" arbitrary: s r s')
  case (Cons i js)
  obtain r1 s1 where first: "op i s = (r1, s1)" by (cases "op i s")
  show ?case
  proof (cases r1)
    case (Inl e)
    then show ?thesis using Cons.prems first fails [of i s e s1] by (auto simp: sbind_def)
  next
    case (Inr x)
    obtain r2 s2 where rest: "smap op js s1 = (r2, s2)" by (cases "smap op js s1")
    have s2: "s' = s2" "r = (case r2 of Inl e \<Rightarrow> Inl e | Inr ys \<Rightarrow> Inr (x # ys))"
      using Cons.prems first Inr rest by (auto simp: sbind_def slift_def split: sum.splits)
    from Cons.IH [OF rest] obtain xs where xs: "ss_events s2 = ss_events s1 @ map (\<lambda>(i, x). ev i x) (zip js xs)"
      "length xs \<le> length js" "\<forall>ys. r2 = Inr ys \<longrightarrow> ys = xs \<and> length xs = length js" by blast
    have "ss_events s' = ss_events s @ map (\<lambda>(i, x). ev i x) (zip (i # js) (x # xs))"
      using succeeds [of i s x s1] first Inr s2(1) xs(1) by simp
    moreover have "\<forall>ys. r = Inr ys \<longrightarrow> ys = x # xs \<and> length (x # xs) = length (i # js)"
      using s2(2) xs(3) by (auto split: sum.splits)
    ultimately show ?thesis using xs(2) by (metis Suc_le_mono length_Cons)
  qed
qed simp

end

sublocale event_op \<subseteq> quiet_op op
proof
  fix i s r s' assume step: "op i s = (r, s')"
  show "\<exists>new. ss_events s' = ss_events s @ new \<and> (\<forall>k. Opened k \<notin> set new)"
  proof (cases r)
    case (Inl e)
    then show ?thesis using fails step by simp
  next
    case (Inr x)
    then have "ss_events s' = ss_events s @ [ev i x]" using succeeds step by simp
    moreover have "\<forall>k. Opened k \<notin> set [ev i x]" using starts_none [THEN not_sym] by simp
    ultimately show ?thesis by blast
  qed
qed

interpretation receiving: event_op "receive host" Got for host
  by unfold_locales (auto simp: receive_def Let_def split: reply.splits)

interpretation sending: event_op "send_request host req" "\<lambda>k _. Sent k req" for host req
  by unfold_locales (auto simp: send_request_def Let_def split: option.splits)

interpretation closing: quiet_op "close_session host" for host
  by unfold_locales (auto simp: close_session_def split: option.splits)

section \<open>No rank runs before every rank is prepared\<close>

lemma sbind_cases:
  assumes "sbind m f s = (r, s')"
  obtains (failed) e where "m s = (Inl e, s')" "r = Inl e" | (continued) x s1 where "m s = (Inr x, s1)" "f x s1 = (r, s')"
  using assms by (auto simp: sbind_def split: prod.splits sum.splits)

text \<open>What the two loops of the protocol leave, as far as their events go.\<close>

lemma sends:
  assumes "smap (send_request host req) ks s = (r, s')"
  shows "\<exists>js. ss_events s' = ss_events s @ map (\<lambda>k. Sent k req) js"
proof -
  from sending.smap_events [OF assms] obtain xs :: "unit list" where
    "ss_events s' = ss_events s @ map (\<lambda>(k, x). Sent k req) (zip ks xs)" by blast
  also have "map (\<lambda>(k, x). Sent k req) (zip ks xs) = map (\<lambda>k. Sent k req) (map fst (zip ks xs))" by (auto split: prod.splits)
  finally show ?thesis by blast
qed

lemma receives:
  assumes "smap (receive host) ks s = (r, s')"
  shows "\<exists>rows. ss_events s' = ss_events s @ map (\<lambda>(k, row). Got k row) (zip ks rows)
    \<and> (\<forall>ys. r = Inr ys \<longrightarrow> ys = rows \<and> length rows = length ks)"
  using receiving.smap_events [OF assms] by blast

lemma cancels:
  assumes "cancel_components host ks s = (r, s')"
  shows "\<exists>new. ss_events s' = ss_events s @ new \<and> (\<forall>k. Sent k Run_component \<notin> set new)"
  using assms unfolding cancel_components_def
proof (cases rule: sbind_cases)
  case (failed e)
  from sends [OF failed(1)] show ?thesis by auto
next
  case (continued x s1)
  from sends [OF continued(1)] obtain js where js: "ss_events s1 = ss_events s @ map (\<lambda>k. Sent k Cancel_component) js" by blast
  from receives [OF continued(2)] obtain rows where
    "ss_events s' = ss_events s1 @ map (\<lambda>(k, row). Got k row) (zip ks rows)" by blast
  with js show ?thesis
    by (intro exI [of _ "map (\<lambda>k. Sent k Cancel_component) js @ map (\<lambda>(k, row). Got k row) (zip ks rows)"]) auto
qed

definition run_prepared :: "nat list \<Rightarrow> session_event list \<Rightarrow> bool" where
  "run_prepared ks new = (\<forall>i k. i < length new \<and> new ! i = Sent k Run_component \<longrightarrow>
     (\<forall>rank < length ks. \<exists>j < i. \<exists>row. new ! j = Got (ks ! rank) row \<and> prepared_rank rank row))"

lemma run_prepared_none: "\<forall>k. Sent k Run_component \<notin> set new \<Longrightarrow> run_prepared ks new"
  unfolding run_prepared_def by (metis nth_mem)

text \<open>After the acknowledgements of all ranks, anything may follow.\<close>

lemma run_prepared_after:
  assumes "\<forall>k. Sent k Run_component \<notin> set asked" "length ready = length ks"
    and "list_all (\<lambda>(rank, row). prepared_rank rank row) (enumerate 0 ready)"
  shows "run_prepared ks (asked @ map (\<lambda>(k, row). Got k row) (zip ks ready) @ rest)"
  unfolding run_prepared_def
proof (intro allI impI)
  let ?got = "map (\<lambda>(k, row). Got k row) (zip ks ready)"
  fix i k rank assume run: "i < length (asked @ ?got @ rest) \<and> (asked @ ?got @ rest) ! i = Sent k Run_component" and "rank < length ks"
  have "i \<ge> length (asked @ ?got)"
  proof (rule ccontr)
    assume "\<not> i \<ge> length (asked @ ?got)"
    then have "(asked @ ?got @ rest) ! i = (asked @ ?got) ! i" "i < length (asked @ ?got)"
      by (simp_all only: append_assoc [symmetric] nth_append) auto
    then have "Sent k Run_component \<in> set (asked @ ?got)" using run by (metis nth_mem)
    then show False using assms(1) by auto
  qed
  then have "length asked + rank < i" using \<open>rank < length ks\<close> assms(2) by simp
  moreover have "(asked @ ?got @ rest) ! (length asked + rank) = Got (ks ! rank) (ready ! rank)"
    using \<open>rank < length ks\<close> assms(2) by (simp add: nth_append)
  moreover have "prepared_rank rank (ready ! rank)"
    using assms(2,3) \<open>rank < length ks\<close> by (simp add: list_all_length nth_enumerate_eq)
  ultimately show "\<exists>j < i. \<exists>row. (asked @ ?got @ rest) ! j = Got (ks ! rank) row \<and> prepared_rank rank row" by blast
qed

lemma run_components_prepared:
  assumes "run_components host ks s = (r, s')"
  shows "\<exists>rest. ss_events s' = ss_events s @ rest
    \<and> (\<forall>asked. (\<forall>k. Sent k Run_component \<notin> set asked) \<longrightarrow> run_prepared ks (asked @ rest))"
  using assms unfolding run_components_def
proof (cases rule: sbind_cases)
  case (failed e)
  from receives [OF failed(1)] obtain rows where "ss_events s' = ss_events s @ map (\<lambda>(k, row). Got k row) (zip ks rows)" by blast
  then show ?thesis by (intro exI conjI allI impI) (auto intro!: run_prepared_none)
next
  case (continued ready s2)
  from receives [OF continued(1)] have b: "ss_events s2 = ss_events s @ map (\<lambda>(k, row). Got k row) (zip ks ready)"
    "length ready = length ks" by auto
  let ?got = "map (\<lambda>(k, row). Got k row) (zip ks ready)"
  show ?thesis
  proof (cases "list_all (\<lambda>(rank, row). prepared_rank rank row) (enumerate 0 ready)")
    case False
    with continued(2) obtain r3 where "cancel_components host ks s2 = (r3, s')"
      by (auto simp: slift_def elim!: sbind_cases)
    from cancels [OF this] obtain new where "ss_events s' = ss_events s2 @ new" "\<forall>k. Sent k Run_component \<notin> set new" by blast
    then show ?thesis using b(1) by (intro exI [of _ "?got @ new"]) (auto intro!: run_prepared_none)
  next
    case ok: True
    with continued(2) have "\<exists>rest. ss_events s' = ss_events s2 @ rest"
      using sends receives by (auto elim!: sbind_cases) (metis append_assoc)+
    then obtain rest where "ss_events s' = ss_events s2 @ rest" ..
    then show ?thesis using b run_prepared_after [OF _ b(2) ok] by (intro exI [of _ "?got @ rest"]) simp
  qed
qed

lemma measure_components_cases:
  assumes "measure_components host pl beam environment s = (r, s')"
  obtains (refused) "s' = s"
  | (asked) e environment' where "smap (send_request host (Prepare_component beam environment')) (pl_sessions pl) s = (Inl e, s')"
  | (ran) u s1 environment' where "smap (send_request host (Prepare_component beam environment')) (pl_sessions pl) s = (Inr u, s1)"
      "run_components host (pl_sessions pl) s1 = (r, s')"
  using assms
  by (auto simp: measure_components_def slift_def split: if_splits elim!: sbind_cases)

text \<open>C27. The component protocol has two phases: whatever the ranks answer and whoever fails, a rank is told to run only
  after every rank of the session reported, under its own rank number, that its allocation is prepared.\<close>
theorem run_only_when_prepared:
  assumes "measure_components host pl beam environment s = (r, s')"
  shows "\<exists>new. ss_events s' = ss_events s @ new \<and> run_prepared (pl_sessions pl) new"
  using assms
proof (cases rule: measure_components_cases)
  case refused
  then show ?thesis using run_prepared_none [of "[]"] by simp
next
  case (asked e environment')
  from sends [OF asked] obtain js where "ss_events s' = ss_events s @ map (\<lambda>k. Sent k (Prepare_component beam environment')) js" by blast
  then show ?thesis by (intro exI conjI) (auto intro!: run_prepared_none)
next
  case (ran u s1 environment')
  from sends [OF ran(1)] obtain js where
    a: "ss_events s1 = ss_events s @ map (\<lambda>k. Sent k (Prepare_component beam environment')) js" by blast
  from run_components_prepared [OF ran(2)] obtain rest where "ss_events s' = ss_events s1 @ rest"
    "\<forall>asked. (\<forall>k. Sent k Run_component \<notin> set asked) \<longrightarrow> run_prepared (pl_sessions pl) (asked @ rest)" by blast
  moreover have "\<forall>k. Sent k Run_component \<notin> set (map (\<lambda>k. Sent k (Prepare_component beam environment')) js)" by auto
  ultimately have "run_prepared (pl_sessions pl) (map (\<lambda>k. Sent k (Prepare_component beam environment')) js @ rest)" by blast
  with a \<open>ss_events s' = ss_events s1 @ rest\<close> show ?thesis
    by (intro exI [of _ "map (\<lambda>k. Sent k (Prepare_component beam environment')) js @ rest"]) simp
qed


definition prepared_host :: session_host where
  "prepared_host = \<lparr>sh_open = (\<lambda>_. None),
     sh_answer = (\<lambda>k n. if n = 0 then Answered [(''prepared'', PBool True), (''rank'', PInt (int k))] else Answered [(''rank'', PInt (int k))]),
     sh_send = (\<lambda>_ _. None), sh_close = (\<lambda>_. None), sh_log = (\<lambda>_. [])\<rparr>"

definition two_ranks :: plan_session where
  "two_ranks = \<lparr>pl_sessions = [0, 1], pl_supports = True, pl_micro = None\<rparr>"

definition no_events :: session_state where
  "no_events = \<lparr>ss_next = 2, ss_reads = (\<lambda>_. 0), ss_writes = (\<lambda>_. 0), ss_events = []\<rparr>"

lemma run_only_when_prepared_witness:
  "\<exists>s'. snd (measure_components prepared_host two_ranks 512 [] no_events) = s'
     \<and> Sent 1 Run_component \<in> set (ss_events s') \<and> run_prepared [0, 1] (ss_events s')"
proof -
  obtain r s' where m: "measure_components prepared_host two_ranks 512 [] no_events = (r, s')"
    by (cases "measure_components prepared_host two_ranks 512 [] no_events")
  have "Sent 1 Run_component \<in> set (ss_events (snd (measure_components prepared_host two_ranks 512 [] no_events)))"
    by code_simp
  moreover from run_only_when_prepared [OF m] have "run_prepared [0, 1] (ss_events s')"
    by (simp add: no_events_def two_ranks_def)
  ultimately show ?thesis using m by simp
qed

section \<open>No process is lost\<close>

definition live :: "session_state \<Rightarrow> nat set" where
  "live s = {k. Opened k \<in> set (ss_events s) \<and> Closed k \<notin> set (ss_events s)}"

lemma live_quiet: "ss_events s' = ss_events s @ new \<Longrightarrow> \<forall>k. Opened k \<notin> set new \<Longrightarrow> live s' \<subseteq> live s"
  by (auto simp: live_def)

lemma live_smap_send: "smap (send_request host req) ks s = (r, s') \<Longrightarrow> live s' \<subseteq> live s"
  using sending.quiet_smap live_quiet by blast

lemma live_receive: "receive host k s = (r, s') \<Longrightarrow> live s' \<subseteq> live s"
  using receiving.quiet live_quiet by blast

lemma live_open: "open_session host s = (r, s') \<Longrightarrow> live s' \<subseteq> (case r of Inl _ \<Rightarrow> live s | Inr k \<Rightarrow> insert k (live s))"
  by (auto simp: open_session_def live_def Let_def split: option.splits)

lemma live_close: "close_session host k s = (r, s') \<Longrightarrow> live s' \<subseteq> live s - {k}"
  by (auto simp: close_session_def live_def)

lemma live_close_all: "close_all host failure ks s = (r, s') \<Longrightarrow> live s' \<subseteq> live s - set ks"
proof (induction ks arbitrary: failure s)
  case (Cons k ks)
  obtain r1 s1 where c: "close_session host k s = (r1, s1)" by (cases "close_session host k s")
  have "\<exists>f. close_all host f ks s1 = (r, s')" using Cons.prems c by (cases r1) auto
  with Cons.IH live_close [OF c] show ?case by fastforce
qed (simp add: live_def)

lemma live_check: "sbind (receive host k) (\<lambda>row. slift (f row)) s = (r, s') \<Longrightarrow> live s' \<subseteq> live s"
  using live_receive by (auto simp: slift_def elim!: sbind_cases) blast+

definition owned :: "probe_pool \<Rightarrow> nat set" where
  "owned pool = snd ` set (pp_sessions pool)"

definition pool_ok :: "probe_pool \<Rightarrow> session_state \<Rightarrow> bool" where
  "pool_ok pool s = (distinct (map fst (pp_sessions pool)) \<and> live s \<subseteq> owned pool)"

lemma dict_set_new: "map_of d k = None \<Longrightarrow> snd ` set (dict_set k v d) = insert v (snd ` set d)"
proof (induction d)
  case (Cons p d)
  obtain a b where p: "p = (a, b)" by (cases p)
  with Cons.prems have "a \<noteq> k" "map_of d k = None" by (auto split: if_splits)
  with Cons.IH p show ?case by (simp add: insert_commute)
qed simp

lemma pool_ok_mono:
  assumes "pool_ok pool s" "live s' \<subseteq> live s" "pp_sessions pool' = pp_sessions pool"
  shows "pool_ok pool' s'"
  using assms unfolding pool_ok_def owned_def by (metis subset_trans)

lemma start_missing_ok:
  "start_missing host ranks pool s = (r, pool', s') \<Longrightarrow> pool_ok pool s \<Longrightarrow> pool_ok pool' s'"
proof (induction host ranks pool s arbitrary: r rule: start_missing.induct)
  case (2 host rank ranks pool s)
  show ?case
  proof (cases "map_of (pp_sessions pool) rank = None")
    case False
    then show ?thesis using 2 by simp
  next
    case True
    obtain r1 s1 where o: "open_session host s = (r1, s1)" by (cases "open_session host s")
    show ?thesis
    proof (cases r1)
      case (Inl e)
      then show ?thesis using "2.prems" True o live_open [OF o] by (auto intro!: pool_ok_mono [OF "2.prems"(2)])
    next
      case (Inr k)
      let ?pool1 = "pool\<lparr>pp_starts := pp_starts pool + 1\<rparr>"
      let ?pool2 = "?pool1\<lparr>pp_sessions := dict_set rank k (pp_sessions ?pool1)\<rparr>"
      have "pool_ok ?pool2 s1"
        using "2.prems"(2) live_open [OF o] Inr dict_set_new [OF True, of k] by (auto simp: pool_ok_def owned_def)
      moreover have "\<exists>r2. start_missing host ranks ?pool2 s1 = (r2, pool', s')"
        using "2.prems"(1) True o Inr by (auto simp: Let_def split: prod.splits sum.splits)
      ultimately show ?thesis using "2.IH"(2) [of ?pool1 r1 s1 k] True o Inr by auto
    qed
  qed
qed simp

lemma await_ready_live: "await_ready host started s = (r, s') \<Longrightarrow> live s' \<subseteq> live s"
proof (induction host started s rule: await_ready.induct)
  case (2 host rank k started s)
  obtain r1 s1 where c: "receive host k s = (r1, s1)" by (cases "receive host k s")
  note l = live_receive [OF c]
  show ?case
  proof (cases r1)
    case (Inr ready)
    then show ?thesis using 2 c l by (auto split: if_splits)
  qed (use 2 c l in auto)
qed simp

lemma close_pool_none:
  assumes "close_pool host pool s = (r, pool', s')" "pool_ok pool s"
  shows "live s' = {} \<and> pp_sessions pool' = []"
proof -
  from assms(1) have c: "close_all host None (map snd (pp_sessions pool)) s = (r, s')" "pp_sessions pool' = []"
    by (auto simp: close_pool_def split: prod.splits)
  from live_close_all [OF c(1)] assms(2) c(2) show ?thesis by (auto simp: pool_ok_def owned_def)
qed


lemma collect_probes_ok:
  "collect_probes host batch parents ranks pool s = (r, pool', s') \<Longrightarrow> pool_ok pool s \<Longrightarrow> pool_ok pool' s'"
proof (induction ranks arbitrary: r pool s)
  case (Cons rank ranks)
  show ?case
  proof (cases "map_of (pp_sessions pool) rank")
    case None
    then show ?thesis using Cons.prems by simp
  next
    case (Some k)
    obtain r1 s1 where c: "sbind (receive host k) (\<lambda>row. slift (check_probe batch parents rank row)) s = (r1, s1)"
      by (cases "sbind (receive host k) (\<lambda>row. slift (check_probe batch parents rank row)) s")
    have ok1: "pool_ok pool s1" using live_check [OF c] Cons.prems(2) by (auto simp: pool_ok_def)
    show ?thesis
    proof (cases r1)
      case (Inr row)
      then have "\<exists>r2. collect_probes host batch parents ranks pool s1 = (r2, pool', s')"
        using Cons.prems(1) Some c by (auto split: prod.splits sum.splits)
      then show ?thesis using Cons.IH ok1 by blast
    next
      case (Inl e)
      show ?thesis
      proof (cases "probe_failure e")
        case False
        then show ?thesis using Cons.prems(1) Some c Inl ok1 by simp
      next
        case True
        obtain r2 s2 where d: "close_session host k s1 = (r2, s2)" by (cases "close_session host k s1")
        let ?rest = "pool\<lparr>pp_sessions := filter (\<lambda>(r, _). r \<noteq> rank) (pp_sessions pool)\<rparr>"
        have k: "(r', k') \<in> set (pp_sessions pool) \<Longrightarrow> r' = rank \<Longrightarrow> k' = k" for r' k'
          using Some ok1 by (auto simp: pool_ok_def dest: map_of_is_SomeI)
        have "live s2 \<subseteq> owned ?rest"
        proof
          fix x assume "x \<in> live s2"
          then have "x \<noteq> k" "x \<in> owned pool" using live_close [OF d] ok1 by (auto simp: pool_ok_def)
          then show "x \<in> owned ?rest" using k by (force simp: owned_def)
        qed
        then have ok2: "pool_ok ?rest s2" using ok1 by (auto simp: pool_ok_def distinct_map inj_on_def)
        have ok3: "pool_ok pool s2" using live_close [OF d] ok1 by (auto simp: pool_ok_def)
        show ?thesis
        proof (cases r2)
          case (Inl e')
          then show ?thesis using Cons.prems(1) Some c \<open>r1 = Inl e\<close> True d ok3 by simp
        next
          case (Inr u)
          then have "\<exists>r3. collect_probes host batch parents ranks ?rest s2 = (r3, pool', s')"
            using Cons.prems(1) Some c \<open>r1 = Inl e\<close> True d by (auto split: prod.splits sum.splits)
          then show ?thesis using Cons.IH ok2 by blast
        qed
      qed
    qed
  qed
qed simp

lemma close_pool_ok:
  assumes "close_pool host pool s = (r, pool', s')" "pool_ok pool s"
  shows "pool_ok pool' s'"
  using close_pool_none [OF assms] by (simp add: pool_ok_def)

inductive pool_step :: "session_host \<Rightarrow> probe_pool \<times> session_state \<Rightarrow> probe_pool \<times> session_state \<Rightarrow> bool" for host where
  Measure: "measure_pool host world batch parents pool s = (r, pool', s') \<Longrightarrow> pool_step host (pool, s) (pool', s')"
| Close: "close_pool host pool s = (r, pool', s') \<Longrightarrow> pool_step host (pool, s) (pool', s')"

inductive_simps pool_step_simps: "pool_step host (pool, s) (pool', s')"

lemma startup_failed_ok:
  assumes "startup_failed host batch e k pool s = (r, pool', s')" "pool_ok pool s"
  shows "pool_ok pool' s'"
proof -
  obtain r1 pool1 s1 where c: "close_pool host pool s = (r1, pool1, s1)" by (cases "close_pool host pool s")
  have "s' = s1 \<and> pp_sessions pool' = pp_sessions pool1"
    using assms(1) c by (auto simp: startup_failed_def split: sum.splits if_splits)
  with close_pool_none [OF c assms(2)] show ?thesis by (simp add: pool_ok_def)
qed

lemma measure_pool_ok:
  assumes "measure_pool host world batch parents pool s = (r, pool', s')" "pool_ok pool s"
  shows "pool_ok pool' s'"
proof -
  obtain r1 pool1 s1 where a: "start_missing host [0..<world] pool s = (r1, pool1, s1)"
    by (cases "start_missing host [0..<world] pool s")
  note ok1 = start_missing_ok [OF a assms(2)]
  show ?thesis
  proof (cases r1)
    case (Inl e)
    then show ?thesis using assms(1) a ok1 by (simp add: measure_pool_def)
  next
    case (Inr started)
    obtain f s2 where b: "await_ready host started s1 = (f, s2)" by (cases "await_ready host started s1")
    have ok2: "pool_ok pool1 s2" using await_ready_live [OF b] ok1 by (auto simp: pool_ok_def)
    show ?thesis
    proof (cases f)
      case (Some ek)
      then show ?thesis using assms(1) a Inr b startup_failed_ok [OF _ ok2] by (cases ek) (simp add: measure_pool_def)
    next
      case None
      obtain r3 s3 where c: "smap (send_request host (Infer batch parents)) (map snd (pp_sessions pool1)) s2 = (r3, s3)"
        by (cases "smap (send_request host (Infer batch parents)) (map snd (pp_sessions pool1)) s2")
      have ok3: "pool_ok pool1 s3" using live_smap_send [OF c] ok2 by (auto simp: pool_ok_def)
      show ?thesis using assms(1) a Inr b None c ok3 collect_probes_ok [OF _ ok3]
        by (cases r3) (simp_all add: measure_pool_def)
    qed
  qed
qed

lemma pool_steps_ok:
  assumes "(pool_step host)\<^sup>*\<^sup>* x y" "pool_ok (fst x) (snd x)"
  shows "pool_ok (fst y) (snd y)"
  using assms
proof (induction rule: rtranclp_induct)
  case (step y z)
  obtain pool s pool' s' where yz: "y = (pool, s)" "z = (pool', s')" by (cases y, cases z)
  with step have ok: "pool_ok pool s" by simp
  from step.hyps(2) yz show ?case
    using measure_pool_ok [OF _ ok] close_pool_ok [OF _ ok] by (auto simp: pool_step_simps)
qed



end
