(* ===== verification/Resident.thy ===== *)
theory Resident
  imports Sessions Terminal
begin

text \<open>
  Resident workers (\<open>resident_transport.py\<close>) and the session that owns them (\<open>persistent.py\<close>): a group of
  worker processes with an atomic request mailbox, kept alive between compatible searches. What the
  processes do is \<open>resident_host\<close>: for every request, the polls of the waiting loop one after the
  other. The loop has no bound of its own but the clock, so it is a partial function that may not return.
\<close>

section \<open>The worker group\<close>

datatype worker_event = Spawned nat | Requested nat | Stopped nat

text \<open>One poll: per rank the exit code and the completion file with its parsed content, and the time elapsed.\<close>

record poll =
  po_code :: "nat \<Rightarrow> int option"
  po_receipt :: "nat \<Rightarrow> pyval result option"
  po_elapsed :: rat

record resident_host =
  rh_spawn :: "nat \<Rightarrow> exn option"
  rh_write :: "nat \<Rightarrow> nat \<Rightarrow> exn option"
  rh_poll :: "nat \<Rightarrow> nat \<Rightarrow> nat \<Rightarrow> poll"
  rh_logs :: "nat \<Rightarrow> nat \<Rightarrow> exn option"
  rh_took :: "nat \<Rightarrow> nat \<Rightarrow> rat"
  rh_stop :: "nat \<Rightarrow> exn option"

record workers =
  rw_group :: nat
  rw_procs :: "nat list"
  rw_sequence :: nat
  rw_closed :: bool

record resident_state =
  rs_next :: nat
  rs_events :: "worker_event list"

text \<open>Every process is stopped, whatever the others do.\<close>

fun stop_all :: "resident_host \<Rightarrow> nat list \<Rightarrow> resident_state \<Rightarrow> exn list \<times> resident_state" where
  "stop_all host [] s = ([], s)"
| "stop_all host (p # ps) s =
     (case stop_all host ps (s\<lparr>rs_events := rs_events s @ [Stopped p]\<rparr>) of
        (errors, s') \<Rightarrow> ((case rh_stop host p of Some e \<Rightarrow> [e] | None \<Rightarrow> []) @ errors, s'))"

definition close_workers :: "resident_host \<Rightarrow> workers \<Rightarrow> resident_state \<Rightarrow> unit result \<times> workers \<times> resident_state" where
  "close_workers host w s =
     (if rw_closed w then (Inr (), w, s)
      else
        (case stop_all host (rw_procs w) s of
           (errors, s') \<Rightarrow>
             ((if errors = [] then Inr () else Inl (NativeBackendError ''failed to reap resident workers'')), w\<lparr>rw_closed := True\<rparr>, s')))"

fun spawn_all :: "resident_host \<Rightarrow> nat \<Rightarrow> resident_state \<Rightarrow> exn option \<times> nat list \<times> resident_state" where
  "spawn_all host 0 s = (None, [], s)"
| "spawn_all host (Suc world) s =
     (let p = rs_next s; s1 = s\<lparr>rs_next := p + 1\<rparr> in
      case rh_spawn host p of
        Some e \<Rightarrow> (Some e, [], s1)
      | None \<Rightarrow>
          (case spawn_all host world (s1\<lparr>rs_events := rs_events s @ [Spawned p]\<rparr>) of (failure, ps, s') \<Rightarrow> (failure, p # ps, s')))"

text \<open>The constructor: a failing start closes what was started and raises.\<close>

definition start_workers :: "resident_host \<Rightarrow> nat \<Rightarrow> nat \<Rightarrow> resident_state \<Rightarrow> workers result \<times> resident_state" where
  "start_workers host gid world s =
     (case spawn_all host world s of
        (failure, ps, s1) \<Rightarrow>
          let w = \<lparr>rw_group = gid, rw_procs = ps, rw_sequence = 0, rw_closed = False\<rparr> in
          (case failure of
             None \<Rightarrow> (Inr w, s1)
           | Some e \<Rightarrow> (case close_workers host w s1 of (Inl e', _, s2) \<Rightarrow> (Inl e', s2) | (Inr _, _, s2) \<Rightarrow> (Inl e, s2))))"

definition receipt_exact :: "nat \<Rightarrow> nat \<Rightarrow> pyval \<Rightarrow> bool" where
  "receipt_exact n rank v =
     (case v of PDict d \<Rightarrow> set (map fst d) = {''sequence'', ''rank''} \<and> says d ''sequence'' (PInt (int n)) \<and> says d ''rank'' (PInt (int rank))
      | _ \<Rightarrow> False)"

definition check_receipts :: "nat \<Rightarrow> pyval result option list \<Rightarrow> unit result" where
  "check_receipts n receipts =
     ebind (emap (\<lambda>(rank, r). case r of
         Some (Inr v) \<Rightarrow> if receipt_exact n rank v then Inr () else Inl (NativeBackendError ''invalid resident completion receipt'')
       | Some (Inl e) \<Rightarrow> Inl e
       | None \<Rightarrow> Inl (OSError ''missing receipt'')) (enumerate 0 receipts)) (\<lambda>_. Inr ())"

partial_function (option) await_workers :: "resident_host \<Rightarrow> nat \<Rightarrow> nat \<Rightarrow> nat \<Rightarrow> rat \<Rightarrow> nat \<Rightarrow> unit result option" where
  "await_workers host world gid n timeout i =
     (let p = rh_poll host gid n i; receipts = map (po_receipt p) [0..<world] in
      if list_ex (\<lambda>code. code \<noteq> None) (map (po_code p) [0..<world]) then Some (Inl (NativeBackendError ''resident worker exited''))
      else if list_all (\<lambda>r. r \<noteq> None) receipts then Some (check_receipts n receipts)
      else if timeout \<le> po_elapsed p then Some (Inl (NativeBackendError ''resident search timed out''))
      else await_workers host world gid n timeout (Suc i))"

text \<open>A request: written, awaited, its logs merged; any failure closes the group.\<close>

definition request_result :: "resident_host \<Rightarrow> workers \<Rightarrow> rat \<Rightarrow> rat result option" where
  "request_result host w timeout =
     (case rh_write host (rw_group w) (rw_sequence w) of
        Some e \<Rightarrow> Some (Inl e)
      | None \<Rightarrow>
          map_option (\<lambda>r. ebind r (\<lambda>_.
              case rh_logs host (rw_group w) (rw_sequence w) of
                Some e \<Rightarrow> Inl e
              | None \<Rightarrow> Inr (rh_took host (rw_group w) (rw_sequence w))))
            (await_workers host (length (rw_procs w)) (rw_group w) (rw_sequence w) timeout 0))"

definition submit_request ::
  "resident_host \<Rightarrow> workers \<Rightarrow> rat \<Rightarrow> resident_state \<Rightarrow> (rat result \<times> workers \<times> resident_state) option" where
  "submit_request host w timeout s =
     (if rw_closed w then Some (Inl (NativeBackendError ''resident worker group is closed''), w, s)
      else
        let s1 = s\<lparr>rs_events := rs_events s @ [Requested (rw_sequence w)]\<rparr> in
        map_option (\<lambda>r. case r of
            Inr took \<Rightarrow> (Inr took, w\<lparr>rw_sequence := rw_sequence w + 1\<rparr>, s1)
          | Inl e \<Rightarrow> (case close_workers host w s1 of (Inl e', w', s2) \<Rightarrow> (Inl e', w', s2) | (Inr _, w', s2) \<Rightarrow> (Inl e, w', s2)))
          (request_result host w timeout))"

section \<open>The waiting loop returns\<close>

lemma await_workers_returns:
  assumes "timeout \<le> po_elapsed (rh_poll host gid n (i + k))"
  shows "await_workers host world gid n timeout i \<noteq> None"
  using assms
proof (induction k arbitrary: i)
  case 0
  then show ?case by (subst await_workers.simps) (simp add: Let_def)
next
  case (Suc k)
  from Suc.IH [of "Suc i"] Suc.prems have "await_workers host world gid n timeout (Suc i) \<noteq> None" by simp
  then show ?case by (subst await_workers.simps) (simp add: Let_def)
qed

lemma check_receipts_ok:
  assumes "check_receipts n receipts = Inr u" "rank < length receipts"
  shows "\<exists>v. receipts ! rank = Some (Inr v) \<and> receipt_exact n rank v"
proof -
  from assms(1) obtain ys where ys: "list_all2 (\<lambda>x y. (case x of (rank, r) \<Rightarrow> case r of
         Some (Inr v) \<Rightarrow> if receipt_exact n rank v then Inr () else Inl (NativeBackendError ''invalid resident completion receipt'')
       | Some (Inl e) \<Rightarrow> Inl e
       | None \<Rightarrow> Inl (OSError ''missing receipt'')) = Inr y) (enumerate 0 receipts) ys"
    by (auto simp: check_receipts_def ebind_Inr_iff emap_Inr_iff)
  from list_all2_nthD [OF ys, of rank] assms(2) show ?thesis
    by (auto simp: nth_enumerate_eq split: option.splits sum.splits if_splits)
qed

text \<open>The poll that ended the wait: nobody had exited and every receipt was exact.\<close>

definition completed_poll :: "resident_host \<Rightarrow> nat \<Rightarrow> nat \<Rightarrow> nat \<Rightarrow> nat \<Rightarrow> bool" where
  "completed_poll host world gid n j =
     list_all (\<lambda>rank. po_code (rh_poll host gid n j) rank = None
       \<and> (\<exists>v. po_receipt (rh_poll host gid n j) rank = Some (Inr v) \<and> receipt_exact n rank v)) [0..<world]"

lemma await_workers_sound:
  assumes ret: "await_workers host world gid n timeout i = Some r"
  shows "r = Inr () \<longrightarrow> (\<exists>j. completed_poll host world gid n j)"
proof (rule await_workers.raw_induct [where P = "\<lambda>host world gid n timeout i r. r = Inr () \<longrightarrow> (\<exists>j. completed_poll host world gid n j)", OF _ ret])
  fix rec host world gid n timeout i r
  assume IH: "\<And>host world gid n timeout i r. rec host world gid n timeout i = Some r \<Longrightarrow> r = Inr () \<longrightarrow> (\<exists>j. completed_poll host world gid n j)"
    and eq: "(let p = rh_poll host gid n i; receipts = map (po_receipt p) [0..<world] in
      if list_ex (\<lambda>code. code \<noteq> None) (map (po_code p) [0..<world]) then Some (Inl (NativeBackendError ''resident worker exited''))
      else if list_all (\<lambda>r. r \<noteq> None) receipts then Some (check_receipts n receipts)
      else if timeout \<le> po_elapsed p then Some (Inl (NativeBackendError ''resident search timed out''))
      else rec host world gid n timeout (Suc i)) = Some r"
  let ?p = "rh_poll host gid n i"
  let ?receipts = "map (po_receipt ?p) [0..<world]"
  show "r = Inr () \<longrightarrow> (\<exists>j. completed_poll host world gid n j)"
  proof (cases "list_ex (\<lambda>code. code \<noteq> None) (map (po_code ?p) [0..<world])")
    case True
    with eq show ?thesis by (auto simp: Let_def)
  next
    case alive: False
    then have running: "rank < world \<Longrightarrow> po_code ?p rank = None" for rank by (auto simp: list_ex_iff)
    show ?thesis
    proof (cases "list_all (\<lambda>r. r \<noteq> None) ?receipts")
      case True
      with alive eq have r: "r = check_receipts n ?receipts" by (simp add: Let_def)
      show ?thesis
      proof
        assume "r = Inr ()"
        with r have "check_receipts n ?receipts = Inr ()" by simp
        with running check_receipts_ok [OF this] have "completed_poll host world gid n i"
          by (simp add: completed_poll_def list_all_iff)
        then show "\<exists>j. completed_poll host world gid n j" ..
      qed
    next
      case waiting: False
      show ?thesis
      proof (cases "timeout \<le> po_elapsed ?p")
        case True
        with alive waiting eq show ?thesis by (auto simp: Let_def)
      next
        case False
        with alive waiting eq have "rec host world gid n timeout (Suc i) = Some r" by (simp add: Let_def)
        then show ?thesis by (rule IH)
      qed
    qed
  qed
qed


section \<open>The native session\<close>

text \<open>
  What \<open>run_native\<close> does with the session it finds active: any number of launches, each with the probe of
  the runner it makes first, and a result in the end.
\<close>

record session_outcome =
  no_path :: "nat list option"
  no_elapsed :: rat
  no_effective :: "nat option"
  no_requested :: nat
  no_records :: "nat option"
  no_profile :: "(string, pyval) dict"
  no_session :: "(bool \<times> nat list \<times> nat) option"

record launch_call =
  lc_group :: nat
  lc_probe :: "(int \<times> string) result"
  lc_world :: nat
  lc_timeout :: rat

datatype execution = Finish "session_outcome result" | Launch launch_call "rat result \<Rightarrow> execution"

record native_session =
  nv_owner :: nat
  nv_closed :: bool
  nv_workers :: "workers option"
  nv_identity :: "pyval option"
  nv_metadata :: "(nat \<times> (string, pyval) dict) option"
  nv_token :: "nat option option"
  nv_locked :: bool

text \<open>The context variable holds the number of the active session; this session is number \<open>sw_self\<close>.\<close>

record session_world =
  sw_self :: nat
  sw_active :: "nat option"
  sw_session :: native_session
  sw_resident :: resident_state

definition check_owner :: "nat \<Rightarrow> native_session \<Rightarrow> unit result" where
  "check_owner pid s =
     (if pid \<noteq> nv_owner s then Inl (RuntimeError ''native session cannot be shared across Python processes'') else Inr ())"

definition enter_session :: "nat \<Rightarrow> session_world \<Rightarrow> unit result \<times> session_world" where
  "enter_session pid sw =
     (let s = sw_session sw in
      case check_owner pid s of
        Inl e \<Rightarrow> (Inl e, sw)
      | Inr _ \<Rightarrow>
          if nv_closed s then (Inl (RuntimeError ''native session is closed''), sw)
          else if sw_active sw \<noteq> None then (Inl (RuntimeError ''nested native sessions are unsupported''), sw)
          else if nv_token s \<noteq> None then (Inl (RuntimeError ''native session context is already active''), sw)
          else (Inr (), sw\<lparr>sw_active := Some (sw_self sw), sw_session := s\<lparr>nv_token := Some (sw_active sw)\<rparr>\<rparr>))"

text \<open>Releasing forgets the workers only when closing them did not raise.\<close>

definition release_workers :: "resident_host \<Rightarrow> session_world \<Rightarrow> unit result \<times> session_world" where
  "release_workers host sw =
     (let s = sw_session sw; s0 = s\<lparr>nv_workers := None, nv_identity := None, nv_metadata := None\<rparr> in
      case nv_workers s of
        None \<Rightarrow> (Inr (), sw\<lparr>sw_session := s0\<rparr>)
      | Some w \<Rightarrow>
          (case close_workers host w (sw_resident sw) of
             (Inr _, _, r) \<Rightarrow> (Inr (), sw\<lparr>sw_session := s0, sw_resident := r\<rparr>)
           | (Inl e, w', r) \<Rightarrow> (Inl e, sw\<lparr>sw_session := s\<lparr>nv_workers := Some w'\<rparr>, sw_resident := r\<rparr>)))"

definition close_session_now :: "nat \<Rightarrow> resident_host \<Rightarrow> session_world \<Rightarrow> unit result \<times> session_world" where
  "close_session_now pid host sw =
     (case check_owner pid (sw_session sw) of
        Inl e \<Rightarrow> (Inl e, sw)
      | Inr _ \<Rightarrow>
          if nv_closed (sw_session sw) then (Inr (), sw)
          else if nv_locked (sw_session sw) then (Inl (RuntimeError ''cannot close a native session during a search''), sw)
          else
            (case release_workers host sw of
               (Inl e, sw') \<Rightarrow> (Inl e, sw')
             | (Inr _, sw') \<Rightarrow> (Inr (), sw'\<lparr>sw_session := (sw_session sw')\<lparr>nv_closed := True\<rparr>\<rparr>)))"

text \<open>Leaving the context restores the previous session whatever the close did; \<open>_token\<close> must be set.\<close>

definition exit_session :: "nat \<Rightarrow> resident_host \<Rightarrow> session_world \<Rightarrow> unit result \<times> session_world" where
  "exit_session pid host sw =
     (case close_session_now pid host sw of
        (r, sw') \<Rightarrow>
          (case nv_token (sw_session sw') of
             None \<Rightarrow> (Inl (TypeError ''expected an instance of Token''), sw')
           | Some previous \<Rightarrow> (r, sw'\<lparr>sw_active := previous, sw_session := (sw_session sw')\<lparr>nv_token := None\<rparr>\<rparr>)))"

text \<open>\<open>activate\<close> around a body; \<open>beam_search\<close> of the session is the dispatcher inside it.\<close>

definition activate_session ::
  "nat \<Rightarrow> (session_world \<Rightarrow> ('a result \<times> session_world) option) \<Rightarrow> session_world \<Rightarrow> ('a result \<times> session_world) option" where
  "activate_session pid body sw =
     (case check_owner pid (sw_session sw) of
        Inl e \<Rightarrow> Some (Inl e, sw)
      | Inr _ \<Rightarrow>
          if nv_closed (sw_session sw) then Some (Inl (RuntimeError ''native session is closed''), sw)
          else if sw_active sw \<noteq> None \<and> sw_active sw \<noteq> Some (sw_self sw)
          then Some (Inl (RuntimeError ''nested native sessions are unsupported''), sw)
          else map_option (\<lambda>(r, sw'). (r, sw'\<lparr>sw_active := sw_active sw\<rparr>)) (body (sw\<lparr>sw_active := Some (sw_self sw)\<rparr>)))"

definition submit_to ::
  "resident_host \<Rightarrow> workers \<Rightarrow> rat \<Rightarrow> session_world \<Rightarrow> (rat result \<times> session_world) option" where
  "submit_to host w timeout sw =
     map_option (\<lambda>(r, w', rs). (r, sw\<lparr>sw_session := (sw_session sw)\<lparr>nv_workers := Some w'\<rparr>, sw_resident := rs\<rparr>))
       (submit_request host w timeout (sw_resident sw))"

definition probe_runner :: "launch_call \<Rightarrow> unit result" where
  "probe_runner call =
     ebind (lc_probe call) (\<lambda>(code, out).
     if code \<noteq> 0 then Inl (NativeBackendError ''resident runner probe failed'')
     else if py_strip out \<noteq> ''{\"protocol\":\"resident-search-v1\"}''
     then Inl (NativeBackendError ''runner lacks resident-search-v1; rebuild native sources'')
     else Inr ())"

definition launch_workers ::
  "resident_host \<Rightarrow> launch_call \<Rightarrow> session_world \<Rightarrow> (rat result \<times> session_world) option" where
  "launch_workers host call sw =
     (if nv_workers (sw_session sw) \<noteq> None then Some (Inl (NativeBackendError ''resident workers already exist''), sw)
      else
        (case probe_runner call of
           Inl e \<Rightarrow> Some (Inl e, sw)
         | Inr _ \<Rightarrow>
             (case start_workers host (lc_group call) (lc_world call) (sw_resident sw) of
                (Inl e, r) \<Rightarrow> Some (Inl e, sw\<lparr>sw_resident := r\<rparr>)
              | (Inr w, r) \<Rightarrow> submit_to host w (lc_timeout call) (sw\<lparr>sw_resident := r\<rparr>))))"

primrec perform ::
  "resident_host \<Rightarrow> execution \<Rightarrow> session_world \<Rightarrow> (session_outcome result \<times> session_world) option" where
  "perform host (Finish r) sw = Some (r, sw)"
| "perform host (Launch call next) sw =
     (case launch_workers host call sw of
        None \<Rightarrow> None
      | Some (r, sw') \<Rightarrow> perform host (next r) sw')"


section \<open>One search of the session\<close>

record search_request =
  sq_identity :: pyval
  sq_verified :: "unit result"
  sq_contract :: graph_contract
  sq_max_steps :: pyval
  sq_timeout :: rat
  sq_devices :: nat
  sq_log :: "string list"
  sq_written :: "exn option"

definition resident_profile :: "(string, pyval) dict \<Rightarrow> (string, pyval) dict" where
  "resident_profile profile =
     (let p1 = filter (\<lambda>(k, _). k \<noteq> ''observed_saturated_depths'') profile;
          p2 = dict_set ''resident_profile_reused'' (PBool True) p1;
          wall = (case map_of p2 ''calibration_total_wall_seconds'' of Some v \<Rightarrow> v | None \<Rightarrow> PNone) in
      dict_set ''calibration_total_wall_seconds'' (PFloat (Fin 0)) (dict_set ''original_calibration_wall_seconds'' wall p2))"

text \<open>The answer of a resident group: the log is parsed again, and the beam must be the one of the first search.\<close>

definition reused_outcome :: "search_request \<Rightarrow> nat \<times> (string, pyval) dict \<Rightarrow> rat \<Rightarrow> session_outcome result" where
  "reused_outcome rq md elapsed =
     ebind (parse_terminal (sq_contract rq) (Some (sq_max_steps rq)) (sq_log rq)) (\<lambda>(path, effective, terminal).
     if effective \<noteq> Some (fst md) then Inl (NativeBackendError ''resident effective beam changed'')
     else Inr \<lparr>no_path = path, no_elapsed = elapsed, no_effective = effective, no_requested = fst md,
               no_records = Some (md_records terminal), no_profile = resident_profile (snd md), no_session = None\<rparr>)"

definition fresh_search ::
  "resident_host \<Rightarrow> execution \<Rightarrow> search_request \<Rightarrow> session_world \<Rightarrow> (session_outcome result \<times> session_world) option" where
  "fresh_search host execute rq sw =
     map_option (\<lambda>(r, sw').
       let s = sw_session sw' in
       case r of
         Inl e \<Rightarrow> (Inl e, sw')
       | Inr out \<Rightarrow>
           (Inr out,
            if nv_workers s = None then sw'
            else sw'\<lparr>sw_session := s\<lparr>nv_identity := Some (sq_identity rq), nv_metadata := Some (no_requested out, no_profile out)\<rparr>\<rparr>))
       (perform host execute sw)"

definition reused_search ::
  "resident_host \<Rightarrow> workers \<Rightarrow> search_request \<Rightarrow> session_world \<Rightarrow> (session_outcome result \<times> session_world) option" where
  "reused_search host w rq sw =
     map_option (\<lambda>(r, sw').
       case (r, nv_metadata (sw_session sw')) of
         (Inl e, _) \<Rightarrow> (Inl e, sw')
       | (Inr elapsed, Some md) \<Rightarrow> (reused_outcome rq md elapsed, sw')
       | (Inr elapsed, None) \<Rightarrow>
           (ebind (parse_terminal (sq_contract rq) (Some (sq_max_steps rq)) (sq_log rq)) (\<lambda>_. Inl (TypeError ''NoneType'')), sw'))
       (submit_to host w (sq_timeout rq) sw)"

text \<open>A path is printed by the controller only, no path by every rank.\<close>

definition finish_search ::
  "search_request \<Rightarrow> bool \<Rightarrow> session_outcome \<Rightarrow> session_world \<Rightarrow> session_outcome result" where
  "finish_search rq reused out sw =
     (let workers = nv_workers (sw_session sw); expected = (if no_path out \<noteq> None then 1 else sq_devices rq) in
      if workers \<noteq> None \<and> no_records out \<noteq> Some expected
      then Inl (NativeBackendError ''resident search has unexpected terminal record count'')
      else
        (case sq_written rq of
           Some e \<Rightarrow> Inl e
         | None \<Rightarrow>
             Inr (out\<lparr>no_session := Some (reused, case workers of None \<Rightarrow> [] | Some w \<Rightarrow> rw_procs w,
                                          case workers of None \<Rightarrow> 0 | Some w \<Rightarrow> rw_sequence w)\<rparr>)))"

definition search_body ::
  "resident_host \<Rightarrow> execution \<Rightarrow> search_request \<Rightarrow> session_world \<Rightarrow> (session_outcome result \<times> session_world) option" where
  "search_body host execute rq sw =
     (case sq_verified rq of
        Inl e \<Rightarrow> Some (Inl e, sw)
      | Inr _ \<Rightarrow>
          (case (if Some (sq_identity rq) \<noteq> nv_identity (sw_session sw) then release_workers host sw else (Inr (), sw)) of
             (Inl e, sw1) \<Rightarrow> Some (Inl e, sw1)
           | (Inr _, sw1) \<Rightarrow>
               map_option (\<lambda>(r, sw2). (ebind r (\<lambda>out. finish_search rq (nv_workers (sw_session sw1) \<noteq> None) out sw2), sw2))
                 (case nv_workers (sw_session sw1) of
                    None \<Rightarrow> fresh_search host execute rq sw1
                  | Some w \<Rightarrow> reused_search host w rq sw1)))"

definition set_locked :: "bool \<Rightarrow> session_world \<Rightarrow> session_world" where
  "set_locked b sw = sw\<lparr>sw_session := (sw_session sw)\<lparr>nv_locked := b\<rparr>\<rparr>"

definition run_session ::
  "nat \<Rightarrow> resident_host \<Rightarrow> execution \<Rightarrow> search_request \<Rightarrow> session_world \<Rightarrow> (session_outcome result \<times> session_world) option" where
  "run_session pid host execute rq sw =
     (case check_owner pid (sw_session sw) of
        Inl e \<Rightarrow> Some (Inl e, sw)
      | Inr _ \<Rightarrow>
          if nv_closed (sw_session sw) then Some (Inl (RuntimeError ''native session is closed''), sw)
          else if nv_locked (sw_session sw) then Some (Inl (RuntimeError ''concurrent native session searches are unsupported''), sw)
          else
            map_option (\<lambda>(r, sw1).
              case r of
                Inr out \<Rightarrow> (Inr out, set_locked False sw1)
              | Inl e \<Rightarrow>
                  (case release_workers host sw1 of
                     (Inl e', sw2) \<Rightarrow> (Inl e', set_locked False sw2)
                   | (Inr _, sw2) \<Rightarrow> (Inl e, set_locked False sw2)))
              (search_body host execute rq (set_locked True sw)))"


section \<open>No worker process is lost\<close>

definition live_workers :: "resident_state \<Rightarrow> nat set" where
  "live_workers r = {p. Spawned p \<in> set (rs_events r) \<and> Stopped p \<notin> set (rs_events r)}"

definition owned_by :: "workers option \<Rightarrow> nat set" where
  "owned_by workers = (case workers of None \<Rightarrow> {} | Some w \<Rightarrow> if rw_closed w then {} else set (rw_procs w))"

definition group_ok :: "workers option \<Rightarrow> resident_state \<Rightarrow> bool" where
  "group_ok workers r \<longleftrightarrow>
     (\<forall>p. Spawned p \<in> set (rs_events r) \<or> Stopped p \<in> set (rs_events r) \<longrightarrow> p < rs_next r)
     \<and> (\<forall>p \<in> owned_by workers. p < rs_next r) \<and> live_workers r \<subseteq> owned_by workers"

lemma stop_all_spec: "stop_all host ps s = (errors, s') \<Longrightarrow> s' = s\<lparr>rs_events := rs_events s @ map Stopped ps\<rparr>"
  by (induction ps arbitrary: s errors s') (fastforce split: prod.splits)+

lemma close_workers_spec:
  assumes "close_workers host w r = (result, w', r')" "group_ok (Some w) r"
  shows "rw_closed w' \<and> rw_procs w' = rw_procs w \<and> group_ok None r'"
proof (cases "rw_closed w")
  case True
  with assms show ?thesis by (auto simp: close_workers_def group_ok_def owned_by_def)
next
  case False
  with assms(1) obtain errors where stop: "stop_all host (rw_procs w) r = (errors, r')" and w': "w' = w\<lparr>rw_closed := True\<rparr>"
    by (auto simp: close_workers_def split: prod.splits)
  from stop_all_spec [OF stop] assms(2) False show ?thesis
    by (auto simp: w' group_ok_def owned_by_def live_workers_def)
qed

lemma group_ok_closed: "rw_closed w \<Longrightarrow> group_ok (Some w) r \<longleftrightarrow> group_ok None r"
  by (simp add: group_ok_def owned_by_def)

lemma spawn_all_spec:
  assumes "spawn_all host world s = (failure, ps, s')"
    "\<forall>p. Spawned p \<in> set (rs_events s) \<or> Stopped p \<in> set (rs_events s) \<longrightarrow> p < rs_next s"
  shows "rs_events s' = rs_events s @ map Spawned ps \<and> rs_next s \<le> rs_next s' \<and> (\<forall>p \<in> set ps. p < rs_next s')
    \<and> (\<forall>p. Spawned p \<in> set (rs_events s') \<or> Stopped p \<in> set (rs_events s') \<longrightarrow> p < rs_next s')"
  using assms
proof (induction world arbitrary: s failure ps s')
  case 0
  then show ?case by simp
next
  case (Suc world)
  let ?p = "rs_next s"
  show ?case
  proof (cases "rh_spawn host ?p")
    case (Some e)
    with Suc.prems show ?thesis by (auto simp: Let_def less_Suc_eq)
  next
    case None
    let ?s1 = "s\<lparr>rs_next := ?p + 1, rs_events := rs_events s @ [Spawned ?p]\<rparr>"
    obtain f qs s2 where rest: "spawn_all host world ?s1 = (f, qs, s2)" by (cases "spawn_all host world ?s1")
    with Suc.prems(1) None have r: "ps = ?p # qs" "s' = s2" by (auto simp: Let_def)
    have "\<forall>p. Spawned p \<in> set (rs_events ?s1) \<or> Stopped p \<in> set (rs_events ?s1) \<longrightarrow> p < rs_next ?s1"
      using Suc.prems(2) by (auto simp: less_Suc_eq)
    from Suc.IH [OF rest this] show ?thesis by (auto simp: r)
  qed
qed

lemma start_workers_spec:
  assumes "start_workers host gid world r = (result, r')" "group_ok None r"
  shows "(case result of Inr w \<Rightarrow> group_ok (Some w) r' \<and> \<not> rw_closed w | Inl _ \<Rightarrow> group_ok None r')"
proof -
  obtain failure ps r1 where sp: "spawn_all host world r = (failure, ps, r1)" by (cases "spawn_all host world r")
  let ?w = "\<lparr>rw_group = gid, rw_procs = ps, rw_sequence = 0, rw_closed = False\<rparr>"
  from spawn_all_spec [OF sp] assms(2) have ok: "group_ok (Some ?w) r1"
    by (auto simp: group_ok_def owned_by_def live_workers_def)
  show ?thesis
  proof (cases failure)
    case None
    with assms(1) sp ok show ?thesis by (auto simp: start_workers_def Let_def)
  next
    case (Some e)
    obtain res w' r2 where cl: "close_workers host ?w r1 = (res, w', r2)" by (cases "close_workers host ?w r1")
    from close_workers_spec [OF cl ok] assms(1) sp Some cl show ?thesis
      by (auto simp: start_workers_def Let_def split: sum.splits)
  qed
qed

lemma submit_request_spec:
  assumes "submit_request host w timeout r = Some (result, w', r')" "group_ok (Some w) r"
  shows "group_ok (Some w') r' \<and> rw_procs w' = rw_procs w
    \<and> (case result of Inr _ \<Rightarrow> \<not> rw_closed w' \<and> \<not> rw_closed w | Inl _ \<Rightarrow> rw_closed w')"
proof (cases "rw_closed w")
  case True
  with assms show ?thesis by (auto simp: submit_request_def)
next
  case False
  let ?r1 = "r\<lparr>rs_events := rs_events r @ [Requested (rw_sequence w)]\<rparr>"
  have ok1: "group_ok (Some w) ?r1" using assms(2) by (auto simp: group_ok_def live_workers_def)
  from assms(1) False obtain q where q: "request_result host w timeout = Some q"
    by (auto simp: submit_request_def Let_def)
  show ?thesis
  proof (cases q)
    case (Inr took)
    with assms(1) False q ok1 show ?thesis
      by (auto simp: submit_request_def Let_def group_ok_def owned_by_def)
  next
    case (Inl e)
    obtain res w2 r2 where cl: "close_workers host w ?r1 = (res, w2, r2)" by (cases "close_workers host w ?r1")
    from close_workers_spec [OF cl ok1] have "rw_closed w2 \<and> rw_procs w2 = rw_procs w \<and> group_ok (Some w2) r2"
      using group_ok_closed by blast
    with assms(1) False q Inl cl show ?thesis
      by (auto simp: submit_request_def Let_def split: sum.splits)
  qed
qed


definition group_of :: "session_world \<Rightarrow> bool" where
  "group_of sw = group_ok (nv_workers (sw_session sw)) (sw_resident sw)"

text \<open>What a search leaves alone: everything but the workers, their identity and the processes.\<close>

definition same_frame :: "session_world \<Rightarrow> session_world \<Rightarrow> bool" where
  "same_frame sw sw' \<longleftrightarrow>
     sw_self sw' = sw_self sw \<and> sw_active sw' = sw_active sw \<and> nv_owner (sw_session sw') = nv_owner (sw_session sw)
     \<and> nv_closed (sw_session sw') = nv_closed (sw_session sw) \<and> nv_token (sw_session sw') = nv_token (sw_session sw)
     \<and> nv_locked (sw_session sw') = nv_locked (sw_session sw)"

lemma same_frame_refl [simp]: "same_frame sw sw"
  by (simp add: same_frame_def)

lemma same_frame_trans: "same_frame sw sw1 \<Longrightarrow> same_frame sw1 sw2 \<Longrightarrow> same_frame sw sw2"
  by (simp add: same_frame_def)

definition no_live :: "session_world \<Rightarrow> bool" where
  "no_live sw \<longleftrightarrow> live_workers (sw_resident sw) = {}"

lemma release_workers_spec:
  assumes "release_workers host sw = (result, sw')" "group_of sw"
  shows "group_of sw' \<and> same_frame sw sw' \<and> no_live sw'
    \<and> (case result of
         Inr _ \<Rightarrow> nv_workers (sw_session sw') = None
       | Inl _ \<Rightarrow> \<exists>w. nv_workers (sw_session sw') = Some w \<and> rw_closed w)"
proof (cases "nv_workers (sw_session sw)")
  case None
  with assms show ?thesis
    by (auto simp: release_workers_def group_of_def group_ok_def owned_by_def same_frame_def no_live_def Let_def)
next
  case (Some w)
  obtain res w' r where cl: "close_workers host w (sw_resident sw) = (res, w', r)" by (cases "close_workers host w (sw_resident sw)")
  with Some assms(2) have ok: "rw_closed w' \<and> group_ok None r"
    using close_workers_spec [OF cl] by (simp add: group_of_def)
  then have live: "live_workers r = {}" by (simp add: group_ok_def owned_by_def)
  from assms(1) cl Some ok live show ?thesis
    by (auto simp: release_workers_def group_of_def group_ok_closed same_frame_def no_live_def Let_def split: sum.splits)
qed

lemma submit_to_spec:
  assumes "submit_to host w timeout sw = Some (result, sw')" "group_ok (Some w) (sw_resident sw)"
  shows "group_of sw' \<and> same_frame sw sw' \<and> nv_identity (sw_session sw') = nv_identity (sw_session sw)
    \<and> nv_metadata (sw_session sw') = nv_metadata (sw_session sw)
    \<and> (\<exists>w'. nv_workers (sw_session sw') = Some w' \<and> rw_procs w' = rw_procs w
        \<and> (case result of Inr _ \<Rightarrow> \<not> rw_closed w' \<and> \<not> rw_closed w | Inl _ \<Rightarrow> rw_closed w'))"
proof -
  from assms(1) obtain w' r where s: "submit_request host w timeout (sw_resident sw) = Some (result, w', r)"
    and sw': "sw' = sw\<lparr>sw_session := (sw_session sw)\<lparr>nv_workers := Some w'\<rparr>, sw_resident := r\<rparr>"
    by (auto simp: submit_to_def)
  from submit_request_spec [OF s assms(2)] show ?thesis by (simp add: sw' group_of_def same_frame_def)
qed

lemma launch_workers_spec:
  assumes "launch_workers host call sw = Some (result, sw')" "group_of sw"
  shows "group_of sw' \<and> same_frame sw sw'"
proof (cases "nv_workers (sw_session sw) \<noteq> None \<or> (\<exists>e. probe_runner call = Inl e)")
  case True
  with assms show ?thesis by (auto simp: launch_workers_def split: if_splits)
next
  case False
  then have w: "nv_workers (sw_session sw) = None" by simp
  from False have p: "probe_runner call = Inr ()" by (cases "probe_runner call") simp_all
  obtain res r where st: "start_workers host (lc_group call) (lc_world call) (sw_resident sw) = (res, r)"
    by (cases "start_workers host (lc_group call) (lc_world call) (sw_resident sw)")
  have spec: "case res of Inr w \<Rightarrow> group_ok (Some w) r \<and> \<not> rw_closed w | Inl _ \<Rightarrow> group_ok None r"
    using start_workers_spec [OF st] assms(2) w by (simp add: group_of_def)
  show ?thesis
  proof (cases res)
    case (Inl e)
    with assms(1) w p st spec show ?thesis by (auto simp: launch_workers_def group_of_def same_frame_def)
  next
    case (Inr w')
    with assms(1) w p st have s: "submit_to host w' (lc_timeout call) (sw\<lparr>sw_resident := r\<rparr>) = Some (result, sw')"
      by (simp add: launch_workers_def)
    from submit_to_spec [OF s] spec Inr show ?thesis by (simp add: same_frame_def)
  qed
qed

lemma perform_spec: "perform host execute sw = Some (result, sw') \<Longrightarrow> group_of sw \<Longrightarrow> group_of sw' \<and> same_frame sw sw'"
proof (induction execute arbitrary: sw)
  case (Finish r)
  then show ?case by simp
next
  case (Launch call continue)
  from Launch.prems(1) obtain r sw1 where l: "launch_workers host call sw = Some (r, sw1)"
    and rest: "perform host (continue r) sw1 = Some (result, sw')" by (auto split: option.splits)
  from launch_workers_spec [OF l Launch.prems(2)] Launch.IH [OF _ rest] same_frame_trans show ?case by blast
qed


text \<open>An open group belongs to a recorded search.\<close>

definition identified :: "session_world \<Rightarrow> bool" where
  "identified sw \<longleftrightarrow>
     (\<forall>w. nv_workers (sw_session sw) = Some w \<and> \<not> rw_closed w \<longrightarrow>
        nv_identity (sw_session sw) \<noteq> None \<and> nv_metadata (sw_session sw) \<noteq> None)"

definition recorded_for :: "search_request \<Rightarrow> session_world \<Rightarrow> bool" where
  "recorded_for rq sw \<longleftrightarrow>
     (\<forall>w. nv_workers (sw_session sw) = Some w \<and> \<not> rw_closed w \<longrightarrow>
        nv_identity (sw_session sw) = Some (sq_identity rq) \<and> nv_metadata (sw_session sw) \<noteq> None)"

lemma recorded_identified: "recorded_for rq sw \<Longrightarrow> identified sw"
  by (auto simp: recorded_for_def identified_def)

lemma fresh_search_spec:
  assumes "fresh_search host execute rq sw = Some (result, sw')" "group_of sw"
  shows "group_of sw' \<and> same_frame sw sw' \<and> (\<forall>out. result = Inr out \<longrightarrow> recorded_for rq sw')"
proof -
  from assms(1) obtain r sw1 where p: "perform host execute sw = Some (r, sw1)"
    by (auto simp: fresh_search_def)
  from perform_spec [OF p assms(2)] assms(1) p show ?thesis
    by (auto simp: fresh_search_def Let_def group_of_def same_frame_def recorded_for_def split: sum.splits if_splits)
qed

lemma reused_search_spec:
  assumes "reused_search host w rq sw = Some (result, sw')" "nv_workers (sw_session sw) = Some w" "group_of sw"
    "identified sw" "nv_identity (sw_session sw) = Some (sq_identity rq)"
  shows "group_of sw' \<and> same_frame sw sw' \<and> (\<forall>out. result = Inr out \<longrightarrow> recorded_for rq sw')"
proof -
  from assms(1) obtain r sw1 where s1: "submit_to host w (sq_timeout rq) sw = Some (r, sw1)"
    by (cases "submit_to host w (sq_timeout rq) sw") (auto simp: reused_search_def)
  with assms(1) have "sw1 = sw'"
    by (cases r; cases "nv_metadata (sw_session sw1)") (simp_all add: reused_search_def)
  with s1 have s: "submit_to host w (sq_timeout rq) sw = Some (r, sw')" by simp
  have ok: "group_ok (Some w) (sw_resident sw)" using assms(2,3) by (simp add: group_of_def)
  note spec = submit_to_spec [OF s ok]
  have "recorded_for rq sw'" if "result = Inr out" for out
  proof -
    from that assms(1) s have "\<exists>t. r = Inr t" by (cases r) (auto simp: reused_search_def)
    with spec have "\<not> rw_closed w" by auto
    with assms(2,4) have "nv_metadata (sw_session sw) \<noteq> None" by (auto simp: identified_def)
    with spec assms(5) show ?thesis by (simp add: recorded_for_def)
  qed
  with spec show ?thesis by blast
qed

lemma search_body_spec:
  assumes "search_body host execute rq sw = Some (result, sw')" "group_of sw" "identified sw"
  shows "group_of sw' \<and> same_frame sw sw' \<and> (\<forall>out. result = Inr out \<longrightarrow> recorded_for rq sw')"
proof (cases "sq_verified rq")
  case (Inl e)
  with assms show ?thesis by (auto simp: search_body_def)
next
  case (Inr u)
  let ?step = "if Some (sq_identity rq) \<noteq> nv_identity (sw_session sw) then release_workers host sw else (Inr (), sw)"
  obtain r1 sw1 where step: "?step = (r1, sw1)" by (cases ?step)
  have ok1: "group_of sw1 \<and> same_frame sw sw1
      \<and> (\<forall>u. r1 = Inr u \<longrightarrow> nv_workers (sw_session sw1) = None \<or> (sw1 = sw \<and> nv_identity (sw_session sw) = Some (sq_identity rq)))"
  proof (cases "Some (sq_identity rq) \<noteq> nv_identity (sw_session sw)")
    case True
    with step have "release_workers host sw = (r1, sw1)" by simp
    from release_workers_spec [OF this assms(2)] show ?thesis by (auto split: sum.splits)
  next
    case False
    with step assms(2) show ?thesis by auto
  qed
  show ?thesis
  proof (cases r1)
    case (Inl e)
    with assms(1) Inr step ok1 show ?thesis by (auto simp: search_body_def)
  next
    case r1: (Inr u1)
    let ?run = "case nv_workers (sw_session sw1) of None \<Rightarrow> fresh_search host execute rq sw1 | Some w \<Rightarrow> reused_search host w rq sw1"
    from assms(1) Inr step r1 obtain r where run: "?run = Some (r, sw')"
      and res: "result = ebind r (\<lambda>out. finish_search rq (nv_workers (sw_session sw1) \<noteq> None) out sw')"
      by (auto simp: search_body_def)
    have "group_of sw' \<and> same_frame sw1 sw' \<and> (\<forall>out. r = Inr out \<longrightarrow> recorded_for rq sw')"
    proof (cases "nv_workers (sw_session sw1)")
      case None
      with run ok1 fresh_search_spec [of host execute rq sw1 r sw'] show ?thesis by simp
    next
      case (Some w)
      with ok1 r1 have "sw1 = sw" "nv_identity (sw_session sw1) = Some (sq_identity rq)" by auto
      with run ok1 assms(3) Some reused_search_spec [of host w rq sw1 r sw'] show ?thesis by simp
    qed
    moreover have "\<exists>out. r = Inr out" if "result = Inr out'" for out' using res that by (cases r) auto
    ultimately show ?thesis using ok1 same_frame_trans by metis
  qed
qed


definition session_ok :: "session_world \<Rightarrow> bool" where
  "session_ok sw \<longleftrightarrow> group_of sw \<and> identified sw \<and> \<not> nv_locked (sw_session sw)
     \<and> (nv_closed (sw_session sw) \<longrightarrow> nv_workers (sw_session sw) = None)"

lemma set_locked_simps [simp]:
  "group_of (set_locked b sw) = group_of sw" "identified (set_locked b sw) = identified sw"
  "recorded_for rq (set_locked b sw) = recorded_for rq sw" "no_live (set_locked b sw) = no_live sw"
  "nv_locked (sw_session (set_locked b sw)) = b" "nv_closed (sw_session (set_locked b sw)) = nv_closed (sw_session sw)"
  "nv_workers (sw_session (set_locked b sw)) = nv_workers (sw_session sw)"
  by (simp_all add: set_locked_def group_of_def identified_def recorded_for_def no_live_def)

lemma release_identified:
  assumes "release_workers host sw = (result, sw')" "group_of sw"
  shows "identified sw'"
  using release_workers_spec [OF assms] by (auto simp: identified_def split: sum.splits)

lemma run_session_spec:
  assumes run: "run_session pid host execute rq sw = Some (result, sw')" and ok: "session_ok sw"
  shows "session_ok sw' \<and> (case result of Inr _ \<Rightarrow> recorded_for rq sw' | Inl _ \<Rightarrow> sw' = sw \<or> no_live sw')"
proof (cases "is_ok (check_owner pid (sw_session sw)) \<and> \<not> nv_closed (sw_session sw)")
  case False
  with run ok show ?thesis by (auto simp: run_session_def is_ok_iff split: sum.splits if_splits)
next
  case True
  with ok have unlocked: "\<not> nv_locked (sw_session sw)" and opened: "\<not> nv_closed (sw_session sw)"
    and g: "group_of (set_locked True sw)" and i: "identified (set_locked True sw)"
    by (simp_all add: session_ok_def)
  from True run unlocked obtain r sw1 where body: "search_body host execute rq (set_locked True sw) = Some (r, sw1)"
    by (cases "search_body host execute rq (set_locked True sw)") (auto simp: run_session_def is_ok_iff)
  note spec = search_body_spec [OF body g i]
  have closed1: "\<not> nv_closed (sw_session sw1)" using spec opened by (simp add: same_frame_def)
  show ?thesis
  proof (cases r)
    case (Inr out)
    with True run unlocked body have "result = Inr out" "sw' = set_locked False sw1"
      by (auto simp: run_session_def is_ok_iff)
    with spec Inr closed1 recorded_identified show ?thesis by (auto simp: session_ok_def)
  next
    case (Inl e)
    obtain r2 sw2 where rel: "release_workers host sw1 = (r2, sw2)" by (cases "release_workers host sw1")
    with True run unlocked body Inl have res: "\<exists>e. result = Inl e" and sw': "sw' = set_locked False sw2"
      by (auto simp: run_session_def is_ok_iff split: sum.splits)
    from release_workers_spec [OF rel] release_identified [OF rel] spec closed1
    have "session_ok sw' \<and> no_live sw'" by (simp add: sw' session_ok_def same_frame_def)
    with res show ?thesis by auto
  qed
qed

lemma close_session_spec:
  assumes "close_session_now pid host sw = (result, sw')" "session_ok sw"
  shows "session_ok sw' \<and> (result = Inr () \<longrightarrow> no_live sw') \<and> same_frame (sw\<lparr>sw_session := (sw_session sw)\<lparr>nv_closed := True\<rparr>\<rparr>)
    (sw'\<lparr>sw_session := (sw_session sw')\<lparr>nv_closed := True\<rparr>\<rparr>)"
proof (cases "is_ok (check_owner pid (sw_session sw)) \<and> \<not> nv_closed (sw_session sw)")
  case False
  with assms show ?thesis
    by (auto simp: close_session_now_def is_ok_iff session_ok_def group_of_def group_ok_def owned_by_def no_live_def split: sum.splits if_splits)
next
  case True
  obtain r sw1 where rel: "release_workers host sw = (r, sw1)" by (cases "release_workers host sw")
  have g: "group_of sw" using assms(2) by (simp add: session_ok_def)
  from True assms rel release_workers_spec [OF rel g] release_identified [OF rel g] show ?thesis
    by (auto simp: close_session_now_def is_ok_iff session_ok_def same_frame_def group_of_def identified_def no_live_def split: sum.splits)
qed


text \<open>Any sequence of calls on one session, from any process, with any searches.\<close>

inductive session_step :: "resident_host \<Rightarrow> session_world \<Rightarrow> session_world \<Rightarrow> bool" for host where
  entered: "enter_session pid sw = (r, sw') \<Longrightarrow> session_step host sw sw'"
| left: "exit_session pid host sw = (r, sw') \<Longrightarrow> session_step host sw sw'"
| shut: "close_session_now pid host sw = (r, sw') \<Longrightarrow> session_step host sw sw'"
| searched: "run_session pid host execute rq sw = Some (r, sw') \<Longrightarrow> session_step host sw sw'"
| activated: "activate_session pid (run_session pid host execute rq) sw = Some (r, sw') \<Longrightarrow> session_step host sw sw'"

definition new_session :: "nat \<Rightarrow> nat option \<Rightarrow> nat \<Rightarrow> session_world" where
  "new_session self active pid =
     \<lparr>sw_self = self, sw_active = active,
      sw_session = \<lparr>nv_owner = pid, nv_closed = False, nv_workers = None, nv_identity = None, nv_metadata = None,
                    nv_token = None, nv_locked = False\<rparr>,
      sw_resident = \<lparr>rs_next = 0, rs_events = []\<rparr>\<rparr>"

lemma session_ok_frame [simp]:
  "session_ok (sw\<lparr>sw_active := a\<rparr>) = session_ok sw"
  "session_ok (sw\<lparr>sw_active := a, sw_session := (sw_session sw)\<lparr>nv_token := t\<rparr>\<rparr>) = session_ok sw"
  by (simp_all add: session_ok_def group_of_def identified_def)

lemma session_step_ok: "session_step host sw sw' \<Longrightarrow> session_ok sw \<Longrightarrow> session_ok sw'"
proof (induction rule: session_step.induct)
  case (entered pid sw r sw')
  then show ?case by (auto simp: enter_session_def Let_def split: sum.splits if_splits)
next
  case (left pid sw r sw')
  then show ?case using close_session_spec by (fastforce simp: exit_session_def split: prod.splits option.splits)
next
  case (shut pid sw r sw')
  then show ?case using close_session_spec by blast
next
  case (searched pid execute rq sw r sw')
  then show ?case using run_session_spec by blast
next
  case (activated pid execute rq sw r sw')
  then obtain sw1 where "sw' = sw \<or> (run_session pid host execute rq (sw\<lparr>sw_active := Some (sw_self sw)\<rparr>) = Some (r, sw1)
      \<and> sw' = sw1\<lparr>sw_active := sw_active sw\<rparr>)"
    by (auto simp: activate_session_def split: sum.splits if_splits)
  with activated.prems run_session_spec [of pid host execute rq "sw\<lparr>sw_active := Some (sw_self sw)\<rparr>" r sw1]
  show ?case by auto
qed

lemma reachable_session_ok: "(session_step host)\<^sup>*\<^sup>* (new_session self active pid) sw \<Longrightarrow> session_ok sw"
proof (induction rule: rtranclp_induct)
  case base
  then show ?case by (simp add: new_session_def session_ok_def group_of_def group_ok_def identified_def live_workers_def owned_by_def)
next
  case (step sw sw')
  then show ?case using session_step_ok by blast
qed

lemma session_live: "session_ok sw \<Longrightarrow> live_workers (sw_resident sw) \<subseteq> owned_by (nv_workers (sw_session sw))"
  by (simp add: session_ok_def group_of_def group_ok_def)

lemma session_closed_live: "session_ok sw \<Longrightarrow> nv_closed (sw_session sw) \<Longrightarrow> no_live sw"
  using session_live [of sw] by (auto simp: session_ok_def owned_by_def no_live_def)



section \<open>What a resident answer rests on\<close>

lemma request_result_ok:
  assumes "request_result host w timeout = Some (Inr took)"
  shows "\<exists>j. completed_poll host (length (rw_procs w)) (rw_group w) (rw_sequence w) j"
proof -
  from assms obtain r where r: "await_workers host (length (rw_procs w)) (rw_group w) (rw_sequence w) timeout 0 = Some r"
    and "ebind r (\<lambda>_. case rh_logs host (rw_group w) (rw_sequence w) of
              Some e \<Rightarrow> Inl e | None \<Rightarrow> Inr (rh_took host (rw_group w) (rw_sequence w))) = Inr took"
    by (auto simp: request_result_def split: option.splits)
  then have "r = Inr ()" by (cases r) simp_all
  with await_workers_sound [OF r] show ?thesis by simp
qed

lemma submit_request_ok:
  assumes "submit_request host w timeout s = Some (Inr took, w', s')"
  shows "\<not> rw_closed w \<and> w' = w\<lparr>rw_sequence := rw_sequence w + 1\<rparr> \<and> request_result host w timeout = Some (Inr took)"
proof (cases "rw_closed w")
  case True
  with assms show ?thesis by (simp add: submit_request_def)
next
  case False
  with assms obtain q where q: "request_result host w timeout = Some q"
    by (auto simp: submit_request_def Let_def)
  with False assms show ?thesis
    by (cases q) (auto simp: submit_request_def Let_def split: prod.splits sum.splits)
qed


lemma reused_search_answer:
  assumes "reused_search host w rq sw = Some (Inr out, sw')"
  shows "\<not> rw_closed w \<and> (\<exists>j. completed_poll host (length (rw_procs w)) (rw_group w) (rw_sequence w) j)
    \<and> no_effective out = Some (no_requested out)
    \<and> (\<exists>md. nv_metadata (sw_session sw) = Some md \<and> no_requested out = fst md)
    \<and> (\<forall>path. no_path out = Some path \<longrightarrow> solves (sq_contract rq) path \<and> int (length path) \<le> the_int (sq_max_steps rq))"
proof -
  from assms obtain r sw1 where s: "submit_to host w (sq_timeout rq) sw = Some (r, sw1)"
    by (cases "submit_to host w (sq_timeout rq) sw") (auto simp: reused_search_def)
  with assms obtain took where r: "r = Inr took" by (cases r) (simp_all add: reused_search_def)
  with s obtain w' s' where sub: "submit_request host w (sq_timeout rq) (sw_resident sw) = Some (Inr took, w', s')"
    and sw1: "nv_metadata (sw_session sw1) = nv_metadata (sw_session sw)" by (auto simp: submit_to_def)
  from assms s r sw1 obtain md where md: "nv_metadata (sw_session sw) = Some md" and out: "reused_outcome rq md took = Inr out"
    by (cases "nv_metadata (sw_session sw)") (auto simp: reused_search_def ebind_Inr_iff)
  then have "no_effective out = Some (no_requested out) \<and> no_requested out = fst md
    \<and> (\<forall>path. no_path out = Some path \<longrightarrow> solves (sq_contract rq) path \<and> int (length path) \<le> the_int (sq_max_steps rq))"
    by (auto simp: reused_outcome_def ebind_Inr_iff dest: parse_terminal_path split: if_splits)
  with md request_result_ok submit_request_ok [OF sub] show ?thesis by blast
qed


lemma reused_search_workers:
  assumes "reused_search host w rq sw = Some (Inr out, sw')"
  shows "nv_workers (sw_session sw') = Some (w\<lparr>rw_sequence := rw_sequence w + 1\<rparr>)"
proof -
  from assms obtain r sw1 where s: "submit_to host w (sq_timeout rq) sw = Some (r, sw1)"
    by (cases "submit_to host w (sq_timeout rq) sw") (auto simp: reused_search_def)
  with assms obtain took where r: "r = Inr took" by (cases r) (simp_all add: reused_search_def)
  with assms s have "sw' = sw1" by (cases "nv_metadata (sw_session sw1)") (simp_all add: reused_search_def ebind_Inr_iff)
  with s r show ?thesis using submit_request_ok by (fastforce simp: submit_to_def)
qed

lemma finish_search_ok:
  assumes "finish_search rq reused out sw = Inr out'"
  shows "out' = out\<lparr>no_session := no_session out'\<rparr>
    \<and> no_session out' = Some (reused, case nv_workers (sw_session sw) of None \<Rightarrow> [] | Some w \<Rightarrow> rw_procs w,
         case nv_workers (sw_session sw) of None \<Rightarrow> 0 | Some w \<Rightarrow> rw_sequence w)
    \<and> (nv_workers (sw_session sw) \<noteq> None \<longrightarrow> no_records out = Some (if no_path out \<noteq> None then 1 else sq_devices rq))"
  using assms by (auto simp: finish_search_def Let_def split: if_splits option.splits)

lemma search_body_reused:
  assumes "search_body host execute rq sw = Some (Inr out, sw')" "no_session out = Some (True, pids, n)"
  obtains w out0 where "nv_workers (sw_session sw) = Some w" "nv_identity (sw_session sw) = Some (sq_identity rq)"
    "reused_search host w rq sw = Some (Inr out0, sw')" "finish_search rq True out0 sw' = Inr out"
proof -
  from assms(1) have v: "sq_verified rq = Inr ()" by (cases "sq_verified rq") (simp_all add: search_body_def)
  let ?step = "if Some (sq_identity rq) \<noteq> nv_identity (sw_session sw) then release_workers host sw else (Inr (), sw)"
  obtain r1 sw1 where step: "?step = (r1, sw1)" by (cases ?step)
  with assms(1) v have r1: "r1 = Inr ()" by (cases r1) (simp_all add: search_body_def)
  let ?run = "case nv_workers (sw_session sw1) of None \<Rightarrow> fresh_search host execute rq sw1 | Some w \<Rightarrow> reused_search host w rq sw1"
  from assms(1) v step r1 obtain r where run: "?run = Some (r, sw')"
    and res: "ebind r (\<lambda>out. finish_search rq (nv_workers (sw_session sw1) \<noteq> None) out sw') = Inr out"
    by (auto simp: search_body_def)
  from res obtain out0 where r: "r = Inr out0"
    and fin: "finish_search rq (nv_workers (sw_session sw1) \<noteq> None) out0 sw' = Inr out" by (auto simp: ebind_Inr_iff)
  from finish_search_ok [OF fin] assms(2) obtain w where w: "nv_workers (sw_session sw1) = Some w" by auto
  have same: "sw1 = sw \<and> nv_identity (sw_session sw) = Some (sq_identity rq)"
  proof (rule ccontr)
    assume no: "\<not> ?thesis"
    with step r1 have "release_workers host sw = (Inr (), sw1)" by (auto split: if_splits)
    then have "nv_workers (sw_session sw1) = None"
      by (auto simp: release_workers_def Let_def split: option.splits prod.splits sum.splits)
    with w show False by simp
  qed
  from that [of w out0] same w run r fin show ?thesis by simp
qed

text \<open>C31. A search answered by resident workers rests on them and on the log: the group was started for the same
  search identity, every rank wrote the exact receipt of this request while all were alive, the beam is the one
  of the first search, a path was replayed on this start state within the step budget, and the log holds one
  terminal record for a path and one per device for no path.\<close>

theorem reused_answer_sound:
  assumes "run_session pid host execute rq sw = Some (Inr out, sw')" and "no_session out = Some (True, pids, n)"
  shows "\<exists>w md j. nv_workers (sw_session sw) = Some w \<and> \<not> rw_closed w \<and> pids = rw_procs w \<and> n = rw_sequence w + 1
    \<and> nv_identity (sw_session sw) = Some (sq_identity rq)
    \<and> completed_poll host (length pids) (rw_group w) (rw_sequence w) j
    \<and> nv_metadata (sw_session sw) = Some md \<and> no_effective out = Some (fst md)
    \<and> (\<forall>path. no_path out = Some path \<longrightarrow> solves (sq_contract rq) path \<and> int (length path) \<le> the_int (sq_max_steps rq))
    \<and> no_records out = Some (if no_path out \<noteq> None then 1 else sq_devices rq)"
proof -
  from assms(1) have guards: "check_owner pid (sw_session sw) = Inr ()" "\<not> nv_closed (sw_session sw)" "\<not> nv_locked (sw_session sw)"
    by (auto simp: run_session_def split: sum.splits if_splits)
  with assms(1) obtain r sw1 where "search_body host execute rq (set_locked True sw) = Some (r, sw1)"
    by (cases "search_body host execute rq (set_locked True sw)") (auto simp: run_session_def)
  with assms(1) guards have body: "search_body host execute rq (set_locked True sw) = Some (Inr out, sw1)"
    by (cases r) (auto simp: run_session_def split: prod.splits sum.splits)
  obtain w out0 where w: "nv_workers (sw_session sw) = Some w" "nv_identity (sw_session sw) = Some (sq_identity rq)"
    and reused: "reused_search host w rq (set_locked True sw) = Some (Inr out0, sw1)"
    and fin: "finish_search rq True out0 sw1 = Inr out"
    by (rule search_body_reused [OF body assms(2)]) (simp add: set_locked_def)
  have workers: "nv_workers (sw_session sw1) = Some (w\<lparr>rw_sequence := rw_sequence w + 1\<rparr>)"
    by (rule reused_search_workers [OF reused])
  from reused_search_answer [OF reused] finish_search_ok [OF fin] assms(2) w workers show ?thesis
    by (auto simp: set_locked_def)
qed


section \<open>A concrete session\<close>

text \<open>Workers that write exact receipts before the first poll, and the log of a solved search.\<close>

definition prompt_host :: resident_host where
  "prompt_host =
     \<lparr>rh_spawn = (\<lambda>_. None), rh_write = (\<lambda>_ _. None),
      rh_poll = (\<lambda>_ n i. \<lparr>po_code = (\<lambda>_. None),
        po_receipt = (\<lambda>rank. Some (Inr (PDict [(''sequence'', PInt (int n)), (''rank'', PInt (int rank))]))), po_elapsed = of_nat i\<rparr>),
      rh_logs = (\<lambda>_ _. None), rh_took = (\<lambda>_ _. 1), rh_stop = (\<lambda>_. None)\<rparr>"

definition silent_host :: resident_host where
  "silent_host = prompt_host\<lparr>rh_poll := (\<lambda>_ _ i. \<lparr>po_code = (\<lambda>_. None), po_receipt = (\<lambda>_. None), po_elapsed = of_nat i\<rparr>)\<rparr>"

definition one_group :: "nat \<Rightarrow> workers" where
  "one_group n = \<lparr>rw_group = 7, rw_procs = [0], rw_sequence = n, rw_closed = False\<rparr>"

lemma one_group_simps [simp]:
  "rw_group (one_group n) = 7" "rw_procs (one_group n) = [0]" "rw_sequence (one_group n) = n" "\<not> rw_closed (one_group n)"
  "(one_group n)\<lparr>rw_sequence := m\<rparr> = one_group m"
  by (simp_all add: one_group_def)

lemma prompt_host_simps [simp]:
  "rh_spawn prompt_host p = None" "rh_write prompt_host g n = None" "rh_logs prompt_host g n = None" "rh_took prompt_host g n = 1"
  by (simp_all add: prompt_host_def)

lemma silent_clock: "po_elapsed (rh_poll silent_host g n k) = of_nat k"
  by (simp add: silent_host_def)


lemma prompt_await: "await_workers prompt_host (Suc 0) gid n timeout 0 = Some (Inr ())"
  by (subst await_workers.simps)
    (simp add: prompt_host_def check_receipts_def receipt_exact_def says_def py_eq_def Let_def insert_commute)

lemma prompt_submit:
  "submit_request prompt_host (one_group n) timeout s
     = Some (Inr 1, one_group (Suc n), s\<lparr>rs_events := rs_events s @ [Requested n]\<rparr>)"
  by (simp add: submit_request_def request_result_def prompt_await Let_def)

definition width_line :: string where
  "width_line = ''global_beam_width_effective=64''"

definition solved_request :: search_request where
  "solved_request =
     \<lparr>sq_identity = PStr ''search'', sq_verified = Inr (), sq_contract = lrx_contract, sq_max_steps = PInt 4, sq_timeout = 9,
      sq_devices = 1, sq_log = [width_line, solved_line], sq_written = None\<rparr>"

lemma width_line_sizes:
  "widths width_line = [64]" "bounded_numbers ''B_MICRO'' False width_line = []"
  "bounded_numbers ''STREAM1_ROWS_PER_JOB'' False width_line = []"
  "bounded_numbers ''STREAM3_BATCH_CANDIDATES'' False width_line = []"
  subgoal by (simp add: widths_def width_line_def map_filter_def number_after_def after_prefix_def span_nat_def span1_def
        is_digit_def nat_of_digits_def digit_value_def)
  by (rule no_bounded_numbers [of "CHR ''B''"] no_bounded_numbers [of "CHR ''S''"]; simp add: width_line_def)+

lemma solved_log:
  "\<exists>md. parse_terminal lrx_contract (Some (PInt 4)) [width_line, solved_line] = Inr (Some [1], Some 64, md) \<and> md_records md = 1"
proof -
  have s: "sublist ''puzzle_solved='' solved_line" "\<not> prefix ''solve_bucket_solution=1 '' solved_line"
    "\<not> prefix ''solve_bucket_summary=1 '' solved_line" "\<not> prefix ''collection_status='' solved_line"
    by (simp_all add: solved_line_def sublist_code)
  have w: "\<not> sublist ''puzzle_solved='' width_line" "\<not> prefix ''solve_bucket_solution=1 '' width_line"
    "\<not> prefix ''solve_bucket_summary=1 '' width_line" "\<not> prefix ''collection_status='' width_line"
    by (simp_all add: width_line_def sublist_code)
  show ?thesis
    by (simp add: parse_terminal_def log_line_def log_collected_def log_counts_def log_sizes_def log_record_def s w
        solved_line_record solved_line_sizes width_line_sizes finish_log_def check_collection_def)
qed


definition solved_outcome :: "rat \<Rightarrow> session_outcome" where
  "solved_outcome took =
     \<lparr>no_path = Some [1], no_elapsed = took, no_effective = Some 64, no_requested = 64, no_records = Some 1, no_profile = [],
      no_session = None\<rparr>"

definition solved_launch :: launch_call where
  "solved_launch =
     \<lparr>lc_group = 7, lc_probe = Inr (0, ''{\"protocol\":\"resident-search-v1\"}''), lc_world = 1, lc_timeout = 9\<rparr>"

definition solved_execution :: execution where
  "solved_execution = Launch solved_launch (\<lambda>r. Finish (map_sum id solved_outcome r))"

definition warm_session :: "nat \<Rightarrow> worker_event list \<Rightarrow> session_world" where
  "warm_session n events =
     \<lparr>sw_self = 1, sw_active = None,
      sw_session = \<lparr>nv_owner = 0, nv_closed = False, nv_workers = Some (one_group n), nv_identity = Some (PStr ''search''),
                    nv_metadata = Some (64, []), nv_token = None, nv_locked = False\<rparr>,
      sw_resident = \<lparr>rs_next = 1, rs_events = events\<rparr>\<rparr>"

lemma solved_probe: "probe_runner solved_launch = Inr ()"
  by (simp add: probe_runner_def solved_launch_def py_strip_def py_rstrip_def is_space_def)

lemma solved_launch_simps [simp]:
  "lc_group solved_launch = 7" "lc_world solved_launch = 1" "lc_timeout solved_launch = 9"
  by (simp_all add: solved_launch_def)

lemma solved_request_simps [simp]:
  "sq_identity solved_request = PStr ''search''" "sq_verified solved_request = Inr ()" "sq_timeout solved_request = 9"
  "sq_devices solved_request = 1" "sq_written solved_request = None"
  by (simp_all add: solved_request_def)

lemma first_run:
  "\<exists>out. run_session 0 prompt_host solved_execution solved_request (new_session 1 None 0)
     = Some (Inr out, warm_session 1 [Spawned 0, Requested 0]) \<and> no_session out = Some (False, [0], 1)"
proof -
  have start: "start_workers prompt_host 7 1 \<lparr>rs_next = 0, rs_events = []\<rparr> = (Inr (one_group 0), \<lparr>rs_next = 1, rs_events = [Spawned 0]\<rparr>)"
    by (simp add: start_workers_def one_group_def Let_def)
  have launch: "launch_workers prompt_host solved_launch (set_locked True (new_session 1 None 0))
    = Some (Inr 1, set_locked True ((new_session 1 None 0)\<lparr>sw_session := (sw_session (new_session 1 None 0))\<lparr>nv_workers := Some (one_group 1)\<rparr>,
        sw_resident := \<lparr>rs_next = 1, rs_events = [Spawned 0, Requested 0]\<rparr>\<rparr>))"
    by (simp add: launch_workers_def solved_probe new_session_def set_locked_def start [simplified] submit_to_def prompt_submit)
  have release: "release_workers prompt_host (set_locked True (new_session 1 None 0)) = (Inr (), set_locked True (new_session 1 None 0))"
    by (simp add: release_workers_def new_session_def set_locked_def Let_def)
  show ?thesis
    using launch release
    by (simp add: run_session_def check_owner_def search_body_def fresh_search_def solved_execution_def finish_search_def
        solved_outcome_def warm_session_def new_session_def set_locked_def Let_def)
qed

lemma second_run:
  "\<exists>out sw. run_session 0 prompt_host solved_execution solved_request (warm_session 1 events) = Some (Inr out, sw)
     \<and> no_session out = Some (True, [0], 2) \<and> no_path out = Some [1]"
proof -
  from solved_log obtain md where md: "parse_terminal lrx_contract (Some (PInt 4)) [width_line, solved_line] = Inr (Some [1], Some 64, md)"
    and one: "md_records md = 1" by blast
  have outcome: "\<exists>out. reused_outcome solved_request (64, []) 1 = Inr out \<and> no_path out = Some [1] \<and> no_records out = Some 1"
    using md one by (simp add: reused_outcome_def solved_request_def)
  show ?thesis
    using outcome
    by (auto simp: run_session_def check_owner_def search_body_def reused_search_def submit_to_def prompt_submit finish_search_def
        warm_session_def set_locked_def Let_def)
qed

lemma reused_answer_sound_witness:
  "\<exists>out sw md j. run_session 0 prompt_host solved_execution solved_request (warm_session 1 []) = Some (Inr out, sw)
     \<and> completed_poll prompt_host (length [0]) 7 1 j \<and> no_effective out = Some (fst md) \<and> solves lrx_contract [1]"
proof -
  from second_run [of "[]"] obtain out sw where run: "run_session 0 prompt_host solved_execution solved_request (warm_session 1 []) = Some (Inr out, sw)"
    and reused: "no_session out = Some (True, [0], 2)" and path: "no_path out = Some [1]" by blast
  from reused_answer_sound [OF run reused] run path show ?thesis
    by (auto simp: warm_session_def solved_request_def)
qed


end
