(* ===== verification/Bundles.thy ===== *)
theory Bundles
  imports Texts
begin

text \<open>
  The input bundles of \<open>problem.py\<close>: the manifest check of a directory, the extraction of an archive and the
  cached download. The file system is an association list from absolute paths (their components) to
  nodes; \<open>..\<close> in a path goes up, so that leaving the target directory is expressible. The digest and
  the JSON parser are parameters. Removing the staging directory is taken to succeed.
\<close>

section \<open>Paths and nodes\<close>

datatype node = Regular string | Folder | Symlink

type_synonym path = "string list"

type_synonym fs = "(path \<times> node) list"

text \<open>\<open>PurePosixPath(s).parts\<close> of a relative path, and whether it is absolute.\<close>

definition posix_parts :: "string \<Rightarrow> path" where
  "posix_parts s = filter (\<lambda>p. p \<noteq> '''' \<and> p \<noteq> ''.'') (split_on CHR ''/'' s)"

definition posix_absolute :: "string \<Rightarrow> bool" where
  "posix_absolute s = prefix ''/'' s"

definition unsafe_name :: "string \<Rightarrow> bool" where
  "unsafe_name s = (posix_absolute s \<or> ''..'' \<in> set (posix_parts s) \<or> CHR 0x5C \<in> set s \<or> CHR '':'' \<in> set s)"

definition resolve_path :: "path \<Rightarrow> path" where
  "resolve_path p = foldl (\<lambda>acc c. if c = ''..'' then butlast acc else acc @ [c]) [] p"

definition under :: "path \<Rightarrow> fs \<Rightarrow> fs" where
  "under base files = filter (\<lambda>(p, _). strict_prefix base p) files"

section \<open>The manifest\<close>

definition manifest_name :: string where
  "manifest_name = ''manifest.json''"

definition manifest_item :: "pyval \<Rightarrow> (nat \<times> string) option" where
  "manifest_item v =
     (case v of
        PDict d \<Rightarrow>
          (case (map_of d ''bytes'', map_of d ''sha256'') of
             (Some (PInt n), Some (PStr h)) \<Rightarrow> if 0 \<le> n \<and> length h = 64 then Some (nat n, h) else None
           | _ \<Rightarrow> None)
      | _ \<Rightarrow> None)"

text \<open>
  One entry of the manifest. A path through a symbolic link fails whatever the link points to: it leaves the
  bundle, or it is found when the directory is listed.
\<close>

definition check_entry :: "(string \<Rightarrow> string) \<Rightarrow> fs \<Rightarrow> path \<Rightarrow> string \<Rightarrow> pyval \<Rightarrow> unit result" where
  "check_entry sha files base name item =
     (let parts = posix_parts name in
      if name = [] \<or> unsafe_name name \<or> name = manifest_name then Inl (ValueError ''unsafe input bundle manifest path'')
      else
        (case manifest_item item of
           None \<Rightarrow> Inl (ValueError ''invalid input bundle manifest entry'')
         | Some (n, h) \<Rightarrow>
             if list_ex (\<lambda>k. map_of files (base @ take k parts) = Some Symlink) [1..<length parts + 1]
             then Inl (ValueError ''unsafe input bundle path'')
             else
               (case map_of files (base @ parts) of
                  Some (Regular data) \<Rightarrow>
                    if length data \<noteq> n \<or> sha data \<noteq> h then Inl (ValueError ''input bundle verification failed'') else Inr ()
                | _ \<Rightarrow> Inl (ValueError ''input bundle verification failed''))))"

definition relative_name :: "path \<Rightarrow> path \<Rightarrow> string" where
  "relative_name base p = join_with CHR ''/'' (drop (length base) p)"

definition manifest_text :: "fs \<Rightarrow> path \<Rightarrow> string result" where
  "manifest_text files base =
     (case map_of files (base @ [manifest_name]) of
        Some (Regular text') \<Rightarrow> Inr text'
      | _ \<Rightarrow> Inl (ValueError ''input bundle is missing manifest.json''))"

definition manifest_object :: "pyval \<Rightarrow> (string, pyval) dict result" where
  "manifest_object v =
     (case v of
        PDict entries \<Rightarrow> if entries = [] then Inl (ValueError ''input bundle manifest must be a nonempty object'') else Inr entries
      | _ \<Rightarrow> Inl (ValueError ''input bundle manifest must be a nonempty object''))"

definition check_listing :: "fs \<Rightarrow> path \<Rightarrow> (string, pyval) dict \<Rightarrow> unit result" where
  "check_listing files base entries =
     (let found = under base files in
      if list_ex (\<lambda>(_, n). n = Symlink) found then Inl (ValueError ''input bundle contains a symbolic link'')
      else if set (map (\<lambda>(p, _). relative_name base p) (filter (\<lambda>(_, n). n \<noteq> Folder) found))
                \<noteq> insert manifest_name (set (map fst entries))
      then Inl (ValueError ''input bundle contains missing or unexpected files'')
      else Inr ())"

definition manifest_entries ::
  "(string \<Rightarrow> string) \<Rightarrow> (string \<Rightarrow> pyval result) \<Rightarrow> fs \<Rightarrow> path \<Rightarrow> (string, pyval) dict result" where
  "manifest_entries sha json files base =
     ebind (manifest_text files base) (\<lambda>text'.
     ebind (json text') (\<lambda>v.
     ebind (manifest_object v) (\<lambda>entries.
     ebind (emap (\<lambda>(name, item). check_entry sha files base name item) entries) (\<lambda>_.
     ebind (check_listing files base entries) (\<lambda>_. Inr entries)))))"

section \<open>Extraction\<close>

record member =
  mb_name :: string
  mb_type :: nat
  mb_size :: nat
  mb_data :: "string result"

definition max_bundle_bytes :: nat where
  "max_bundle_bytes = 2 * 1024 ^ 3"

definition max_bundle_files :: nat where
  "max_bundle_files = 100000"

fun check_members :: "nat \<Rightarrow> string list \<Rightarrow> member list \<Rightarrow> unit result" where
  "check_members so_far names [] = Inr ()"
| "check_members so_far names (mb # mbs) =
     (if posix_parts (mb_name mb) = [] \<or> unsafe_name (mb_name mb) \<or> mb_type mb \<notin> {0, 32768, 16384}
      then Inl (ValueError ''unsafe input bundle entry'')
      else if mb_name mb \<in> set names then Inl (ValueError ''duplicate input bundle entry'')
      else if so_far + mb_size mb > max_bundle_bytes then Inl (ValueError ''input bundle exceeds the extraction limit'')
      else check_members (so_far + mb_size mb) (mb_name mb # names) mbs)"

text \<open>\<open>mkdir(parents=True, exist_ok=True)\<close>: the missing ancestors of a path, from \<open>base\<close> down.\<close>

fun make_dirs :: "path \<Rightarrow> path \<Rightarrow> fs \<Rightarrow> unit result \<times> fs" where
  "make_dirs base [] files = (Inr (), files)"
| "make_dirs base (c # cs) files =
     (case map_of files (base @ [c]) of
        None \<Rightarrow> make_dirs (base @ [c]) cs (files @ [(base @ [c], Folder)])
      | Some Folder \<Rightarrow> make_dirs (base @ [c]) cs files
      | Some _ \<Rightarrow> (Inl (OSError ''File exists''), files))"

definition is_dir_name :: "string \<Rightarrow> bool" where
  "is_dir_name s = (s \<noteq> [] \<and> last s = CHR ''/'')"

definition extract_member :: "path \<Rightarrow> member \<Rightarrow> fs \<Rightarrow> unit result \<times> fs" where
  "extract_member staging mb files =
     (let target = resolve_path (staging @ posix_parts (mb_name mb)) in
      if is_dir_name (mb_name mb) then make_dirs [] target files
      else
        (case make_dirs [] (butlast target) files of
           (Inl e, files') \<Rightarrow> (Inl e, files')
         | (Inr _, files') \<Rightarrow>
             (case mb_data mb of
                Inl e \<Rightarrow> (Inl e, files')
              | Inr data \<Rightarrow>
                  if map_of files' target \<noteq> None then (Inl (OSError ''File exists''), files')
                  else (Inr (), files' @ [(target, Regular data)]))))"

fun extract_members :: "path \<Rightarrow> member list \<Rightarrow> fs \<Rightarrow> unit result \<times> fs" where
  "extract_members staging [] files = (Inr (), files)"
| "extract_members staging (mb # mbs) files =
     (case extract_member staging mb files of
        (Inl e, files') \<Rightarrow> (Inl e, files')
      | (Inr _, files') \<Rightarrow> extract_members staging mbs files')"

text \<open>\<open>rename\<close> of a directory replaces an empty directory and refuses anything else that exists.\<close>

definition rename_dir :: "path \<Rightarrow> path \<Rightarrow> fs \<Rightarrow> fs result" where
  "rename_dir src dest files =
     (if map_of files dest \<notin> {None, Some Folder} \<or> under dest files \<noteq> [] then Inl (OSError ''Directory not empty'')
      else Inr (map (\<lambda>(p, n). if prefix src p then (dest @ drop (length src) p, n) else (p, n))
             (filter (\<lambda>(p, _). p \<noteq> dest) files)))"

definition remove_tree :: "path \<Rightarrow> fs \<Rightarrow> fs" where
  "remove_tree base files = filter (\<lambda>(p, _). \<not> prefix base p) files"

definition extract_archive :: "member list result \<Rightarrow> path \<Rightarrow> fs \<Rightarrow> unit result \<times> fs" where
  "extract_archive archive staging files =
     (case ebind archive (\<lambda>members.
             ebind (raise_if (max_bundle_files < length members) (ValueError ''input bundle contains too many entries'')) (\<lambda>_.
             ebind (check_members 0 [] members) (\<lambda>_. Inr members))) of
        Inl e \<Rightarrow> (Inl e, files)
      | Inr members \<Rightarrow> extract_members staging members files)"

definition extract_bundle ::
  "(string \<Rightarrow> string) \<Rightarrow> (string \<Rightarrow> pyval result) \<Rightarrow> member list result \<Rightarrow> path \<Rightarrow> path \<Rightarrow> fs \<Rightarrow> unit result \<times> fs" where
  "extract_bundle sha json archive staging dest files =
     (case extract_archive archive staging (files @ [(staging, Folder)]) of
        (Inl e, files') \<Rightarrow> (Inl e, remove_tree staging files')
      | (Inr _, files') \<Rightarrow>
          (case ebind (manifest_entries sha json files' staging) (\<lambda>_. rename_dir staging dest files') of
             Inl e \<Rightarrow> (Inl e, remove_tree staging files')
           | Inr renamed \<Rightarrow> (Inr (), renamed)))"


section \<open>What a verified bundle is\<close>

definition proper_part :: "string \<Rightarrow> bool" where
  "proper_part c \<longleftrightarrow> c \<noteq> '''' \<and> c \<noteq> ''.'' \<and> CHR ''/'' \<notin> set c"

text \<open>
  A tree of relative paths: no links, a manifest, every other file listed with its exact size and
  digest, every listed file there.
\<close>

definition verified_tree :: "(string \<Rightarrow> string) \<Rightarrow> (string \<Rightarrow> pyval result) \<Rightarrow> (path \<Rightarrow> node option) \<Rightarrow> bool" where
  "verified_tree sha json tree \<longleftrightarrow>
     (\<exists>text' entries. tree [manifest_name] = Some (Regular text') \<and> json text' = Inr (PDict entries)
       \<and> (\<forall>rel. rel \<noteq> [] \<longrightarrow> tree rel \<noteq> Some Symlink)
       \<and> (\<forall>rel data. rel \<noteq> [] \<and> rel \<noteq> [manifest_name] \<and> tree rel = Some (Regular data) \<longrightarrow>
            (\<exists>item. (join_with CHR ''/'' rel, item) \<in> set entries \<and> manifest_item item = Some (length data, sha data)))
       \<and> (\<forall>(name, item) \<in> set entries. \<exists>data. tree (posix_parts name) = Some (Regular data)))"

lemma posix_parts_join: "rel \<noteq> [] \<Longrightarrow> list_all proper_part rel \<Longrightarrow> posix_parts (join_with CHR ''/'' rel) = rel"
  by (subst posix_parts_def, subst split_join) (auto simp: proper_part_def list_all_iff filter_id_conv)

lemma check_entry_ok:
  assumes "check_entry sha files base name item = Inr u"
  shows "\<not> unsafe_name name \<and> (\<exists>data. map_of files (base @ posix_parts name) = Some (Regular data)
    \<and> manifest_item item = Some (length data, sha data))"
  using assms by (auto simp: check_entry_def Let_def split: if_splits option.splits node.splits)

lemma manifest_sound:
  assumes "manifest_entries sha json files base = Inr entries" "distinct (map fst files)"
    "\<forall>(p, n) \<in> set files. strict_prefix base p \<longrightarrow> list_all proper_part (drop (length base) p)"
  shows "verified_tree sha json (\<lambda>rel. map_of files (base @ rel))"
proof -
  let ?found = "under base files"
  let ?names = "set (map (\<lambda>(p, _). relative_name base p) (filter (\<lambda>(_, n). n \<noteq> Folder) ?found))"
  from assms(1) obtain text' v ys where text': "manifest_text files base = Inr text'" and v: "json text' = Inr v" "manifest_object v = Inr entries"
    and checked: "emap (\<lambda>(name, item). check_entry sha files base name item) entries = Inr ys"
    and listing: "check_listing files base entries = Inr ()"
    by (auto simp: manifest_entries_def ebind_Inr_iff)
  from text' v have man: "map_of files (base @ [manifest_name]) = Some (Regular text')" "json text' = Inr (PDict entries)"
    by (auto simp: manifest_text_def manifest_object_def split: option.splits node.splits pyval.splits if_splits)
  from listing have links: "\<not> list_ex (\<lambda>(_, n). n = Symlink) ?found" and names: "?names = insert manifest_name (set (map fst entries))"
    unfolding check_listing_def Let_def by (metis sum.distinct(1))+
  have found: "(base @ rel, n) \<in> set ?found" if "map_of files (base @ rel) = Some n" "rel \<noteq> []" for rel n
    using that by (auto simp: under_def strict_prefix_def dest: map_of_SomeD)
  have listed: "\<exists>data. map_of files (base @ posix_parts name) = Some (Regular data) \<and> manifest_item item = Some (length data, sha data)"
    if "(name, item) \<in> set entries" for name item
    using emap_each [OF checked that] check_entry_ok by fastforce
  have others: "\<exists>item. (join_with CHR ''/'' rel, item) \<in> set entries \<and> manifest_item item = Some (length data, sha data)"
    if rel: "rel \<noteq> []" "rel \<noteq> [manifest_name]" and reg: "map_of files (base @ rel) = Some (Regular data)" for rel data
  proof -
    note mem = found [OF reg rel(1)]
    then have "(base @ rel, Regular data) \<in> set files" "strict_prefix base (base @ rel)" using rel(1) by (auto simp: under_def)
    with assms(3) have proper: "list_all proper_part rel" by fastforce
    have "join_with CHR ''/'' rel \<in> ?names" using mem by (force simp: relative_name_def)
    moreover have "join_with CHR ''/'' rel \<noteq> manifest_name"
    proof
      assume "join_with CHR ''/'' rel = manifest_name"
      then have "rel = posix_parts manifest_name" using posix_parts_join [OF rel(1) proper] by simp
      also have "\<dots> = [manifest_name]" by (simp add: posix_parts_def manifest_name_def)
      finally show False using rel(2) by simp
    qed
    ultimately obtain item where item: "(join_with CHR ''/'' rel, item) \<in> set entries" unfolding names by auto
    from listed [OF item] reg posix_parts_join [OF rel(1) proper] have "manifest_item item = Some (length data, sha data)" by simp
    with item show ?thesis by blast
  qed
  have no_links: "map_of files (base @ rel) \<noteq> Some Symlink" if "rel \<noteq> []" for rel
    using found [of rel Symlink] that links by (auto simp: list_ex_iff)
  have present: "\<forall>(name, item) \<in> set entries. \<exists>data. map_of files (base @ posix_parts name) = Some (Regular data)"
    using listed by blast
  show ?thesis unfolding verified_tree_def
    by (intro exI [where x = text'] exI [where x = entries] conjI allI impI man present) (use no_links others in simp_all)
qed


section \<open>Extraction stays inside the staging directory\<close>

lemma resolve_path_plain: "''..'' \<notin> set p \<Longrightarrow> resolve_path p = p"
proof -
  have "''..'' \<notin> set p \<Longrightarrow> foldl (\<lambda>acc c. if c = ''..'' then butlast acc else acc @ [c]) acc p = acc @ p" for acc
    by (induction p arbitrary: acc) auto
  then show "''..'' \<notin> set p \<Longrightarrow> resolve_path p = p" by (simp add: resolve_path_def)
qed

lemma posix_parts_proper: "list_all proper_part (posix_parts s)"
  by (auto simp: posix_parts_def proper_part_def list_all_iff dest: split_on_no_sep)

text \<open>What a staging directory may hold during the extraction, and that nothing else changed.\<close>

definition staged :: "path \<Rightarrow> fs \<Rightarrow> fs \<Rightarrow> bool" where
  "staged staging files files' \<longleftrightarrow>
     (\<exists>new. files' = files @ new \<and> distinct (map fst files')
       \<and> (\<forall>(p, n) \<in> set new. strict_prefix staging p \<and> n \<noteq> Symlink \<and> list_all proper_part (drop (length staging) p)))"

lemma staged_refl: "distinct (map fst files) \<Longrightarrow> staged staging files files"
  by (auto simp: staged_def)

lemma staged_trans: "staged staging a b \<Longrightarrow> staged staging b c \<Longrightarrow> staged staging a c"
  unfolding staged_def by (elim exE conjE) (rule exI [where x = "_ @ _"], auto)

lemma staged_extend:
  assumes "distinct (map fst files)" "map_of files p = None" "strict_prefix staging p" "n \<noteq> Symlink"
    "list_all proper_part (drop (length staging) p)"
  shows "staged staging files (files @ [(p, n)])"
  using assms by (auto simp: staged_def map_of_eq_None_iff)

definition ancestors_exist :: "fs \<Rightarrow> path \<Rightarrow> bool" where
  "ancestors_exist files p \<longleftrightarrow> (\<forall>k. 0 < k \<and> k \<le> length p \<longrightarrow> map_of files (take k p) \<noteq> None)"

lemma staged_ancestors: "staged staging files files' \<Longrightarrow> ancestors_exist files p \<Longrightarrow> ancestors_exist files' p"
  by (auto simp: staged_def ancestors_exist_def map_add_def split: option.splits)

lemma staged_distinct: "staged staging files files' \<Longrightarrow> distinct (map fst files')"
  by (auto simp: staged_def)

lemma make_dirs_staged:
  assumes "make_dirs base cs files = (r, files')" "base @ cs = staging @ parts" "ancestors_exist files staging"
    "distinct (map fst files)" "list_all proper_part parts"
  shows "staged staging files files'"
  using assms
proof (induction cs arbitrary: base files)
  case Nil
  then show ?case by (simp add: staged_refl)
next
  case (Cons c cs)
  let ?p = "base @ [c]"
  have step: "?p @ cs = staging @ parts" using Cons.prems(2) by simp
  show ?case
  proof (cases "map_of files ?p")
    case None
    have p: "?p = take (length ?p) (staging @ parts)" using step by (metis append_eq_conv_conj)
    have longer: "length staging < length ?p"
    proof (rule ccontr)
      assume short: "\<not> length staging < length ?p"
      then have "?p = take (length ?p) staging" using p by simp
      moreover have "map_of files (take (length ?p) staging) \<noteq> None"
        using Cons.prems(3) short by (simp add: ancestors_exist_def)
      ultimately show False using None by (metis (no_types))
    qed
    have "take (length ?p) (staging @ parts) = staging @ take (length ?p - length staging) parts" using longer by simp
    with p have p': "?p = staging @ take (length ?p - length staging) parts" by (rule trans)
    then have strict: "strict_prefix staging ?p" using longer by (metis prefixI strict_prefixI less_irrefl)
    have proper: "list_all proper_part (drop (length staging) ?p)"
      using Cons.prems(5) p' by (metis append_eq_conv_conj list_all_append append_take_drop_id)
    have ext: "staged staging files (files @ [(?p, Folder)])"
      by (rule staged_extend [OF Cons.prems(4) None strict _ proper]) simp
    from Cons.prems(1) None have "make_dirs ?p cs (files @ [(?p, Folder)]) = (r, files')" by simp
    from Cons.IH [OF this step staged_ancestors [OF ext Cons.prems(3)] staged_distinct [OF ext] Cons.prems(5)] ext
    show ?thesis by (metis staged_trans)
  next
    case (Some n)
    then show ?thesis
    proof (cases n)
      case Folder
      with Some Cons.prems(1) have "make_dirs ?p cs files = (r, files')" by simp
      from Cons.IH [OF this step Cons.prems(3-5)] show ?thesis .
    qed (use Some Cons.prems staged_refl in auto)
  qed
qed


lemma extract_member_staged:
  assumes "extract_member staging mb files = (r, files')" "posix_parts (mb_name mb) \<noteq> []" "\<not> unsafe_name (mb_name mb)"
    "''..'' \<notin> set staging" "ancestors_exist files staging" "distinct (map fst files)"
  shows "staged staging files files'"
proof -
  let ?parts = "posix_parts (mb_name mb)"
  have target: "resolve_path (staging @ ?parts) = staging @ ?parts"
    by (rule resolve_path_plain) (use assms(3,4) in \<open>simp add: unsafe_name_def\<close>)
  show ?thesis
  proof (cases "is_dir_name (mb_name mb)")
    case True
    with assms(1) target have "make_dirs [] (staging @ ?parts) files = (r, files')" by (simp add: extract_member_def)
    from make_dirs_staged [OF this _ assms(5,6) posix_parts_proper] show ?thesis by simp
  next
    case False
    obtain r1 files1 where dirs: "make_dirs [] (staging @ butlast ?parts) files = (r1, files1)"
      by (cases "make_dirs [] (staging @ butlast ?parts) files")
    have proper: "list_all proper_part (butlast ?parts)"
      using posix_parts_proper [of "mb_name mb"] by (auto simp: list_all_iff dest: in_set_butlastD)
    have s1: "staged staging files files1"
      by (rule make_dirs_staged [OF dirs _ assms(5,6) proper]) simp
    from assms(1,2) False target dirs consider "files' = files1"
      | data where "files' = files1 @ [(staging @ ?parts, Regular data)]" "map_of files1 (staging @ ?parts) = None"
      by (auto simp: extract_member_def Let_def butlast_append split: sum.splits if_splits)
    then show ?thesis
    proof cases
      case 1
      with s1 show ?thesis by simp
    next
      case (2 data)
      have strict: "strict_prefix staging (staging @ ?parts)" using assms(2) by (simp add: strict_prefix_def)
      have "staged staging files1 files'" unfolding 2(1)
        by (rule staged_extend [OF staged_distinct [OF s1] 2(2) strict]) (simp_all add: posix_parts_proper)
      with s1 show ?thesis by (rule staged_trans)
    qed
  qed
qed

lemma check_members_ok:
  "check_members so_far names mbs = Inr u \<Longrightarrow> mb \<in> set mbs \<Longrightarrow> posix_parts (mb_name mb) \<noteq> [] \<and> \<not> unsafe_name (mb_name mb)"
  by (induction so_far names mbs rule: check_members.induct) (auto split: if_splits)

lemma extract_members_staged:
  assumes "extract_members staging mbs files = (r, files')"
    "\<forall>mb \<in> set mbs. posix_parts (mb_name mb) \<noteq> [] \<and> \<not> unsafe_name (mb_name mb)"
    "''..'' \<notin> set staging" "ancestors_exist files staging" "distinct (map fst files)"
  shows "staged staging files files'"
  using assms
proof (induction mbs arbitrary: files)
  case Nil
  then show ?case by (simp add: staged_refl)
next
  case (Cons mb mbs)
  obtain r1 files1 where one: "extract_member staging mb files = (r1, files1)" by (cases "extract_member staging mb files")
  have s1: "staged staging files files1"
    by (rule extract_member_staged [OF one]) (use Cons.prems in auto)
  show ?case
  proof (cases r1)
    case (Inl e)
    with one Cons.prems(1) s1 show ?thesis by simp
  next
    case (Inr u)
    with one Cons.prems(1) have rest: "extract_members staging mbs files1 = (r, files')" by simp
    have "staged staging files1 files'"
      by (rule Cons.IH [OF rest _ Cons.prems(3) staged_ancestors [OF s1 Cons.prems(4)] staged_distinct [OF s1]])
        (use Cons.prems(2) in simp)
    with s1 show ?thesis by (rule staged_trans)
  qed
qed

lemma extract_archive_staged:
  assumes "extract_archive archive staging files = (r, files')"
    "''..'' \<notin> set staging" "ancestors_exist files staging" "distinct (map fst files)"
  shows "staged staging files files'"
proof (cases "files' = files")
  case True
  with assms(4) show ?thesis by (simp add: staged_refl)
next
  case False
  with assms(1) obtain mbs where mbs: "extract_members staging mbs files = (r, files')" "check_members 0 [] mbs = Inr ()"
    by (auto simp: extract_archive_def ebind_Inr_iff split: sum.splits)
  show ?thesis by (rule extract_members_staged [OF mbs(1) _ assms(2-4)]) (use check_members_ok [OF mbs(2)] in blast)
qed


section \<open>Extraction is atomic\<close>

lemma rename_dir_spec:
  assumes "rename_dir src dest files = Inr renamed" "distinct (map fst files)" "\<not> prefix src dest" "\<not> prefix dest src"
  shows "map_of renamed (dest @ rel) = map_of files (src @ rel)"
    and "\<not> prefix dest p \<Longrightarrow> map_of renamed p = (if prefix src p then None else map_of files p)"
    and "map_of files dest \<in> {None, Some Folder}"
proof -
  let ?g = "\<lambda>p. if prefix src p then dest @ drop (length src) p else p"
  let ?kept = "filter (\<lambda>(p, _). p \<noteq> dest) files"
  from assms(1) have empty: "under dest files = []" and dest: "map_of files dest \<in> {None, Some Folder}"
    and ren: "renamed = map (\<lambda>(p, n). (?g p, n)) ?kept"
    by (auto simp: rename_dir_def split: if_splits)
  show "map_of files dest \<in> {None, Some Folder}" by (rule dest)
  have free: "\<not> prefix dest p" if "(p, n) \<in> set ?kept" for p n
    using empty that by (auto simp: under_def filter_empty_conv strict_prefix_def)
  have inj: "inj_on ?g (fst ` set ?kept)"
  proof (rule inj_onI)
    fix p q
    assume "p \<in> fst ` set ?kept" "q \<in> fst ` set ?kept" and eq: "?g p = ?g q"
    then have "\<not> prefix dest p" "\<not> prefix dest q" using free by auto
    with eq show "p = q" by (auto simp: prefix_def split: if_splits)
  qed
  have "distinct (map fst ?kept)" using assms(2) by (simp add: distinct_map_filter)
  then have "distinct (map ?g (map fst ?kept))" using inj by (simp only: distinct_map [of ?g] set_map simp_thms)
  then have dist: "distinct (map fst renamed)" by (simp add: ren comp_def case_prod_beta)
  have mem: "map_of renamed q = Some n \<longleftrightarrow> (\<exists>p. (p, n) \<in> set files \<and> p \<noteq> dest \<and> q = ?g p)" for q n
    unfolding map_of_eq_Some_iff [OF dist] by (simp add: ren image_iff Bex_def split_paired_Ex)
  have old: "map_of files p = Some n \<longleftrightarrow> (p, n) \<in> set files" for p n by (rule map_of_eq_Some_iff [OF assms(2)])
  have "map_of renamed (dest @ rel) = Some n \<longleftrightarrow> map_of files (src @ rel) = Some n" for n
  proof
    assume "map_of renamed (dest @ rel) = Some n"
    then obtain p where p: "(p, n) \<in> set files" "p \<noteq> dest" "dest @ rel = ?g p" unfolding mem by blast
    then have "prefix src p" using free [of p n] by (auto split: if_splits)
    with p(3) have "p = src @ rel" by (auto simp: prefix_def)
    with p(1) show "map_of files (src @ rel) = Some n" unfolding old by simp
  next
    assume "map_of files (src @ rel) = Some n"
    then have "(src @ rel, n) \<in> set files" unfolding old .
    moreover have "src @ rel \<noteq> dest" using assms(3) by auto
    ultimately show "map_of renamed (dest @ rel) = Some n" unfolding mem by (intro exI [where x = "src @ rel"]) simp
  qed
  then show "map_of renamed (dest @ rel) = map_of files (src @ rel)" by (metis not_Some_eq)
  assume out: "\<not> prefix dest p"
  have "map_of renamed p = Some n \<longleftrightarrow> (if prefix src p then None else map_of files p) = Some n" for n
  proof -
    have g: "p = ?g q \<longleftrightarrow> \<not> prefix src q \<and> q = p" for q using out by (cases "prefix src q") auto
    have "p \<noteq> dest" using out by auto
    then show ?thesis unfolding mem g by (auto simp: old)
  qed
  then show "map_of renamed p = (if prefix src p then None else map_of files p)"
    by (metis not_Some_eq)
qed

text \<open>C32. Extracting an input bundle is atomic and confined: when it fails, the file system is exactly what it was,
  and when it succeeds, nothing outside the destination changed and the destination holds a verified bundle: no
  links, every file listed in its manifest with the exact size and digest, and every listed file present.\<close>

theorem extract_bundle_atomic:
  assumes "distinct (map fst files)" "staging \<noteq> []" "''..'' \<notin> set staging" "ancestors_exist files (butlast staging)"
    and "\<forall>p \<in> fst ` set files. \<not> prefix staging p" "\<not> prefix staging dest" "\<not> prefix dest staging"
  shows "case extract_bundle sha json archive staging dest files of
      (Inl e, files') \<Rightarrow> files' = files
    | (Inr _, files') \<Rightarrow>
        (\<forall>p. \<not> prefix dest p \<longrightarrow> map_of files' p = map_of files p)
        \<and> verified_tree sha json (\<lambda>rel. map_of files' (dest @ rel))"
proof -
  let ?start = "files @ [(staging, Folder)]"
  have new: "map_of files staging = None" using assms(5) by (auto simp: map_of_eq_None_iff)
  have dist: "distinct (map fst ?start)" using assms(1,5) by auto
  have anc: "ancestors_exist ?start staging"
  proof -
    have "map_of ?start (take k staging) \<noteq> None" if "0 < k" "k \<le> length staging" for k
    proof (cases "k = length staging")
      case True
      then show ?thesis by (simp add: map_add_def split: option.splits)
    next
      case False
      with that have "take k staging = take k (butlast staging)" "k \<le> length (butlast staging)"
        by (auto simp: butlast_conv_take)
      with assms(4) that(1) show ?thesis by (auto simp: ancestors_exist_def map_add_def split: option.splits)
    qed
    then show ?thesis unfolding ancestors_exist_def by blast
  qed
  obtain r files1 where ex: "extract_archive archive staging ?start = (r, files1)"
    by (cases "extract_archive archive staging ?start")
  from extract_archive_staged [OF ex assms(3) anc dist] obtain fresh where
    files1: "files1 = ?start @ fresh" and dist1: "distinct (map fst files1)"
    and fresh: "\<forall>(p, n) \<in> set fresh. strict_prefix staging p \<and> n \<noteq> Symlink \<and> list_all proper_part (drop (length staging) p)"
    by (auto simp: staged_def)
  have cleaned: "remove_tree staging files1 = files"
  proof -
    have "filter (\<lambda>(p, _). \<not> prefix staging p) files = files" using assms(5) by (auto simp: filter_id_conv)
    moreover have "filter (\<lambda>(p, _). \<not> prefix staging p) fresh = []" using fresh by (auto simp: filter_empty_conv strict_prefix_def)
    ultimately show ?thesis by (simp add: remove_tree_def files1)
  qed
  show ?thesis
  proof (cases "\<exists>entries renamed. r = Inr () \<and> manifest_entries sha json files1 staging = Inr entries \<and> rename_dir staging dest files1 = Inr renamed")
    case False
    then obtain e where "extract_bundle sha json archive staging dest files = (Inl e, files)"
      using ex cleaned
      by (cases r; cases "manifest_entries sha json files1 staging"; cases "rename_dir staging dest files1")
        (auto simp: extract_bundle_def)
    then show ?thesis by simp
  next
    case True
    then obtain entries renamed where r: "r = Inr ()" and man: "manifest_entries sha json files1 staging = Inr entries"
      and ren: "rename_dir staging dest files1 = Inr renamed" by blast
    have res: "extract_bundle sha json archive staging dest files = (Inr (), renamed)"
      using ex r man ren by (simp add: extract_bundle_def)
    note spec = rename_dir_spec [OF ren dist1 assms(6,7)]
    have "\<forall>(p, n) \<in> set files1. strict_prefix staging p \<longrightarrow> list_all proper_part (drop (length staging) p)"
      using fresh assms(5) by (auto simp: files1 strict_prefix_def)
    from manifest_sound [OF man dist1 this] have ver: "verified_tree sha json (\<lambda>rel. map_of renamed (dest @ rel))"
      by (simp add: spec(1))
    have same: "map_of renamed p = map_of files p" if "\<not> prefix dest p" for p
    proof (cases "prefix staging p")
      case True
      then have "map_of files p = None" using assms(5) by (auto simp: map_of_eq_None_iff)
      with True spec(2) [OF that] show ?thesis by simp
    next
      case False
      then have "map_of (((staging, Folder) # fresh)) p = None" using fresh by (auto simp: map_of_eq_None_iff strict_prefix_def)
      with False spec(2) [OF that] show ?thesis by (simp add: files1 map_add_def split: option.splits)
    qed
    from res ver same show ?thesis by simp
  qed
qed


definition one_file_archive :: "member list" where
  "one_file_archive =
     [\<lparr>mb_name = ''manifest.json'', mb_type = 32768, mb_size = 2, mb_data = Inr ''{}''\<rparr>,
      \<lparr>mb_name = ''d/a'', mb_type = 0, mb_size = 2, mb_data = Inr ''hi''\<rparr>]"

definition zero_digest :: "string \<Rightarrow> string" where
  "zero_digest s = replicate 64 CHR ''0''"

definition one_file_json :: "string \<Rightarrow> pyval result" where
  "one_file_json s = Inr (PDict [(''d/a'', PDict [(''bytes'', PInt 2), (''sha256'', PStr (replicate 64 CHR ''0''))])])"

lemma extract_bundle_atomic_witness:
  "\<exists>files'. extract_bundle zero_digest one_file_json (Inr one_file_archive) [''c'', ''t''] [''c'', ''inputs''] [([''c''], Folder)] = (Inr (), files')
     \<and> verified_tree zero_digest one_file_json (\<lambda>rel. map_of files' ([''c'', ''inputs''] @ rel))"
proof -
  have run: "\<exists>files'. extract_bundle zero_digest one_file_json (Inr one_file_archive) [''c'', ''t''] [''c'', ''inputs''] [([''c''], Folder)] = (Inr (), files')"
    by (simp add: raise_if_def extract_bundle_def extract_archive_def one_file_archive_def max_bundle_files_def max_bundle_bytes_def posix_parts_def
        unsafe_name_def posix_absolute_def extract_member_def resolve_path_def is_dir_name_def
        manifest_entries_def manifest_text_def manifest_name_def one_file_json_def manifest_object_def check_entry_def manifest_item_def
        zero_digest_def check_listing_def under_def relative_name_def rename_dir_def Let_def insert_commute)
  then obtain files' where files': "extract_bundle zero_digest one_file_json (Inr one_file_archive) [''c'', ''t''] [''c'', ''inputs''] [([''c''], Folder)] = (Inr (), files')"
    by blast
  have anc: "ancestors_exist [([''c''], Folder)] (butlast [''c'', ''t''])"
    by (auto simp: ancestors_exist_def take_Cons')
  have "case extract_bundle zero_digest one_file_json (Inr one_file_archive) [''c'', ''t''] [''c'', ''inputs''] [([''c''], Folder)] of
      (Inl e, files') \<Rightarrow> files' = [([''c''], Folder)]
    | (Inr _, files') \<Rightarrow>
        (\<forall>p. \<not> prefix [''c'', ''inputs''] p \<longrightarrow> map_of files' p = map_of [([''c''], Folder)] p)
        \<and> verified_tree zero_digest one_file_json (\<lambda>rel. map_of files' ([''c'', ''inputs''] @ rel))"
    by (rule extract_bundle_atomic [OF _ _ _ anc]) simp_all
  with files' show ?thesis by simp
qed

section \<open>The cached download\<close>

record bundle_host =
  bh_sha :: "string \<Rightarrow> string"
  bh_json :: "string \<Rightarrow> pyval result"
  bh_archive :: "string \<Rightarrow> member list result"
  bh_response :: "string list result"
  bh_staging :: string

text \<open>The response is read block by block; the limit is checked before a block is kept.\<close>

fun read_blocks :: "nat \<Rightarrow> string list \<Rightarrow> string result" where
  "read_blocks so_far [] = Inr []"
| "read_blocks so_far (block # blocks) =
     (if so_far + length block > max_bundle_bytes then Inl (ValueError ''input bundle exceeds the download limit'')
      else ebind (read_blocks (so_far + length block) blocks) (\<lambda>rest. Inr (block @ rest)))"

definition wrong_digest :: "bundle_host \<Rightarrow> string option \<Rightarrow> string \<Rightarrow> bool" where
  "wrong_digest host expected data =
     (case expected of None \<Rightarrow> False | Some h \<Rightarrow> h \<noteq> [] \<and> bh_sha host data \<noteq> h)"

definition fetch_archive :: "bundle_host \<Rightarrow> string option \<Rightarrow> path \<Rightarrow> fs \<Rightarrow> (string \<times> fs) result" where
  "fetch_archive host expected archive files =
     (case map_of files archive of
        Some (Regular data) \<Rightarrow>
          if wrong_digest host expected data then Inl (ValueError ''cached input bundle archive SHA256 mismatch'') else Inr (data, files)
      | found \<Rightarrow>
          ebind (bh_response host) (\<lambda>blocks.
          ebind (read_blocks 0 blocks) (\<lambda>data.
          if wrong_digest host expected data then Inl (ValueError ''input bundle archive SHA256 mismatch'')
          else if found = Some Folder then Inl (OSError ''Is a directory'')
          else Inr (data, filter (\<lambda>(p, _). p \<noteq> archive) files @ [(archive, Regular data)]))))"

definition cached_bundle :: "bundle_host \<Rightarrow> string option \<Rightarrow> path \<Rightarrow> path \<Rightarrow> fs \<Rightarrow> path result" where
  "cached_bundle host expected archive dest files =
     ebind (manifest_entries (bh_sha host) (bh_json host) files dest) (\<lambda>_.
     case map_of files archive of
       Some (Regular data) \<Rightarrow>
         if wrong_digest host expected data then Inl (ValueError ''cached input bundle archive SHA256 mismatch'') else Inr dest
     | _ \<Rightarrow> Inr dest)"

definition download_bundle :: "bundle_host \<Rightarrow> pyval \<Rightarrow> path \<Rightarrow> string option \<Rightarrow> fs \<Rightarrow> path result \<times> fs" where
  "download_bundle host url cache expected files =
     (case url of
        PStr u \<Rightarrow>
          if py_strip u = [] then (Inl (ValueError ''url must be a nonempty string''), files)
          else
            let bundle = cache @ [''bundles'', take 20 (bh_sha host u)]; archive = bundle @ [''inputs.zip''];
                dest = bundle @ [''inputs''] in
            (case make_dirs [] bundle files of
               (Inl e, files1) \<Rightarrow> (Inl e, files1)
             | (Inr _, files1) \<Rightarrow>
                 if map_of files1 dest \<noteq> None then (cached_bundle host expected archive dest files1, files1)
                 else
                   (case fetch_archive host expected archive files1 of
                      Inl e \<Rightarrow> (Inl e, files1)
                    | Inr (data, files2) \<Rightarrow>
                        (case extract_bundle (bh_sha host) (bh_json host) (bh_archive host data) (bundle @ [bh_staging host]) dest files2 of
                           (Inl e, files3) \<Rightarrow> (Inl e, files3)
                         | (Inr _, files3) \<Rightarrow> (Inr dest, files3))))
      | _ \<Rightarrow> (Inl (ValueError ''url must be a nonempty string''), files))"

end
