(* ===== verification/Puzzles.thy ===== *)
theory Puzzles
  imports Results Texts
begin

text \<open>
  The puzzle inputs of \<open>problem.py\<close>: the arguments of a graph, the states and the solutions of a table, and the
  selection of row names. The CSV and JSON parsers are parameters; a table is its header and its
  rows, a row a dictionary whose missing cells are \<open>None\<close>.
\<close>

section \<open>Graphs\<close>

record graph_request =
  gr_generators :: "pyval list"
  gr_names :: "pyval list"
  gr_center :: pyval

definition graph_generators :: "(string, pyval) dict \<Rightarrow> (pyval list \<times> pyval) result" where
  "graph_generators info =
     (case map_of info ''generators'' of
        Some (PDict d) \<Rightarrow> Inr (map snd d, PList (map (PStr \<circ> fst) d))
      | Some (PList ps) \<Rightarrow>
          Inr (ps, case map_of info ''generator_names'' of
                     Some names \<Rightarrow> names | None \<Rightarrow> PList (map (\<lambda>i. PStr (''m'' @ str_nat i)) [0..<length ps]))
      | _ \<Rightarrow> Inl (ValueError ''graph_info.generators must be a mapping or a list''))"

definition graph_request_of :: "(string, pyval) dict \<Rightarrow> pyval list \<times> pyval \<Rightarrow> graph_request result" where
  "graph_request_of info given' =
     (case given' of (permutations, names) \<Rightarrow>
        let middle = (case map_of info ''central_state'' of Some v \<Rightarrow> v | None \<Rightarrow> PNone) in
        if sequence_items middle = None \<or> permutations = []
        then Inl (ValueError ''graph_info must contain generators and central_state'')
        else
          (case sequence_items names of
             Some ns \<Rightarrow>
               if length ns \<noteq> length permutations then Inl (ValueError ''generator_names must match the ordered generators'')
               else Inr \<lparr>gr_generators = permutations, gr_names = ns, gr_center = middle\<rparr>
           | None \<Rightarrow> Inl (ValueError ''generator_names must match the ordered generators'')))"

definition load_graph :: "(string \<Rightarrow> pyval result) \<Rightarrow> pyval \<Rightarrow> graph_request result" where
  "load_graph read_json graph_info =
     ebind (case graph_info of PStr file \<Rightarrow> read_json file | v \<Rightarrow> Inr v) (\<lambda>v.
     case v of
       PDict info \<Rightarrow> ebind (graph_generators info) (graph_request_of info)
     | _ \<Rightarrow> Inl (ValueError ''graph_info must be a mapping or a JSON file path''))"

section \<open>Tables\<close>

record csv_table =
  ct_fields :: "string list option"
  ct_rows :: "(string, string option) dict list"

definition check_columns :: "csv_table \<Rightarrow> string list \<Rightarrow> unit result" where
  "check_columns t columns =
     (if list_all (\<lambda>c. c \<in> set (case ct_fields t of Some fs \<Rightarrow> fs | None \<Rightarrow> [])) columns then Inr ()
      else Inl (ValueError ''CSV must contain columns''))"

definition cell :: "(string, string option) dict \<Rightarrow> string \<Rightarrow> string result" where
  "cell row column =
     ebind (dict_item row column) (\<lambda>v.
     case v of Some s \<Rightarrow> Inr (py_strip s) | None \<Rightarrow> Inl (AttributeError ''strip''))"

text \<open>\<open>int(s)\<close> of any text: blanks around, a sign, single underscores between digits.\<close>

definition int_literal :: "string \<Rightarrow> int result" where
  "int_literal s =
     (let (neg, body) = signed (py_strip s); ws = split_on CHR ''_'' body in
      if list_all (\<lambda>w. w \<noteq> [] \<and> all_digits w) ws
      then Inr (let n = int (nat_of_digits (concat ws)) in if neg then - n else n)
      else Inl (ValueError ''invalid literal for int()''))"

text \<open>\<open>int(value)\<close> of a JSON value truncates a finite float toward zero.\<close>

fun int_value :: "pyval \<Rightarrow> int result" where
  "int_value (PInt i) = Inr i"
| "int_value (PBool b) = Inr (if b then 1 else 0)"
| "int_value (PFloat (Fin r)) = Inr (if 0 \<le> r then floor r else - floor (- r))"
| "int_value (PFloat NaN) = Inl (ValueError ''cannot convert float NaN to integer'')"
| "int_value (PFloat _) = Inl (OverflowError ''cannot convert float infinity to integer'')"
| "int_value (PStr s) = int_literal s"
| "int_value _ = Inl (TypeError ''int() argument'')"

definition state_values :: "(string \<Rightarrow> pyval result) \<Rightarrow> char \<Rightarrow> string \<Rightarrow> pyval list result" where
  "state_values json separator raw =
     ebind (if prefix ''['' raw then json raw else Inr (PList (map PStr (split_on separator raw)))) (\<lambda>v.
     case sequence_items v of
       Some values \<Rightarrow>
         if values = [] then Inl (ValueError ''state must be a nonempty integer vector'') else Inr values
     | None \<Rightarrow> Inl (ValueError ''state must be a nonempty integer vector''))"

text \<open>Of the conversion errors only \<open>TypeError\<close> and \<open>ValueError\<close> are renamed.\<close>

definition state_of_text :: "(string \<Rightarrow> pyval result) \<Rightarrow> char \<Rightarrow> string \<Rightarrow> int list result" where
  "state_of_text json separator raw =
     ebind (state_values json separator raw) (\<lambda>values.
     case emap int_value values of
       Inr state \<Rightarrow> Inr state
     | Inl (OverflowError s) \<Rightarrow> Inl (OverflowError s)
     | Inl _ \<Rightarrow> Inl (ValueError ''state contains a non-integer''))"

definition add_state ::
  "(string \<Rightarrow> pyval result) \<Rightarrow> string \<Rightarrow> string \<Rightarrow> char \<Rightarrow> (string, int list) dict \<Rightarrow> (string, string option) dict
     \<Rightarrow> (string, int list) dict result" where
  "add_state json id_column state_column separator output row =
     ebind (cell row id_column) (\<lambda>key.
     if key = [] then Inl (ValueError ''state CSV contains an empty ID'')
     else if map_of output key \<noteq> None then Inl (ValueError ''duplicate state ID'')
     else
       ebind (cell row state_column) (\<lambda>raw.
       ebind (state_of_text json separator raw) (\<lambda>state. Inr (output @ [(key, state)]))))"

definition read_states ::
  "(string \<Rightarrow> pyval result) \<Rightarrow> string \<Rightarrow> string \<Rightarrow> char \<Rightarrow> csv_table \<Rightarrow> (string, int list) dict result" where
  "read_states json id_column state_column separator t =
     ebind (check_columns t [id_column, state_column]) (\<lambda>_.
     ebind (efold (add_state json id_column state_column separator) [] (ct_rows t)) (\<lambda>output.
     if output = [] then Inl (ValueError ''state CSV contains no rows'') else Inr output))"

definition path_values :: "(string \<Rightarrow> pyval result) \<Rightarrow> char \<Rightarrow> string \<Rightarrow> pyval result" where
  "path_values json separator raw =
     (if prefix ''['' raw then json raw
      else Inr (PList (map PStr (filter (\<lambda>x. x \<noteq> []) (if raw = [] then [] else split_on separator raw)))))"

definition add_path ::
  "(pyval \<Rightarrow> nat list result) \<Rightarrow> (string \<Rightarrow> pyval result) \<Rightarrow> string \<Rightarrow> string \<Rightarrow> char
     \<Rightarrow> (string, nat list) dict \<Rightarrow> (string, string option) dict \<Rightarrow> (string, nat list) dict result" where
  "add_path resolve json id_column path_column separator output row =
     ebind (cell row id_column) (\<lambda>key.
     if key = [] then Inl (ValueError ''solution CSV contains an empty ID'')
     else if map_of output key \<noteq> None then Inl (ValueError ''duplicate solution ID'')
     else
       ebind (cell row path_column) (\<lambda>raw.
       ebind (path_values json separator raw) (\<lambda>steps.
       ebind (resolve steps) (\<lambda>path. Inr (output @ [(key, path)])))))"

definition read_paths ::
  "(nat list list \<Rightarrow> int list \<Rightarrow> string) \<Rightarrow> graph_definition option \<Rightarrow> (string \<Rightarrow> pyval result) \<Rightarrow> string \<Rightarrow> string \<Rightarrow> char
     \<Rightarrow> csv_table \<Rightarrow> (string, nat list) dict result" where
  "read_paths fingerprint defn json id_column path_column separator t =
     ebind (check_columns t [id_column, path_column]) (\<lambda>_.
     efold (add_path (resolve_move_path fingerprint defn) json id_column path_column separator) [] (ct_rows t))"

section \<open>Row names\<close>

definition range_ids :: "pyval \<Rightarrow> pyval \<Rightarrow> string list result" where
  "range_ids first_id last' =
     (if \<not> is_int first_id \<or> (last' \<noteq> PNone \<and> \<not> is_int last') \<or> the_int first_id < 0
      then Inl (ValueError ''start and end must be nonnegative integer IDs'')
      else
        let end' = (if last' = PNone then the_int first_id else the_int last') in
        if end' < the_int first_id then Inl (ValueError ''end must be greater than or equal to start'')
        else Inr (map str_int [the_int first_id..end']))"

definition listed_ids :: "(string \<Rightarrow> string list list) \<Rightarrow> string result \<Rightarrow> string list result" where
  "listed_ids csv response =
     ebind response (\<lambda>text'.
     if length text' > 1000000 then Inl (ValueError ''ID list is too large'')
     else Inr (filter (\<lambda>v. v \<noteq> []) (map py_strip (concat (csv text')))))"

definition select_ids ::
  "(string list \<Rightarrow> string) \<Rightarrow> (string \<Rightarrow> string list list) \<Rightarrow> string result option \<Rightarrow> bool \<Rightarrow> pyval \<Rightarrow> pyval \<Rightarrow> string list result" where
  "select_ids draw csv response random_choice first_id last' =
     ebind (case response of Some r \<Rightarrow> listed_ids csv r | None \<Rightarrow> range_ids first_id last') (\<lambda>ids.
     if ids = [] then Inl (ValueError ''expected at least one ID'')
     else if random_choice then Inr [draw ids] else Inr ids)"


section \<open>Graph requests and tables are complete\<close>

lemma graph_request_named:
  "graph_request_of info given' = Inr g \<Longrightarrow> length (gr_names g) = length (gr_generators g) \<and> gr_generators g \<noteq> []"
  by (auto simp: graph_request_of_def Let_def split: prod.splits option.splits if_splits)

lemma range_ids_exact:
  "range_ids (PInt a) (PInt b) = Inr ids \<Longrightarrow> ids = map str_int [a..b] \<and> 0 \<le> a \<and> a \<le> b"
  by (auto simp: range_ids_def Let_def split: if_splits)

text \<open>A float in a state is truncated without an error, although the error text promises an integer vector.\<close>

lemma state_truncates:
  "state_of_text (\<lambda>_. Inr (PList [PFloat (Fin (3 / 2)), PInt 1])) CHR '','' ''[1.5,1]'' = Inr [1, 1]"
  by (simp add: state_of_text_def state_values_def floor_eq_iff)

lemma no_space_strip: "\<forall>c \<in> set s. \<not> is_space c \<Longrightarrow> py_strip s = s"
proof -
  have keep: "\<forall>c \<in> set t. \<not> is_space c \<Longrightarrow> dropWhile is_space t = t" for t by (cases t) auto
  assume "\<forall>c \<in> set s. \<not> is_space c"
  with keep [of s] keep [of "rev s"] show ?thesis by (simp add: py_strip_def py_rstrip_def)
qed

lemma digit_not_space: "is_digit c \<Longrightarrow> \<not> is_space c"
  by (auto simp: is_digit_def is_space_def Let_def)

lemma str_int_chars: "c \<in> set (str_int i) \<Longrightarrow> is_digit c \<or> c = CHR ''-''"
  using str_nat_digits by (auto simp: str_int_def list_all_iff split: if_splits)

lemma int_literal_str_int [simp]: "int_literal (str_int i) = Inr i"
proof -
  have "py_strip (str_int i) = str_int i"
    by (rule no_space_strip) (use str_int_chars digit_not_space in \<open>fastforce simp: is_space_def\<close>)
  moreover have word: "split_on CHR ''_'' (str_nat n) = [str_nat n]" for n
    by (rule split_on_word) (use str_nat_digits [of n] in \<open>auto simp: list_all_iff is_digit_def\<close>)
  moreover have "signed (str_nat n) = (False, str_nat n)" for n
    using str_nat_digits [of n] by (cases "str_nat n") (auto simp: signed_def is_digit_def)
  ultimately show ?thesis
    using str_nat_digits by (simp add: int_literal_def str_int_def signed_def [of "CHR ''-'' # _"] all_digits_def nat_of_digits_str_nat)
qed

definition plain_separator :: "char \<Rightarrow> bool" where
  "plain_separator c \<longleftrightarrow> \<not> is_digit c \<and> c \<noteq> CHR ''-'' \<and> \<not> is_space c"

definition state_text :: "char \<Rightarrow> int list \<Rightarrow> string" where
  "state_text separator xs = join_with separator (map str_int xs)"

lemma set_join_with: "set (join_with c ws) \<subseteq> insert c (\<Union> (set ` set ws))"
  by (induction c ws rule: join_with.induct) auto

lemma state_text_strip: "plain_separator separator \<Longrightarrow> py_strip (state_text separator xs) = state_text separator xs"
proof (rule no_space_strip, rule ballI)
  fix c assume sep: "plain_separator separator" and "c \<in> set (state_text separator xs)"
  then consider "c = separator" | i where "c \<in> set (str_int i)" using set_join_with [of separator "map str_int xs"] by (auto simp: state_text_def)
  then show "\<not> is_space c"
  proof cases
    case 2
    then show ?thesis using str_int_chars digit_not_space by (fastforce simp: is_space_def)
  qed (use sep in \<open>simp add: plain_separator_def\<close>)
qed

lemma str_int_first: "\<exists>c cs. str_int i = c # cs \<and> c \<noteq> CHR ''[''"
proof -
  obtain c cs where s: "str_int i = c # cs" by (cases "str_int i") (auto simp: str_int_def split: if_splits)
  then have "is_digit c \<or> c = CHR ''-''" using str_int_chars [of c i] by simp
  with s show ?thesis by (auto simp: is_digit_def)
qed

lemma state_text_not_json: "xs \<noteq> [] \<Longrightarrow> \<not> prefix ''['' (state_text separator xs)"
proof -
  assume "xs \<noteq> []"
  then obtain x ys where "xs = x # ys" by (cases xs) auto
  with str_int_first [of x] show ?thesis by (cases ys) (auto simp: state_text_def)
qed

lemma state_text_roundtrip:
  assumes "plain_separator separator" "xs \<noteq> []"
  shows "state_of_text json separator (state_text separator xs) = Inr xs"
proof -
  have sep: "\<forall>w \<in> set (map str_int xs). separator \<notin> set w"
    using assms(1) str_int_chars by (fastforce simp: plain_separator_def)
  have "split_on separator (state_text separator xs) = map str_int xs"
    unfolding state_text_def by (rule split_join) (use assms(2) sep in auto)
  moreover have "emap int_value (map PStr (map str_int xs)) = Inr xs"
    by (induction xs) auto
  ultimately show ?thesis
    using assms(2) state_text_not_json [OF assms(2), of separator] by (simp add: state_of_text_def state_values_def)
qed

definition state_row :: "string \<Rightarrow> string \<Rightarrow> char \<Rightarrow> string \<times> int list \<Rightarrow> (string, string option) dict" where
  "state_row id_column state_column separator p = [(id_column, Some (fst p)), (state_column, Some (state_text separator (snd p)))]"

text \<open>C33. A table of states is read back exactly: for distinct trimmed row names and nonempty integer states, written
  with any separator that cannot occur in a number, \<open>read_states\<close> returns the same names and states in order.\<close>

theorem read_states_roundtrip:
  assumes "plain_separator separator" "id_column \<noteq> state_column" "rows \<noteq> []" "distinct (map fst rows)"
    "\<forall>(key, xs) \<in> set rows. key \<noteq> [] \<and> py_strip key = key \<and> xs \<noteq> []"
  shows "read_states json id_column state_column separator
      \<lparr>ct_fields = Some [id_column, state_column], ct_rows = map (state_row id_column state_column separator) rows\<rparr> = Inr rows"
proof -
  have "efold (add_state json id_column state_column separator) acc (map (state_row id_column state_column separator) rows) = Inr (acc @ rows)"
    if "distinct (map fst (acc @ rows))" "\<forall>(key, xs) \<in> set rows. key \<noteq> [] \<and> py_strip key = key \<and> xs \<noteq> []" for acc
    using that
  proof (induction rows arbitrary: acc)
    case (Cons p rows)
    obtain key xs where p: "p = (key, xs)" by (cases p)
    from Cons.prems p have new: "map_of acc key = None" and key: "key \<noteq> []" "py_strip key = key" "xs \<noteq> []"
      by (auto simp: map_of_eq_None_iff image_iff)
    have "add_state json id_column state_column separator acc (state_row id_column state_column separator p) = Inr (acc @ [p])"
      using new key assms(1,2) by (simp add: add_state_def cell_def dict_item_def state_row_def p state_text_strip state_text_roundtrip)
    with Cons.IH [of "acc @ [p]"] Cons.prems show ?case by simp
  qed simp
  from this [of "[]"] assms(3-5) show ?thesis by (simp add: read_states_def check_columns_def)
qed

lemma read_states_roundtrip_witness:
  "read_states (\<lambda>_. Inr PNone) ''id'' ''state'' CHR '',''
      \<lparr>ct_fields = Some [''id'', ''state''], ct_rows = map (state_row ''id'' ''state'' CHR '','') [(''7'', [2, -1, 10]), (''8'', [0])]\<rparr>
     = Inr [(''7'', [2, -1, 10]), (''8'', [0])]"
  by (rule read_states_roundtrip) (simp_all add: plain_separator_def is_digit_def is_space_def py_strip_def py_rstrip_def)

end
