(* ===== verification/Spec2Isabelle.thy ===== *)
theory Spec2Isabelle
  imports Verifier Hamming Exporter Cluster Receipts Reflection Results CnotSearch Frontiers Working Components Execution Registry Calibration Resident Bundles Puzzles Autotune
begin

text \<open>
  MultiGPUBeamSearch: a verification library for its Python part.

  The program is an adapter that runs CayleyPy beam searches on a native multi-GPU worker. A caller gives a
  graph of generators, a start state and a predictor; the adapter admits the graph, exports or checks the
  model, sizes and tunes the search for the selected GPUs, starts the native worker on every rank, and
  validates by replay whatever the worker reports. Beside it stands a distributed beam search for CNOT
  circuits written in Python on packed GF(2) matrices. All file names below are relative to
  \<open>src/integrations/cayleypy_native/multigpubeamsearch\<close> unless they start with \<open>src/\<close>.

  The parts and their theories

  The mathematical boundary. \<open>Contracts\<close> holds \<open>GraphContract\<close> (\<open>contracts.py\<close>): the admission
  \<open>from_graph\<close>, \<open>to_puzzle_info\<close> and \<open>replay\<close>, with the action of move paths on states as its
  specification. \<open>Results\<close> resolves and saves reported paths (\<open>results.py\<close>), and \<open>Reflection\<close>
  (\<open>reflection.py\<close>) turns a solution into searches of the inverse puzzle and converts what they find back.
  Everything that is saved or published replays in the frame of the caller.

  The CNOT search. \<open>CnotDomain\<close> has rows as integers and as lanes of 64-bit words, \<open>pack_rows\<close>,
  \<open>replay_cnot\<close>, the input check and the primitives of \<open>cnot_native.py\<close>; \<open>CnotGf2\<close> proves that the
  elimination decides invertibility and that a packed child is a row addition; \<open>CnotPrimitives\<close> has routes,
  owners and the unseen filter; \<open>CnotSelection\<close> the radix cutoff of \<open>cnot_selection.py\<close> against the plain
  sorted beam; \<open>CnotSearch\<close> the collectives, the state of every rank and the whole search of \<open>cnot.py\<close>,
  whose layers keep an invariant that leads from every frontier row back to the root. \<open>Verifier\<close> is
  the independent check of receipts (\<open>src/tools/verify_cnot.py\<close>): an accepted receipt rebuilds its
  input, its layers are complete when no shortlist is used, and a reported exact distance is the shortest.

  Models. \<open>Artifacts\<close> validates exported networks and ensembles (\<open>models.py\<close>); \<open>Networks\<close> is the
  forward pass such blobs describe; \<open>Hamming\<close> proves that the network of \<open>hamming.py\<close> counts mismatches,
  and \<open>Exporter\<close> that \<open>src/tools/export_stream1_mlp.py\<close> preserves what a network with batch normalisation
  computes (folding, padding, layout), against the reference network of \<open>models.py\<close>.

  Options, dispatch and registration. \<open>Options\<close> (\<open>options.py\<close>) characterises what validation accepts;
  \<open>Dispatch\<close> is one dispatched search with its fallback, and \<open>Registry\<close> the registration with CayleyPy as a
  step relation whose every reachable state can be undone (\<open>dispatch.py\<close>).

  The native run. \<open>Runtime\<close> and \<open>Execution\<close> prepare and supervise the worker (\<open>backend.py\<close>,
  \<open>runtime_report.py\<close>); \<open>Texts\<close> and \<open>Terminal\<close> parse its log; \<open>Cluster\<close> has ranks across machines
  (\<open>cluster.py\<close>, \<open>cluster_worker.py\<close>) and the single-host launcher (\<open>local_launcher.py\<close>); \<open>Resident\<close>
  has resident workers and the session that owns them (\<open>resident_transport.py\<close>, \<open>persistent.py\<close>).

  Sizing and tuning. \<open>Geometry\<close> and \<open>Capacity\<close> bound the buffers and search for the largest admitted beam
  (\<open>beam_geometry.py\<close>, \<open>beam_capacity.py\<close>); \<open>Measurements\<close> has timing statistics, reports and telemetry
  (\<open>calibration_stats.py\<close>, \<open>calibration_report.py\<close>, \<open>calibration_telemetry.py\<close>); \<open>Plans\<close> validates
  rank plans (\<open>pipeline_profiles.py\<close>); \<open>Admission\<close>, \<open>Frontiers\<close> and \<open>Working\<close> admit measured batches
  and frontiers (\<open>inference_admission.py\<close>, \<open>maximum_beam.py\<close>, \<open>working_capacity.py\<close>); \<open>Proposals\<close>,
  \<open>Tuning\<close> and \<open>Components\<close> propose and choose profiles (\<open>profile_heuristics.py\<close>,
  \<open>adaptive_profiles.py\<close>, \<open>component_autotune.py\<close>); \<open>Autotune\<close> calibrates the inference batch
  (\<open>autotune.py\<close>); \<open>Receipts\<close> reuses cached and shared profiles (\<open>pipeline_cache.py\<close>,
  \<open>shared_profiles.py\<close>); \<open>Sessions\<close> has the persistent helper processes (\<open>calibration_session.py\<close>,
  \<open>plan_session.py\<close>); \<open>Orbits\<close> and \<open>Calibration\<close> build legal calibration frontiers
  (\<open>calibration_frontier.py\<close>).

  Inputs. \<open>Bundles\<close> and \<open>Puzzles\<close> read bundles, graphs, states and solutions (\<open>problem.py\<close>).

  How the code appears in the model

  \<open>Prelude\<close> fixes the vocabulary: an exception is a value of \<open>exn\<close>, a fallible function returns
  \<open>exn + 'a\<close>, dynamically typed values are \<open>pyval\<close>, dictionaries are association lists in insertion order.
  A dataclass is a record with the source's fields, a method is a definition of its name over that record,
  and a call that changes state returns the new state. Every raise and early return of a modelled function is
  a branch of its definition, in the order of the source; the texts of error messages are abbreviated.
  Integers of Python are \<open>int\<close> or \<open>nat\<close>, lanes and hashes of the packed domain are 64-bit words with their
  wrap-around, and seconds, scores and weights are exact rationals (the bits of double precision scores are
  kept where the code sorts by them). Processes, clocks, random numbers, files of other programs, JSON, CSV
  and ZIP parsers, digests, \<open>torch\<close>, CUDA and CayleyPy's registry are parameters: functions or records of
  functions that answer the questions the code asks of them.

  Loops and termination

  Loops over data are structural recursion. The calibration loop of \<open>Autotune\<close>, the frontier loops of
  \<open>Calibration\<close> and the binary search of \<open>Capacity\<close> are functions with termination proofs (the candidates
  are extended at most once, the examined ranks are bounded, the interval shrinks). Waiting loops (\<open>Resident\<close>, \<open>Cluster\<close>) are \<open>partial_function (option)\<close>, and their
  properties prove that they return once the clock has passed the timeout. The orbit walk of \<open>Orbits\<close> takes
  fuel, with a lemma that the number of positions is enough.

  What the groups of lemmas show

  Replay and selection: a reported path, gate list or saved record is right (\<open>Reflection\<close>, \<open>Results\<close>,
  \<open>Terminal\<close>, \<open>Dispatch\<close>, \<open>CnotSearch\<close>). Equivalence: the distributed cutoff is the sorted beam, the packed
  step is the integer step, the written networks compute their specifications. Choice: a chosen profile,
  batch, beam or width is genuine, verified and maximal or clearly better. Ownership: sessions, pools,
  workers and launches account for every process they start. Atomicity: bundles and runner snapshots appear
  whole or not at all. The contracts between operations and event logs in \<open>Sessions\<close> are locales, interpreted
  on the session's own operations; \<open>Registry\<close>, \<open>Resident\<close> and \<open>Sessions\<close> use step relations with invariants
  by rule induction.

  Not modelled

  The native worker in C++ and CUDA, the Rust libraries and their Python tests, build scripts, notebooks and
  the recorded measurement scripts under \<open>src/test_results\<close>. Of the Python package: the compilation and
  source download (\<open>build.py\<close>, \<open>sources.py\<close>, \<open>bootstrap.py\<close>), publication to external stores
  (\<open>publication.py\<close>), the graph network and its artifacts (\<open>pancake_gnn.py\<close>, \<open>gnn_linear.py\<close>,
  \<open>gnn_artifacts.py\<close>), the bundles of the cube networks (\<open>cube444_artifacts.py\<close>, \<open>cube555_artifacts.py\<close>),
  and the inspection of live \<open>torch\<close> modules in \<open>models.py\<close>: they act on Python objects, tensors and
  external tools whose behaviour is not in the sources. Rounding of binary floating point is not modelled:
  comparisons and statistics are over exact rationals.
\<close>

end
